(* ===== verification/Forge_Prelude.thy ===== *)
theory Forge_Prelude
  imports Complex_Main "HOL-Library.Word" "HOL-Library.Multiset" "HOL-Library.AList"
    "HOL-Library.Char_ord" "HOL-Library.List_Lexorder" "HOL-Library.Product_Lexorder"
    "HOL-Library.Sublist"
begin

text \<open>
  The vocabulary shared by the component theories: the machine integer types of the Go code, the
  error values its functions return, the parts of the Go standard library it calls (strings,
  time, UTF-8, sort), and the generic lemmas on lists and association lists the component proofs
  rest on.

  Conventions of the whole development:
  \<^item> a Go string is a \<^typ>\<open>string\<close> of bytes; \<open><\<close> on strings is the bytewise
    lexicographic order, as in Go;
  \<^item> \<open>uint32\<close>, \<open>uint64\<close> and \<open>int32\<close> are words of that width; \<open>int\<close> and \<open>int64\<close>
    counters are \<^typ>\<open>int\<close> where the code keeps them in range (the bounds are theorems);
  \<^item> \<open>float64\<close> is \<^typ>\<open>real\<close>: rounding, infinities and NaN are not modelled, so a
    quotient is only meaningful where its divisor is not zero, and each theorem says so;
  \<^item> a nil-able pointer is an \<open>option\<close>; a Go map that is only looked up is a partial function, one
    that is also iterated is an association list with distinct keys;
  \<^item> a \<open>time.Time\<close> is nanoseconds, \<^const>\<open>None\<close> the zero time; durations are nanoseconds.
\<close>

unbundle bit_operations_syntax

named_theorems forge_defs \<open>definitions unfolded by the component proofs\<close>
named_theorems forge_inv \<open>operations that keep a component invariant\<close>
named_theorems go_string \<open>facts on the Go string functions\<close>

type_synonym u8 = "8 word"
type_synonym u32 = "32 word"
type_synonym i32 = "32 word"
type_synonym u64 = "64 word"
type_synonym duration = int
type_synonym gotime = "int option"

abbreviation second :: duration where "second \<equiv> 1000000000"
abbreviation millisecond :: duration where "millisecond \<equiv> 1000000"

section \<open>Errors\<close>

text \<open>The gRPC status codes (the enumeration of package \<open>codes\<close>).\<close>

datatype grpc_code =
    OK | Canceled | Unknown | InvalidArgument | DeadlineExceeded | NotFound | AlreadyExists
  | PermissionDenied | ResourceExhausted | FailedPrecondition | Aborted | OutOfRange
  | Unimplemented | Internal | Unavailable | DataLoss | Unauthenticated

text \<open>
  The error values the code distinguishes: an error that carries a gRPC status, the sentinels it
  tests with \<open>errors.Is\<close> (each with the text it was wrapped in), and any other error.
\<close>

datatype goerr =
    StatusErr grpc_code string
  | PlainErr string
  | EOF
  | ErrUnexpectedEOF
  | CtxCanceled
  | CtxDeadlineExceeded
  | ModelNotFoundError string
  | ErrOpen
  | ErrNoCapacity string
  | ErrAdmissionRejected string
  | ErrNoSnapshot
  | ErrModelNotFound string
  | ErrNoLiveAssignee string

text \<open>\<open>status.FromError\<close>: the code when the error carries one.\<close>

fun status_code :: "goerr \<Rightarrow> grpc_code option" where
  "status_code (StatusErr c _) = Some c"
| "status_code _ = None"

text \<open>
  The outcome of code that may panic, and Go's slice expression on a string, which panics out of
  range.
\<close>

datatype 'a outcome = Ret 'a | Panic

definition go_slice :: "string \<Rightarrow> int \<Rightarrow> int \<Rightarrow> string outcome" where
  "go_slice s lo hi =
     (if 0 \<le> lo \<and> lo \<le> hi \<and> hi \<le> int (length s)
      then Ret (take (nat (hi - lo)) (drop (nat lo) s)) else Panic)"

text \<open>Indexing a \<open>map[K]string\<close>: the zero value for a missing key. A nil map reads as empty.\<close>

definition go_lookup :: "('k \<rightharpoonup> string) \<Rightarrow> 'k \<Rightarrow> string" where
  "go_lookup m k = (case m k of None \<Rightarrow> '''' | Some v \<Rightarrow> v)"

section \<open>Time\<close>

text \<open>\<open>time.Time.Sub\<close> saturates; the zero time lies more than the largest duration in the past.\<close>

definition max_duration :: duration where
  "max_duration = 2 ^ 63 - 1"

fun time_sub :: "gotime \<Rightarrow> gotime \<Rightarrow> duration" where
  "time_sub (Some a) (Some b) = max (- max_duration - 1) (min max_duration (a - b))"
| "time_sub (Some _) None = max_duration"
| "time_sub None (Some _) = - max_duration - 1"
| "time_sub None None = 0"

section \<open>Strings\<close>

definition has_prefix :: "string \<Rightarrow> string \<Rightarrow> bool" where
  "has_prefix s p \<longleftrightarrow> take (length p) s = p"

definition has_suffix :: "string \<Rightarrow> string \<Rightarrow> bool" where
  "has_suffix s p \<longleftrightarrow> has_prefix (rev s) (rev p)"

definition trim_prefix :: "string \<Rightarrow> string \<Rightarrow> string" where
  "trim_prefix s p = (if has_prefix s p then drop (length p) s else s)"

fun contains_str :: "string \<Rightarrow> string \<Rightarrow> bool" where
  "contains_str [] sub = (sub = [])"
| "contains_str (c # s) sub = (has_prefix (c # s) sub \<or> contains_str s sub)"

text \<open>\<open>strings.IndexByte\<close> (and \<open>strings.Index\<close> of a one-byte string); \<^const>\<open>None\<close> is -1.\<close>

fun index_byte :: "string \<Rightarrow> char \<Rightarrow> nat option" where
  "index_byte [] c = None"
| "index_byte (x # xs) c = (if x = c then Some 0 else map_option Suc (index_byte xs c))"

text \<open>\<open>strings.Split\<close> on a one-byte separator.\<close>

fun split_byte :: "string \<Rightarrow> char \<Rightarrow> string list" where
  "split_byte [] c = [[]]"
| "split_byte (x # xs) c =
     (if x = c then [] # split_byte xs c
      else case split_byte xs c of [] \<Rightarrow> [[x]] | p # ps \<Rightarrow> (x # p) # ps)"

fun join_with :: "string \<Rightarrow> string list \<Rightarrow> string" where
  "join_with sep [] = []"
| "join_with sep [p] = p"
| "join_with sep (p # q # ps) = p @ sep @ join_with sep (q # ps)"

definition replace_byte :: "char \<Rightarrow> char \<Rightarrow> string \<Rightarrow> string" where
  "replace_byte a b s = map (\<lambda>c. if c = a then b else c) s"

text \<open>
  \<open>strings.ToLower\<close> and \<open>strings.ToUpper\<close> on ASCII strings. The code applies them to runtime kinds, cost classes,
  header values and engine messages, which are ASCII; for the names of environment variables, which the operator
  chooses, \<open>Config\<close> has \<open>ToLower\<close> on every string.
\<close>

definition lower_char :: "char \<Rightarrow> char" where
  "lower_char c = (let n = of_char c :: nat in
     if 65 \<le> n \<and> n \<le> 90 then char_of (n + 32) else c)"

definition upper_char :: "char \<Rightarrow> char" where
  "upper_char c = (let n = of_char c :: nat in
     if 97 \<le> n \<and> n \<le> 122 then char_of (n - 32) else c)"

definition to_lower :: "string \<Rightarrow> string" where "to_lower = map lower_char"
definition to_upper :: "string \<Rightarrow> string" where "to_upper = map upper_char"

text \<open>The UTF-8 encodings of the code points \<open>unicode.IsSpace\<close> accepts.\<close>

definition space_encodings :: "nat list list" where
  "space_encodings =
     [[9], [10], [11], [12], [13], [32], [194, 133], [194, 160], [225, 154, 128],
      [226, 128, 128], [226, 128, 129], [226, 128, 130], [226, 128, 131], [226, 128, 132],
      [226, 128, 133], [226, 128, 134], [226, 128, 135], [226, 128, 136], [226, 128, 137],
      [226, 128, 138], [226, 128, 168], [226, 128, 169], [226, 128, 175], [226, 129, 159],
      [227, 128, 128]]"

definition space_strings :: "string list" where
  "space_strings = map (map char_of) space_encodings"

text \<open>Drop leading occurrences of the words of \<open>ps\<close>; each round removes at least one byte.\<close>

function trim_words :: "string list \<Rightarrow> string \<Rightarrow> string" where
  "trim_words ps s =
     (case filter (\<lambda>p. p \<noteq> [] \<and> has_prefix s p) ps of
        [] \<Rightarrow> s
      | p # _ \<Rightarrow> trim_words ps (drop (length p) s))"
  by pat_completeness auto
termination
proof (relation "measure (\<lambda>(ps, s). length s)")
  fix ps s p qs
  assume "filter (\<lambda>p. p \<noteq> [] \<and> has_prefix s p) ps = p # qs"
  then have "p \<in> set (filter (\<lambda>p. p \<noteq> [] \<and> has_prefix s p) ps)" by simp
  then have "p \<noteq> []" and "take (length p) s = p" by (auto simp: has_prefix_def)
  then have "s \<noteq> []" and "0 < length p" by auto
  then show "((ps, drop (length p) s), ps, s) \<in> measure (\<lambda>(ps, s). length s)" by simp
qed simp

declare trim_words.simps [simp del]

text \<open>\<open>strings.TrimSpace\<close>.\<close>

definition trim_space :: "string \<Rightarrow> string" where
  "trim_space s =
     rev (trim_words (map rev space_strings) (rev (trim_words space_strings s)))"

text \<open>\<open>strings.TrimRight\<close> with a one-byte cutset.\<close>

definition trim_right_byte :: "string \<Rightarrow> char \<Rightarrow> string" where
  "trim_right_byte s c = rev (dropWhile (\<lambda>x. x = c) (rev s))"

definition is_digit :: "char \<Rightarrow> bool" where
  "is_digit c \<longleftrightarrow> 48 \<le> (of_char c :: nat) \<and> (of_char c :: nat) \<le> 57"

text \<open>Decimal printing: \<open>strconv.Itoa\<close>, and \<open>%.nf\<close> of \<open>fmt\<close>, which rounds half to even.\<close>

fun nat_digits :: "nat \<Rightarrow> string" where
  "nat_digits n =
     (if n < 10 then [char_of (48 + n)] else nat_digits (n div 10) @ [char_of (48 + n mod 10)])"

declare nat_digits.simps [simp del]

definition itoa :: "int \<Rightarrow> string" where
  "itoa n = (if n < 0 then ''-'' @ nat_digits (nat (- n)) else nat_digits (nat n))"

definition round_even :: "real \<Rightarrow> int" where
  "round_even y =
     (let n = floor y; r = y - of_int n in
      if r < 1 / 2 then n else if r > 1 / 2 then n + 1 else if even n then n else n + 1)"

definition fmt_f :: "nat \<Rightarrow> real \<Rightarrow> string" where
  "fmt_f k x =
     (let n = nat (round_even (\<bar>x\<bar> * 10 ^ k)); frac = nat_digits (n mod 10 ^ k) in
      (if x < 0 then ''-'' else '''') @ nat_digits (n div 10 ^ k)
      @ (if k = 0 then '''' else ''.'' @ replicate (k - length frac) (CHR ''0'') @ frac))"

abbreviation fmt_f4 :: "real \<Rightarrow> string" where
  "fmt_f4 \<equiv> fmt_f 4"

subsection \<open>Facts on strings\<close>

lemma has_prefix_append [simp, go_string]: "has_prefix (p @ s) p"
  by (simp add: has_prefix_def)

lemma has_prefix_iff: "has_prefix s p \<longleftrightarrow> (\<exists>t. s = p @ t)"
  unfolding has_prefix_def by (metis append_eq_conv_conj append_take_drop_id)

lemma has_prefix_Nil [simp]: "has_prefix s []"
  by (simp add: has_prefix_def)

lemma has_prefix_length: "has_prefix s p \<Longrightarrow> length p \<le> length s"
  by (auto simp: has_prefix_iff)

lemma has_suffix_append [simp, go_string]: "has_suffix (s @ p) p"
  by (simp add: has_suffix_def has_prefix_def)

lemma has_suffix_iff: "has_suffix s p \<longleftrightarrow> (\<exists>t. s = t @ p)"
  unfolding has_suffix_def has_prefix_iff by (metis rev_append rev_rev_ident)

lemma trim_prefix_append [simp, go_string]: "trim_prefix (p @ s) p = s"
  by (simp add: trim_prefix_def)

lemma contains_str_iff: "contains_str s sub \<longleftrightarrow> (\<exists>a b. s = a @ sub @ b)"
proof (induction s)
  case (Cons c s)
  show ?case
  proof
    assume "contains_str (c # s) sub"
    then consider "has_prefix (c # s) sub" | "contains_str s sub" by auto
    then show "\<exists>a b. c # s = a @ sub @ b"
    proof cases
      case 1
      then show ?thesis by (auto simp: has_prefix_iff intro: exI [of _ "[]"])
    next
      case 2
      then obtain a b where "s = a @ sub @ b" using Cons.IH by blast
      then have "c # s = (c # a) @ sub @ b" by simp
      then show ?thesis by blast
    qed
  next
    assume "\<exists>a b. c # s = a @ sub @ b"
    then obtain a b where ab: "c # s = a @ sub @ b" by blast
    show "contains_str (c # s) sub"
    proof (cases a)
      case Nil
      with ab show ?thesis by (metis append_Nil contains_str.simps(2) has_prefix_append)
    next
      case (Cons x xs)
      with ab have "s = xs @ sub @ b" by simp
      then show ?thesis using Cons.IH by auto
    qed
  qed
qed simp

lemma index_byte_None [simp, go_string]: "index_byte s c = None \<longleftrightarrow> c \<notin> set s"
  by (induction s) auto

lemma index_byte_append_notin [simp, go_string]:
  "c \<notin> set s \<Longrightarrow> index_byte (s @ c # t) c = Some (length s)"
  by (induction s) auto

lemma index_byte_Some:
  "index_byte s c = Some i \<Longrightarrow>
     i < length s \<and> s ! i = c \<and> c \<notin> set (take i s) \<and> s = take i s @ c # drop (Suc i) s"
proof (induction s arbitrary: i)
  case (Cons x xs)
  show ?case
  proof (cases "x = c")
    case True
    with Cons.prems show ?thesis by simp
  next
    case False
    with Cons.prems obtain j where "index_byte xs c = Some j" and "i = Suc j" by auto
    with Cons.IH [of j] False show ?thesis by auto
  qed
qed simp

text \<open>\<open>TrimSpace\<close> leaves a string alone that starts and ends with a visible ASCII character.\<close>

definition visible :: "char \<Rightarrow> bool" where
  "visible c \<longleftrightarrow> 33 \<le> (of_char c :: nat) \<and> (of_char c :: nat) \<le> 126"

lemma space_encodings_ends:
  "\<forall>e \<in> set space_encodings. e \<noteq> [] \<and> \<not> (33 \<le> hd e mod 256 \<and> hd e mod 256 \<le> 126)
     \<and> \<not> (33 \<le> last e mod 256 \<and> last e mod 256 \<le> 126)"
  by (simp add: space_encodings_def)

lemma space_strings_ends: "p \<in> set space_strings \<Longrightarrow> p \<noteq> [] \<and> \<not> visible (hd p) \<and> \<not> visible (last p)"
proof -
  assume "p \<in> set space_strings"
  then obtain e where e: "e \<in> set space_encodings" "p = map char_of e" by (auto simp: space_strings_def)
  have ends: "e \<noteq> [] \<and> \<not> (33 \<le> hd e mod 256 \<and> hd e mod 256 \<le> 126)
      \<and> \<not> (33 \<le> last e mod 256 \<and> last e mod 256 \<le> 126)"
    using space_encodings_ends e(1) by (rule bspec)
  then have "hd p = char_of (hd e)" "last p = char_of (last e)" "p \<noteq> []"
    by (simp_all add: e(2) hd_map last_map)
  then show ?thesis using ends unfolding visible_def by (simp only: of_char_of) blast
qed

lemma trim_words_id:
  assumes "\<forall>p \<in> set ps. p \<noteq> [] \<longrightarrow> hd p \<noteq> hd s"
  shows "trim_words ps s = s"
proof -
  have "hd p = hd s" if "p \<noteq> []" "has_prefix s p" for p
    using that by (cases p) (auto simp: has_prefix_iff)
  then have "filter (\<lambda>p. p \<noteq> [] \<and> has_prefix s p) ps = []"
    using assms by (auto simp: filter_empty_conv)
  then show ?thesis by (subst trim_words.simps) simp
qed

lemma trim_space_visible:
  assumes "s \<noteq> []" and "visible (hd s)" and "visible (last s)"
  shows "trim_space s = s"
proof -
  have "hd p \<noteq> hd s" "last p \<noteq> last s" "p \<noteq> []" if "p \<in> set space_strings" for p
    using space_strings_ends [OF that] assms(2,3) by metis+
  then have "\<forall>p \<in> set space_strings. p \<noteq> [] \<longrightarrow> hd p \<noteq> hd s"
    and "\<forall>p \<in> set (map rev space_strings). p \<noteq> [] \<longrightarrow> hd p \<noteq> hd (rev s)"
    using assms(1) by (simp_all add: hd_rev)
  then have "trim_words space_strings s = s" "trim_words (map rev space_strings) (rev s) = rev s"
    by (simp_all only: trim_words_id)
  then show ?thesis by (simp add: trim_space_def)
qed

section \<open>UTF-8\<close>

text \<open>
  One step of \<open>utf8.DecodeRune\<close>: the rune and the bytes it takes. A byte that does not start a
  valid encoding is \<open>U+FFFD\<close> of width one, as in a \<open>range\<close> loop over a string.
\<close>

definition cont :: "nat \<Rightarrow> bool" where "cont b \<longleftrightarrow> 128 \<le> b \<and> b \<le> 191"

definition rune_error :: nat where "rune_error = 65533"

definition decode_rune :: "nat list \<Rightarrow> nat \<times> nat" where
  "decode_rune bs =
    (case bs of
       [] \<Rightarrow> (rune_error, 0)
     | b0 # rest \<Rightarrow>
       if b0 < 128 then (b0, 1)
       else if 194 \<le> b0 \<and> b0 \<le> 223 then
         (case rest of
            b1 # _ \<Rightarrow> if cont b1 then ((b0 - 192) * 64 + (b1 - 128), 2) else (rune_error, 1)
          | _ \<Rightarrow> (rune_error, 1))
       else if 224 \<le> b0 \<and> b0 \<le> 239 then
         (case rest of
            b1 # b2 # _ \<Rightarrow>
              if (if b0 = 224 then 160 else 128) \<le> b1 \<and> b1 \<le> (if b0 = 237 then 159 else 191)
                 \<and> cont b2
              then ((b0 - 224) * 4096 + (b1 - 128) * 64 + (b2 - 128), 3) else (rune_error, 1)
          | _ \<Rightarrow> (rune_error, 1))
       else if 240 \<le> b0 \<and> b0 \<le> 244 then
         (case rest of
            b1 # b2 # b3 # _ \<Rightarrow>
              if (if b0 = 240 then 144 else 128) \<le> b1 \<and> b1 \<le> (if b0 = 244 then 143 else 191)
                 \<and> cont b2 \<and> cont b3
              then ((b0 - 240) * 262144 + (b1 - 128) * 4096 + (b2 - 128) * 64 + (b3 - 128), 4)
              else (rune_error, 1)
          | _ \<Rightarrow> (rune_error, 1))
       else (rune_error, 1))"

lemma decode_rune_pos: "bs \<noteq> [] \<Longrightarrow> 0 < snd (decode_rune bs)"
  by (auto simp: decode_rune_def split: list.splits)

function go_runes :: "nat list \<Rightarrow> nat list" where
  "go_runes bs =
     (if bs = [] then [] else fst (decode_rune bs) # go_runes (drop (snd (decode_rune bs)) bs))"
  by pat_completeness auto
termination
  by (relation "measure length") (auto simp: decode_rune_pos)

declare go_runes.simps [simp del]

lemma go_runes_Nil [simp]: "go_runes [] = []"
  by (simp add: go_runes.simps)

lemma go_runes_ascii: "\<forall>b \<in> set bs. b < 128 \<Longrightarrow> go_runes bs = bs"
proof (induction bs)
  case (Cons b bs)
  then have "decode_rune (b # bs) = (b, 1)" by (simp add: decode_rune_def)
  with Cons show ?case by (simp add: go_runes.simps [of "b # bs"])
qed simp

section \<open>Sorting\<close>

text \<open>
  \<open>sort.Slice\<close>, as insertion sort over the comparison function. The locale below shows that for
  a comparison that orders by a key the result is the library's stable sort, and that where the
  keys are distinct every sorting algorithm gives the same result.
\<close>

fun insert_by :: "('a \<Rightarrow> 'a \<Rightarrow> bool) \<Rightarrow> 'a \<Rightarrow> 'a list \<Rightarrow> 'a list" where
  "insert_by lt x [] = [x]"
| "insert_by lt x (y # ys) = (if lt y x then y # insert_by lt x ys else x # y # ys)"

definition sort_slice :: "('a \<Rightarrow> 'a \<Rightarrow> bool) \<Rightarrow> 'a list \<Rightarrow> 'a list" where
  "sort_slice lt xs = foldr (insert_by lt) xs []"

lemma mset_insert_by [simp]: "mset (insert_by lt x xs) = add_mset x (mset xs)"
  by (induction xs) auto

lemma mset_sort_slice [simp]: "mset (sort_slice lt xs) = mset xs"
  by (induction xs) (simp_all add: sort_slice_def)

lemma set_sort_slice [simp]: "set (sort_slice lt xs) = set xs"
  by (metis mset_sort_slice set_mset_mset)

lemma length_sort_slice [simp]: "length (sort_slice lt xs) = length xs"
  by (metis mset_sort_slice size_mset)

locale keyed_less =
  fixes lt :: "'a \<Rightarrow> 'a \<Rightarrow> bool"
    and key :: "'a \<Rightarrow> 'k::linorder"
  assumes less_key: "lt x y \<longleftrightarrow> key x < key y"
begin

lemma insert_by_insort: "insert_by lt x xs = insort_key key x xs"
  by (induction xs) (auto simp: less_key)

lemma sort_slice_sort_key: "sort_slice lt xs = sort_key key xs"
  by (induction xs) (auto simp: sort_slice_def insert_by_insort)

lemma sort_slice_sorted: "sorted (map key (sort_slice lt xs))"
  by (simp add: sort_slice_sort_key)

lemma sort_slice_unique:
  assumes perm: "mset ys = mset xs" and "sorted (map key ys)" and inj: "inj_on key (set xs)"
  shows "ys = sort_slice lt xs"
proof -
  have sets: "set ys = set xs" using perm by (rule mset_eq_setD)
  have "filter (\<lambda>x. key k = key x) ys = filter (\<lambda>x. key k = key x) xs" if "k \<in> set ys" for k
  proof -
    have eq: "filter (\<lambda>x. key k = key x) zs = filter (\<lambda>x. k = x) zs" if "set zs = set xs" for zs
      using that \<open>k \<in> set ys\<close> sets inj by (intro filter_cong) (auto dest: inj_onD)
    have "length (filter (\<lambda>x. k = x) ys) = length (filter (\<lambda>x. k = x) xs)"
      using perm by (metis mset_filter size_mset)
    then have "filter (\<lambda>x. k = x) ys = filter (\<lambda>x. k = x) xs"
      by (metis replicate_length_filter)
    then show ?thesis using eq [OF sets] eq [OF refl] by simp
  qed
  then have "sort_key key xs = ys"
    by (rule properties_for_sort_key [OF perm _ assms(2)])
  then show ?thesis by (simp add: sort_slice_sort_key)
qed

end

section \<open>Association lists\<close>

lemma map_of_filter_key:
  "map_of (filter (\<lambda>(k, v). P k) xs) = (map_of xs) |` {k. P k}"
  by (induction xs) (auto simp: restrict_map_def fun_eq_iff)

lemma map_of_list_all: "list_all (\<lambda>(_, v). P v) xs \<Longrightarrow> map_of xs k = Some v \<Longrightarrow> P v"
  by (induction xs) (auto split: if_splits)

lemma fold_or_init: "fold (\<lambda>x b. b \<or> P x) xs b \<longleftrightarrow> b \<or> (\<exists>x \<in> set xs. P x)"
  by (induction xs arbitrary: b) auto

section \<open>Pools\<close>

text \<open>One element, by its position, leaves a list of things under way.\<close>

definition drop_nth :: "nat \<Rightarrow> 'a list \<Rightarrow> 'a list" where
  "drop_nth i xs = take i xs @ drop (Suc i) xs"

lemma set_drop_nth: "set (drop_nth i xs) \<subseteq> set xs"
  by (auto simp: drop_nth_def dest: in_set_takeD in_set_dropD)

end
