(* ===== verification/Reliability.thy ===== *)
theory Reliability
  imports Forge_Prelude
begin

text \<open>
  The package \<open>services/gateway/reliability\<close>: the retry budget (\<open>budget.go\<close>), the per-worker
  circuit breaker (\<open>breaker.go\<close>), the classification of errors (\<open>classify.go\<close>) and the failover
  loop (\<open>failover.go\<close>). Each mutex-protected method is one function from the state before to the
  result and the state after. The clock and the call to a worker are parameters over an
  environment type, so the theorems hold for every worker behaviour and every passage of time.
\<close>

section \<open>Retry budget\<close>

record RetryBudget =
  tokens :: real
  maxTokens :: real
  tokenRatio :: real

definition NewRetryBudget :: "real \<Rightarrow> real \<Rightarrow> RetryBudget" where
  "NewRetryBudget mt tr =
     (let mt = (if mt \<le> 0 then 100 else mt);
          tr = (if tr \<le> 0 then 1 / 10 else tr)
      in \<lparr>tokens = mt, maxTokens = mt, tokenRatio = tr\<rparr>)"

definition Budget_Allow :: "RetryBudget \<Rightarrow> bool" where
  "Budget_Allow b \<longleftrightarrow> tokens b > maxTokens b / 2"

definition OnFailure :: "RetryBudget \<Rightarrow> RetryBudget" where
  "OnFailure b =
     (let t = tokens b - 1 in b\<lparr>tokens := (if t < 0 then 0 else t)\<rparr>)"

definition OnSuccess :: "RetryBudget \<Rightarrow> RetryBudget" where
  "OnSuccess b =
     (let t = tokens b + tokenRatio b
      in b\<lparr>tokens := (if t > maxTokens b then maxTokens b else t)\<rparr>)"

section \<open>Circuit breaker\<close>

datatype State = StateClosed | StateHalfOpen | StateOpen

record BreakerConfig =
  MinRequests :: u32
  FailureRatio :: real
  Timeout :: duration
  MaxHalfOpen :: u32

record workerBreaker =
  wb_state :: State
  requests :: u32
  failures :: u32
  successes :: u32
  halfOpenLeft :: u32
  openedAt :: gotime

text \<open>\<open>onState\<close> is the callback: \<^const>\<open>None\<close> when nil, else the calls made to it, in order.\<close>

record BreakerMap =
  bm_m :: "string \<rightharpoonup> workerBreaker"
  bm_cfg :: BreakerConfig
  onState :: "(string \<times> State) list option"

definition DefaultBreakerConfig :: BreakerConfig where
  "DefaultBreakerConfig =
     \<lparr>MinRequests = 10, FailureRatio = 1 / 2, Timeout = 5 * second, MaxHalfOpen = 2\<rparr>"

definition NewBreakerMap :: "BreakerConfig \<Rightarrow> (string \<times> State) list option \<Rightarrow> BreakerMap" where
  "NewBreakerMap c cb =
     (let c = (if MinRequests c = 0 then c\<lparr>MinRequests := 10\<rparr> else c);
          c = (if FailureRatio c \<le> 0 then c\<lparr>FailureRatio := 1 / 2\<rparr> else c);
          c = (if Timeout c \<le> 0 then c\<lparr>Timeout := 5 * second\<rparr> else c);
          c = (if MaxHalfOpen c = 0 then c\<lparr>MaxHalfOpen := 2\<rparr> else c)
      in \<lparr>bm_m = Map.empty, bm_cfg = c, onState = cb\<rparr>)"

definition newWorkerBreaker :: workerBreaker where
  "newWorkerBreaker =
     \<lparr>wb_state = StateClosed, requests = 0, failures = 0, successes = 0, halfOpenLeft = 0,
      openedAt = None\<rparr>"

definition bm_get :: "BreakerMap \<Rightarrow> string \<Rightarrow> workerBreaker" where
  "bm_get b i = (case bm_m b i of Some wb \<Rightarrow> wb | None \<Rightarrow> newWorkerBreaker)"

text \<open>
  The code holds a pointer into the map; the model reads the entry with \<^const>\<open>bm_get\<close>, works on
  the value and stores it back with \<open>bm_put\<close>. Storing also covers the entry \<open>get\<close> creates.
\<close>

definition bm_put :: "BreakerMap \<Rightarrow> string \<Rightarrow> workerBreaker \<Rightarrow> BreakerMap" where
  "bm_put b i wb = b\<lparr>bm_m := (bm_m b)(i \<mapsto> wb)\<rparr>"

definition setState ::
  "BreakerMap \<Rightarrow> string \<Rightarrow> workerBreaker \<Rightarrow> State \<Rightarrow> BreakerMap \<times> workerBreaker" where
  "setState b i wb to =
     (if wb_state wb = to then (b, wb)
      else (b\<lparr>onState := map_option (\<lambda>l. l @ [(i, to)]) (onState b)\<rparr>, wb\<lparr>wb_state := to\<rparr>))"

definition Allow :: "BreakerMap \<Rightarrow> string \<Rightarrow> int \<Rightarrow> goerr option \<times> BreakerMap" where
  "Allow b i now =
     (let wb = bm_get b i in
      case wb_state wb of
        StateOpen \<Rightarrow>
          if time_sub (Some now) (openedAt wb) \<ge> Timeout (bm_cfg b) then
            (let (b', wb') = setState b i wb StateHalfOpen
             in (None, bm_put b' i (wb'\<lparr>halfOpenLeft := MaxHalfOpen (bm_cfg b)\<rparr>)))
          else (Some ErrOpen, bm_put b i wb)
      | StateHalfOpen \<Rightarrow>
          if halfOpenLeft wb = 0 then (Some ErrOpen, bm_put b i wb)
          else (None, bm_put b i (wb\<lparr>halfOpenLeft := halfOpenLeft wb - 1\<rparr>))
      | StateClosed \<Rightarrow> (None, bm_put b i wb))"

definition Success :: "BreakerMap \<Rightarrow> string \<Rightarrow> BreakerMap" where
  "Success b i =
     (let wb = bm_get b i;
          wb = wb\<lparr>requests := requests wb + 1, successes := successes wb + 1\<rparr>
      in if wb_state wb = StateHalfOpen then
           (let (b', wb') = setState b i wb StateClosed
            in bm_put b' i (wb'\<lparr>requests := 0, failures := 0, successes := 0\<rparr>))
         else if wb_state wb = StateClosed \<and> requests wb \<ge> MinRequests (bm_cfg b) * 2 then
           bm_put b i (wb\<lparr>requests := requests wb div 2, failures := failures wb div 2,
                          successes := successes wb div 2\<rparr>)
         else bm_put b i wb)"

definition failure_ratio :: "workerBreaker \<Rightarrow> real" where
  "failure_ratio wb = real (unat (failures wb)) / real (unat (requests wb))"

definition Failure :: "BreakerMap \<Rightarrow> string \<Rightarrow> int \<Rightarrow> BreakerMap" where
  "Failure b i now =
     (let wb = bm_get b i;
          wb = wb\<lparr>requests := requests wb + 1, failures := failures wb + 1\<rparr>
      in if wb_state wb = StateHalfOpen then
           (let (b', wb') = setState b i wb StateOpen
            in bm_put b' i (wb'\<lparr>openedAt := Some now\<rparr>))
         else if requests wb \<ge> MinRequests (bm_cfg b)
                 \<and> failure_ratio wb \<ge> FailureRatio (bm_cfg b) then
           (let (b', wb') = setState b i wb StateOpen
            in bm_put b' i (wb'\<lparr>openedAt := Some now\<rparr>))
         else bm_put b i wb)"

definition Breaker_State :: "BreakerMap \<Rightarrow> string \<Rightarrow> State \<times> BreakerMap" where
  "Breaker_State b i = (wb_state (bm_get b i), bm_put b i (bm_get b i))"

lemmas breaker_ops = Allow_def Success_def Failure_def Breaker_State_def setState_def Let_def

section \<open>Error classification\<close>

fun Retryable :: "goerr option \<Rightarrow> bool" where
  "Retryable None = False"
| "Retryable (Some e) =
     (case status_code e of
        None \<Rightarrow> True
      | Some c \<Rightarrow> c \<in> {Unavailable, ResourceExhausted, Internal, Unknown})"

definition IsExcluded :: "goerr \<Rightarrow> bool" where
  "IsExcluded e =
     (case status_code e of
        None \<Rightarrow> False
      | Some c \<Rightarrow> c = Canceled \<or> c = DeadlineExceeded)"

definition IsBreakerOpen :: "goerr \<Rightarrow> bool" where
  "IsBreakerOpen e \<longleftrightarrow> e = ErrOpen"

section \<open>Failover\<close>

record FWorker =
  fw_ID :: string
  fw_Endpoint :: string

definition zeroFWorker :: FWorker where
  "zeroFWorker = \<lparr>fw_ID = '''', fw_Endpoint = ''''\<rparr>"

record Failover =
  Budget :: "RetryBudget option"
  Breaker :: "BreakerMap option"
  fo_Metrics :: "(string \<times> string \<times> string) list option"
  Max_attempts :: int

definition NewFailover ::
  "RetryBudget option \<Rightarrow> BreakerMap option \<Rightarrow> (string \<times> string \<times> string) list option \<Rightarrow> int \<Rightarrow> Failover"
where
  "NewFailover bu br m k =
     \<lparr>Budget = bu, Breaker = br, fo_Metrics = m, Max_attempts = (if k \<le> 0 then 3 else k)\<rparr>"

definition statusReason :: "goerr option \<Rightarrow> string" where
  "statusReason e =
     (case e of None \<Rightarrow> ''unknown''
      | Some x \<Rightarrow> if IsBreakerOpen x then ''breaker_open'' else ''unavailable'')"

text \<open>The uses of the optional parts of a \<open>Failover\<close>: a nil part does nothing.\<close>

definition budget_denies :: "Failover \<Rightarrow> bool" where
  "budget_denies f \<longleftrightarrow> (case Budget f of None \<Rightarrow> False | Some b \<Rightarrow> \<not> Budget_Allow b)"

definition breaker_allow ::
  "('e \<Rightarrow> int \<times> 'e) \<Rightarrow> Failover \<Rightarrow> string \<Rightarrow> 'e \<Rightarrow> goerr option \<times> Failover \<times> 'e" where
  "breaker_allow tick f i e =
     (case Breaker f of
        None \<Rightarrow> (None, f, e)
      | Some b \<Rightarrow>
          let (now, e') = tick e; (r, b') = Allow b i now
          in (r, f\<lparr>Breaker := Some b'\<rparr>, e'))"

definition on_success :: "Failover \<Rightarrow> string \<Rightarrow> Failover" where
  "on_success f i =
     f\<lparr>Budget := map_option OnSuccess (Budget f),
       Breaker := map_option (\<lambda>b. Success b i) (Breaker f)\<rparr>"

definition breaker_failure :: "('e \<Rightarrow> int \<times> 'e) \<Rightarrow> Failover \<Rightarrow> string \<Rightarrow> 'e \<Rightarrow> Failover \<times> 'e" where
  "breaker_failure tick f i e =
     (case Breaker f of
        None \<Rightarrow> (f, e)
      | Some b \<Rightarrow> let (now, e') = tick e in (f\<lparr>Breaker := Some (Failure b i now)\<rparr>, e'))"

definition inc_failover :: "Failover \<Rightarrow> string \<Rightarrow> string \<Rightarrow> string \<Rightarrow> Failover" where
  "inc_failover f src dst reason =
     f\<lparr>fo_Metrics := map_option (\<lambda>l. l @ [(src, dst, reason)]) (fo_Metrics f)\<rparr>"

text \<open>The first loop of \<open>Do\<close>: workers whose breaker is open and not yet due go to \<open>open\<close>.\<close>

fun do_order ::
  "('e \<Rightarrow> int \<times> 'e) \<Rightarrow> Failover \<Rightarrow> 'e \<Rightarrow> FWorker list \<Rightarrow>
     FWorker list \<times> FWorker list \<times> Failover \<times> 'e" where
  "do_order tick f e [] = ([], [], f, e)"
| "do_order tick f e (w # ws) =
     (case Breaker f of
        None \<Rightarrow> (let (ord, opn, f', e') = do_order tick f e ws in (w # ord, opn, f', e'))
      | Some b \<Rightarrow>
          (let (st, b1) = Breaker_State b (fw_ID w); f1 = f\<lparr>Breaker := Some b1\<rparr> in
           if st = StateOpen then
             (let (r, f2, e2) = breaker_allow tick f1 (fw_ID w) e;
                  (ord, opn, f', e') = do_order tick f2 e2 ws
              in if r \<noteq> None then (ord, w # opn, f', e') else (w # ord, opn, f', e'))
           else (let (ord, opn, f', e') = do_order tick f1 e ws in (w # ord, opn, f', e'))))"

text \<open>
  The second loop of \<open>Do\<close> at index \<open>i\<close> of the \<open>n\<close> ordered workers, \<open>ws\<close> those still to visit.
\<close>

definition no_healthy :: "goerr option \<Rightarrow> goerr option" where
  "no_healthy lastErr = (case lastErr of None \<Rightarrow> Some (PlainErr ''no healthy worker'') | Some x \<Rightarrow> Some x)"

fun do_loop ::
  "('e \<Rightarrow> int \<times> 'e) \<Rightarrow> (FWorker \<Rightarrow> 'e \<Rightarrow> goerr option \<times> 'e) \<Rightarrow> nat \<Rightarrow> nat \<Rightarrow> int \<Rightarrow> goerr option \<Rightarrow>
     FWorker list \<Rightarrow> Failover \<Rightarrow> 'e \<Rightarrow> FWorker \<times> goerr option \<times> Failover \<times> 'e" where
  "do_loop tick call n i attempts lastErr [] f e = (zeroFWorker, no_healthy lastErr, f, e)"
| "do_loop tick call n i attempts lastErr (w # ws) f e =
     (if attempts \<ge> Max_attempts f then (zeroFWorker, no_healthy lastErr, f, e)
      else if i > 0 \<and> budget_denies f then (zeroFWorker, lastErr, f, e)
      else
        (let (r, f1, e1) = breaker_allow tick f (fw_ID w) e in
         if r \<noteq> None \<and> n > 1 then do_loop tick call n (Suc i) attempts lastErr ws f1 e1
         else
           (case call w e1 of
              (None, e2) \<Rightarrow> (w, None, on_success f1 (fw_ID w), e2)
            | (Some err, e2) \<Rightarrow>
                if IsExcluded err then (w, Some err, f1, e2)
                else
                  (let (f2, e3) = breaker_failure tick f1 (fw_ID w) e2 in
                   if \<not> Retryable (Some err) then (w, Some err, f2, e3)
                   else
                     (let f3 = f2\<lparr>Budget := map_option OnFailure (Budget f2)\<rparr>;
                          f4 = (case ws of [] \<Rightarrow> f3
                                | w' # _ \<Rightarrow> inc_failover f3 (fw_ID w) (fw_ID w') (statusReason (Some err)))
                      in do_loop tick call n (Suc i) (attempts + 1) (Some err) ws f4 e3)))))"

definition Failover_Do ::
  "('e \<Rightarrow> int \<times> 'e) \<Rightarrow> (FWorker \<Rightarrow> 'e \<Rightarrow> goerr option \<times> 'e) \<Rightarrow> Failover \<Rightarrow> FWorker list \<Rightarrow> 'e \<Rightarrow>
     FWorker \<times> goerr option \<times> Failover \<times> 'e" where
  "Failover_Do tick call f ws e =
     (if ws = [] then (zeroFWorker, Some (PlainErr ''no workers''), f, e)
      else
        (let (ord, opn, f1, e1) = do_order tick f e ws;
             ord' = (if ord = [] then opn else ord)
         in do_loop tick call (length ord') 0 0 None ord' f1 e1))"

section \<open>The budget stays in range\<close>

definition budget_ok :: "RetryBudget \<Rightarrow> bool" where
  "budget_ok b \<longleftrightarrow> 0 \<le> tokens b \<and> tokens b \<le> maxTokens b \<and> 0 < maxTokens b \<and> 0 < tokenRatio b"

lemma NewRetryBudget_ok [simp, forge_inv]: "budget_ok (NewRetryBudget m r)"
  by (simp add: budget_ok_def NewRetryBudget_def Let_def)

lemma OnFailure_ok [simp, forge_inv]: "budget_ok b \<Longrightarrow> budget_ok (OnFailure b)"
  by (simp add: budget_ok_def OnFailure_def Let_def)

lemma OnSuccess_ok [simp, forge_inv]: "budget_ok b \<Longrightarrow> budget_ok (OnSuccess b)"
  by (simp add: budget_ok_def OnSuccess_def Let_def)

lemma OnFailure_frame [simp]:
  "maxTokens (OnFailure b) = maxTokens b" "tokenRatio (OnFailure b) = tokenRatio b"
  by (simp_all add: OnFailure_def Let_def)

lemma OnSuccess_frame [simp]:
  "maxTokens (OnSuccess b) = maxTokens b" "tokenRatio (OnSuccess b) = tokenRatio b"
  by (simp_all add: OnSuccess_def Let_def)

lemma tokens_OnFailure_pow:
  "budget_ok b \<Longrightarrow> tokens ((OnFailure ^^ k) b) = max 0 (tokens b - real k)
     \<and> maxTokens ((OnFailure ^^ k) b) = maxTokens b"
proof (induction k)
  case 0
  then show ?case by (simp add: budget_ok_def)
next
  case (Suc k)
  then show ?case by (auto simp: OnFailure_def Let_def)
qed

text \<open>A run of outcomes: \<^const>\<open>True\<close> for a success, \<^const>\<open>False\<close> for a failure.\<close>

fun budget_run :: "RetryBudget \<Rightarrow> bool list \<Rightarrow> RetryBudget" where
  "budget_run b [] = b"
| "budget_run b (ok # oks) = budget_run (if ok then OnSuccess b else OnFailure b) oks"

lemma budget_run_ok [forge_inv]: "budget_ok b \<Longrightarrow> budget_ok (budget_run b oks)"
  by (induction oks arbitrary: b) auto

section \<open>The breaker's state machine\<close>

lemma bm_get_put [simp]: "bm_get (bm_put b i wb) j = (if j = i then wb else bm_get b j)"
  by (simp add: bm_get_def bm_put_def)

lemma bm_cfg_put [simp]: "bm_cfg (bm_put b i wb) = bm_cfg b"
  by (simp add: bm_put_def)

lemma bm_get_onState [simp]: "bm_get (b\<lparr>onState := l\<rparr>) i = bm_get b i"
  by (simp add: bm_get_def)

lemma breaker_cfg [simp]:
  "bm_cfg (snd (Allow b i now)) = bm_cfg b"
  "bm_cfg (Success b i) = bm_cfg b"
  "bm_cfg (Failure b i now) = bm_cfg b"
  "bm_cfg (snd (Breaker_State b i)) = bm_cfg b"
  by (auto simp: breaker_ops split: State.splits)

text \<open>Operations on one worker's breaker leave the others alone.\<close>

lemma breaker_other [simp]:
  assumes "j \<noteq> i"
  shows "bm_get (snd (Allow b i now)) j = bm_get b j"
    and "bm_get (Success b i) j = bm_get b j"
    and "bm_get (Failure b i now) j = bm_get b j"
    and "bm_get (snd (Breaker_State b i)) j = bm_get b j"
  using assms by (auto simp: breaker_ops split: State.splits)

definition wb_ok :: "BreakerConfig \<Rightarrow> workerBreaker \<Rightarrow> bool" where
  "wb_ok c wb \<longleftrightarrow> halfOpenLeft wb \<le> MaxHalfOpen c \<and> (wb_state wb = StateOpen \<longrightarrow> openedAt wb \<noteq> None)"

definition cfg_ok :: "BreakerConfig \<Rightarrow> bool" where
  "cfg_ok c \<longleftrightarrow> 0 < MinRequests c \<and> 0 < FailureRatio c \<and> 0 < Timeout c \<and> 0 < MaxHalfOpen c"

definition breaker_ok :: "BreakerMap \<Rightarrow> bool" where
  "breaker_ok b \<longleftrightarrow> cfg_ok (bm_cfg b) \<and> (\<forall>i. wb_ok (bm_cfg b) (bm_get b i))"

lemma newWorkerBreaker_ok [simp]: "wb_ok c newWorkerBreaker"
  by (simp add: wb_ok_def newWorkerBreaker_def)

lemma NewBreakerMap_ok [forge_inv]: "breaker_ok (NewBreakerMap c cb)"
  by (auto simp: breaker_ok_def cfg_ok_def NewBreakerMap_def Let_def bm_get_def word_neq_0_conv)

lemma breaker_okI:
  assumes "breaker_ok b" and "bm_cfg b' = bm_cfg b" and "\<And>j. j \<noteq> i \<Longrightarrow> bm_get b' j = bm_get b j"
    and "wb_ok (bm_cfg b) (bm_get b' i)"
  shows "breaker_ok b'"
  using assms unfolding breaker_ok_def by metis

lemma wb_ok_get: "breaker_ok b \<Longrightarrow> wb_ok (bm_cfg b) (bm_get b i)"
  by (simp add: breaker_ok_def)

lemma word_le_pred: "(x::u32) \<le> m \<Longrightarrow> x \<noteq> 0 \<Longrightarrow> x - 1 \<le> m"
  by unat_arith

lemma Allow_ok [forge_inv]: "breaker_ok b \<Longrightarrow> breaker_ok (snd (Allow b i now))"
proof (rule breaker_okI)
  assume "breaker_ok b"
  then have "wb_ok (bm_cfg b) (bm_get b i)" by (rule wb_ok_get)
  then show "wb_ok (bm_cfg b) (bm_get (snd (Allow b i now)) i)"
    by (auto simp: breaker_ops wb_ok_def word_le_pred split: State.splits)
qed auto

lemma Success_ok [forge_inv]: "breaker_ok b \<Longrightarrow> breaker_ok (Success b i)"
proof (rule breaker_okI)
  assume "breaker_ok b"
  then have "wb_ok (bm_cfg b) (bm_get b i)" by (rule wb_ok_get)
  then show "wb_ok (bm_cfg b) (bm_get (Success b i) i)"
    by (auto simp: breaker_ops wb_ok_def)
qed auto

lemma Failure_ok [forge_inv]: "breaker_ok b \<Longrightarrow> breaker_ok (Failure b i now)"
proof (rule breaker_okI)
  assume "breaker_ok b"
  then have "wb_ok (bm_cfg b) (bm_get b i)" by (rule wb_ok_get)
  then show "wb_ok (bm_cfg b) (bm_get (Failure b i now) i)"
    by (auto simp: breaker_ops wb_ok_def)
qed auto

text \<open>The steps of a breaker map: any caller may apply any method to any worker at any time.\<close>

inductive breaker_step :: "BreakerMap \<Rightarrow> BreakerMap \<Rightarrow> bool" where
  bs_allow: "breaker_step b (snd (Allow b i now))"
| bs_success: "breaker_step b (Success b i)"
| bs_failure: "breaker_step b (Failure b i now)"

inductive breaker_reachable :: "BreakerConfig \<Rightarrow> BreakerMap \<Rightarrow> bool" for c where
  br_init: "breaker_reachable c (NewBreakerMap c cb)"
| br_step: "breaker_reachable c b \<Longrightarrow> breaker_step b b' \<Longrightarrow> breaker_reachable c b'"

lemma breaker_step_ok: "breaker_step b b' \<Longrightarrow> breaker_ok b \<Longrightarrow> breaker_ok b'"
  by (cases rule: breaker_step.cases) (auto intro: forge_inv)

lemma breaker_reachable_ok: "breaker_reachable c b \<Longrightarrow> breaker_ok b"
  by (induction rule: breaker_reachable.induct) (auto intro: NewBreakerMap_ok breaker_step_ok)

text \<open>The edges of the state graph.\<close>

inductive state_edge :: "State \<Rightarrow> State \<Rightarrow> bool" where
  se_stay: "state_edge s s"
| se_trip: "state_edge StateClosed StateOpen"
| se_probe: "state_edge StateOpen StateHalfOpen"
| se_recover: "state_edge StateHalfOpen StateClosed"
| se_relapse: "state_edge StateHalfOpen StateOpen"

inductive_simps state_edge_simps:
  "state_edge StateClosed t" "state_edge StateOpen t" "state_edge StateHalfOpen t"

lemma Allow_edge: "state_edge (wb_state (bm_get b i)) (wb_state (bm_get (snd (Allow b i now)) i))"
  by (cases "wb_state (bm_get b i)") (auto simp: breaker_ops state_edge_simps)

lemma Success_edge: "state_edge (wb_state (bm_get b i)) (wb_state (bm_get (Success b i) i))"
  by (cases "wb_state (bm_get b i)") (auto simp: breaker_ops state_edge_simps)

lemma Failure_edge: "state_edge (wb_state (bm_get b i)) (wb_state (bm_get (Failure b i now) i))"
  by (cases "wb_state (bm_get b i)") (auto simp: breaker_ops state_edge_simps)

lemma breaker_step_edge:
  "breaker_step b b' \<Longrightarrow> state_edge (wb_state (bm_get b j)) (wb_state (bm_get b' j))"
proof (induction rule: breaker_step.induct)
  case (bs_allow b i now)
  then show ?case by (cases "j = i") (simp_all add: Allow_edge se_stay)
next
  case (bs_success b i)
  then show ?case by (cases "j = i") (simp_all add: Success_edge se_stay)
next
  case (bs_failure b i now)
  then show ?case by (cases "j = i") (simp_all add: Failure_edge se_stay)
qed

text \<open>The answers of a sequence of \<open>Allow\<close> calls at given times.\<close>

fun allow_run :: "BreakerMap \<Rightarrow> string \<Rightarrow> int list \<Rightarrow> goerr option list \<times> BreakerMap" where
  "allow_run b i [] = ([], b)"
| "allow_run b i (t # ts) =
     (let (r, b') = Allow b i t; (rs, b'') = allow_run b' i ts in (r # rs, b''))"

lemma allow_run_exhausted:
  "wb_state (bm_get b i) = StateHalfOpen \<Longrightarrow> halfOpenLeft (bm_get b i) = 0 \<Longrightarrow>
     fst (allow_run b i ts) = replicate (length ts) (Some ErrOpen)"
  by (induction ts arbitrary: b) (auto simp: Allow_def Let_def split_beta)

lemma allow_run_half_open:
  "wb_state (bm_get b i) = StateHalfOpen \<Longrightarrow>
     fst (allow_run b i ts) =
       replicate (min (unat (halfOpenLeft (bm_get b i))) (length ts)) None
       @ replicate (length ts - unat (halfOpenLeft (bm_get b i))) (Some ErrOpen)"
proof (induction ts arbitrary: b)
  case (Cons t ts)
  show ?case
  proof (cases "halfOpenLeft (bm_get b i) = 0")
    case True
    with Cons.prems allow_run_exhausted [of b i "t # ts"] show ?thesis by simp
  next
    case False
    let ?b = "snd (Allow b i t)"
    from False Cons.prems have a: "Allow b i t = (None, ?b)"
      and s: "wb_state (bm_get ?b i) = StateHalfOpen"
      and h: "halfOpenLeft (bm_get ?b i) = halfOpenLeft (bm_get b i) - 1"
      by (auto simp: Allow_def Let_def)
    from False obtain k where k: "unat (halfOpenLeft (bm_get b i)) = Suc k"
      by (metis not0_implies_Suc unat_eq_zero)
    with False have "unat (halfOpenLeft (bm_get b i) - 1) = k"
      by (metis diff_Suc_1 unat_minus_one)
    moreover have "fst (Allow b i t) = None" using a by (metis fst_conv)
    ultimately show ?thesis using Cons.IH [OF s] h k by (simp add: split_beta)
  qed
qed simp

section \<open>Failover: what is called and what is returned\<close>

text \<open>
  An environment that also logs the calls made and their results, to state facts about the
  calls; the clock does not touch the log.
\<close>

definition logged_tick :: "('e \<Rightarrow> int \<times> 'e) \<Rightarrow> 'e \<times> 'l \<Rightarrow> int \<times> 'e \<times> 'l" where
  "logged_tick tick = (\<lambda>(e, l). let (t, e') = tick e in (t, e', l))"

definition logged_call ::
  "(FWorker \<Rightarrow> 'e \<Rightarrow> goerr option \<times> 'e) \<Rightarrow> FWorker \<Rightarrow>
     'e \<times> (FWorker \<times> goerr option) list \<Rightarrow> goerr option \<times> 'e \<times> (FWorker \<times> goerr option) list" where
  "logged_call call = (\<lambda>w (e, l). let (r, e') = call w e in (r, e', l @ [(w, r)]))"

lemma breaker_allow_frame:
  "breaker_allow tick f i e = (r, f', e') \<Longrightarrow>
     Budget f' = Budget f \<and> Max_attempts f' = Max_attempts f"
  by (auto simp: breaker_allow_def split: option.splits prod.splits)

lemma breaker_failure_frame:
  "breaker_failure tick f i e = (f', e') \<Longrightarrow>
     Budget f' = Budget f \<and> Max_attempts f' = Max_attempts f"
  by (auto simp: breaker_failure_def split: option.splits prod.splits)

lemma breaker_allow_log:
  "breaker_allow (logged_tick tick) f i (e, l) = (r, f', e') \<Longrightarrow> snd e' = l"
  by (auto simp: breaker_allow_def logged_tick_def split: option.splits prod.splits)

lemma breaker_failure_log:
  "breaker_failure (logged_tick tick) f i (e, l) = (f', e') \<Longrightarrow> snd e' = l"
  by (auto simp: breaker_failure_def logged_tick_def split: option.splits prod.splits)

lemma inc_failover_frame [simp]:
  "Budget (inc_failover f a b c) = Budget f" "Max_attempts (inc_failover f a b c) = Max_attempts f"
  by (simp_all add: inc_failover_def)

lemma no_healthy_not_None [simp]: "no_healthy l \<noteq> None"
  by (simp add: no_healthy_def split: option.splits)

text \<open>What a run of the second loop adds to the log.\<close>

definition loop_log ::
  "int \<Rightarrow> FWorker list \<Rightarrow> goerr option \<Rightarrow> bool \<Rightarrow> (FWorker \<times> goerr option) list \<Rightarrow> FWorker \<Rightarrow>
     goerr option \<Rightarrow> bool" where
  "loop_log left ws lastErr denies k u r \<longleftrightarrow>
     subseq (map fst k) ws
   \<and> int (length k) \<le> max 0 left
   \<and> (\<forall>x \<in> set (butlast k). \<exists>err. snd x = Some err \<and> Retryable (Some err))
   \<and> (k \<noteq> [] \<longrightarrow> snd (last k) = r)
   \<and> (r = None \<longrightarrow> (if k = [] then lastErr = None \<and> u = zeroFWorker \<and> denies else fst (last k) = u))"

lemma loop_log_Nil: "(r = None \<longrightarrow> lastErr = None \<and> u = zeroFWorker \<and> d) \<Longrightarrow> loop_log left ws lastErr d [] u r"
  by (simp add: loop_log_def)

lemma loop_log_skip: "loop_log left ws lastErr d k u r \<Longrightarrow> loop_log left (w # ws) lastErr d k u r"
  by (auto simp: loop_log_def)

lemma loop_log_one: "0 < left \<Longrightarrow> (r = None \<longrightarrow> u = w) \<Longrightarrow> loop_log left (w # ws) lastErr d [(w, r)] u r"
  by (auto simp: loop_log_def)

lemma loop_log_Cons:
  assumes "loop_log (left - 1) ws (Some err) d k u r" and "0 < left" and "Retryable (Some err)"
    and "k = [] \<Longrightarrow> r = Some err"
  shows "loop_log left (w # ws) lastErr d' ((w, Some err) # k) u r"
  using assms by (auto simp: loop_log_def)

lemma do_loop_log:
  "do_loop (logged_tick tick) (logged_call call) n i att lastErr ws f (e, l) = (u, r, f', e', l') \<Longrightarrow>
     \<exists>k. l' = l @ k \<and> (k = [] \<longrightarrow> lastErr \<noteq> None \<longrightarrow> r = lastErr)
       \<and> loop_log (Max_attempts f - att) ws lastErr (budget_denies f) k u r"
proof (induction ws arbitrary: i att lastErr f e l)
  case Nil
  then show ?case by (auto intro!: loop_log_Nil simp: no_healthy_def split: option.splits)
next
  case (Cons w ws)
  let ?goal = "\<lambda>lastErr. \<exists>k. l' = l @ k \<and> (k = [] \<longrightarrow> lastErr \<noteq> None \<longrightarrow> r = lastErr)
      \<and> loop_log (Max_attempts f - att) (w # ws) lastErr (budget_denies f) k u r"
  obtain ra f1 e1 l1 where al: "breaker_allow (logged_tick tick) f (fw_ID w) (e, l) = (ra, f1, e1, l1)"
    by (metis prod_cases4)
  then have l1: "l1 = l" and fr1: "Budget f1 = Budget f" "Max_attempts f1 = Max_attempts f"
    using breaker_allow_log breaker_allow_frame by fastforce+
  obtain rc e2 where ca: "call w e1 = (rc, e2)" by fastforce
  then have lc: "logged_call call w (e1, l) = (rc, e2, l @ [(w, rc)])"
    by (simp add: logged_call_def)
  consider "att \<ge> Max_attempts f" | "att < Max_attempts f" "i > 0 \<and> budget_denies f"
    | "att < Max_attempts f" "\<not> (i > 0 \<and> budget_denies f)" "ra \<noteq> None \<and> n > 1"
    | "att < Max_attempts f" "\<not> (i > 0 \<and> budget_denies f)" "\<not> (ra \<noteq> None \<and> n > 1)"
    by linarith
  then show ?case
  proof cases
    case 1
    with Cons.prems show ?thesis
      by (auto intro!: loop_log_Nil simp: no_healthy_def split: option.splits)
  next
    case 2
    with Cons.prems show ?thesis by (auto intro!: loop_log_Nil)
  next
    case 3
    with Cons.prems al l1 have
      "do_loop (logged_tick tick) (logged_call call) n (Suc i) att lastErr ws f1 (e1, l) = (u, r, f', e', l')"
      by simp
    from Cons.IH [OF this] fr1 show ?thesis
      by (auto simp: budget_denies_def intro: loop_log_skip)
  next
    case 4
    show ?thesis
    proof (cases rc)
      case None
      with 4 Cons.prems al l1 lc have "l' = l @ [(w, None)] \<and> r = None \<and> u = w" by auto
      with 4 show ?thesis by (auto intro!: loop_log_one)
    next
      case (Some err)
      show ?thesis
      proof (cases "IsExcluded err")
        case True
        with Some 4 Cons.prems al l1 lc have "l' = l @ [(w, rc)] \<and> r = rc" by auto
        with 4 Some show ?thesis by (auto intro!: loop_log_one)
      next
        case nex: False
        obtain f2 e3 l3 where fa:
          "breaker_failure (logged_tick tick) f1 (fw_ID w) (e2, l @ [(w, rc)]) = (f2, e3, l3)"
          by (metis prod_cases3)
        then have l3: "l3 = l @ [(w, rc)]" and fr2: "Budget f2 = Budget f1" "Max_attempts f2 = Max_attempts f1"
          using breaker_failure_log breaker_failure_frame by fastforce+
        show ?thesis
        proof (cases "Retryable (Some err)")
          case False
          with Some nex 4 Cons.prems al l1 lc fa l3 have "l' = l @ [(w, rc)] \<and> r = rc" by auto
          with 4 Some show ?thesis by (auto intro!: loop_log_one)
        next
          case True
          define f4 where "f4 = (case ws of [] \<Rightarrow> f2\<lparr>Budget := map_option OnFailure (Budget f2)\<rparr>
            | w' # _ \<Rightarrow> inc_failover (f2\<lparr>Budget := map_option OnFailure (Budget f2)\<rparr>) (fw_ID w) (fw_ID w')
                (statusReason (Some err)))"
          have m4: "Max_attempts f4 = Max_attempts f2" by (simp add: f4_def split: list.splits)
          from True Some nex 4 Cons.prems al l1 lc fa l3 have
            "do_loop (logged_tick tick) (logged_call call) n (Suc i) (att + 1) (Some err) ws f4
               (e3, l @ [(w, rc)]) = (u, r, f', e', l')"
            by (auto simp: f4_def Let_def)
          from Cons.IH [OF this] obtain k where "l' = (l @ [(w, rc)]) @ k"
            and "k = [] \<longrightarrow> r = Some err"
            and "loop_log (Max_attempts f4 - (att + 1)) ws (Some err) (budget_denies f4) k u r"
            by auto
          moreover have "Max_attempts f4 - (att + 1) = Max_attempts f - att - 1"
            using m4 fr1 fr2 by simp
          ultimately have "loop_log (Max_attempts f - att) (w # ws) lastErr (budget_denies f) ((w, rc) # k) u r"
            using 4 True Some by (auto intro!: loop_log_Cons)
          with \<open>l' = (l @ [(w, rc)]) @ k\<close> show ?thesis by auto
        qed
      qed
    qed
  qed
qed

lemma do_order_log:
  "do_order (logged_tick tick) f (e, l) ws = (ord, opn, f', e') \<Longrightarrow>
     snd e' = l \<and> Budget f' = Budget f \<and> Max_attempts f' = Max_attempts f
   \<and> subseq ord ws \<and> subseq opn ws \<and> (ord = [] \<longrightarrow> opn = ws)"
proof (induction ws arbitrary: f e ord opn f' e')
  case (Cons w ws)
  show ?case
  proof (cases "Breaker f")
    case None
    obtain o' p' f3 e3 where dn: "do_order (logged_tick tick) f (e, l) ws = (o', p', f3, e3)"
      by (metis prod_cases4)
    with Cons.prems None have "f3 = f' \<and> e3 = e' \<and> ord = w # o' \<and> opn = p'" by auto
    with Cons.IH [OF dn] show ?thesis by auto
  next
    case (Some b)
    let ?f1 = "f\<lparr>Breaker := Some (snd (Breaker_State b (fw_ID w)))\<rparr>"
    obtain ra f2 e2 l2 where al:
      "breaker_allow (logged_tick tick) ?f1 (fw_ID w) (e, l) = (ra, f2, e2, l2)"
      by (metis prod_cases4)
    then have f2: "l2 = l" "Budget f2 = Budget f" "Max_attempts f2 = Max_attempts f"
      using breaker_allow_log breaker_allow_frame by fastforce+
    show ?thesis
    proof (cases "fst (Breaker_State b (fw_ID w)) = StateOpen")
      case True
      obtain o' p' f3 e3 where dn: "do_order (logged_tick tick) f2 (e2, l) ws = (o', p', f3, e3)"
        by (metis prod_cases4)
      with Cons.prems Some True al f2(1)
      have "f3 = f' \<and> e3 = e' \<and> (ord, opn) = (if ra \<noteq> None then (o', w # p') else (w # o', p'))"
        by (auto simp: Breaker_State_def split: if_splits)
      with Cons.IH [OF dn] f2 show ?thesis by (auto split: if_splits)
    next
      case False
      obtain o' p' f3 e3 where dn: "do_order (logged_tick tick) ?f1 (e, l) ws = (o', p', f3, e3)"
        by (metis prod_cases4)
      with Cons.prems Some False have "f3 = f' \<and> e3 = e' \<and> ord = w # o' \<and> opn = p'"
        by (auto simp: Breaker_State_def split: if_splits)
      with Cons.IH [OF dn] show ?thesis by auto
    qed
  qed
qed simp

text \<open>The whole of \<open>Do\<close>, from an empty log.\<close>

lemma Failover_Do_log:
  assumes "Failover_Do (logged_tick tick) (logged_call call) f ws (e, []) = (u, r, f', e', k)"
  shows "loop_log (Max_attempts f) ws None (budget_denies f) k u r"
proof (cases "ws = []")
  case True
  with assms show ?thesis by (auto simp: Failover_Do_def intro: loop_log_Nil)
next
  case False
  obtain ord opn f1 e1 and l1 :: "(FWorker \<times> goerr option) list"
    where ord: "do_order (logged_tick tick) f (e, []) ws = (ord, opn, f1, e1, l1)"
    by (metis prod_cases5)
  then have *: "l1 = []" "Budget f1 = Budget f" "Max_attempts f1 = Max_attempts f"
      "subseq ord ws" "subseq opn ws"
    using do_order_log by fastforce+
  let ?o = "if ord = [] then opn else ord"
  from assms False ord *(1) have
    "do_loop (logged_tick tick) (logged_call call) (length ?o) 0 0 None ?o f1 (e1, []) = (u, r, f', e', k)"
    by (auto simp: Failover_Do_def Let_def split: if_splits)
  from do_loop_log [OF this] * show ?thesis
    unfolding loop_log_def budget_denies_def by (auto split: if_splits intro: subseq_order.trans)
qed

text \<open>Logging only observes: without the log the results are the same.\<close>

lemma breaker_allow_erase:
  "breaker_allow (logged_tick tick) f i (e, l) = (r, f', e', l') \<Longrightarrow> breaker_allow tick f i e = (r, f', e')"
  by (auto simp: breaker_allow_def logged_tick_def split: option.splits prod.splits)

lemma breaker_failure_erase:
  "breaker_failure (logged_tick tick) f i (e, l) = (f', e', l') \<Longrightarrow> breaker_failure tick f i e = (f', e')"
  by (auto simp: breaker_failure_def logged_tick_def split: option.splits prod.splits)

lemma logged_call_erase: "logged_call call w (e, l) = (r, e', l') \<Longrightarrow> call w e = (r, e')"
  by (auto simp: logged_call_def split: prod.splits)

lemma do_loop_erase:
  "do_loop (logged_tick tick) (logged_call call) n i att lastErr ws f (e, l) = (u, r, f', e', l') \<Longrightarrow>
     do_loop tick call n i att lastErr ws f e = (u, r, f', e')"
proof (induction ws arbitrary: i att lastErr f e l)
  case (Cons w ws)
  obtain ra f1 e1 l1 where al: "breaker_allow (logged_tick tick) f (fw_ID w) (e, l) = (ra, f1, e1, l1)"
    by (metis prod_cases4)
  obtain rc e2 l2 where lc: "logged_call call w (e1, l1) = (rc, e2, l2)" by (metis prod_cases3)
  obtain f2 e3 l3 where fa: "breaker_failure (logged_tick tick) f1 (fw_ID w) (e2, l2) = (f2, e3, l3)"
    by (metis prod_cases3)
  note erase = breaker_allow_erase [OF al] logged_call_erase [OF lc] breaker_failure_erase [OF fa]
  from Cons.prems show ?case
    by (cases rc) (auto simp: al lc fa erase Let_def split: if_splits intro: Cons.IH)
qed simp

section \<open>Properties\<close>

text \<open>
  C4. The calls \<open>Failover.Do\<close> makes, for every worker behaviour and every clock: they go to distinct
  positions of the candidate list in order, they are at most \<open>Max\<close> many, every call but the
  last failed with a retryable error, and the result returned is that of the last call.
\<close>

theorem failover_calls:
  assumes "Failover_Do (logged_tick tick) (logged_call call) f ws (e, []) = (u, r, f', e', k)"
  shows "subseq (map fst k) ws
       \<and> int (length k) \<le> max 0 (Max_attempts f)
       \<and> (\<forall>x \<in> set (butlast k). \<exists>err. snd x = Some err \<and> Retryable (Some err))
       \<and> (k \<noteq> [] \<longrightarrow> snd (last k) = r)"
  using Failover_Do_log [OF assms] by (simp add: loop_log_def)

definition demo_workers :: "FWorker list" where
  "demo_workers = [\<lparr>fw_ID = ''a'', fw_Endpoint = ''a:1''\<rparr>, \<lparr>fw_ID = ''b'', fw_Endpoint = ''b:1''\<rparr>]"

text \<open>A demonstration environment: a clock that counts, a worker \<open>a\<close> that is unavailable.\<close>

definition demo_tick :: "nat \<Rightarrow> int \<times> nat" where
  "demo_tick n = (int n, Suc n)"

definition demo_call :: "FWorker \<Rightarrow> nat \<Rightarrow> goerr option \<times> nat" where
  "demo_call w n = (if fw_ID w = ''a'' then Some (StatusErr Unavailable ''down'') else None, n)"

lemma demo_failover_run:
  "Failover_Do (logged_tick demo_tick) (logged_call demo_call)
     (NewFailover (Some (NewRetryBudget 100 (1/10))) None None 3) demo_workers (0, [])
   = (demo_workers ! 1, None,
      (NewFailover (Some (OnSuccess (OnFailure (NewRetryBudget 100 (1/10))))) None None 3), 0,
      [(demo_workers ! 0, Some (StatusErr Unavailable ''down'')), (demo_workers ! 1, None)])"
  by (simp add: Failover_Do_def demo_workers_def NewFailover_def breaker_allow_def logged_call_def
      demo_call_def IsExcluded_def breaker_failure_def inc_failover_def budget_denies_def
      Budget_Allow_def OnFailure_def NewRetryBudget_def on_success_def)

theorem failover_calls_witness:
  "subseq demo_workers demo_workers \<and> int 2 \<le> max 0 (Max_attempts (NewFailover None None None 3))"
proof -
  note run = failover_calls [OF demo_failover_run]
  then show ?thesis by (simp add: demo_workers_def NewFailover_def)
qed

text \<open>
  What a nil error of \<open>Failover.Do\<close> means: the worker returned was called and answered, or no
  worker was called at all, the zero worker is returned and the retry budget was exhausted. The
  second case is a defect: the caller takes it for a completed request.
\<close>

theorem failover_success:
  assumes "Failover_Do (logged_tick tick) (logged_call call) f ws (e, []) = (u, None, f', e', k)"
  shows "(\<exists>k'. k = k' @ [(u, None)]) \<or> (k = [] \<and> u = zeroFWorker \<and> budget_denies f)"
proof (cases "k = []")
  case True
  with Failover_Do_log [OF assms] show ?thesis by (simp add: loop_log_def)
next
  case False
  with Failover_Do_log [OF assms] have "last k = (u, None)"
    by (auto simp: loop_log_def prod_eq_iff)
  with False have "k = butlast k @ [(u, None)]" by (metis append_butlast_last_id)
  then show ?thesis by blast
qed

theorem failover_success_witness:
  "\<exists>k'. [(demo_workers ! 0, Some (StatusErr Unavailable ''down'')), (demo_workers ! 1, None)]
        = k' @ [(demo_workers ! 1, None)]"
  using failover_success [OF demo_failover_run] by auto

text \<open>
  The defect is reachable: with the retry budget drained to half and the first of two candidates
  half-open with no probe left, \<open>Failover.Do\<close> calls nobody and returns the zero worker with a nil
  error, whatever the workers would have answered.
\<close>

theorem failover_false_success:
  assumes "Budget f = Some bu" and "\<not> Budget_Allow bu" and "Breaker f = Some b"
    and "wb_state (bm_get b (fw_ID w1)) = StateHalfOpen" and "halfOpenLeft (bm_get b (fw_ID w1)) = 0"
    and "wb_state (bm_get b (fw_ID w2)) = StateClosed" and "0 < Max_attempts f"
  shows "\<exists>f'. Failover_Do tick call f [w1, w2] e = (zeroFWorker, None, f', snd (tick e))"
proof -
  have "fw_ID w1 \<noteq> fw_ID w2" using assms(4,6) by auto
  then show ?thesis using assms
    by (auto simp: Failover_Do_def Breaker_State_def Let_def breaker_allow_def Allow_def
        budget_denies_def split_beta)
qed

definition demo_breaker :: BreakerMap where
  "demo_breaker =
     (let b1 = Failure (NewBreakerMap
            \<lparr>MinRequests = 1, FailureRatio = 1 / 2, Timeout = 5, MaxHalfOpen = 1\<rparr> None) ''a'' 0;
          b2 = snd (Allow b1 ''a'' 5)
      in snd (Allow b2 ''a'' 6))"

lemma demo_breaker_reachable: "\<exists>c. breaker_reachable c demo_breaker"
  unfolding demo_breaker_def Let_def
  by (rule exI, rule br_step [OF br_step [OF br_step [OF br_init bs_failure] bs_allow] bs_allow])

lemma demo_breaker_states:
  "wb_state (bm_get demo_breaker ''a'') = StateHalfOpen"
  "halfOpenLeft (bm_get demo_breaker ''a'') = 0"
  "wb_state (bm_get demo_breaker ''b'') = StateClosed"
  by (simp_all add: demo_breaker_def breaker_ops NewBreakerMap_def failure_ratio_def bm_get_def
      newWorkerBreaker_def bm_put_def max_duration_def)

theorem failover_false_success_witness:
  "\<exists>f'. Failover_Do demo_tick demo_call
      (NewFailover (Some (OnFailure (NewRetryBudget 2 (1/10)))) (Some demo_breaker) None 3)
      demo_workers 7 = (zeroFWorker, None, f', 8)"
proof -
  have "\<not> Budget_Allow (OnFailure (NewRetryBudget 2 (1/10)))"
    by (simp add: Budget_Allow_def OnFailure_def NewRetryBudget_def)
  with failover_false_success [of "NewFailover (Some (OnFailure (NewRetryBudget 2 (1/10))))
      (Some demo_breaker) None 3" _ demo_breaker "demo_workers ! 0" "demo_workers ! 1" demo_tick demo_call 7]
  show ?thesis
    by (simp add: demo_breaker_states demo_workers_def NewFailover_def demo_tick_def)
qed

text \<open>
  Every reachable circuit breaker map is well formed (probe permits never exceed the configured
  maximum, an open breaker has its opening time) and every step moves each worker only along the
  edges closed to open, open to half-open, half-open to closed or open.
\<close>

theorem breaker_reachable_steps:
  assumes "breaker_reachable c b" and "breaker_step b b'"
  shows "breaker_ok b' \<and> state_edge (wb_state (bm_get b j)) (wb_state (bm_get b' j))"
  using assms breaker_reachable_ok breaker_step_ok breaker_step_edge by blast

theorem breaker_reachable_steps_witness:
  "breaker_ok (Failure (NewBreakerMap DefaultBreakerConfig None) ''a'' 3)"
  using breaker_reachable_steps [OF br_init bs_failure] by blast

text \<open>
  C28. When a worker's breaker is open and its timeout has passed, the calls \<open>Allow\<close> lets through
  before an outcome is recorded are one more than \<open>MaxHalfOpen\<close>, and all later ones are refused
  at any time: a probe whose outcome is never recorded (an excluded error) leaves the worker
  refused until \<open>Success\<close> or \<open>Failure\<close> is called for it.
\<close>

theorem half_open_permits:
  assumes "wb_state (bm_get b i) = StateOpen"
    and "time_sub (Some t) (openedAt (bm_get b i)) \<ge> Timeout (bm_cfg b)"
  shows "fst (allow_run b i (t # ts)) =
     None # replicate (min (unat (MaxHalfOpen (bm_cfg b))) (length ts)) None
          @ replicate (length ts - unat (MaxHalfOpen (bm_cfg b))) (Some ErrOpen)"
proof -
  let ?b = "snd (Allow b i t)"
  have a: "fst (Allow b i t) = None" and "wb_state (bm_get ?b i) = StateHalfOpen"
    and h: "halfOpenLeft (bm_get ?b i) = MaxHalfOpen (bm_cfg b)"
    using assms by (auto simp: breaker_ops)
  from allow_run_half_open [OF this(2), of ts] a h show ?thesis by (simp add: split_beta)
qed

theorem half_open_permits_witness:
  "fst (allow_run (Failure (NewBreakerMap
      \<lparr>MinRequests = 1, FailureRatio = 1 / 2, Timeout = 5, MaxHalfOpen = 2\<rparr> None) ''a'' 0) ''a'' [9, 10, 11, 12])
   = None # replicate 2 None @ replicate 1 (Some ErrOpen)"
  using half_open_permits [of "Failure (NewBreakerMap
      \<lparr>MinRequests = 1, FailureRatio = 1 / 2, Timeout = 5, MaxHalfOpen = 2\<rparr> None) ''a'' 0" "''a''" 9 "[10, 11, 12]"]
  by (simp add: breaker_ops NewBreakerMap_def failure_ratio_def bm_get_def newWorkerBreaker_def
      bm_put_def max_duration_def del: allow_run.simps replicate.simps)

text \<open>
  The retry budget stays between zero and its maximum along every run of outcomes, and from a
  fresh budget \<open>k\<close> failures in a row still allow retries exactly while \<open>k\<close> is below half of the
  maximum.
\<close>

theorem retry_budget:
  "budget_ok (budget_run (NewRetryBudget m r) oks)
   \<and> (Budget_Allow ((OnFailure ^^ k) (NewRetryBudget m r)) = (real k < maxTokens (NewRetryBudget m r) / 2))"
proof -
  have "tokens (NewRetryBudget m r) = maxTokens (NewRetryBudget m r)"
    and "0 < maxTokens (NewRetryBudget m r)"
    by (simp_all add: NewRetryBudget_def Let_def)
  with tokens_OnFailure_pow [OF NewRetryBudget_ok, of k m r] show ?thesis
    by (auto simp: Budget_Allow_def max_def intro: budget_run_ok)
qed

end
