(* ===== verification/Registry.thy ===== *)
theory Registry
  imports Forge_Prelude
begin

text \<open>
  The worker registry: the rows of \<open>services/registry/models/worker.go\<close>, the two operations of
  \<open>services/registry/repository.go\<close> on the tables they name, and the \<open>Register\<close> RPC of
  \<open>services/registry/impl/registry_service_impl.go\<close>. The tables are explicit state; an operation
  that the database may refuse takes its verdict as an argument, and a refused transaction
  leaves the tables as they were.
\<close>

section \<open>Rows and tables\<close>

record ServableModel =
  sm_WorkerID :: string
  sm_BaseModel :: string
  sm_Adapter :: string
  sm_MaxContext :: u32

record Worker =
  mw_ID :: string
  mw_Endpoint :: string
  mw_RuntimeKind :: string
  mw_State :: string
  mw_Capabilities :: string
  mw_Models :: "ServableModel list"
  mw_RegisteredAt :: gotime
  mw_UpdatedAt :: gotime

text \<open>The tables \<open>workers\<close> (rows without their models) and \<open>servable_models\<close>.\<close>

record registry_db =
  db_workers :: "Worker list"
  db_models :: "ServableModel list"

section \<open>The repository\<close>

text \<open>
  The insert of \<open>Upsert\<close>: a new row (the \<open>state\<close> column defaults to \<open>ready\<close>), or on a conflict
  on \<open>id\<close> an update of exactly the columns the clause lists.
\<close>

definition insert_row :: "Worker \<Rightarrow> int \<Rightarrow> Worker" where
  "insert_row w now =
     w\<lparr>mw_Models := [], mw_State := (if mw_State w = '''' then ''ready'' else mw_State w),
       mw_UpdatedAt := Some now\<rparr>"

definition conflict_row :: "Worker \<Rightarrow> int \<Rightarrow> Worker \<Rightarrow> Worker" where
  "conflict_row w now row =
     row\<lparr>mw_Endpoint := mw_Endpoint w, mw_RuntimeKind := mw_RuntimeKind w,
         mw_Capabilities := mw_Capabilities w, mw_UpdatedAt := Some now\<rparr>"

definition upsert_worker_row :: "Worker list \<Rightarrow> Worker \<Rightarrow> int \<Rightarrow> Worker list" where
  "upsert_worker_row rows w now =
     (if mw_ID w \<in> mw_ID ` set rows
      then map (\<lambda>r. if mw_ID r = mw_ID w then conflict_row w now r else r) rows
      else rows @ [insert_row w now])"

definition Repository_Upsert ::
  "registry_db \<Rightarrow> Worker \<Rightarrow> int \<Rightarrow> goerr option \<Rightarrow> goerr option \<times> registry_db" where
  "Repository_Upsert db w now refused =
     (case refused of
        Some e \<Rightarrow> (Some e, db)
      | None \<Rightarrow>
          (None,
           \<lparr>db_workers = upsert_worker_row (db_workers db) w now,
            db_models = filter (\<lambda>m. sm_WorkerID m \<noteq> mw_ID w) (db_models db)
                        @ map (\<lambda>m. m\<lparr>sm_WorkerID := mw_ID w\<rparr>) (mw_Models w)\<rparr>))"

definition Repository_List :: "registry_db \<Rightarrow> Worker list" where
  "Repository_List db =
     map (\<lambda>w. w\<lparr>mw_Models := filter (\<lambda>m. sm_WorkerID m = mw_ID w) (db_models db)\<rparr>) (db_workers db)"

section \<open>The Register RPC\<close>

record RegisterRequest =
  rq_WorkerId :: string
  rq_Endpoint :: string
  rq_RuntimeKind :: string
  rq_Models :: "ServableModel list"
  rq_Capabilities :: "string \<rightharpoonup> string"

record RegisterResponse =
  rr_WorkerId :: string
  rr_RegisteredAt :: int

text \<open>
  \<open>marshal\<close> is \<open>json.Marshal\<close> on the capability map, \<open>refused\<close> the database's verdict on the
  transaction, \<open>now\<close> the time of the call.
\<close>

definition Register ::
  "((string \<rightharpoonup> string) \<Rightarrow> string + string) \<Rightarrow> registry_db \<Rightarrow> RegisterRequest \<Rightarrow> int \<Rightarrow> string option \<Rightarrow>
     (goerr + RegisterResponse) \<times> registry_db" where
  "Register marshal db req now refused =
     (if rq_WorkerId req = '''' then (Inl (StatusErr InvalidArgument ''worker_id is required''), db)
      else if rq_Endpoint req = '''' then (Inl (StatusErr InvalidArgument ''endpoint is required''), db)
      else
        (case marshal (rq_Capabilities req) of
           Inl e \<Rightarrow> (Inl (StatusErr Internal (''marshal capabilities: '' @ e)), db)
         | Inr caps \<Rightarrow>
             (let w = \<lparr>mw_ID = rq_WorkerId req, mw_Endpoint = rq_Endpoint req,
                       mw_RuntimeKind = rq_RuntimeKind req, mw_State = '''', mw_Capabilities = caps,
                       mw_Models = map (\<lambda>m. \<lparr>sm_WorkerID = '''', sm_BaseModel = sm_BaseModel m,
                           sm_Adapter = sm_Adapter m, sm_MaxContext = sm_MaxContext m\<rparr>) (rq_Models req),
                       mw_RegisteredAt = Some now, mw_UpdatedAt = None\<rparr>
              in case Repository_Upsert db w now (map_option PlainErr refused) of
                   (Some _, db') \<Rightarrow>
                     (Inl (StatusErr Internal (''upsert worker: '' @ (case refused of None \<Rightarrow> '''' | Some r \<Rightarrow> r))), db')
                 | (None, db') \<Rightarrow> (Inr \<lparr>rr_WorkerId = rq_WorkerId req, rr_RegisteredAt = now\<rparr>, db'))))"

section \<open>Facts\<close>

text \<open>The primary key: no two rows of a worker.\<close>

definition registry_ok :: "registry_db \<Rightarrow> bool" where
  "registry_ok db \<longleftrightarrow> distinct (map mw_ID (db_workers db))"

lemma conflict_row_ID [simp]: "mw_ID (conflict_row w now r) = mw_ID r"
  by (simp add: conflict_row_def)

lemma insert_row_ID [simp]: "mw_ID (insert_row w now) = mw_ID w"
  by (simp add: insert_row_def)

lemma upsert_worker_row_IDs:
  "map mw_ID (upsert_worker_row rows w now) =
     (if mw_ID w \<in> mw_ID ` set rows then map mw_ID rows else map mw_ID rows @ [mw_ID w])"
  by (auto simp: upsert_worker_row_def)

lemma Upsert_ok [forge_inv]:
  "registry_ok db \<Longrightarrow> registry_ok (snd (Repository_Upsert db w now refused))"
  by (auto simp: registry_ok_def Repository_Upsert_def upsert_worker_row_IDs split: option.splits)

lemma upsert_worker_row_other:
  "mw_ID r \<noteq> mw_ID w \<Longrightarrow> r \<in> set (upsert_worker_row rows w now) \<longleftrightarrow> r \<in> set rows"
  by (auto simp: upsert_worker_row_def image_iff)

lemma upsert_worker_row_in:
  "mw_ID w \<in> mw_ID ` set (upsert_worker_row rows w now)"
proof -
  have "mw_ID ` set (upsert_worker_row rows w now) = set (map mw_ID (upsert_worker_row rows w now))"
    by simp
  then show ?thesis by (auto simp: upsert_worker_row_IDs)
qed

lemma upsert_worker_row_endpoint:
  "r \<in> set (upsert_worker_row rows w now) \<Longrightarrow> mw_ID r = mw_ID w \<Longrightarrow>
     mw_Endpoint r = mw_Endpoint w \<and> mw_Capabilities r = mw_Capabilities w
   \<and> mw_RuntimeKind r = mw_RuntimeKind w"
proof -
  assume r: "r \<in> set (upsert_worker_row rows w now)" and i: "mw_ID r = mw_ID w"
  show ?thesis
  proof (cases "mw_ID w \<in> mw_ID ` set rows")
    case True
    with r i show ?thesis by (auto simp: upsert_worker_row_def conflict_row_def)
  next
    case False
    with r have "r \<in> set rows \<or> r = insert_row w now" by (auto simp: upsert_worker_row_def)
    moreover have "r \<notin> set rows" using False i by (metis imageI)
    ultimately have "r = insert_row w now" by simp
    then show ?thesis by (simp add: insert_row_def)
  qed
qed

lemma Repository_List_IDs [simp]: "map mw_ID (Repository_List db) = map mw_ID (db_workers db)"
  by (simp add: Repository_List_def comp_def)

text \<open>What a caller of the registry reads after an accepted upsert.\<close>

lemma List_after_Upsert:
  assumes "v \<in> set (Repository_List (snd (Repository_Upsert db w now None)))"
  shows "if mw_ID v = mw_ID w
         then mw_Endpoint v = mw_Endpoint w \<and> mw_Capabilities v = mw_Capabilities w
            \<and> mw_RuntimeKind v = mw_RuntimeKind w
            \<and> mw_Models v = map (\<lambda>m. m\<lparr>sm_WorkerID := mw_ID w\<rparr>) (mw_Models w)
         else v \<in> set (Repository_List db)"
proof -
  let ?db = "snd (Repository_Upsert db w now None)"
  obtain r where r: "r \<in> set (upsert_worker_row (db_workers db) w now)"
    and v: "v = r\<lparr>mw_Models := filter (\<lambda>m. sm_WorkerID m = mw_ID r) (db_models ?db)\<rparr>"
    using assms by (auto simp: Repository_List_def Repository_Upsert_def)
  show ?thesis
  proof (cases "mw_ID r = mw_ID w")
    case True
    then have "filter (\<lambda>m. sm_WorkerID m = mw_ID r) (db_models ?db)
        = map (\<lambda>m. m\<lparr>sm_WorkerID := mw_ID w\<rparr>) (mw_Models w)"
      by (auto simp: Repository_Upsert_def filter_empty_conv)
    with True r v upsert_worker_row_endpoint [OF r True] show ?thesis by simp
  next
    case False
    with r have "r \<in> set (db_workers db)" by (simp add: upsert_worker_row_other)
    moreover have "filter (\<lambda>m. sm_WorkerID m = mw_ID r) (db_models ?db)
        = filter (\<lambda>m. sm_WorkerID m = mw_ID r) (db_models db)"
      using False by (auto simp: Repository_Upsert_def filter_empty_conv intro!: filter_cong)
    ultimately show ?thesis using False v by (auto simp: Repository_List_def)
  qed
qed

section \<open>Properties\<close>

text \<open>
  A registration that is accepted is what the registry lists next: exactly one row with the
  worker's id, carrying the endpoint, the runtime kind and exactly the models of the request
  (re-registration replaces them), while every other worker's row is unchanged.
\<close>

theorem register_then_list:
  assumes "registry_ok db" and "Register marshal db req now None = (Inr resp, db')"
    and "v \<in> set (Repository_List db')"
  shows "registry_ok db' \<and> rq_WorkerId req \<in> mw_ID ` set (Repository_List db')
       \<and> (if mw_ID v = rq_WorkerId req
          then mw_Endpoint v = rq_Endpoint req \<and> mw_RuntimeKind v = rq_RuntimeKind req
             \<and> mw_Models v = map (\<lambda>m. \<lparr>sm_WorkerID = rq_WorkerId req, sm_BaseModel = sm_BaseModel m,
                  sm_Adapter = sm_Adapter m, sm_MaxContext = sm_MaxContext m\<rparr>) (rq_Models req)
          else v \<in> set (Repository_List db))"
proof -
  from assms(2) obtain caps where caps: "marshal (rq_Capabilities req) = Inr caps"
    by (auto simp: Register_def split: if_splits sum.splits)
  define w where "w = \<lparr>mw_ID = rq_WorkerId req, mw_Endpoint = rq_Endpoint req,
      mw_RuntimeKind = rq_RuntimeKind req, mw_State = '''', mw_Capabilities = caps,
      mw_Models = map (\<lambda>m. \<lparr>sm_WorkerID = '''', sm_BaseModel = sm_BaseModel m,
         sm_Adapter = sm_Adapter m, sm_MaxContext = sm_MaxContext m\<rparr>) (rq_Models req),
      mw_RegisteredAt = Some now, mw_UpdatedAt = None\<rparr>"
  from assms(2) caps have db': "db' = snd (Repository_Upsert db w now None)"
    by (auto simp: Register_def w_def Let_def Repository_Upsert_def split: if_splits)
  have "mw_ID w \<in> mw_ID ` set (db_workers db')"
    by (simp add: db' Repository_Upsert_def upsert_worker_row_in)
  then have "mw_ID w \<in> set (map mw_ID (Repository_List db'))"
    by (simp only: Repository_List_IDs set_map)
  then have "mw_ID w \<in> mw_ID ` set (Repository_List db')" by (simp only: set_map)
  moreover have "registry_ok db'" using assms(1) by (simp add: db' Upsert_ok)
  ultimately show ?thesis
    using List_after_Upsert [OF assms(3) [unfolded db']] by (simp add: w_def comp_def)
qed

definition demo_request :: RegisterRequest where
  "demo_request = \<lparr>rq_WorkerId = ''w1'', rq_Endpoint = ''h:1'', rq_RuntimeKind = ''RUNTIME_KIND_VLLM'',
     rq_Models = [\<lparr>sm_WorkerID = '''', sm_BaseModel = ''m'', sm_Adapter = '''', sm_MaxContext = 8\<rparr>],
     rq_Capabilities = Map.empty\<rparr>"

theorem register_then_list_witness:
  "\<exists>v. v \<in> set (Repository_List (snd (Register (\<lambda>_. Inr ''{}'') \<lparr>db_workers = [], db_models = []\<rparr>
       demo_request 5 None))) \<and> mw_ID v = ''w1'' \<and> mw_Endpoint v = ''h:1''"
proof -
  let ?db = "\<lparr>db_workers = [], db_models = []\<rparr>"
  let ?r = "Register (\<lambda>_. Inr ''{}'') ?db demo_request 5 None"
  have ok: "registry_ok ?db" by (simp add: registry_ok_def)
  have r: "?r = (Inr \<lparr>rr_WorkerId = ''w1'', rr_RegisteredAt = 5\<rparr>, snd ?r)"
    by (simp add: Register_def demo_request_def Repository_Upsert_def)
  have "Repository_List (snd ?r) \<noteq> []"
    by (simp add: Register_def demo_request_def Repository_Upsert_def Repository_List_def
        upsert_worker_row_def)
  then obtain u where u: "u \<in> set (Repository_List (snd ?r))" by (meson list.set_sel(1))
  from register_then_list [OF ok r u] obtain v
    where v: "v \<in> set (Repository_List (snd ?r))" and "mw_ID v = ''w1''"
    by (auto simp: demo_request_def)
  with register_then_list [OF ok r v] show ?thesis by (auto simp: demo_request_def)
qed

end
