(* ===== verification/Health.thy ===== *)
theory Health
  imports Forge_Prelude
begin

text \<open>
  Worker liveness: the heartbeat record and its Redis key (\<open>services/health/heartbeat.go\<close>), the
  service that derives the live set from Redis (\<open>services/health/deriver.go\<close>) and the writer on the
  worker's side (\<open>worker/heartbeat.go\<close>). Redis and the JSON codec are parameters: \<open>scan\<close> and \<open>get\<close>
  answer for the server, \<open>decode\<close> is \<open>json.Unmarshal\<close> into a heartbeat. Metrics are not modelled.
\<close>

section \<open>Keys and heartbeats\<close>

definition keyPrefix :: string where "keyPrefix = ''worker:''"
definition keySuffix :: string where "keySuffix = '':heartbeat''"

record Heartbeat =
  hb_ID :: string
  hb_BaseModel :: string
  hb_Adapter :: "string option"
  hb_Runtime :: string
  hb_Addr :: string
  hb_Ready :: bool
  hb_Inflight :: int
  hb_QueueDepth :: int
  hb_KVCacheUsage :: real
  hb_GPUCacheUsage :: real
  hb_TS :: int

definition Key :: "string \<Rightarrow> string" where
  "Key workerID = keyPrefix @ workerID @ keySuffix"

definition WorkerIDFromKey :: "string \<Rightarrow> (string \<times> bool) outcome" where
  "WorkerIDFromKey key =
     (if \<not> has_prefix key keyPrefix \<or> \<not> has_suffix key keySuffix then Ret ('''', False)
      else
        (case go_slice key (int (length keyPrefix)) (int (length key) - int (length keySuffix)) of
           Panic \<Rightarrow> Panic
         | Ret i \<Rightarrow> if i = '''' then Ret ('''', False) else Ret (i, True)))"

section \<open>The live set\<close>

type_synonym live = "(string \<times> Heartbeat) list"

definition Replace :: "live \<Rightarrow> live \<Rightarrow> live" where "Replace s live = live"

definition Upsert_hb :: "live \<Rightarrow> Heartbeat \<Rightarrow> live" where
  "Upsert_hb s hb = AList.update (hb_ID hb) hb s"

definition Remove_hb :: "live \<Rightarrow> string \<Rightarrow> live" where
  "Remove_hb s i = AList.delete i s"

definition Get_hb :: "live \<Rightarrow> string \<Rightarrow> Heartbeat option" where
  "Get_hb s i = map_of s i"

definition All_hb :: "live \<Rightarrow> Heartbeat list" where "All_hb s = map snd s"

definition Routable_hb :: "live \<Rightarrow> Heartbeat list" where
  "Routable_hb s = filter hb_Ready (map snd s)"

section \<open>Deriving the live set from Redis\<close>

text \<open>The answer of a \<open>GET\<close>: no such key, an error, or the value.\<close>

datatype redis_get = RNil | RErr goerr | RVal string

text \<open>The body of \<open>reconcileOnce\<close> for the keys of one page.\<close>

fun reconcile_keys ::
  "(string \<Rightarrow> redis_get) \<Rightarrow> (string \<Rightarrow> Heartbeat option) \<Rightarrow> string list \<Rightarrow> live \<Rightarrow> (goerr + live) outcome" where
  "reconcile_keys get decode [] live = Ret (Inr live)"
| "reconcile_keys get decode (k # ks) live =
     (case get k of
        RNil \<Rightarrow> reconcile_keys get decode ks live
      | RErr e \<Rightarrow> Ret (Inl e)
      | RVal val \<Rightarrow>
          (case decode val of
             None \<Rightarrow> reconcile_keys get decode ks live
           | Some hb \<Rightarrow>
               if hb_ID hb = '''' then
                 (case WorkerIDFromKey k of
                    Panic \<Rightarrow> Panic
                  | Ret (i, True) \<Rightarrow> reconcile_keys get decode ks (Upsert_hb live (hb\<lparr>hb_ID := i\<rparr>))
                  | Ret (_, False) \<Rightarrow> reconcile_keys get decode ks live)
               else reconcile_keys get decode ks (Upsert_hb live hb)))"

text \<open>
  The cursor loop of \<open>reconcileOnce\<close>. It ends when the server returns cursor 0, which the code does
  not enforce: \<^const>\<open>None\<close> is a scan that never ends.
\<close>

partial_function (option) reconcile_scan ::
  "(u64 \<Rightarrow> goerr + string list \<times> u64) \<Rightarrow> (string \<Rightarrow> redis_get) \<Rightarrow> (string \<Rightarrow> Heartbeat option) \<Rightarrow>
     u64 \<Rightarrow> live \<Rightarrow> (goerr + live) outcome option" where
  "reconcile_scan scan get decode cursor live =
     (case scan cursor of
        Inl e \<Rightarrow> Some (Ret (Inl e))
      | Inr (keys, nxt) \<Rightarrow>
          (case reconcile_keys get decode keys live of
             Panic \<Rightarrow> Some Panic
           | Ret (Inl e) \<Rightarrow> Some (Ret (Inl e))
           | Ret (Inr live') \<Rightarrow>
               if nxt = 0 then Some (Ret (Inr live'))
               else reconcile_scan scan get decode nxt live'))"

text \<open>\<open>reconcileOnce\<close>: the snapshot is replaced only when the whole scan succeeded.\<close>

definition reconcileOnce ::
  "(u64 \<Rightarrow> goerr + string list \<times> u64) \<Rightarrow> (string \<Rightarrow> redis_get) \<Rightarrow> (string \<Rightarrow> Heartbeat option) \<Rightarrow>
     live \<Rightarrow> (goerr option \<times> live) outcome option" where
  "reconcileOnce scan get decode s =
     map_option (\<lambda>r. case r of
         Panic \<Rightarrow> Panic
       | Ret (Inl e) \<Rightarrow> Ret (Some e, s)
       | Ret (Inr live) \<Rightarrow> Ret (None, Replace s live))
       (reconcile_scan scan get decode 0 [])"

definition applySet ::
  "(string \<Rightarrow> redis_get) \<Rightarrow> (string \<Rightarrow> Heartbeat option) \<Rightarrow> live \<Rightarrow> string \<Rightarrow> live" where
  "applySet get decode s i =
     (case get (Key i) of
        RNil \<Rightarrow> Remove_hb s i
      | RErr _ \<Rightarrow> s
      | RVal val \<Rightarrow>
          (case decode val of
             None \<Rightarrow> s
           | Some hb \<Rightarrow> Upsert_hb s (if hb_ID hb = '''' then hb\<lparr>hb_ID := i\<rparr> else hb)))"

text \<open>One message of the key-event subscription: its channel and payload.\<close>

definition keyevent ::
  "(string \<Rightarrow> redis_get) \<Rightarrow> (string \<Rightarrow> Heartbeat option) \<Rightarrow> live \<Rightarrow> string \<times> string \<Rightarrow> live outcome" where
  "keyevent get decode s msg =
     (case msg of (channel, payload) \<Rightarrow>
        (case WorkerIDFromKey payload of
           Panic \<Rightarrow> Panic
         | Ret (i, ok) \<Rightarrow>
             if \<not> ok then Ret s
             else if has_suffix channel '':expired'' \<or> has_suffix channel '':del'' then Ret (Remove_hb s i)
             else if has_suffix channel '':set'' then Ret (applySet get decode s i)
             else Ret s))"

section \<open>The writer on the worker\<close>

record HeartbeatWriter =
  hw_id :: string
  hw_baseModel :: string
  hw_adapter :: "string option"
  hw_runtime :: string
  hw_addr :: string
  hw_ttl :: duration
  hw_interval :: duration
  hw_ready :: bool
  hw_inflight :: int
  hw_queue :: int
  hw_kvUsage :: u64
  hw_gpuUsage :: u64

definition NewHeartbeatWriter ::
  "string \<Rightarrow> string \<Rightarrow> string option \<Rightarrow> string \<Rightarrow> string \<Rightarrow> duration \<Rightarrow> duration \<Rightarrow> bool \<Rightarrow> HeartbeatWriter" where
  "NewHeartbeatWriter i base adapter runtime addr ttl interval ready =
     \<lparr>hw_id = i, hw_baseModel = base, hw_adapter = adapter, hw_runtime = runtime, hw_addr = addr,
      hw_ttl = (if ttl \<le> 0 then 6 * second else ttl),
      hw_interval = (if interval \<le> 0 then 2 * second else interval),
      hw_ready = ready, hw_inflight = 0, hw_queue = 0, hw_kvUsage = 0, hw_gpuUsage = 0\<rparr>"

definition SetReady :: "HeartbeatWriter \<Rightarrow> bool \<Rightarrow> HeartbeatWriter" where
  "SetReady w r = w\<lparr>hw_ready := r\<rparr>"

definition SetLoad :: "HeartbeatWriter \<Rightarrow> int \<Rightarrow> int \<Rightarrow> HeartbeatWriter" where
  "SetLoad w inflight queueDepth = w\<lparr>hw_inflight := inflight, hw_queue := queueDepth\<rparr>"

text \<open>
  The cache usage is stored in millionths. The conversion to \<open>uint64\<close> truncates; outside the
  range of the type its result is unspecified in Go, and here the value modulo \<open>2 ^ 64\<close>.
\<close>

definition floatBits :: "real \<Rightarrow> u64" where
  "floatBits f = word_of_int (if f * 1000000 \<ge> 0 then \<lfloor>f * 1000000\<rfloor> else \<lceil>f * 1000000\<rceil>)"

definition bitsFloat :: "u64 \<Rightarrow> real" where
  "bitsFloat u = real (unat u) / 1000000"

definition SetCacheUsage :: "HeartbeatWriter \<Rightarrow> real \<Rightarrow> real \<Rightarrow> HeartbeatWriter" where
  "SetCacheUsage w kv gpu = w\<lparr>hw_kvUsage := floatBits kv, hw_gpuUsage := floatBits gpu\<rparr>"

definition hb_snapshot :: "HeartbeatWriter \<Rightarrow> int \<Rightarrow> Heartbeat" where
  "hb_snapshot w nowMs =
     \<lparr>hb_ID = hw_id w, hb_BaseModel = hw_baseModel w, hb_Adapter = hw_adapter w,
      hb_Runtime = hw_runtime w, hb_Addr = hw_addr w, hb_Ready = hw_ready w,
      hb_Inflight = hw_inflight w, hb_QueueDepth = hw_queue w,
      hb_KVCacheUsage = bitsFloat (hw_kvUsage w), hb_GPUCacheUsage = bitsFloat (hw_gpuUsage w),
      hb_TS = nowMs\<rparr>"

text \<open>
  \<open>BeatOnce\<close> and \<open>Delete\<close> on the store, a map from keys to a value and the time it expires
  (\<open>SET key value EX ttl\<close>). \<open>encode\<close> is \<open>json.Marshal\<close>, \<open>refused\<close> the answer of the server, \<open>now\<close> the
  clock in nanoseconds.
\<close>

type_synonym redis_store = "string \<rightharpoonup> string \<times> int"

definition BeatOnce ::
  "(Heartbeat \<Rightarrow> goerr + string) \<Rightarrow> HeartbeatWriter \<Rightarrow> int \<Rightarrow> goerr option \<Rightarrow> redis_store \<Rightarrow>
     goerr option \<times> redis_store"
where
  "BeatOnce encode w now refused st =
     (case encode (hb_snapshot w (now div 1000000)) of
        Inl e \<Rightarrow> (Some e, st)
      | Inr payload \<Rightarrow>
          (case refused of
             Some e \<Rightarrow> (Some e, st)
           | None \<Rightarrow> (None, st(Key (hw_id w) \<mapsto> (payload, now + hw_ttl w)))))"

definition Delete_hb :: "HeartbeatWriter \<Rightarrow> redis_store \<Rightarrow> redis_store" where
  "Delete_hb w st = st(Key (hw_id w) := None)"

text \<open>The server's answer to a \<open>GET\<close> at time \<open>t\<close>: a value past its expiry is not there.\<close>

definition store_get :: "int \<Rightarrow> redis_store \<Rightarrow> string \<Rightarrow> redis_get" where
  "store_get t st k =
     (case st k of None \<Rightarrow> RNil | Some (v, expiry) \<Rightarrow> if t < expiry then RVal v else RNil)"

section \<open>Keys: facts\<close>

lemma length_key_parts [simp]: "length keyPrefix = 7" "length keySuffix = 10"
  by (simp_all add: keyPrefix_def keySuffix_def)

lemma go_slice_Key:
  "go_slice (Key i) (int (length keyPrefix)) (int (length (Key i)) - int (length keySuffix)) = Ret i"
  by (simp add: go_slice_def Key_def)

lemma Key_prefix_suffix: "has_prefix (Key i) keyPrefix" "has_suffix (Key i) keySuffix"
  unfolding Key_def by (simp, metis append_assoc has_suffix_append)

text \<open>The only string with both ends of a key that is too short to hold them apart.\<close>

lemma overlapping_key:
  assumes "has_prefix k keyPrefix" and "has_suffix k keySuffix" and "length k < 17"
  shows "k = ''worker:heartbeat''"
proof -
  obtain t where t: "k = keyPrefix @ t" using assms(1) by (auto simp: has_prefix_iff)
  obtain u where u: "k = u @ keySuffix" using assms(2) by (auto simp: has_suffix_iff)
  have lu: "length u < 7" and lt: "length t = length u + 3"
    using assms(3) arg_cong [OF t [symmetric, unfolded u], of length] by (simp_all add: u)
  have "u = take (length u) keyPrefix"
    using arg_cong [OF trans [OF u [symmetric] t], of "take (length u)"] lu by simp
  moreover have "keySuffix = drop (length u) keyPrefix @ t"
    using arg_cong [OF trans [OF u [symmetric] t], of "drop (length u)"] lu by simp
  moreover from lu have "length u = 0 \<or> length u = 1 \<or> length u = 2 \<or> length u = 3
      \<or> length u = 4 \<or> length u = 5 \<or> length u = 6" by linarith
  ultimately have "u = ''worker''"
    by (auto simp: keyPrefix_def keySuffix_def)
  then show ?thesis by (simp add: u keySuffix_def)
qed

lemma key_split:
  assumes "has_prefix k keyPrefix" and "has_suffix k keySuffix" and "17 \<le> length k"
  shows "k = Key (take (length k - 17) (drop 7 k))"
proof -
  obtain t where t: "k = keyPrefix @ t" using assms(1) by (auto simp: has_prefix_iff)
  obtain u where u: "k = u @ keySuffix" using assms(2) by (auto simp: has_suffix_iff)
  have "10 \<le> length t" using assms(3) t by simp
  moreover have "drop (length k - 10) k = keySuffix" by (simp add: u)
  ultimately have "drop (length t - 10) t = keySuffix" by (simp add: t)
  then have "t = take (length t - 10) t @ keySuffix" by (metis append_take_drop_id)
  then show ?thesis by (simp add: Key_def t)
qed

lemma WorkerIDFromKey_Panic: "WorkerIDFromKey k = Panic \<longleftrightarrow> k = ''worker:heartbeat''"
proof
  assume "WorkerIDFromKey k = Panic"
  then have "has_prefix k keyPrefix" and "has_suffix k keySuffix" and "length k < 17"
    by (auto simp: WorkerIDFromKey_def go_slice_def split: if_splits)
  then show "k = ''worker:heartbeat''" by (rule overlapping_key)
next
  assume "k = ''worker:heartbeat''"
  then show "WorkerIDFromKey k = Panic"
    by (simp add: WorkerIDFromKey_def has_prefix_def has_suffix_def keyPrefix_def keySuffix_def
        go_slice_def)
qed

lemma WorkerIDFromKey_True: "WorkerIDFromKey k = Ret (i, True) \<longleftrightarrow> i \<noteq> '''' \<and> k = Key i"
proof
  assume r: "WorkerIDFromKey k = Ret (i, True)"
  then have p: "has_prefix k keyPrefix" "has_suffix k keySuffix" "17 \<le> length k" and i: "i \<noteq> ''''"
    and "i = take (length k - 17) (drop 7 k)"
    by (auto simp: WorkerIDFromKey_def go_slice_def nat_diff_distrib split: if_splits)
  with key_split [OF p] show "i \<noteq> '''' \<and> k = Key i" by simp
next
  assume "i \<noteq> '''' \<and> k = Key i"
  then show "WorkerIDFromKey k = Ret (i, True)"
    using go_slice_Key [of i] by (simp add: WorkerIDFromKey_def Key_prefix_suffix)
qed

section \<open>The reconcile scan: facts\<close>

text \<open>
  What one key contributes to the live set, and what a complete scan does: the answers of the
  server from a cursor on, as the list of its pages.
\<close>

definition key_heartbeat ::
  "(string \<Rightarrow> redis_get) \<Rightarrow> (string \<Rightarrow> Heartbeat option) \<Rightarrow> string \<Rightarrow> Heartbeat option" where
  "key_heartbeat get decode k =
     (case get k of
        RVal val \<Rightarrow>
          (case decode val of
             None \<Rightarrow> None
           | Some hb \<Rightarrow>
               if hb_ID hb \<noteq> '''' then Some hb
               else (case WorkerIDFromKey k of Ret (i, True) \<Rightarrow> Some (hb\<lparr>hb_ID := i\<rparr>) | _ \<Rightarrow> None))
      | _ \<Rightarrow> None)"

fun scan_pages :: "(u64 \<Rightarrow> goerr + string list \<times> u64) \<Rightarrow> u64 \<Rightarrow> string list list \<Rightarrow> bool" where
  "scan_pages scan c [] = False"
| "scan_pages scan c [ks] = (scan c = Inr (ks, 0))"
| "scan_pages scan c (ks # ks' # rest) =
     (case scan c of Inl _ \<Rightarrow> False
      | Inr (p, n) \<Rightarrow> p = ks \<and> n \<noteq> 0 \<and> scan_pages scan n (ks' # rest))"

definition readable :: "(string \<Rightarrow> redis_get) \<Rightarrow> string \<Rightarrow> bool" where
  "readable get k \<longleftrightarrow> (\<forall>e. get k \<noteq> RErr e) \<and> k \<noteq> ''worker:heartbeat''"

lemma reconcile_keys_fold:
  assumes "\<forall>k \<in> set ks. readable get k"
  shows "reconcile_keys get decode ks live =
           Ret (Inr (fold (\<lambda>hb s. Upsert_hb s hb) (List.map_filter (key_heartbeat get decode) ks) live))"
  using assms
proof (induction ks arbitrary: live)
  case (Cons k ks)
  then have np: "WorkerIDFromKey k \<noteq> Panic" and ne: "\<And>e. get k \<noteq> RErr e"
    by (auto simp: readable_def WorkerIDFromKey_Panic)
  show ?case
  proof (cases "get k")
    case (RVal val)
    with Cons np show ?thesis
      by (auto simp: key_heartbeat_def List.map_filter_simps split: option.splits outcome.splits bool.splits)
  qed (use Cons ne in \<open>auto simp: key_heartbeat_def List.map_filter_simps\<close>)
qed (simp add: List.map_filter_simps)

lemma map_filter_append:
  "List.map_filter f (xs @ ys) = List.map_filter f xs @ List.map_filter f ys"
  by (simp add: List.map_filter_def)

lemma reconcile_scan_fold:
  assumes "scan_pages scan c pages" and "\<forall>k \<in> set (concat pages). readable get k"
  shows "reconcile_scan scan get decode c live =
           Some (Ret (Inr (fold (\<lambda>hb s. Upsert_hb s hb)
             (List.map_filter (key_heartbeat get decode) (concat pages)) live)))"
  using assms
proof (induction scan c pages arbitrary: live rule: scan_pages.induct)
  case (2 scan c ks)
  then show ?case by (subst reconcile_scan.simps) (simp add: reconcile_keys_fold)
next
  case (3 scan c ks ks' rest)
  then obtain n where n: "scan c = Inr (ks, n)" "n \<noteq> 0" "scan_pages scan n (ks' # rest)"
    by (auto split: sum.splits)
  with 3(1) [OF n(1) refl] 3(3) show ?case
    by (subst reconcile_scan.simps) (simp add: reconcile_keys_fold map_filter_append)
qed simp

lemma fold_Upsert_lookup:
  "Get_hb (fold (\<lambda>hb s. Upsert_hb s hb) hbs s) i =
     (case find (\<lambda>hb. hb_ID hb = i) (rev hbs) of Some hb \<Rightarrow> Some hb | None \<Rightarrow> Get_hb s i)"
  by (induction hbs rule: rev_induct) (simp_all add: Upsert_hb_def Get_hb_def update_conv)

lemma fold_Upsert_distinct:
  "distinct (map fst s) \<Longrightarrow> distinct (map fst (fold (\<lambda>hb s. Upsert_hb s hb) hbs s))"
  by (induction hbs arbitrary: s) (simp_all add: Upsert_hb_def distinct_update)

lemma Get_Upsert [simp]: "Get_hb (Upsert_hb s hb) i = (if i = hb_ID hb then Some hb else Get_hb s i)"
  by (simp add: Get_hb_def Upsert_hb_def update_conv)

lemma Get_Remove [simp]: "Get_hb (Remove_hb s j) i = (if i = j then None else Get_hb s i)"
  by (simp add: Get_hb_def Remove_hb_def delete_conv)

section \<open>Properties\<close>

text \<open>
  The heartbeat key and the worker id determine each other: a key is read as belonging to
  worker \<open>i\<close> exactly when it is the key the worker writes. The function panics on exactly one
  string, the one in which the prefix and the suffix share their colon.
\<close>

theorem heartbeat_key_roundtrip:
  "(WorkerIDFromKey k = Ret (i, True) \<longleftrightarrow> i \<noteq> '''' \<and> k = Key i)
   \<and> (WorkerIDFromKey k = Panic \<longleftrightarrow> k = ''worker:heartbeat'')"
  by (simp add: WorkerIDFromKey_True WorkerIDFromKey_Panic)

text \<open>
  C31. A complete scan terminates and replaces the live set: when the server's cursor reaches 0 and
  every key of its pages can be read, \<open>reconcileOnce\<close> returns without error, and the new snapshot
  holds for every worker id the heartbeat of the last key that carries it, and nothing of the old
  snapshot.
\<close>

theorem reconcile_live_set:
  assumes "scan_pages scan 0 pages" and "\<forall>k \<in> set (concat pages). readable get k"
  shows "\<exists>s'. reconcileOnce scan get decode s = Some (Ret (None, s')) \<and> distinct (map fst s')
       \<and> (\<forall>i. Get_hb s' i = find (\<lambda>hb. hb_ID hb = i)
                (rev (List.map_filter (key_heartbeat get decode) (concat pages))))"
  using assms
  by (auto simp: reconcileOnce_def reconcile_scan_fold Replace_def fold_Upsert_lookup
      intro: fold_Upsert_distinct split: option.splits) (simp add: Get_hb_def)

definition demo_hb :: Heartbeat where
  "demo_hb = \<lparr>hb_ID = '''', hb_BaseModel = ''m'', hb_Adapter = None, hb_Runtime = ''vllm'',
     hb_Addr = ''h:1'', hb_Ready = True, hb_Inflight = 0, hb_QueueDepth = 0, hb_KVCacheUsage = 0,
     hb_GPUCacheUsage = 0, hb_TS = 7\<rparr>"

theorem reconcile_live_set_witness:
  "\<exists>s'. reconcileOnce (\<lambda>c. if c = 0 then Inr ([Key ''a''], 9) else Inr ([Key ''b''], 0))
      (\<lambda>k. RVal ''x'') (\<lambda>v. Some demo_hb) [(''old'', demo_hb)] = Some (Ret (None, s'))
    \<and> Get_hb s' ''b'' = Some (demo_hb\<lparr>hb_ID := ''b''\<rparr>) \<and> Get_hb s' ''old'' = None"
proof -
  let ?scan = "\<lambda>c::u64. if c = 0 then Inr ([Key ''a''], 9) else Inr ([Key ''b''], 0) :: goerr + string list \<times> u64"
  have 1: "scan_pages ?scan 0 [[Key ''a''], [Key ''b'']]" by simp
  have 2: "\<forall>k \<in> set (concat [[Key ''a''], [Key ''b'']]). readable (\<lambda>k. RVal ''x'') k"
    by (simp add: readable_def Key_def keyPrefix_def keySuffix_def)
  have "WorkerIDFromKey (Key i) = Ret (i, True)" if "i \<noteq> ''''" for i
    using that WorkerIDFromKey_True by blast
  then have "key_heartbeat (\<lambda>k. RVal ''x'') (\<lambda>v. Some demo_hb) (Key i) = Some (demo_hb\<lparr>hb_ID := i\<rparr>)"
    if "i \<noteq> ''''" for i using that by (simp add: key_heartbeat_def demo_hb_def)
  with reconcile_live_set [OF 1 2, of "\<lambda>v. Some demo_hb" "[(''old'', demo_hb)]"] show ?thesis
    by (auto simp: List.map_filter_simps)
qed

text \<open>
  C10. A beat makes the worker visible for its time to live and no longer: when the control plane
  handles the \<open>set\<close> event while the value lives, the live set holds exactly the worker's current
  state under its id; an event for the key after the value has expired, or an \<open>expired\<close> or \<open>del\<close>
  event, removes it. In each case no other worker's entry changes. The JSON codec has to decode
  this heartbeat's encoding to the heartbeat.
\<close>

theorem beat_visible_until_ttl:
  assumes "hw_id w \<noteq> ''''" and "encode (hb_snapshot w (now div 1000000)) = Inr p"
    and "decode p = Some (hb_snapshot w (now div 1000000))"
    and "BeatOnce encode w now None st = (err, st')"
  shows "err = None
    \<and> (\<exists>s'. keyevent (store_get t st') decode s (''__keyevent@0__:set'', Key (hw_id w)) = Ret s'
         \<and> (\<forall>i. Get_hb s' i =
              (if i = hw_id w
               then if t < now + hw_ttl w then Some (hb_snapshot w (now div 1000000)) else None
               else Get_hb s i)))
    \<and> (\<exists>s'. keyevent (store_get t st') decode s (''__keyevent@0__:expired'', Key (hw_id w)) = Ret s'
         \<and> (\<forall>i. Get_hb s' i = (if i = hw_id w then None else Get_hb s i)))"
proof -
  have k: "WorkerIDFromKey (Key (hw_id w)) = Ret (hw_id w, True)"
    using assms(1) WorkerIDFromKey_True by blast
  have st': "err = None" "st' = st(Key (hw_id w) \<mapsto> (p, now + hw_ttl w))"
    using assms(2,4) by (simp_all add: BeatOnce_def)
  have id: "hb_ID (hb_snapshot w m) = hw_id w" for m by (simp add: hb_snapshot_def)
  have "\<not> has_suffix ''__keyevent@0__:set'' '':expired''" "\<not> has_suffix ''__keyevent@0__:set'' '':del''"
    "has_suffix ''__keyevent@0__:set'' '':set''" "has_suffix ''__keyevent@0__:expired'' '':expired''"
    by (simp_all add: has_suffix_def has_prefix_def)
  with k st' id assms(1,3) show ?thesis
    by (simp add: keyevent_def applySet_def store_get_def)
qed

theorem beat_visible_until_ttl_witness:
  "\<exists>st' s'. BeatOnce (\<lambda>hb. Inr ''x'') (NewHeartbeatWriter ''w'' ''m'' None ''vllm'' ''h:1'' 0 0 True) 0 None
      Map.empty = (None, st')
    \<and> keyevent (store_get 5 st') (\<lambda>v. Some (hb_snapshot
         (NewHeartbeatWriter ''w'' ''m'' None ''vllm'' ''h:1'' 0 0 True) 0)) []
        (''__keyevent@0__:set'', Key ''w'') = Ret s'
    \<and> Get_hb s' ''w'' \<noteq> None"
proof -
  let ?w = "NewHeartbeatWriter ''w'' ''m'' None ''vllm'' ''h:1'' 0 0 True"
  let ?st = "snd (BeatOnce (\<lambda>hb. Inr ''x'') ?w 0 None Map.empty)"
  have i: "hw_id ?w = ''w''" "hw_ttl ?w = 6 * second" by (simp_all add: NewHeartbeatWriter_def)
  have b: "BeatOnce (\<lambda>hb. Inr ''x'') ?w 0 None Map.empty = (None, ?st)" by (simp add: BeatOnce_def)
  show ?thesis
    using beat_visible_until_ttl [OF _ _ _ b, where p = "''x''" and t = 5 and s = "[]"
        and decode = "\<lambda>v. Some (hb_snapshot ?w 0)"] b i by auto
qed

text \<open>
  The cache usage survives its storage as an integer of millionths: for a usage in the range a
  worker reports, the value read back is at most the value set and differs by less than one
  millionth.
\<close>

theorem cache_usage_precision:
  assumes "0 \<le> f" and "f \<le> 10 ^ 12"
  shows "bitsFloat (floatBits f) \<le> f \<and> f < bitsFloat (floatBits f) + 1 / 1000000"
proof -
  have nn: "0 \<le> \<lfloor>f * 1000000\<rfloor>" using assms(1) by simp
  have "\<lfloor>f * 1000000\<rfloor> \<le> 10 ^ 18" using assms(2) by (simp add: floor_le_iff)
  then have "\<lfloor>f * 1000000\<rfloor> < 2 ^ 64" by simp
  with nn have "real (unat (floatBits f)) = of_int \<lfloor>f * 1000000\<rfloor>"
    using assms(1) by (simp add: floatBits_def unat_eq_nat_uint uint_word_of_int)
  then have "bitsFloat (floatBits f) = of_int \<lfloor>f * 1000000\<rfloor> / 1000000" by (simp add: bitsFloat_def)
  moreover have "of_int \<lfloor>f * 1000000\<rfloor> \<le> f * 1000000" "f * 1000000 < of_int \<lfloor>f * 1000000\<rfloor> + 1"
    by linarith+
  ultimately show ?thesis by linarith
qed

theorem cache_usage_precision_witness:
  "bitsFloat (floatBits (1/3)) \<le> 1/3 \<and> (1/3 :: real) < bitsFloat (floatBits (1/3)) + 1 / 1000000"
  by (rule cache_usage_precision) simp_all

end
