(* ===== verification/Routing.thy ===== *)
theory Routing
  imports Registry Health
begin

text \<open>
  The routing plane: the snapshot of the fleet and the holders that share it
  (\<open>services/routing/snapshot.go\<close>, \<open>holder.go\<close>, \<open>policy.go\<close>), the subscribers that feed the holders
  (\<open>subscriber.go\<close>, \<open>policy.go\<close>), the capability parser (\<open>capabilities.go\<close>) and the publisher that
  joins the registry with the heartbeats (\<open>publisher.go\<close>). The JSON codec, \<open>strconv.ParseFloat\<close> and
  Redis are parameters. \<open>StoreIfNewer\<close> is modelled twice: as the atomic operation its callers rely
  on, under the interface \<open>versioned_holder\<close>, and as the interleaved loads and compare-and-swaps
  the code performs.
\<close>

section \<open>Snapshots\<close>

type_synonym string_map = "(string \<times> string) list"

abbreviation get_str :: "string_map \<Rightarrow> string \<Rightarrow> string" where
  "get_str m k \<equiv> go_lookup (map_of m) k"

record WorkerView =
  wv_ID :: string
  wv_Endpoint :: string
  wv_BaseModel :: string
  wv_Adapter :: string
  wv_Healthy :: bool
  wv_Ready :: bool
  wv_QueueDepth :: int
  wv_InFlight :: int
  wv_MaxContext :: u32
  wv_CostPerHour :: real
  wv_CostClass :: string
  wv_Runtime :: string
  wv_VRAMGB :: real
  wv_GPU :: string
  wv_Capabilities :: string_map

record RoutingSnapshot =
  rs_BuiltAt :: int
  rs_Epoch :: u64
  rs_Workers :: "WorkerView list"

definition join_model :: "string \<Rightarrow> string \<Rightarrow> string" where
  "join_model base adapter = (if adapter = '''' then base else base @ ''#'' @ adapter)"

definition ModelID :: "WorkerView \<Rightarrow> string" where
  "ModelID w = join_model (wv_BaseModel w) (wv_Adapter w)"

section \<open>Holders\<close>

text \<open>
  A holder is an atomic pointer; \<^const>\<open>None\<close> is nil. \<open>StoreIfNewer\<close> returns whether it stored.
\<close>

definition SnapshotHolder_Store :: "RoutingSnapshot option \<Rightarrow> RoutingSnapshot option \<Rightarrow> RoutingSnapshot option" where
  "SnapshotHolder_Store h s = (case s of None \<Rightarrow> h | Some _ \<Rightarrow> s)"

definition SnapshotHolder_StoreIfNewer ::
  "RoutingSnapshot option \<Rightarrow> RoutingSnapshot option \<Rightarrow> bool \<times> RoutingSnapshot option" where
  "SnapshotHolder_StoreIfNewer h s =
     (case s of
        None \<Rightarrow> (False, h)
      | Some sn \<Rightarrow>
          (case h of
             Some cur \<Rightarrow> if rs_Epoch sn \<le> rs_Epoch cur then (False, h) else (True, s)
           | None \<Rightarrow> (True, s)))"

record RoutingPolicy =
  rp_Version :: u64
  rp_WeightLoad :: real
  rp_WeightLatency :: real
  rp_WeightCost :: real
  rp_WeightAffinity :: real
  rp_WorkerWeights :: "(string \<times> (string \<times> real) list) list"

definition PolicyHolder_StoreIfNewer ::
  "RoutingPolicy option \<Rightarrow> RoutingPolicy option \<Rightarrow> bool \<times> RoutingPolicy option" where
  "PolicyHolder_StoreIfNewer h p =
     (case p of
        None \<Rightarrow> (False, h)
      | Some pl \<Rightarrow>
          (case h of
             Some cur \<Rightarrow> if rp_Version pl \<le> rp_Version cur then (False, h) else (True, p)
           | None \<Rightarrow> (True, p)))"

text \<open>What \<open>json.Unmarshal\<close> fills in \<open>parsePolicyJSON\<close>; \<open>Models\<close> maps a model to its weights.\<close>

record policy_wire =
  wire_Version :: u64
  wire_WeightLoad :: real
  wire_WeightLatency :: real
  wire_WeightCost :: real
  wire_WeightAffinity :: real
  wire_Models :: "(string \<times> (string \<times> real) list) list"

definition parsePolicyJSON :: "(string \<Rightarrow> goerr + policy_wire) \<Rightarrow> string \<Rightarrow> goerr + RoutingPolicy" where
  "parsePolicyJSON unmarshal raw =
     (case unmarshal raw of
        Inl e \<Rightarrow> Inl e
      | Inr wire \<Rightarrow>
          Inr \<lparr>rp_Version = wire_Version wire, rp_WeightLoad = wire_WeightLoad wire,
               rp_WeightLatency = wire_WeightLatency wire, rp_WeightCost = wire_WeightCost wire,
               rp_WeightAffinity = wire_WeightAffinity wire,
               rp_WorkerWeights = fold (\<lambda>(m, mp) ws. AList.update m mp ws) (wire_Models wire) []\<rparr>)"

text \<open>
  The subscribers. A message of the snapshot channel carries the snapshot; a message of the
  policy channel makes the subscriber read the policy key, so the run is a list of what those
  reads answered, the first at the start of the subscription.
\<close>

definition subscriber_msg ::
  "(string \<Rightarrow> goerr + RoutingSnapshot) \<Rightarrow> string \<Rightarrow> RoutingSnapshot option \<Rightarrow> RoutingSnapshot option" where
  "subscriber_msg unmarshal payload h =
     (case unmarshal payload of
        Inl _ \<Rightarrow> h
      | Inr snap \<Rightarrow> snd (SnapshotHolder_StoreIfNewer h (Some snap)))"

definition RunSubscriber ::
  "(string \<Rightarrow> goerr + RoutingSnapshot) \<Rightarrow> RoutingSnapshot option \<Rightarrow> string list \<Rightarrow> RoutingSnapshot option" where
  "RunSubscriber unmarshal h msgs = fold (subscriber_msg unmarshal) msgs h"

definition policy_read ::
  "(string \<Rightarrow> goerr + policy_wire) \<Rightarrow> goerr + string \<Rightarrow> RoutingPolicy option \<Rightarrow> RoutingPolicy option" where
  "policy_read unmarshal answer h =
     (case answer of
        Inl _ \<Rightarrow> h
      | Inr raw \<Rightarrow>
          (case parsePolicyJSON unmarshal raw of
             Inl _ \<Rightarrow> h
           | Inr p \<Rightarrow> snd (PolicyHolder_StoreIfNewer h (Some p))))"

definition RunPolicySubscriber ::
  "(string \<Rightarrow> goerr + policy_wire) \<Rightarrow> RoutingPolicy option \<Rightarrow> (goerr + string) list \<Rightarrow> RoutingPolicy option" where
  "RunPolicySubscriber unmarshal h answers = fold (policy_read unmarshal) answers h"

section \<open>Capabilities\<close>

text \<open>\<open>strconv.ParseUint\<close> in base ten: a non-empty run of digits whose value fits the width.\<close>

definition dec_value :: "string \<Rightarrow> nat" where
  "dec_value s = fold (\<lambda>c n. 10 * n + (of_char c - 48)) s 0"

definition ParseUint10 :: "nat \<Rightarrow> string \<Rightarrow> nat option" where
  "ParseUint10 bits s =
     (if s = '''' \<or> \<not> list_all is_digit s then None
      else if dec_value s < 2 ^ bits then Some (dec_value s) else None)"

definition PolicyVersion :: "string \<Rightarrow> u64 option" where
  "PolicyVersion raw = map_option of_nat (ParseUint10 64 raw)"

record CapabilityView =
  cv_Runtime :: string
  cv_MaxContext :: u32
  cv_VRAMGB :: real
  cv_GPU :: string
  cv_PerHourUSD :: real
  cv_Class :: string
  cv_Raw :: string_map

definition normalizeRuntime :: "string \<Rightarrow> string" where
  "normalizeRuntime kind =
     (let k = to_upper kind in
      if contains_str k ''VLLM'' then ''vllm''
      else if contains_str k ''OLLAMA'' then ''ollama''
      else if contains_str k ''MLX'' then ''mlx''
      else if contains_str k ''LLAMACPP'' then ''llamacpp''
      else if contains_str k ''FORGE'' then ''forge''
      else to_lower kind)"

definition ParseCapabilities ::
  "(string \<Rightarrow> string_map option) \<Rightarrow> (string \<Rightarrow> real option) \<Rightarrow> string \<Rightarrow> string \<Rightarrow> CapabilityView" where
  "ParseCapabilities unmarshal parseFloat raw runtimeKind =
     (let out = \<lparr>cv_Runtime = normalizeRuntime runtimeKind, cv_MaxContext = 0, cv_VRAMGB = 0,
                 cv_GPU = '''', cv_PerHourUSD = 0, cv_Class = '''', cv_Raw = []\<rparr> in
      if raw = '''' then out
      else
        (case unmarshal raw of
           None \<Rightarrow> out
         | Some m \<Rightarrow>
             (let float_at = (\<lambda>k. if get_str m k = '''' then 0
                                  else case parseFloat (get_str m k) of None \<Rightarrow> 0 | Some f \<Rightarrow> f);
                  cost = float_at ''cost_per_hour'' in
              \<lparr>cv_Runtime = (if get_str m ''runtime'' \<noteq> '''' then to_lower (get_str m ''runtime'')
                             else cv_Runtime out),
               cv_MaxContext = (case ParseUint10 32 (get_str m ''max_model_len'') of
                                  None \<Rightarrow> 0 | Some n \<Rightarrow> of_nat n),
               cv_VRAMGB = float_at ''vram_gb'',
               cv_GPU = get_str m ''gpu'',
               cv_PerHourUSD = cost,
               cv_Class = (if get_str m ''cost_class'' \<noteq> '''' then to_lower (get_str m ''cost_class'')
                           else if cost \<le> 0 then ''free'' else ''paid''),
               cv_Raw = m\<rparr>)))"

section \<open>The publisher\<close>

text \<open>The joined view of one registry row and its heartbeat, for a model or for none.\<close>

definition worker_view ::
  "CapabilityView \<Rightarrow> Worker \<Rightarrow> Heartbeat option \<Rightarrow> string \<Rightarrow> string \<Rightarrow> u32 \<Rightarrow> WorkerView" where
  "worker_view caps w hb base adapter maxCtx =
     \<lparr>wv_ID = mw_ID w,
      wv_Endpoint = (case hb of Some h \<Rightarrow> if hb_Addr h \<noteq> '''' then hb_Addr h else mw_Endpoint w
                     | None \<Rightarrow> mw_Endpoint w),
      wv_BaseModel = base, wv_Adapter = adapter,
      wv_Healthy = (hb \<noteq> None),
      wv_Ready = (case hb of Some h \<Rightarrow> hb_Ready h | None \<Rightarrow> False),
      wv_QueueDepth = (case hb of Some h \<Rightarrow> hb_QueueDepth h | None \<Rightarrow> 0),
      wv_InFlight = (case hb of Some h \<Rightarrow> hb_Inflight h | None \<Rightarrow> 0),
      wv_MaxContext = maxCtx,
      wv_CostPerHour = cv_PerHourUSD caps, wv_CostClass = cv_Class caps,
      wv_Runtime = cv_Runtime caps, wv_VRAMGB = cv_VRAMGB caps, wv_GPU = cv_GPU caps,
      wv_Capabilities = cv_Raw caps\<rparr>"

definition views_of_worker ::
  "(string \<Rightarrow> string \<Rightarrow> CapabilityView) \<Rightarrow> (string \<rightharpoonup> Heartbeat) \<Rightarrow> Worker \<Rightarrow> WorkerView list" where
  "views_of_worker parse hbByID w =
     (let caps = parse (mw_Capabilities w) (mw_RuntimeKind w); hb = hbByID (mw_ID w) in
      if mw_Models w = [] then [worker_view caps w hb '''' '''' (cv_MaxContext caps)]
      else map (\<lambda>m. worker_view caps w hb (sm_BaseModel m) (sm_Adapter m)
                      (if sm_MaxContext m = 0 then cv_MaxContext caps else sm_MaxContext m)) (mw_Models w))"

record Publisher =
  pb_epoch :: u64
  pb_holder :: "RoutingSnapshot option"

text \<open>
  \<open>buildSnapshot\<close>: \<open>listed\<close> is what the repository answered, \<open>hbs\<close> the health service's snapshot
  (\<^const>\<open>None\<close> when the publisher has none), \<open>virtual\<close> the views of the provider registry. The
  epoch counter moves only when the snapshot is built.
\<close>

definition buildSnapshot ::
  "(string \<Rightarrow> string \<Rightarrow> CapabilityView) \<Rightarrow> Publisher \<Rightarrow> goerr + Worker list \<Rightarrow> live option \<Rightarrow>
     WorkerView list option \<Rightarrow> int \<Rightarrow> (goerr + RoutingSnapshot) \<times> Publisher" where
  "buildSnapshot parse p listed hbs virtual now =
     (case listed of
        Inl e \<Rightarrow> (Inl e, p)
      | Inr workers \<Rightarrow>
          (let hbByID = (case hbs of
                 None \<Rightarrow> Map.empty
               | Some s \<Rightarrow> fold (\<lambda>hb m. m(hb_ID hb \<mapsto> hb)) (All_hb s) Map.empty);
               views = concat (map (views_of_worker parse hbByID) workers)
                       @ (case virtual of None \<Rightarrow> [] | Some vs \<Rightarrow> vs);
               ep = pb_epoch p + 1 in
           (Inr \<lparr>rs_BuiltAt = now, rs_Epoch = ep, rs_Workers = views\<rparr>, p\<lparr>pb_epoch := ep\<rparr>)))"

text \<open>
  \<open>tick\<close>: \<open>marshal\<close> is \<open>json.Marshal\<close> and \<open>refused\<close> the answer of \<open>PUBLISH\<close>. The last component
  is the payload that went to the channel.
\<close>

definition Publisher_tick ::
  "(string \<Rightarrow> string \<Rightarrow> CapabilityView) \<Rightarrow> (RoutingSnapshot \<Rightarrow> goerr + string) \<Rightarrow> Publisher \<Rightarrow>
     goerr + Worker list \<Rightarrow> live option \<Rightarrow> WorkerView list option \<Rightarrow> int \<Rightarrow> goerr option \<Rightarrow>
     goerr option \<times> Publisher \<times> string option" where
  "Publisher_tick parse marshal p listed hbs virtual now refused =
     (case buildSnapshot parse p listed hbs virtual now of
        (Inl e, p') \<Rightarrow> (Some e, p', None)
      | (Inr snap, p') \<Rightarrow>
          (case marshal snap of
             Inl e \<Rightarrow> (Some e, p', None)
           | Inr payload \<Rightarrow>
               (case refused of
                  Some e \<Rightarrow> (Some e, p', None)
                | None \<Rightarrow>
                    (None, p'\<lparr>pb_holder := snd (SnapshotHolder_StoreIfNewer (pb_holder p') (Some snap))\<rparr>,
                     Some payload))))"

section \<open>The holder interface\<close>

text \<open>
  What the two holders promise their callers, and what follows for any sequence of stores: the
  holder ends at the first of the newest versions it saw.
\<close>

locale versioned_holder =
  fixes ver :: "'p \<Rightarrow> u64"
    and store :: "'p option \<Rightarrow> 'p option \<Rightarrow> bool \<times> 'p option"
  assumes store_nil: "store h None = (False, h)"
    and store_first: "store None (Some p) = (True, Some p)"
    and store_newer: "ver c < ver p \<Longrightarrow> store (Some c) (Some p) = (True, Some p)"
    and store_stale: "ver p \<le> ver c \<Longrightarrow> store (Some c) (Some p) = (False, Some c)"
begin

lemma store_cases:
  "snd (store h (Some p)) =
     (case h of None \<Rightarrow> Some p | Some c \<Rightarrow> if ver c < ver p then Some p else Some c)"
  by (cases h) (auto simp: store_first store_newer store_stale)

lemma run_ge_start:
  "\<exists>c'. fold (\<lambda>p h. snd (store h (Some p))) ps (Some c) = Some c' \<and> ver c \<le> ver c'
      \<and> c' \<in> insert c (set ps) \<and> (\<forall>p \<in> set ps. ver p \<le> ver c')"
proof (induction ps arbitrary: c)
  case (Cons p ps)
  show ?case
  proof (cases "ver c < ver p")
    case True
    with Cons.IH [of p] show ?thesis by (auto simp: store_newer)
  next
    case False
    with Cons.IH [of c] show ?thesis by (force simp: store_stale)
  qed
qed simp

lemma run_from_nil:
  "fold (\<lambda>p h. snd (store h (Some p))) ps None = r \<Longrightarrow>
     (case r of None \<Rightarrow> ps = [] | Some c \<Rightarrow> c \<in> set ps \<and> (\<forall>p \<in> set ps. ver p \<le> ver c))"
proof (cases ps)
  case (Cons p qs)
  assume "fold (\<lambda>p h. snd (store h (Some p))) ps None = r"
  with Cons run_ge_start [of qs p] show ?thesis by (auto simp: store_first)
qed auto

lemma run_order_independent:
  assumes "set ps = set qs" and "inj_on ver (set ps)"
  shows "fold (\<lambda>p h. snd (store h (Some p))) ps None = fold (\<lambda>p h. snd (store h (Some p))) qs None"
proof -
  obtain r where r: "fold (\<lambda>p h. snd (store h (Some p))) ps None = r" by blast
  obtain q where q: "fold (\<lambda>p h. snd (store h (Some p))) qs None = q" by blast
  from run_from_nil [OF r] run_from_nil [OF q] assms show ?thesis
    by (auto simp: r q split: option.splits dest: inj_onD intro!: antisym)
qed

end

interpretation snapshot_holder: versioned_holder rs_Epoch SnapshotHolder_StoreIfNewer
  by unfold_locales (auto simp: SnapshotHolder_StoreIfNewer_def)

interpretation policy_holder: versioned_holder rp_Version PolicyHolder_StoreIfNewer
  by unfold_locales (auto simp: PolicyHolder_StoreIfNewer_def)

section \<open>StoreIfNewer as the code interleaves it\<close>

text \<open>
  Each call of \<open>StoreIfNewer\<close> is a thread \<open>t\<close> with a snapshot \<open>snap t\<close> of its own, so the thread
  names the pointer. A call loads the pointer, returns when the loaded snapshot is not older than
  its own, and otherwise swaps the pointer if it still is the one loaded, or starts over.
\<close>

datatype cas_pc = At_load | Loaded "nat option" | Returned bool

record cas_state =
  cs_ptr :: "nat option"
  cs_pc :: "nat \<Rightarrow> cas_pc"

definition cas_init :: cas_state where
  "cas_init = \<lparr>cs_ptr = None, cs_pc = (\<lambda>_. At_load)\<rparr>"

abbreviation set_pc :: "cas_state \<Rightarrow> nat \<Rightarrow> cas_pc \<Rightarrow> cas_state" where
  "set_pc s t q \<equiv> s\<lparr>cs_pc := (cs_pc s)(t := q)\<rparr>"

inductive cas_step :: "(nat \<Rightarrow> RoutingSnapshot) \<Rightarrow> nat set \<Rightarrow> cas_state \<Rightarrow> cas_state \<Rightarrow> bool"
  for snap :: "nat \<Rightarrow> RoutingSnapshot" and T :: "nat set" where
  load_stale:
    "t \<in> T \<Longrightarrow> cs_pc s t = At_load \<Longrightarrow> cs_ptr s = Some c \<Longrightarrow> rs_Epoch (snap t) \<le> rs_Epoch (snap c) \<Longrightarrow>
       cas_step snap T s (set_pc s t (Returned False))"
| load_newer:
    "t \<in> T \<Longrightarrow> cs_pc s t = At_load \<Longrightarrow>
       (case cs_ptr s of None \<Rightarrow> True | Some c \<Rightarrow> \<not> rs_Epoch (snap t) \<le> rs_Epoch (snap c)) \<Longrightarrow>
       cas_step snap T s (set_pc s t (Loaded (cs_ptr s)))"
| swap_ok:
    "t \<in> T \<Longrightarrow> cs_pc s t = Loaded c \<Longrightarrow> cs_ptr s = c \<Longrightarrow>
       cas_step snap T s ((set_pc s t (Returned True))\<lparr>cs_ptr := Some t\<rparr>)"
| swap_retry:
    "t \<in> T \<Longrightarrow> cs_pc s t = Loaded c \<Longrightarrow> cs_ptr s \<noteq> c \<Longrightarrow>
       cas_step snap T s (set_pc s t At_load)"

inductive cas_reachable :: "(nat \<Rightarrow> RoutingSnapshot) \<Rightarrow> nat set \<Rightarrow> cas_state \<Rightarrow> bool"
  for snap :: "nat \<Rightarrow> RoutingSnapshot" and T :: "nat set" where
  start: "cas_reachable snap T cas_init"
| step: "cas_reachable snap T s \<Longrightarrow> cas_step snap T s s' \<Longrightarrow> cas_reachable snap T s'"

text \<open>What a load still says of the pointer: it is the pointer, or the pointer became newer.\<close>

definition cas_inv :: "(nat \<Rightarrow> RoutingSnapshot) \<Rightarrow> cas_state \<Rightarrow> bool" where
  "cas_inv snap s \<longleftrightarrow>
     (\<forall>t c. cs_pc s t = Loaded (Some c) \<longrightarrow> rs_Epoch (snap c) < rs_Epoch (snap t))
   \<and> (\<forall>t b. cs_pc s t = Returned b \<longrightarrow>
        (\<exists>h. cs_ptr s = Some h \<and> rs_Epoch (snap t) \<le> rs_Epoch (snap h)))
   \<and> (\<forall>h. cs_ptr s = Some h \<longrightarrow> cs_pc s h = Returned True)"

lemma cas_step_inv [forge_inv]:
  assumes "cas_step snap T s s'" and "cas_inv snap s"
  shows "cas_inv snap s'"
  using assms
proof (induction rule: cas_step.induct)
  case (swap_ok t s c)
  have older: "rs_Epoch (snap h) \<le> rs_Epoch (snap t)" if "cs_ptr s = Some h" for h
    using swap_ok that by (auto simp: cas_inv_def intro: less_imp_le)
  have ret: "rs_Epoch (snap u) \<le> rs_Epoch (snap t)" if u: "cs_pc s u = Returned b" for u b
  proof -
    from swap_ok(4) u obtain h where "cs_ptr s = Some h" "rs_Epoch (snap u) \<le> rs_Epoch (snap h)"
      unfolding cas_inv_def by blast
    with older show ?thesis by (meson order_trans)
  qed
  show ?case using swap_ok(4) ret by (auto simp: cas_inv_def)
next
  case (load_newer t s)
  then show ?case by (cases "cs_ptr s") (auto simp: cas_inv_def)
qed (auto simp: cas_inv_def)

lemma cas_reachable_inv: "cas_reachable snap T s \<Longrightarrow> cas_inv snap s"
proof (induction rule: cas_reachable.induct)
  case start
  show ?case by (simp add: cas_init_def cas_inv_def)
qed (rule cas_step_inv)

definition held_snapshot :: "(nat \<Rightarrow> RoutingSnapshot) \<Rightarrow> cas_state \<Rightarrow> RoutingSnapshot option" where
  "held_snapshot snap s = map_option snap (cs_ptr s)"

text \<open>The calls still running, and how far they are from their next return.\<close>

definition cas_running :: "nat set \<Rightarrow> cas_state \<Rightarrow> nat" where
  "cas_running T s = card {t \<in> T. \<forall>b. cs_pc s t \<noteq> Returned b}"

fun pc_weight :: "nat option \<Rightarrow> cas_pc \<Rightarrow> nat" where
  "pc_weight ptr At_load = 1"
| "pc_weight ptr (Loaded c) = (if c = ptr then 0 else 2)"
| "pc_weight ptr (Returned b) = 0"

definition cas_distance :: "nat set \<Rightarrow> cas_state \<Rightarrow> nat" where
  "cas_distance T s = (\<Sum>t \<in> T. pc_weight (cs_ptr s) (cs_pc s t))"

lemma cas_running_return:
  assumes "finite T" and "t \<in> T" and "\<forall>b. cs_pc s t \<noteq> Returned b"
    and "cs_pc s' = (cs_pc s)(t := Returned b)"
  shows "cas_running T s' < cas_running T s"
proof -
  have "{u \<in> T. \<forall>b. cs_pc s' u \<noteq> Returned b} = {u \<in> T. \<forall>b. cs_pc s u \<noteq> Returned b} - {t}"
    using assms(4) by auto
  with assms(1-3) show ?thesis
    unfolding cas_running_def by (intro psubset_card_mono) auto
qed

lemma cas_running_keep:
  assumes "\<forall>b. cs_pc s t \<noteq> Returned b" and "\<forall>b. q \<noteq> Returned b"
  shows "cas_running T (set_pc s t q) = cas_running T s"
proof -
  have "{u \<in> T. \<forall>b. cs_pc (set_pc s t q) u \<noteq> Returned b} = {u \<in> T. \<forall>b. cs_pc s u \<noteq> Returned b}"
    using assms by auto
  then show ?thesis by (simp add: cas_running_def)
qed

lemma cas_distance_less:
  assumes "finite T" and "t \<in> T"
    and "pc_weight (cs_ptr s) q < pc_weight (cs_ptr s) (cs_pc s t)"
  shows "cas_distance T (set_pc s t q) < cas_distance T s"
  unfolding cas_distance_def
  by (rule sum_strict_mono_ex1) (use assms in \<open>auto simp: less_imp_le intro!: bexI [of _ t]\<close>)

lemma cas_step_measure:
  assumes "finite T" and "cas_step snap T s s'"
  shows "(s', s) \<in> measures [cas_running T, cas_distance T]"
  using assms(2)
proof (cases rule: cas_step.cases)
  case (load_stale t c)
  then show ?thesis using cas_running_return [OF assms(1), of t s s' False] by simp
next
  case (swap_ok t c)
  then show ?thesis using cas_running_return [OF assms(1), of t s s' True] by simp
next
  case (load_newer t)
  then show ?thesis
    using cas_running_keep [of s t "Loaded (cs_ptr s)" T]
      cas_distance_less [OF assms(1), of t s "Loaded (cs_ptr s)"] by simp
next
  case (swap_retry t c)
  then show ?thesis
    using cas_running_keep [of s t At_load T] cas_distance_less [OF assms(1), of t s At_load] by simp
qed

section \<open>The publisher: facts\<close>

lemma hbByID_lookup:
  "fold (\<lambda>hb m. m(hb_ID hb \<mapsto> hb)) hbs m i =
     (case find (\<lambda>hb. hb_ID hb = i) (rev hbs) of None \<Rightarrow> m i | Some hb \<Rightarrow> Some hb)"
  by (induction hbs rule: rev_induct) auto

text \<open>A live set as the health service builds it: each heartbeat under its own id, once.\<close>

definition live_ok :: "live \<Rightarrow> bool" where
  "live_ok s \<longleftrightarrow> distinct (map fst s) \<and> (\<forall>(i, hb) \<in> set s. hb_ID hb = i)"

lemma hbByID_live:
  assumes "live_ok s"
  shows "fold (\<lambda>hb m. m(hb_ID hb \<mapsto> hb)) (All_hb s) Map.empty = Get_hb s"
proof -
  have "fold (\<lambda>hb m. m(hb_ID hb \<mapsto> hb)) (map snd s) m = m ++ map_of s" for m
    using assms
  proof (induction s arbitrary: m)
    case (Cons x xs)
    obtain i hb where x: "x = (i, hb)" by (cases x)
    with Cons.prems have "hb_ID hb = i" "i \<notin> dom (map_of xs)" "live_ok xs"
      by (auto simp: live_ok_def dom_map_of_conv_image_fst)
    with Cons.IH [of "m(i \<mapsto> hb)"] x show ?case
      by (auto simp: map_add_def fun_eq_iff split: option.splits)
  qed simp
  from this [of Map.empty] show ?thesis by (simp add: All_hb_def Get_hb_def fun_eq_iff)
qed

lemma live_ok_Upsert [forge_inv]: "live_ok s \<Longrightarrow> live_ok (Upsert_hb s hb)"
proof -
  assume ok: "live_ok s"
  then have d: "distinct (map fst (Upsert_hb s hb))" by (simp add: live_ok_def Upsert_hb_def distinct_update)
  have "hb_ID h = i" if "(i, h) \<in> set (Upsert_hb s hb)" for i h
  proof -
    have "Get_hb (Upsert_hb s hb) i = Some h" using that d by (simp add: Get_hb_def)
    then have "h = hb \<and> i = hb_ID hb \<or> map_of s i = Some h"
      by (simp add: Get_hb_def [of s] split: if_splits)
    then show ?thesis using ok by (auto simp: live_ok_def dest: map_of_SomeD)
  qed
  with d show ?thesis by (auto simp: live_ok_def)
qed

lemma live_ok_Remove [forge_inv]: "live_ok s \<Longrightarrow> live_ok (Remove_hb s i)"
  using distinct_delete [of s i] by (auto simp: live_ok_def Remove_hb_def AList.delete_eq)

text \<open>The epoch the publisher holds is never ahead of its counter.\<close>

definition publisher_ok :: "Publisher \<Rightarrow> bool" where
  "publisher_ok p \<longleftrightarrow> (case pb_holder p of None \<Rightarrow> True | Some s \<Rightarrow> rs_Epoch s \<le> pb_epoch p)"

lemma epoch_suc: "e \<noteq> (- 1 :: u64) \<Longrightarrow> e < e + 1"
  using inc_less_eq_triv_imp [of e] by (metis linorder_not_less)

section \<open>Properties\<close>

text \<open>
  C5. Every execution of concurrent \<open>StoreIfNewer\<close> calls is one of atomic stores: a step of the
  interleaved loads and swaps either leaves the held snapshot and every result alone, or is the
  return of one call, which behaves as the sequential operation on the snapshot held at that
  moment.
\<close>

theorem store_if_newer_linearizable:
  assumes "cas_reachable snap T s" and "cas_step snap T s s'"
  shows "(held_snapshot snap s' = held_snapshot snap s \<and> (\<forall>t b. cs_pc s' t = Returned b \<longleftrightarrow> cs_pc s t = Returned b))
       \<or> (\<exists>t b. (\<forall>b'. cs_pc s t \<noteq> Returned b') \<and> cs_pc s' t = Returned b
            \<and> (\<forall>u. u \<noteq> t \<longrightarrow> cs_pc s' u = cs_pc s u)
            \<and> SnapshotHolder_StoreIfNewer (held_snapshot snap s) (Some (snap t)) = (b, held_snapshot snap s'))"
    (is "?stutter \<or> ?atomic")
proof -
  have inv: "cas_inv snap s" using assms(1) by (rule cas_reachable_inv)
  show ?thesis
    using assms(2)
  proof (cases rule: cas_step.cases)
    case (load_stale t c)
    then show ?thesis
      by (intro disjI2 exI [of _ t] exI [of _ False]) (simp add: held_snapshot_def snapshot_holder.store_stale)
  next
    case (swap_ok t c)
    have "(case cs_ptr s of None \<Rightarrow> True | Some h \<Rightarrow> rs_Epoch (snap h) < rs_Epoch (snap t))"
      using swap_ok inv by (auto simp: cas_inv_def split: option.splits)
    with swap_ok show ?thesis
      by (intro disjI2 exI [of _ t] exI [of _ True])
        (auto simp: held_snapshot_def snapshot_holder.store_newer snapshot_holder.store_first split: option.splits)
  qed (auto simp: held_snapshot_def)
qed

theorem store_if_newer_linearizable_witness:
  "\<exists>s s' :: cas_state. cas_step (\<lambda>t. \<lparr>rs_BuiltAt = 0, rs_Epoch = of_nat t, rs_Workers = []\<rparr>) {1, 2} s s'
     \<and> held_snapshot (\<lambda>t. \<lparr>rs_BuiltAt = 0, rs_Epoch = of_nat t, rs_Workers = []\<rparr>) s' \<noteq> None"
proof -
  let ?snap = "\<lambda>t. \<lparr>rs_BuiltAt = 0, rs_Epoch = of_nat t :: u64, rs_Workers = []\<rparr>"
  let ?s1 = "set_pc cas_init 1 (Loaded None)"
  let ?s2 = "(set_pc ?s1 1 (Returned True))\<lparr>cs_ptr := Some 1\<rparr>"
  have a: "cas_step ?snap {1, 2} cas_init ?s1"
    using cas_step.load_newer [of 1 "{1, 2}" cas_init ?snap] by (simp add: cas_init_def)
  have b: "cas_step ?snap {1, 2} ?s1 ?s2"
    using cas_step.swap_ok [of 1 "{1, 2}" ?s1 None ?snap] by (simp add: cas_init_def)
  have r: "cas_reachable ?snap {1, 2} ?s1" by (rule cas_reachable.step [OF cas_reachable.start a])
  from store_if_newer_linearizable [OF r b] have "held_snapshot ?snap ?s2 \<noteq> None"
    by (auto simp: cas_init_def held_snapshot_def)
  with b show ?thesis by blast
qed

text \<open>
  The retry loop of \<open>StoreIfNewer\<close> ends: finitely many concurrent calls cannot retry forever
  under any schedule, because a swap fails only when another call's swap succeeded; and when no
  step is left, every call has returned and the holder has a snapshot at least as new as each.
\<close>

theorem store_if_newer_terminates:
  assumes "finite T"
  shows "wfP (\<lambda>s' s. cas_step snap T s s')
       \<and> (\<forall>s. cas_reachable snap T s \<and> (\<nexists>s'. cas_step snap T s s') \<longrightarrow>
            (\<forall>t \<in> T. \<exists>b h. cs_pc s t = Returned b \<and> held_snapshot snap s = Some h
                        \<and> rs_Epoch (snap t) \<le> rs_Epoch h))"
proof (intro conjI allI impI ballI)
  show "wfP (\<lambda>s' s. cas_step snap T s s')"
    unfolding wfp_def by (rule wf_subset [OF wf_measures]) (use cas_step_measure [OF assms] in blast)
next
  fix s t
  assume s: "cas_reachable snap T s \<and> (\<nexists>s'. cas_step snap T s s')" and t: "t \<in> T"
  have "\<exists>b. cs_pc s t = Returned b"
  proof (cases "cs_pc s t")
    case At_load
    have "\<exists>s'. cas_step snap T s s'"
    proof (cases "case cs_ptr s of None \<Rightarrow> True | Some c \<Rightarrow> \<not> rs_Epoch (snap t) \<le> rs_Epoch (snap c)")
      case True
      with At_load t show ?thesis by (blast intro: cas_step.load_newer)
    next
      case False
      then obtain c where "cs_ptr s = Some c" "rs_Epoch (snap t) \<le> rs_Epoch (snap c)"
        by (auto split: option.splits)
      with At_load t show ?thesis by (blast intro: cas_step.load_stale)
    qed
    with s show ?thesis by blast
  next
    case (Loaded c)
    with t have "\<exists>s'. cas_step snap T s s'" by (blast intro: cas_step.swap_ok cas_step.swap_retry)
    with s show ?thesis by blast
  qed simp
  moreover have "cas_inv snap s" using s cas_reachable_inv by blast
  ultimately show "\<exists>b h. cs_pc s t = Returned b \<and> held_snapshot snap s = Some h \<and> rs_Epoch (snap t) \<le> rs_Epoch h"
    by (fastforce simp: cas_inv_def held_snapshot_def)
qed

theorem store_if_newer_terminates_witness:
  "wfP (\<lambda>s' s. cas_step (\<lambda>t. \<lparr>rs_BuiltAt = 0, rs_Epoch = of_nat t, rs_Workers = []\<rparr>) {1, 2, 3} s s')"
  using store_if_newer_terminates [of "{1, 2, 3}"] by simp

definition decoded :: "(string \<Rightarrow> goerr + RoutingSnapshot) \<Rightarrow> string list \<Rightarrow> RoutingSnapshot list" where
  "decoded unmarshal msgs = List.map_filter (\<lambda>m. case unmarshal m of Inl _ \<Rightarrow> None | Inr s \<Rightarrow> Some s) msgs"

lemma RunSubscriber_decoded:
  "RunSubscriber unmarshal h msgs =
     fold (\<lambda>s h. snd (SnapshotHolder_StoreIfNewer h (Some s))) (decoded unmarshal msgs) h"
  by (induction msgs arbitrary: h)
    (simp_all add: RunSubscriber_def decoded_def subscriber_msg_def List.map_filter_simps split: sum.splits)

text \<open>
  A subscriber ends at the newest snapshot it was sent: whatever the order and the malformed
  messages in between, the holder has one of the snapshots decoded, none of them is newer, and it
  is empty only when no message could be decoded. Two subscribers that were sent the same
  snapshots hold the same one, when different snapshots have different epochs.
\<close>

theorem subscriber_newest:
  "(case RunSubscriber unmarshal None msgs of
      None \<Rightarrow> decoded unmarshal msgs = []
    | Some s \<Rightarrow> s \<in> set (decoded unmarshal msgs)
              \<and> (\<forall>s' \<in> set (decoded unmarshal msgs). rs_Epoch s' \<le> rs_Epoch s))
   \<and> (set (decoded unmarshal msgs) = set (decoded unmarshal msgs')
      \<and> inj_on rs_Epoch (set (decoded unmarshal msgs)) \<longrightarrow>
        RunSubscriber unmarshal None msgs = RunSubscriber unmarshal None msgs')"
  using snapshot_holder.run_from_nil [OF refl, of "decoded unmarshal msgs"]
    snapshot_holder.run_order_independent [of "decoded unmarshal msgs" "decoded unmarshal msgs'"]
  unfolding RunSubscriber_decoded by blast

definition demo_unmarshal :: "string \<Rightarrow> goerr + RoutingSnapshot" where
  "demo_unmarshal m =
     (case ParseUint10 64 m of
        None \<Rightarrow> Inl (PlainErr ''bad'')
      | Some n \<Rightarrow> Inr \<lparr>rs_BuiltAt = 0, rs_Epoch = of_nat n, rs_Workers = []\<rparr>)"

theorem subscriber_newest_witness:
  "RunSubscriber demo_unmarshal None [''1'', ''x'', ''2''] = RunSubscriber demo_unmarshal None [''2'', ''1'']"
proof -
  have d: "decoded demo_unmarshal [''1'', ''x'', ''2''] =
      [\<lparr>rs_BuiltAt = 0, rs_Epoch = 1, rs_Workers = []\<rparr>, \<lparr>rs_BuiltAt = 0, rs_Epoch = 2, rs_Workers = []\<rparr>]"
    "decoded demo_unmarshal [''2'', ''1''] =
      [\<lparr>rs_BuiltAt = 0, rs_Epoch = 2, rs_Workers = []\<rparr>, \<lparr>rs_BuiltAt = 0, rs_Epoch = 1, rs_Workers = []\<rparr>]"
    by (simp_all add: decoded_def demo_unmarshal_def List.map_filter_simps ParseUint10_def is_digit_def
        dec_value_def)
  then have "set (decoded demo_unmarshal [''1'', ''x'', ''2'']) = set (decoded demo_unmarshal [''2'', ''1''])"
    by auto
  moreover have "inj_on rs_Epoch (set (decoded demo_unmarshal [''1'', ''x'', ''2'']))"
    by (simp add: d)
  ultimately show ?thesis using subscriber_newest by blast
qed

text \<open>
  One publication: when the registry answers and Redis accepts the message, the holder has the
  snapshot just built, its epoch one higher than the last. Its views are, worker by worker, one
  per model (one without a model for a worker that has none), healthy exactly when a heartbeat is
  live, with the heartbeat's readiness, load and address, followed by the virtual workers. When
  any of the three fails the holder keeps the snapshot it had.
\<close>

theorem publish_tick:
  assumes "publisher_ok p" and "pb_epoch p \<noteq> - 1" and "live_ok hbs"
    and "Publisher_tick parse marshal p listed (Some hbs) virtual now refused = (err, p', sent)"
  shows "publisher_ok p'
    \<and> (err \<noteq> None \<longrightarrow> pb_holder p' = pb_holder p \<and> sent = None)
    \<and> (err = None \<longrightarrow>
        (\<exists>workers. listed = Inr workers \<and> refused = None
          \<and> pb_holder p' = Some \<lparr>rs_BuiltAt = now, rs_Epoch = pb_epoch p + 1,
              rs_Workers = concat (map (views_of_worker parse (Get_hb hbs)) workers)
                           @ (case virtual of None \<Rightarrow> [] | Some vs \<Rightarrow> vs)\<rparr>))"
proof (cases listed)
  case (Inl e)
  with assms show ?thesis by (auto simp: Publisher_tick_def buildSnapshot_def)
next
  case (Inr workers)
  define snap where "snap = \<lparr>rs_BuiltAt = now, rs_Epoch = pb_epoch p + 1,
      rs_Workers = concat (map (views_of_worker parse (Get_hb hbs)) workers)
                   @ (case virtual of None \<Rightarrow> [] | Some vs \<Rightarrow> vs)\<rparr>"
  have step: "pb_epoch p < pb_epoch p + 1" using assms(2) by (rule epoch_suc)
  have b: "buildSnapshot parse p listed (Some hbs) virtual now = (Inr snap, p\<lparr>pb_epoch := pb_epoch p + 1\<rparr>)"
    using assms(3) by (simp add: buildSnapshot_def Inr hbByID_live Let_def snap_def)
  have stored: "snd (SnapshotHolder_StoreIfNewer (pb_holder p) (Some snap)) = Some snap"
    using assms(1) step
    by (auto simp: snapshot_holder.store_cases publisher_ok_def snap_def split: option.splits)
  have ok: "publisher_ok (p\<lparr>pb_epoch := pb_epoch p + 1\<rparr>)"
    using assms(1) step by (auto simp: publisher_ok_def split: option.splits)
  have ok': "publisher_ok (p\<lparr>pb_epoch := pb_epoch p + 1, pb_holder := Some snap\<rparr>)"
    by (simp add: publisher_ok_def snap_def)
  have tick: "(err, p', sent) =
      (case marshal snap of
         Inl e \<Rightarrow> (Some e, p\<lparr>pb_epoch := pb_epoch p + 1\<rparr>, None)
       | Inr payload \<Rightarrow>
           (case refused of
              Some e \<Rightarrow> (Some e, p\<lparr>pb_epoch := pb_epoch p + 1\<rparr>, None)
            | None \<Rightarrow> (None, p\<lparr>pb_epoch := pb_epoch p + 1, pb_holder := Some snap\<rparr>, Some payload)))"
    using assms(4) stored by (auto simp: Publisher_tick_def b split: sum.splits option.splits)
  show ?thesis
    using tick ok ok' Inr by (cases "marshal snap"; cases refused) (auto simp: snap_def)
qed

definition demo_views :: "WorkerView list" where
  "demo_views = [\<lparr>wv_ID = ''v'', wv_Endpoint = '''', wv_BaseModel = ''m'', wv_Adapter = '''',
     wv_Healthy = True, wv_Ready = True, wv_QueueDepth = 0, wv_InFlight = 0, wv_MaxContext = 0,
     wv_CostPerHour = 0, wv_CostClass = '''', wv_Runtime = ''provider'', wv_VRAMGB = 0, wv_GPU = '''',
     wv_Capabilities = []\<rparr>]"

theorem publish_tick_witness:
  "\<exists>p' sent. Publisher_tick (ParseCapabilities (\<lambda>_. None) (\<lambda>_. None)) (\<lambda>_. Inr ''json'')
       \<lparr>pb_epoch = 4, pb_holder = None\<rparr> (Inr []) (Some []) (Some demo_views) 9 None = (None, p', sent)
     \<and> pb_holder p' = Some \<lparr>rs_BuiltAt = 9, rs_Epoch = 5, rs_Workers = demo_views\<rparr>"
proof -
  let ?p = "\<lparr>pb_epoch = 4, pb_holder = None\<rparr>"
  let ?t = "Publisher_tick (ParseCapabilities (\<lambda>_. None) (\<lambda>_. None)) (\<lambda>_. Inr ''json'') ?p (Inr [])
     (Some []) (Some demo_views) 9 None"
  obtain p' sent where t: "?t = (None, p', sent)"
    by (simp add: Publisher_tick_def buildSnapshot_def Let_def)
  show ?thesis using publish_tick [OF _ _ _ t] t by (simp add: publisher_ok_def live_ok_def)
qed

end
