(* ===== verification/Cache_Registry.thy ===== *)
theory Cache_Registry
  imports Routing
begin

text \<open>
  The KV-cache registry: the block keys of \<open>services/cacheregistry/blockkey.go\<close> with the FNV-1a hash
  written out, the index of \<open>index.go\<close> and the service of \<open>service.go\<close> that applies cache events to it
  and publishes what the scheduler scores with. Lemmas: the chunks partition the tokens, a prompt's
  block keys depend on its prefix only, and the index refines a relation between workers and
  blocks.
\<close>

section \<open>Block keys\<close>

definition DefaultBlockSize :: int where "DefaultBlockSize = 256"

function chunk :: "nat \<Rightarrow> 'a list \<Rightarrow> 'a list list" where
  "chunk n xs = (if xs = [] \<or> n = 0 then [] else take n xs # chunk n (drop n xs))"
  by pat_completeness auto
termination by (relation "measure (\<lambda>(n, xs). length xs)") auto

declare chunk.simps [simp del]

definition ChunkTokens :: "u32 list \<Rightarrow> int \<Rightarrow> u32 list list" where
  "ChunkTokens tokenIDs blockSize =
     chunk (nat (if blockSize \<le> 0 then DefaultBlockSize else blockSize)) tokenIDs"

text \<open>\<open>hash/fnv\<close>, 64-bit FNV-1a, and \<open>binary.Write\<close> in little-endian order of \<open>n\<close> bytes.\<close>

definition fnv1a :: "u64 \<Rightarrow> nat list \<Rightarrow> u64" where
  "fnv1a h bs = fold (\<lambda>b h. (h XOR of_nat b) * 1099511628211) bs h"

definition fnv_offset :: u64 where "fnv_offset = 14695981039346656037"

definition le_bytes :: "nat \<Rightarrow> nat \<Rightarrow> nat list" where
  "le_bytes n x = map (\<lambda>i. x div 256 ^ i mod 256) [0..<n]"

definition block_hash :: "string \<Rightarrow> u64 \<Rightarrow> u32 list \<Rightarrow> u64" where
  "block_hash adapter parent ch =
     fnv1a fnv_offset
       (map of_char adapter @ le_bytes 8 (unat parent)
        @ le_bytes 4 (unat (of_nat (length ch) :: u32))
        @ concat (map (\<lambda>t. le_bytes 4 (unat t)) ch))"

fun hash_chain :: "string \<Rightarrow> u64 \<Rightarrow> u32 list list \<Rightarrow> u64 list" where
  "hash_chain adapter parent [] = []"
| "hash_chain adapter parent (ch # chs) =
     (let key = block_hash adapter parent ch in key # hash_chain adapter key chs)"

definition HashBlocks :: "u32 list \<Rightarrow> int \<Rightarrow> string \<Rightarrow> u64 list" where
  "HashBlocks tokenIDs blockSize adapter = hash_chain adapter 0 (ChunkTokens tokenIDs blockSize)"

text \<open>The tokens of a prompt are its runes.\<close>

definition HashPromptApprox :: "string \<Rightarrow> int \<Rightarrow> string \<Rightarrow> u64 list" where
  "HashPromptApprox prompt blockSize adapter =
     (if prompt = '''' then []
      else HashBlocks (map of_nat (go_runes (map of_char prompt))) blockSize adapter)"

fun lcp_loop :: "u64 list \<Rightarrow> (u64 \<rightharpoonup> real) \<Rightarrow> int \<Rightarrow> real \<Rightarrow> int \<times> real" where
  "lcp_loop [] have blocks score = (blocks, score)"
| "lcp_loop (h # want) have blocks score =
     (case have h of
        None \<Rightarrow> (blocks, score)
      | Some w \<Rightarrow>
          lcp_loop want have (blocks + 1)
            (score + of_int DefaultBlockSize * (if w \<le> 0 then 1 else w)))"

definition LongestConsecutivePrefix :: "u64 list \<Rightarrow> (u64 \<rightharpoonup> real) \<Rightarrow> int \<times> real" where
  "LongestConsecutivePrefix want have = lcp_loop want have 0 0"

section \<open>The index\<close>

record BlockLocation =
  bl_WorkerID :: string
  bl_Tier :: string
  bl_Weight :: real

text \<open>
  \<open>byBlock\<close> is only looked up; \<open>byWorker\<close> is copied into the snapshot, so it is an association
  list. A nil inner map reads as empty and a delete from it does nothing.
\<close>

type_synonym worker_blocks = "(string \<times> (u64 \<times> real) list) list"

record Index =
  ix_byBlock :: "string \<rightharpoonup> (u64 \<rightharpoonup> (string \<rightharpoonup> BlockLocation))"
  ix_byWorker :: worker_blocks

definition NewIndex :: Index where
  "NewIndex = \<lparr>ix_byBlock = Map.empty, ix_byWorker = []\<rparr>"

definition ns :: "string \<Rightarrow> string \<Rightarrow> string" where
  "ns base adapter = (if adapter = '''' then base else base @ ''#'' @ adapter)"

definition blocks_of :: "worker_blocks \<Rightarrow> string \<Rightarrow> (u64 \<times> real) list" where
  "blocks_of bw w = (case map_of bw w of None \<Rightarrow> [] | Some bs \<Rightarrow> bs)"

definition store_block :: "string \<Rightarrow> string \<Rightarrow> string \<Rightarrow> real \<Rightarrow> u64 \<Rightarrow> Index \<Rightarrow> Index" where
  "store_block key workerID tier weight h idx =
     (let m = (case ix_byBlock idx key of None \<Rightarrow> Map.empty | Some m \<Rightarrow> m);
          locs = (case m h of None \<Rightarrow> Map.empty | Some l \<Rightarrow> l);
          loc = \<lparr>bl_WorkerID = workerID, bl_Tier = tier, bl_Weight = weight\<rparr> in
      \<lparr>ix_byBlock = (ix_byBlock idx)(key \<mapsto> m(h \<mapsto> locs(workerID \<mapsto> loc))),
       ix_byWorker = AList.update workerID
         (AList.update h weight (blocks_of (ix_byWorker idx) workerID)) (ix_byWorker idx)\<rparr>)"

definition Index_Store :: "Index \<Rightarrow> string \<Rightarrow> string \<Rightarrow> string \<Rightarrow> string \<Rightarrow> u64 list \<Rightarrow> Index" where
  "Index_Store idx base adapter workerID tier hashes =
     (if workerID = '''' \<or> hashes = [] then idx
      else fold (store_block (ns base adapter) workerID tier (if tier = ''cpu'' then 4/5 else 1)) hashes idx)"

text \<open>\<open>delete(locs, workerID)\<close> in every namespace that has the block.\<close>

definition drop_location ::
  "string \<Rightarrow> u64 \<Rightarrow> (string \<rightharpoonup> (u64 \<rightharpoonup> (string \<rightharpoonup> BlockLocation))) \<Rightarrow>
     (string \<rightharpoonup> (u64 \<rightharpoonup> (string \<rightharpoonup> BlockLocation)))" where
  "drop_location workerID h byBlock =
     (\<lambda>key. map_option
        (\<lambda>m. case m h of None \<Rightarrow> m | Some locs \<Rightarrow> m(h \<mapsto> locs(workerID := None))) (byBlock key))"

definition remove_block :: "string \<Rightarrow> u64 \<Rightarrow> Index \<Rightarrow> Index" where
  "remove_block workerID h idx =
     \<lparr>ix_byBlock = drop_location workerID h (ix_byBlock idx),
      ix_byWorker =
        (case map_of (ix_byWorker idx) workerID of
           None \<Rightarrow> ix_byWorker idx
         | Some bs \<Rightarrow> AList.update workerID (AList.delete h bs) (ix_byWorker idx))\<rparr>"

definition Index_Remove :: "Index \<Rightarrow> string \<Rightarrow> u64 list \<Rightarrow> Index" where
  "Index_Remove idx workerID hashes = fold (remove_block workerID) hashes idx"

definition ClearWorker :: "Index \<Rightarrow> string \<Rightarrow> Index" where
  "ClearWorker idx workerID =
     \<lparr>ix_byBlock = fold (drop_location workerID) (map fst (blocks_of (ix_byWorker idx) workerID)) (ix_byBlock idx),
      ix_byWorker = AList.delete workerID (ix_byWorker idx)\<rparr>"

definition WorkerBlocks :: "Index \<Rightarrow> string \<Rightarrow> (u64 \<times> real) list" where
  "WorkerBlocks idx workerID = blocks_of (ix_byWorker idx) workerID"

definition SnapshotForScoring :: "Index \<Rightarrow> worker_blocks" where
  "SnapshotForScoring idx = ix_byWorker idx"

text \<open>\<open>Persist\<close> as the Redis commands of its pipeline; \<open>hex\<close> prints a hash.\<close>

datatype cache_cmd = SAdd string string | Expire string duration

definition Persist :: "(u64 \<Rightarrow> string) \<Rightarrow> string \<Rightarrow> string \<Rightarrow> string \<Rightarrow> u64 list \<Rightarrow> cache_cmd list" where
  "Persist hex base adapter workerID hashes =
     concat (map (\<lambda>h. let key = ''forge:cache:'' @ ns base adapter @ '':block:'' @ hex h in
                      [SAdd key workerID, Expire key (60 * second)]) hashes)"

section \<open>The service\<close>

record Event =
  ev_Type :: string
  ev_WorkerID :: string
  ev_BaseModel :: string
  ev_Adapter :: string
  ev_Tier :: string
  ev_Hashes :: "u64 list"

record CacheSnapshot =
  cs_WorkerBlocks :: worker_blocks
  cs_BuiltAt :: int

record CacheService =
  sv_index :: Index
  sv_holder :: "CacheSnapshot option"

definition publishSnapshot :: "CacheService \<Rightarrow> int \<Rightarrow> CacheService" where
  "publishSnapshot s now =
     s\<lparr>sv_holder := Some \<lparr>cs_WorkerBlocks = SnapshotForScoring (sv_index s), cs_BuiltAt = now\<rparr>\<rparr>"

definition NewCacheService :: "int \<Rightarrow> CacheService" where
  "NewCacheService now = publishSnapshot \<lparr>sv_index = NewIndex, sv_holder = None\<rparr> now"

definition apply_index :: "Event \<Rightarrow> Index \<Rightarrow> Index" where
  "apply_index ev idx =
     (if ev_Type ev = ''stored''
      then Index_Store idx (ev_BaseModel ev) (ev_Adapter ev) (ev_WorkerID ev) (ev_Tier ev) (ev_Hashes ev)
      else if ev_Type ev = ''removed'' then Index_Remove idx (ev_WorkerID ev) (ev_Hashes ev)
      else if ev_Type ev = ''cleared'' then ClearWorker idx (ev_WorkerID ev)
      else idx)"

definition Apply :: "CacheService \<Rightarrow> Event \<Rightarrow> int \<Rightarrow> CacheService" where
  "Apply s ev now = publishSnapshot (s\<lparr>sv_index := apply_index ev (sv_index s)\<rparr>) now"

text \<open>
  \<open>Report\<close> applies the event, persists it and publishes it on the events channel, from where
  every subscriber (this process too) applies it: the last component is the message.
\<close>

definition Report ::
  "(u64 \<Rightarrow> string) \<Rightarrow> CacheService \<Rightarrow> string \<Rightarrow> string \<Rightarrow> string \<Rightarrow> string \<Rightarrow> u64 list \<Rightarrow> int \<Rightarrow>
     CacheService \<times> cache_cmd list \<times> Event" where
  "Report hex s workerID base adapter tier hashes now =
     (let ev = \<lparr>ev_Type = ''stored'', ev_WorkerID = workerID, ev_BaseModel = base, ev_Adapter = adapter,
                ev_Tier = tier, ev_Hashes = hashes\<rparr> in
      (Apply s ev now, Persist hex base adapter workerID hashes, ev))"

text \<open>The subscription: one message, decoded by \<open>json.Unmarshal\<close>, at the time it is handled.\<close>

definition subscribe_msg :: "(string \<Rightarrow> Event option) \<Rightarrow> string \<times> int \<Rightarrow> CacheService \<Rightarrow> CacheService" where
  "subscribe_msg unmarshal m s =
     (case unmarshal (fst m) of None \<Rightarrow> s | Some ev \<Rightarrow> Apply s ev (snd m))"

definition InjectIntoRouting :: "RoutingSnapshot option \<Rightarrow> CacheSnapshot option \<Rightarrow> RoutingSnapshot option" where
  "InjectIntoRouting snap cache =
     (case (snap, cache) of
        (Some s, Some c) \<Rightarrow>
          Some (s\<lparr>rs_Workers := map (\<lambda>w.
             if blocks_of (cs_WorkerBlocks c) (wv_ID w) \<noteq> []
             then w\<lparr>wv_Capabilities := AList.update ''cache_blocks'' ''1'' (wv_Capabilities w)\<rparr>
             else w) (rs_Workers s)\<rparr>)
      | _ \<Rightarrow> snap)"

section \<open>Facts: block keys\<close>

lemma concat_chunk: "0 < n \<Longrightarrow> concat (chunk n xs) = xs"
  by (induction n xs rule: chunk.induct) (subst chunk.simps, simp)

lemma chunk_lengths: "c \<in> set (chunk n xs) \<Longrightarrow> c \<noteq> [] \<and> length c \<le> n"
proof (induction n xs rule: chunk.induct)
  case (1 n xs)
  then show ?case by (subst (asm) (2) chunk.simps) (auto split: if_splits)
qed

lemma chunk_nth:
  "i < length (chunk n xs) \<Longrightarrow> chunk n xs ! i = take n (drop (i * n) xs)"
proof (induction n xs arbitrary: i rule: chunk.induct)
  case (1 n xs)
  have ne: "\<not> (xs = [] \<or> n = 0)" using 1(2) by (subst (asm) chunk.simps) (auto split: if_splits)
  then have c: "chunk n xs = take n xs # chunk n (drop n xs)" by (subst chunk.simps) simp
  show ?case
  proof (cases i)
    case (Suc j)
    with 1(1) [OF ne, of j] 1(2) c show ?thesis by (simp add: add.commute)
  qed (simp add: c)
qed

lemma length_chunk: "0 < n \<Longrightarrow> length (chunk n xs) = (length xs + n - 1) div n"
proof (induction n xs rule: chunk.induct)
  case (1 n xs)
  show ?case
  proof (cases "xs = []")
    case False
    with 1 have "length (chunk n xs) = Suc ((length (drop n xs) + n - 1) div n)"
      by (subst chunk.simps) simp
    also have "\<dots> = (length xs + n - 1) div n"
    proof (cases "n \<le> length xs")
      case True
      then have "length xs + n - 1 = (length (drop n xs) + n - 1) + n" using \<open>0 < n\<close> by simp
      then show ?thesis using \<open>0 < n\<close> by (simp only: div_add_self2)
    next
      case False
      obtain m where "length xs = Suc m" using \<open>xs \<noteq> []\<close> by (cases xs) auto
      with False \<open>0 < n\<close> have "(length xs + n - 1) div n = 1" by (intro div_nat_eqI) auto
      with False \<open>0 < n\<close> show ?thesis by simp
    qed
    finally show ?thesis .
  qed (use 1 in \<open>simp add: chunk.simps\<close>)
qed

lemma length_hash_chain [simp]: "length (hash_chain a p chs) = length chs"
  by (induction chs arbitrary: p) (simp_all add: Let_def)

lemma take_hash_chain: "take k (hash_chain a p chs) = hash_chain a p (take k chs)"
proof (induction chs arbitrary: p k)
  case (Cons c chs)
  then show ?case by (cases k) (simp_all add: Let_def)
qed simp

lemma chunk_prefix:
  assumes "0 < n" and "k * n \<le> length xs"
  shows "take k (chunk n (xs @ ys)) = take k (chunk n xs)"
proof (rule nth_equalityI)
  have k: "k \<le> length (chunk n zs)" if "k * n \<le> length zs" for zs
  proof -
    have "k = k * n div n" using assms(1) by simp
    also have "\<dots> \<le> (length zs + n - 1) div n" using that assms(1) by (intro div_le_mono) simp
    finally show ?thesis using assms(1) by (simp add: length_chunk)
  qed
  show "length (take k (chunk n (xs @ ys))) = length (take k (chunk n xs))"
    using k [of xs] k [of "xs @ ys"] assms(2) by simp
  fix i assume "i < length (take k (chunk n (xs @ ys)))"
  then have i: "i < k" "i < length (chunk n (xs @ ys))" by simp_all
  moreover have "i < length (chunk n xs)" using i k [OF assms(2)] by simp
  moreover have "i * n + n \<le> length xs"
    using i(1) assms(2) mult_le_mono1 [of "Suc i" k n] by simp
  ultimately show "take k (chunk n (xs @ ys)) ! i = take k (chunk n xs) ! i"
    by (simp add: chunk_nth)
qed

section \<open>Facts: the index\<close>

text \<open>
  What the index says: the weight a worker holds a block with, and where the block is located in
  a namespace. The two directions agree in a consistent index.
\<close>

definition holds_block :: "Index \<Rightarrow> string \<times> u64 \<Rightarrow> real option" where
  "holds_block idx = (\<lambda>(w, h). map_of (blocks_of (ix_byWorker idx) w) h)"

definition located :: "(string \<rightharpoonup> (u64 \<rightharpoonup> (string \<rightharpoonup> BlockLocation))) \<Rightarrow> string \<Rightarrow> u64 \<Rightarrow> string \<Rightarrow> bool" where
  "located byBlock key h w \<longleftrightarrow>
     (case byBlock key of None \<Rightarrow> False
      | Some m \<Rightarrow> (case m h of None \<Rightarrow> False | Some locs \<Rightarrow> locs w \<noteq> None))"

definition index_ok :: "Index \<Rightarrow> bool" where
  "index_ok idx \<longleftrightarrow>
     (\<forall>w h. holds_block idx (w, h) \<noteq> None \<longleftrightarrow> (\<exists>key. located (ix_byBlock idx) key h w))"

lemma blocks_of_update [simp]:
  "blocks_of (AList.update w bs bw) w' = (if w' = w then bs else blocks_of bw w')"
  by (simp add: blocks_of_def update_conv)

lemma blocks_of_delete [simp]:
  "blocks_of (AList.delete w bw) w' = (if w' = w then [] else blocks_of bw w')"
  by (simp add: blocks_of_def delete_conv)

lemma holds_store_block:
  "holds_block (store_block key w t wt h idx) = (holds_block idx)((w, h) \<mapsto> wt)"
  by (auto simp: fun_eq_iff holds_block_def store_block_def Let_def update_conv)

lemma located_store_block:
  "located (ix_byBlock (store_block key w t wt h idx)) key' h' w' \<longleftrightarrow>
     key' = key \<and> h' = h \<and> w' = w \<or> located (ix_byBlock idx) key' h' w'"
  by (auto simp: located_def store_block_def Let_def split: option.splits)

lemma index_ok_store_block [forge_inv]:
  "index_ok idx \<Longrightarrow> index_ok (store_block key w t wt h idx)"
  unfolding index_ok_def holds_store_block located_store_block by auto

lemma located_drop_location:
  "located (drop_location w h bb) key' h' w' \<longleftrightarrow> located bb key' h' w' \<and> \<not> (h' = h \<and> w' = w)"
  by (auto simp: located_def drop_location_def split: option.splits)

lemma located_fold_drop:
  "located (fold (drop_location w) hs bb) key' h' w' \<longleftrightarrow>
     located bb key' h' w' \<and> \<not> (h' \<in> set hs \<and> w' = w)"
  by (induction hs arbitrary: bb) (auto simp: located_drop_location)

lemma holds_remove_block: "holds_block (remove_block w h idx) = (holds_block idx)((w, h) := None)"
  by (auto simp: fun_eq_iff holds_block_def remove_block_def blocks_of_def update_conv delete_conv
      split: option.splits)

lemma index_ok_remove_block [forge_inv]: "index_ok idx \<Longrightarrow> index_ok (remove_block w h idx)"
  unfolding index_ok_def holds_remove_block
  by (auto simp: remove_block_def located_drop_location)

lemma holds_ClearWorker:
  "holds_block (ClearWorker idx w) = (\<lambda>(w', h). if w' = w then None else holds_block idx (w', h))"
  by (auto simp: fun_eq_iff holds_block_def ClearWorker_def)

lemma index_ok_ClearWorker [forge_inv]:
  assumes "index_ok idx"
  shows "index_ok (ClearWorker idx w)"
proof -
  have "located (ix_byBlock idx) key h w \<Longrightarrow> h \<in> fst ` set (blocks_of (ix_byWorker idx) w)" for key h
  proof -
    assume "located (ix_byBlock idx) key h w"
    with assms have "map_of (blocks_of (ix_byWorker idx) w) h \<noteq> None"
      by (auto simp: index_ok_def holds_block_def)
    then show ?thesis by (metis map_of_eq_None_iff)
  qed
  with assms show ?thesis
    unfolding index_ok_def holds_ClearWorker by (auto simp: ClearWorker_def located_fold_drop)
qed

text \<open>The specification: a weighted relation between workers and blocks, changed by events.\<close>

definition tier_weight :: "string \<Rightarrow> real" where
  "tier_weight tier = (if tier = ''cpu'' then 4/5 else 1)"

definition spec_apply :: "Event \<Rightarrow> (string \<times> u64 \<rightharpoonup> real) \<Rightarrow> (string \<times> u64 \<rightharpoonup> real)" where
  "spec_apply ev R =
     (\<lambda>(w, h).
        if w \<noteq> ev_WorkerID ev then R (w, h)
        else if ev_Type ev = ''stored'' \<and> w \<noteq> '''' \<and> h \<in> set (ev_Hashes ev) then Some (tier_weight (ev_Tier ev))
        else if ev_Type ev = ''removed'' \<and> h \<in> set (ev_Hashes ev) then None
        else if ev_Type ev = ''cleared'' then None
        else R (w, h))"

lemma holds_fold_store:
  "holds_block (fold (store_block key w t wt) hs idx) =
     (\<lambda>(w', h). if w' = w \<and> h \<in> set hs then Some wt else holds_block idx (w', h))"
  by (induction hs arbitrary: idx) (auto simp: fun_eq_iff holds_store_block)

lemma holds_fold_remove:
  "holds_block (fold (remove_block w) hs idx) =
     (\<lambda>(w', h). if w' = w \<and> h \<in> set hs then None else holds_block idx (w', h))"
  by (induction hs arbitrary: idx) (auto simp: fun_eq_iff holds_remove_block)

lemma index_ok_fold_store: "index_ok idx \<Longrightarrow> index_ok (fold (store_block key w t wt) hs idx)"
  by (induction hs arbitrary: idx) (simp_all add: index_ok_store_block)

lemma index_ok_fold_remove: "index_ok idx \<Longrightarrow> index_ok (fold (remove_block w) hs idx)"
  by (induction hs arbitrary: idx) (simp_all add: index_ok_remove_block)

lemma apply_index_refines: "holds_block (apply_index ev idx) = spec_apply ev (holds_block idx)"
proof -
  consider "ev_Type ev = ''stored''" | "ev_Type ev = ''removed''" | "ev_Type ev = ''cleared''"
    | "ev_Type ev \<notin> {''stored'', ''removed'', ''cleared''}" by blast
  then show ?thesis
    by cases (auto simp: fun_eq_iff apply_index_def spec_apply_def Index_Store_def Index_Remove_def
        holds_fold_store holds_fold_remove holds_ClearWorker tier_weight_def)
qed

lemma apply_index_ok [forge_inv]: "index_ok idx \<Longrightarrow> index_ok (apply_index ev idx)"
  by (simp add: apply_index_def Index_Store_def Index_Remove_def index_ok_fold_store
      index_ok_fold_remove index_ok_ClearWorker)

lemma NewIndex_ok: "index_ok NewIndex" and holds_NewIndex: "holds_block NewIndex = Map.empty"
  by (auto simp: index_ok_def holds_block_def NewIndex_def blocks_of_def located_def)

section \<open>Facts: the cached prefix\<close>

definition block_score :: "(u64 \<rightharpoonup> real) \<Rightarrow> u64 \<Rightarrow> real" where
  "block_score have h = 256 * (case have h of None \<Rightarrow> 0 | Some w \<Rightarrow> if w \<le> 0 then 1 else w)"

lemma lcp_loop_takeWhile:
  "lcp_loop want have b sc =
     (let pre = takeWhile (\<lambda>h. have h \<noteq> None) want in
      (b + int (length pre), sc + sum_list (map (block_score have) pre)))"
  by (induction want arbitrary: b sc) (auto simp: Let_def block_score_def DefaultBlockSize_def)

lemma block_scores_bounds:
  assumes "\<forall>h w. have h = Some w \<longrightarrow> w \<le> 1"
  shows "0 \<le> sum_list (map (block_score have) hs) \<and> sum_list (map (block_score have) hs) \<le> 256 * real (length hs)"
proof (induction hs)
  case (Cons h hs)
  have "0 \<le> block_score have h \<and> block_score have h \<le> 256"
    using assms by (auto simp: block_score_def split: option.splits)
  with Cons show ?case by simp
qed simp

section \<open>Properties\<close>

text \<open>
  The block keys of a prompt depend on its beginning only: two token sequences that agree on
  their first \<open>k\<close> whole blocks have the same first \<open>k\<close> keys, under the same adapter, whatever
  follows; and a sequence has one key per started block.
\<close>

theorem block_keys_prefix:
  assumes "0 < blockSize" and "int k * blockSize \<le> int (length xs)"
  shows "take k (HashBlocks (xs @ ys) blockSize adapter) = take k (HashBlocks (xs @ zs) blockSize adapter)
       \<and> int (length (HashBlocks xs blockSize adapter)) = (int (length xs) + blockSize - 1) div blockSize"
proof -
  obtain n where n: "blockSize = int n" "0 < n" using assms(1) by (metis pos_int_cases)
  have "k * n \<le> length xs" using assms(2) by (simp only: n(1) of_nat_mult [symmetric] of_nat_le_iff)
  then have "take k (chunk n (xs @ us)) = take k (chunk n xs)" for us
    using n(2) by (rule chunk_prefix [rotated])
  moreover have "int ((length xs + n - 1) div n) = (int (length xs) + int n - 1) div int n"
    using n(2) by (simp add: zdiv_int of_nat_diff)
  ultimately show ?thesis
    using n by (simp add: HashBlocks_def ChunkTokens_def take_hash_chain length_chunk)
qed

theorem block_keys_prefix_witness:
  "take 1 (HashBlocks ([1, 2] @ [3]) 2 ''a'') = take 1 (HashBlocks ([1, 2] @ [4, 5]) 2 ''a'')"
  using block_keys_prefix [of 2 1 "[1, 2]" "[3]" "''a''" "[4, 5]"] by simp

text \<open>
  C23. The registry implements a weighted relation between workers and blocks: after any sequence
  of events the index holds exactly what the specification gives, its two directions agree
  (a block lists a worker in some namespace exactly when the worker lists the block), and the
  snapshot the scheduler reads is the index as of the last event.
\<close>

theorem cache_registry_refines:
  "let s = fold (\<lambda>(ev, now) s. Apply s ev now) evs (NewCacheService t) in
     holds_block (sv_index s) = fold (\<lambda>(ev, _). spec_apply ev) evs Map.empty
   \<and> index_ok (sv_index s)
   \<and> map_option cs_WorkerBlocks (sv_holder s) = Some (ix_byWorker (sv_index s))"
proof (induction evs rule: rev_induct)
  case Nil
  show ?case by (simp add: Let_def NewCacheService_def publishSnapshot_def NewIndex_ok holds_NewIndex
        SnapshotForScoring_def)
next
  case (snoc x evs)
  then show ?case
    by (cases x) (simp add: Let_def Apply_def publishSnapshot_def SnapshotForScoring_def apply_index_refines
        apply_index_ok)
qed

text \<open>
  The cached prefix of a prompt is the longest run of leading blocks the worker holds, and with
  weights of at most one its score lies between 0 and the tokens of that run.
\<close>

theorem longest_prefix_score:
  assumes "\<forall>h w. have h = Some w \<longrightarrow> w \<le> 1"
    and "LongestConsecutivePrefix want have = (blocks, score)"
  shows "blocks = int (length (takeWhile (\<lambda>h. have h \<noteq> None) want))
       \<and> 0 \<le> score \<and> score \<le> 256 * real_of_int blocks \<and> blocks \<le> int (length want)
       \<and> (blocks < int (length want) \<longrightarrow> have (want ! nat blocks) = None)"
proof -
  let ?pre = "takeWhile (\<lambda>h. have h \<noteq> None) want"
  have b: "blocks = int (length ?pre)" "score = sum_list (map (block_score have) ?pre)"
    using assms(2) by (simp_all add: LongestConsecutivePrefix_def lcp_loop_takeWhile Let_def)
  moreover have "have (want ! length ?pre) = None" if "length ?pre < length want"
    using nth_length_takeWhile [OF that] by simp
  ultimately show ?thesis
    using block_scores_bounds [OF assms(1), of ?pre] by (simp add: length_takeWhile_le)
qed

theorem longest_prefix_score_witness:
  "fst (LongestConsecutivePrefix [1, 2, 3] [1 \<mapsto> 1, 2 \<mapsto> 1]) = 2
   \<and> snd (LongestConsecutivePrefix [1, 2, 3] [1 \<mapsto> 1, 2 \<mapsto> 1]) \<le> 512"
proof -
  let ?have = "[1 \<mapsto> 1, 2 \<mapsto> 1] :: u64 \<rightharpoonup> real"
  obtain b sc where r: "LongestConsecutivePrefix [1, 2, 3] ?have = (b, sc)" by fastforce
  have "\<forall>h w. ?have h = Some w \<longrightarrow> w \<le> 1" by auto
  from longest_prefix_score [OF this r] r show ?thesis by simp
qed

end
