(* ===== verification/Inflight.thy ===== *)
theory Inflight
  imports Forge_Prelude
begin

text \<open>
  Admission counters. \<open>services/routing/inflight.go\<close> counts the requests in flight per worker, and
  \<open>ConcurrencyLimiter\<close> of \<open>services/gateway/middleware.go\<close> the requests per client; both promise the
  interface \<open>counting_gate\<close>: the counter is the number of open admissions and never exceeds the
  limit. The compare-and-swap loops of \<open>TryTrack\<close> and \<open>Dec\<close> are modelled a second time as the code
  interleaves them.
\<close>

section \<open>The in-flight tracker\<close>

type_synonym tracker = "string \<rightharpoonup> int"

definition NewInflightTracker :: tracker where
  "NewInflightTracker = Map.empty"

text \<open>\<open>counter\<close>: the worker's counter, created at 0 when it is missing.\<close>

definition counter :: "tracker \<Rightarrow> string \<Rightarrow> int \<times> tracker" where
  "counter t w = (case t w of Some n \<Rightarrow> (n, t) | None \<Rightarrow> (0, t(w \<mapsto> 0)))"

definition Inc :: "tracker \<Rightarrow> string \<Rightarrow> tracker" where
  "Inc t w = (case counter t w of (n, t') \<Rightarrow> t'(w \<mapsto> n + 1))"

definition Dec :: "tracker \<Rightarrow> string \<Rightarrow> tracker" where
  "Dec t w = (case counter t w of (cur, t') \<Rightarrow> if cur \<le> 0 then t'(w \<mapsto> 0) else t'(w \<mapsto> cur - 1))"

definition Inflight_Get :: "tracker \<Rightarrow> string \<Rightarrow> int" where
  "Inflight_Get t w = (case t w of Some n \<Rightarrow> n | None \<Rightarrow> 0)"

text \<open>
  \<open>Track\<close> and \<open>TryTrack\<close> return a function that calls \<open>Dec\<close> the first time it is called
  (\<open>sync.Once\<close>): a handle with the worker and whether it was used.
\<close>

type_synonym handle = "string \<times> bool"

definition Track :: "tracker \<Rightarrow> string \<Rightarrow> handle \<times> tracker" where
  "Track t w = ((w, False), Inc t w)"

definition TryTrack :: "tracker \<Rightarrow> string \<Rightarrow> int \<Rightarrow> handle option \<times> tracker" where
  "TryTrack t w limit =
     (if limit \<le> 0 then (case Track t w of (h, t') \<Rightarrow> (Some h, t'))
      else (case counter t w of (cur, t') \<Rightarrow>
              if cur \<ge> limit then (None, t') else (Some (w, False), t'(w \<mapsto> cur + 1))))"

definition done_handle :: "handle \<Rightarrow> tracker \<Rightarrow> handle \<times> tracker" where
  "done_handle h t = (case h of (w, used) \<Rightarrow> if used then (h, t) else ((w, True), Dec t w))"

section \<open>The concurrency limiter\<close>

record ConcurrencyLimiter =
  cl_by :: "string \<rightharpoonup> int"
  cl_maxDefault :: int

definition NewConcurrencyLimiter :: ConcurrencyLimiter where
  "NewConcurrencyLimiter = \<lparr>cl_by = Map.empty, cl_maxDefault = 32\<rparr>"

definition Acquire :: "ConcurrencyLimiter \<Rightarrow> string \<Rightarrow> int \<Rightarrow> bool \<times> ConcurrencyLimiter" where
  "Acquire l clientID mx =
     (let m = (if mx \<le> 0 then cl_maxDefault l else mx);
          (cur, by') = (case cl_by l clientID of
             Some n \<Rightarrow> (n, cl_by l)
           | None \<Rightarrow> (0, (cl_by l)(clientID \<mapsto> 0))) in
      if cur \<ge> m then (False, l\<lparr>cl_by := by'\<rparr>)
      else (True, l\<lparr>cl_by := by'(clientID \<mapsto> cur + 1)\<rparr>))"

definition release_client :: "ConcurrencyLimiter \<Rightarrow> string \<Rightarrow> ConcurrencyLimiter" where
  "release_client l clientID =
     l\<lparr>cl_by := (cl_by l)(clientID \<mapsto> (case cl_by l clientID of Some n \<Rightarrow> n - 1 | None \<Rightarrow> - 1))\<rparr>"

definition client_count :: "ConcurrencyLimiter \<Rightarrow> string \<Rightarrow> int" where
  "client_count l clientID = (case cl_by l clientID of Some n \<Rightarrow> n | None \<Rightarrow> 0)"

section \<open>The gate interface\<close>

text \<open>
  The calls on a gate: an admission with the limit its caller passes, and a release, which only an
  open admission can make. The run keeps the open admissions beside the gate's state.
\<close>

datatype gate_op = Admit string int | Leave string

definition gate_step ::
  "('s \<Rightarrow> string \<Rightarrow> int \<Rightarrow> bool \<times> 's) \<Rightarrow> ('s \<Rightarrow> string \<Rightarrow> 's) \<Rightarrow> gate_op \<Rightarrow> 's \<times> string list \<Rightarrow> 's \<times> string list" where
  "gate_step acquire release p st =
     (case p of
        Admit k l \<Rightarrow>
          (case acquire (fst st) k l of (ok, s') \<Rightarrow> (s', if ok then k # snd st else snd st))
      | Leave k \<Rightarrow> if k \<in> set (snd st) then (release (fst st) k, remove1 k (snd st)) else st)"

abbreviation open_admissions :: "string list \<Rightarrow> string \<Rightarrow> int" where
  "open_admissions hs k \<equiv> int (count_list hs k)"

locale counting_gate =
  fixes get :: "'s \<Rightarrow> string \<Rightarrow> int"
    and acquire :: "'s \<Rightarrow> string \<Rightarrow> int \<Rightarrow> bool \<times> 's"
    and release :: "'s \<Rightarrow> string \<Rightarrow> 's"
    and init :: 's
  assumes get_init: "get init k = 0"
    and acquire_full: "0 < l \<Longrightarrow> l \<le> get s k \<Longrightarrow>
          \<not> fst (acquire s k l) \<and> get (snd (acquire s k l)) = get s"
    and acquire_free: "0 < l \<Longrightarrow> get s k < l \<Longrightarrow>
          fst (acquire s k l) \<and> get (snd (acquire s k l)) = (get s)(k := get s k + 1)"
    and release_open: "0 < get s k \<Longrightarrow> get (release s k) = (get s)(k := get s k - 1)"
begin

definition gate_inv :: "(string \<Rightarrow> int) \<Rightarrow> 's \<times> string list \<Rightarrow> bool" where
  "gate_inv cap st \<longleftrightarrow>
     (\<forall>k. get (fst st) k = open_admissions (snd st) k \<and> open_admissions (snd st) k \<le> max 0 (cap k))"

lemma count_list_remove1:
  "count_list (remove1 x xs) k = (if k = x then count_list xs k - 1 else count_list xs k)"
  by (induction xs) auto

lemma gate_step_inv:
  assumes inv: "gate_inv cap st" and cap: "case p of Admit k l \<Rightarrow> 0 < l \<and> l \<le> cap k | Leave k \<Rightarrow> True"
  shows "gate_inv cap (gate_step acquire release p st)"
proof (cases p)
  case (Admit k l)
  show ?thesis
  proof (cases "l \<le> get (fst st) k")
    case True
    with Admit inv cap acquire_full [of l "fst st" k] show ?thesis
      by (cases "acquire (fst st) k l") (auto simp: gate_step_def gate_inv_def)
  next
    case False
    with Admit inv cap acquire_free [of l "fst st" k] show ?thesis
      by (cases "acquire (fst st) k l") (auto simp: gate_step_def gate_inv_def)
  qed
next
  case (Leave k)
  show ?thesis
  proof (cases "k \<in> set (snd st)")
    case True
    then have c: "0 < count_list (snd st) k" by (metis count_list_0_iff neq0_conv)
    with inv have "0 < get (fst st) k" by (simp add: gate_inv_def)
    with Leave True c inv release_open [of "fst st" k] show ?thesis
      by (auto simp: gate_step_def gate_inv_def count_list_remove1 of_nat_diff)
        (smt (verit, ccfv_SIG) One_nat_def)+
  next
    case False
    with Leave inv show ?thesis by (simp add: gate_step_def)
  qed
qed

lemma gate_run_inv:
  assumes "\<forall>p \<in> set ps. case p of Admit k l \<Rightarrow> 0 < l \<and> l \<le> cap k | Leave k \<Rightarrow> True"
  shows "gate_inv cap (fold (gate_step acquire release) ps (init, []))"
  using assms
proof (induction ps rule: rev_induct)
  case Nil
  show ?case by (simp add: gate_inv_def get_init)
next
  case (snoc p ps)
  then show ?case by (simp add: gate_step_inv)
qed

end

definition track_ok :: "tracker \<Rightarrow> string \<Rightarrow> int \<Rightarrow> bool \<times> tracker" where
  "track_ok t w l = (case TryTrack t w l of (h, t') \<Rightarrow> (h \<noteq> None, t'))"

interpretation inflight: counting_gate Inflight_Get track_ok Dec NewInflightTracker
  by unfold_locales
    (auto simp: Inflight_Get_def track_ok_def TryTrack_def Dec_def counter_def NewInflightTracker_def
      fun_eq_iff split: option.splits)

interpretation limiter: counting_gate client_count Acquire release_client NewConcurrencyLimiter
  by unfold_locales
    (auto simp: client_count_def Acquire_def release_client_def NewConcurrencyLimiter_def
      fun_eq_iff Let_def split: option.splits)

section \<open>TryTrack and Dec as the code interleaves them\<close>

text \<open>
  The threads of one worker's counter. A thread asks for admission (\<open>TryTrack\<close>), holds it, and gives
  it back (\<open>Dec\<close>); a load and the swap that follows are separate steps. The branch of \<open>Dec\<close> that
  stores 0 is two steps as well: the load that sees no admission, and the store.
\<close>

datatype track_pc =
  Asking | Ask_loaded int | Refused | Holding | Giving | Give_loaded int | Give_zero | Gone

record track_state =
  ts_cnt :: int
  ts_pc :: "nat \<Rightarrow> track_pc"

abbreviation set_tpc :: "track_state \<Rightarrow> nat \<Rightarrow> track_pc \<Rightarrow> track_state" where
  "set_tpc s t q \<equiv> s\<lparr>ts_pc := (ts_pc s)(t := q)\<rparr>"

inductive track_step :: "int \<Rightarrow> nat set \<Rightarrow> track_state \<Rightarrow> track_state \<Rightarrow> bool"
  for limit :: int and T :: "nat set" where
  ask_unlimited: "t \<in> T \<Longrightarrow> ts_pc s t = Asking \<Longrightarrow> limit \<le> 0 \<Longrightarrow>
     track_step limit T s ((set_tpc s t Holding)\<lparr>ts_cnt := ts_cnt s + 1\<rparr>)"
| ask_refused: "t \<in> T \<Longrightarrow> ts_pc s t = Asking \<Longrightarrow> 0 < limit \<Longrightarrow> ts_cnt s \<ge> limit \<Longrightarrow>
     track_step limit T s (set_tpc s t Refused)"
| ask_load: "t \<in> T \<Longrightarrow> ts_pc s t = Asking \<Longrightarrow> 0 < limit \<Longrightarrow> \<not> ts_cnt s \<ge> limit \<Longrightarrow>
     track_step limit T s (set_tpc s t (Ask_loaded (ts_cnt s)))"
| ask_swap: "t \<in> T \<Longrightarrow> ts_pc s t = Ask_loaded v \<Longrightarrow> ts_cnt s = v \<Longrightarrow>
     track_step limit T s ((set_tpc s t Holding)\<lparr>ts_cnt := v + 1\<rparr>)"
| ask_retry: "t \<in> T \<Longrightarrow> ts_pc s t = Ask_loaded v \<Longrightarrow> ts_cnt s \<noteq> v \<Longrightarrow>
     track_step limit T s (set_tpc s t Asking)"
| give: "t \<in> T \<Longrightarrow> ts_pc s t = Holding \<Longrightarrow> track_step limit T s (set_tpc s t Giving)"
| give_load: "t \<in> T \<Longrightarrow> ts_pc s t = Giving \<Longrightarrow> \<not> ts_cnt s \<le> 0 \<Longrightarrow>
     track_step limit T s (set_tpc s t (Give_loaded (ts_cnt s)))"
| give_load_zero: "t \<in> T \<Longrightarrow> ts_pc s t = Giving \<Longrightarrow> ts_cnt s \<le> 0 \<Longrightarrow>
     track_step limit T s (set_tpc s t Give_zero)"
| give_store_zero: "t \<in> T \<Longrightarrow> ts_pc s t = Give_zero \<Longrightarrow>
     track_step limit T s ((set_tpc s t Gone)\<lparr>ts_cnt := 0\<rparr>)"
| give_swap: "t \<in> T \<Longrightarrow> ts_pc s t = Give_loaded v \<Longrightarrow> ts_cnt s = v \<Longrightarrow>
     track_step limit T s ((set_tpc s t Gone)\<lparr>ts_cnt := v - 1\<rparr>)"
| give_retry: "t \<in> T \<Longrightarrow> ts_pc s t = Give_loaded v \<Longrightarrow> ts_cnt s \<noteq> v \<Longrightarrow>
     track_step limit T s (set_tpc s t Giving)"

inductive track_reachable :: "int \<Rightarrow> nat set \<Rightarrow> track_state \<Rightarrow> bool"
  for limit :: int and T :: "nat set" where
  start: "track_reachable limit T \<lparr>ts_cnt = 0, ts_pc = (\<lambda>_. Asking)\<rparr>"
| step: "track_reachable limit T s \<Longrightarrow> track_step limit T s s' \<Longrightarrow> track_reachable limit T s'"

fun counted :: "track_pc \<Rightarrow> bool" where
  "counted Holding = True"
| "counted Giving = True"
| "counted (Give_loaded v) = True"
| "counted Give_zero = True"
| "counted _ = False"

definition open_threads :: "nat set \<Rightarrow> track_state \<Rightarrow> nat" where
  "open_threads T s = card {t \<in> T. counted (ts_pc s t)}"

definition track_inv :: "int \<Rightarrow> nat set \<Rightarrow> track_state \<Rightarrow> bool" where
  "track_inv limit T s \<longleftrightarrow>
     ts_cnt s = int (open_threads T s) \<and> (0 < limit \<longrightarrow> ts_cnt s \<le> limit)
   \<and> (\<forall>t. ts_pc s t \<noteq> Give_zero) \<and> (\<forall>t v. ts_pc s t = Ask_loaded v \<longrightarrow> v < limit)"

lemma open_threads_set:
  assumes "finite T" and "t \<in> T" and "ts_pc s' = (ts_pc s)(t := q)"
  shows "int (open_threads T s') =
           int (open_threads T s) + of_bool (counted q) - of_bool (counted (ts_pc s t))"
proof -
  let ?A = "{u \<in> T - {t}. counted (ts_pc s u)}"
  have split: "open_threads T u = card ?A + of_bool (counted (ts_pc u t))"
    if "\<forall>x. x \<noteq> t \<longrightarrow> ts_pc u x = ts_pc s x" for u
  proof -
    have "{x \<in> T. counted (ts_pc u x)} = (if counted (ts_pc u t) then insert t ?A else ?A)"
      using that assms(2) by auto
    then show ?thesis using assms(1) by (simp add: open_threads_def)
  qed
  show ?thesis using split [of s] split [of s'] assms(3) by simp
qed

lemma open_threads_pos:
  assumes "finite T" and "t \<in> T" and "counted (ts_pc s t)"
  shows "0 < open_threads T s"
  unfolding open_threads_def using assms by (subst card_gt_0_iff) auto

lemma track_step_inv [forge_inv]:
  assumes "finite T" and "track_step limit T s s'" and "track_inv limit T s"
  shows "track_inv limit T s'"
  using assms(2)
proof (cases rule: track_step.cases)
  case (give_load_zero t)
  then have "counted (ts_pc s t)" by simp
  from open_threads_pos [OF assms(1) give_load_zero(2) this] give_load_zero assms(3)
  show ?thesis by (simp add: track_inv_def)
next
  case (give_store_zero t)
  with assms(3) show ?thesis by (simp add: track_inv_def)
qed (use assms(3) open_threads_set [OF assms(1), of _ s' s] in \<open>force simp: track_inv_def\<close>)+

lemma track_reachable_inv:
  assumes "finite T"
  shows "track_reachable limit T s \<Longrightarrow> track_inv limit T s"
proof (induction rule: track_reachable.induct)
  case start
  show ?case by (simp add: track_inv_def open_threads_def)
qed (rule track_step_inv [OF assms])

section \<open>Properties\<close>

text \<open>
  Per-worker admission: after any sequence of \<open>TryTrack\<close> calls and releases, a worker's counter is
  the number of its admissions still open, and no worker has more of them than the largest
  limit its callers passed.
\<close>

theorem inflight_counts_open:
  assumes "\<forall>p \<in> set ps. case p of Admit w l \<Rightarrow> 0 < l \<and> l \<le> cap w | Leave w \<Rightarrow> True"
    and "fold (gate_step track_ok Dec) ps (NewInflightTracker, []) = (t, open_hs)"
  shows "Inflight_Get t w = open_admissions open_hs w \<and> Inflight_Get t w \<le> max 0 (cap w)"
  using inflight.gate_run_inv [OF assms(1)] assms(2) by (simp add: inflight.gate_inv_def)

theorem inflight_counts_open_witness:
  "Inflight_Get (fst (fold (gate_step track_ok Dec) [Admit ''w'' 1, Admit ''w'' 1, Admit ''v'' 1]
     (NewInflightTracker, []))) ''w'' \<le> max 0 1"
proof -
  let ?ps = "[Admit ''w'' 1, Admit ''w'' 1, Admit ''v'' 1]"
  obtain t hs where r: "fold (gate_step track_ok Dec) ?ps (NewInflightTracker, []) = (t, hs)" by fastforce
  have "\<forall>p \<in> set ?ps. case p of Admit w l \<Rightarrow> 0 < l \<and> l \<le> (1::int) | Leave w \<Rightarrow> True" by simp
  from inflight_counts_open [where cap = "\<lambda>_. 1", OF this r, of "''w''"] r show ?thesis by simp
qed

text \<open>
  Per-client admission: the limiter's counter of a client is the number of its requests still
  open, and never exceeds the largest limit configured for the client.
\<close>

theorem limiter_counts_open:
  assumes "\<forall>p \<in> set ps. case p of Admit c l \<Rightarrow> 0 < l \<and> l \<le> cap c | Leave c \<Rightarrow> True"
    and "fold (gate_step Acquire release_client) ps (NewConcurrencyLimiter, []) = (l, open_hs)"
  shows "client_count l c = open_admissions open_hs c \<and> client_count l c \<le> max 0 (cap c)"
  using limiter.gate_run_inv [OF assms(1)] assms(2) by (simp add: limiter.gate_inv_def)

theorem limiter_counts_open_witness:
  "client_count (fst (fold (gate_step Acquire release_client) [Admit ''c'' 2, Leave ''c'', Admit ''c'' 2]
     (NewConcurrencyLimiter, []))) ''c'' \<le> max 0 2"
proof -
  let ?ps = "[Admit ''c'' 2, Leave ''c'', Admit ''c'' 2]"
  obtain t hs where r: "fold (gate_step Acquire release_client) ?ps (NewConcurrencyLimiter, []) = (t, hs)"
    by fastforce
  have "\<forall>p \<in> set ?ps. case p of Admit w l \<Rightarrow> 0 < l \<and> l \<le> (2::int) | Leave w \<Rightarrow> True" by simp
  from limiter_counts_open [where cap = "\<lambda>_. 2", OF this r, of "''c''"] r show ?thesis by simp
qed

text \<open>
  C6. The compare-and-swap loops admit safely under every interleaving: the counter always equals
  the number of threads between a successful \<open>TryTrack\<close> and the end of their \<open>Dec\<close>, it never
  exceeds a positive limit, and the branch of \<open>Dec\<close> that resets the counter to 0, which would lose
  concurrent admissions, is never taken.
\<close>

theorem inflight_interleaved:
  assumes "finite T" and "track_reachable limit T s"
  shows "ts_cnt s = int (open_threads T s) \<and> (0 < limit \<longrightarrow> int (open_threads T s) \<le> limit)
       \<and> (\<forall>t. ts_pc s t \<noteq> Give_zero)"
  using track_reachable_inv [OF assms] by (auto simp: track_inv_def)

theorem inflight_interleaved_witness:
  "\<exists>s. track_reachable 1 {1, 2} s \<and> ts_pc s 1 = Holding \<and> open_threads {1, 2} s = 1"
proof -
  let ?s0 = "\<lparr>ts_cnt = 0, ts_pc = (\<lambda>_. Asking)\<rparr>"
  let ?s1 = "set_tpc ?s0 1 (Ask_loaded 0)"
  let ?s2 = "(set_tpc ?s1 1 Holding)\<lparr>ts_cnt := 0 + 1\<rparr>"
  have a: "track_step 1 {1, 2} ?s0 ?s1" using track_step.ask_load [of 1 "{1, 2}" ?s0 1] by simp
  have b: "track_step 1 {1, 2} ?s1 ?s2" using track_step.ask_swap [of 1 "{1, 2}" ?s1 0 1] by simp
  have r: "track_reachable 1 {1, 2} ?s2"
    by (rule track_reachable.step [OF track_reachable.step [OF track_reachable.start a] b])
  have "finite {1, 2 :: nat}" by simp
  from inflight_interleaved [OF this r] have "open_threads {1, 2} ?s2 = 1" by simp
  with r show ?thesis by (intro exI [of _ ?s2]) simp
qed

end
