(* ===== verification/Scheduler.thy ===== *)
theory Scheduler
  imports Cache_Registry
begin

text \<open>
  The scheduler of \<open>services/scheduler\<close>: candidates merged from the routing snapshot
  (\<open>from_snapshot.go\<close>), the filters and scorers, prefix affinity by rendezvous hashing
  (\<open>affinity.go\<close>), the latency averages (\<open>ewma.go\<close>, \<open>latency_store.go\<close>) and the chain that ranks
  the workers for a request (\<open>chain.go\<close>). \<open>sum64\<close> stands for the 64-bit hash of package
  \<open>xxhash\<close>. What a holder contains during one ranking is the scorer's argument; traces and metrics
  are not modelled.
\<close>

section \<open>Candidates and requests\<close>

record Candidate =
  cd_WorkerID :: string
  cd_Endpoint :: string
  cd_QueueDepth :: int
  cd_Healthy :: bool
  cd_Ready :: bool
  cd_EwmaLatencyMs :: real
  cd_Models :: "string list"
  cd_MaxContext :: u32
  cd_CostPerHour :: real
  cd_CostClass :: string
  cd_Runtime :: string
  cd_VRAMGB :: real
  cd_GPU :: string
  cd_Capabilities :: string_map

record Request =
  sr_BaseModel :: string
  sr_Adapter :: string
  sr_Prompt :: string
  sr_AffinityKey :: string
  sr_PreferredWorker :: string
  sr_MinContext :: u32

text \<open>A worker's first view, and what each further view of it adds.\<close>

definition new_candidate :: "(string \<Rightarrow> int) option \<Rightarrow> (string \<Rightarrow> real) option \<Rightarrow> WorkerView \<Rightarrow> Candidate" where
  "new_candidate load latency w =
     \<lparr>cd_WorkerID = wv_ID w, cd_Endpoint = wv_Endpoint w,
      cd_QueueDepth = wv_QueueDepth w + wv_InFlight w + (case load of None \<Rightarrow> 0 | Some g \<Rightarrow> g (wv_ID w)),
      cd_Healthy = wv_Healthy w, cd_Ready = wv_Ready w,
      cd_EwmaLatencyMs = (case latency of None \<Rightarrow> 0 | Some g \<Rightarrow> g (wv_ID w)),
      cd_Models = [], cd_MaxContext = wv_MaxContext w, cd_CostPerHour = wv_CostPerHour w,
      cd_CostClass = wv_CostClass w, cd_Runtime = wv_Runtime w, cd_VRAMGB = wv_VRAMGB w,
      cd_GPU = wv_GPU w, cd_Capabilities = wv_Capabilities w\<rparr>"

definition merge_view :: "(string \<Rightarrow> int) option \<Rightarrow> WorkerView \<Rightarrow> Candidate \<Rightarrow> Candidate" where
  "merge_view load w c =
     (let depth = wv_QueueDepth w + wv_InFlight w + (case load of None \<Rightarrow> 0 | Some g \<Rightarrow> g (wv_ID w)) in
      c\<lparr>cd_Endpoint := (if wv_Endpoint w \<noteq> '''' then wv_Endpoint w else cd_Endpoint c),
        cd_Healthy := (cd_Healthy c \<or> wv_Healthy w),
        cd_Ready := (cd_Ready c \<or> wv_Ready w),
        cd_QueueDepth := (if depth > cd_QueueDepth c then depth else cd_QueueDepth c),
        cd_MaxContext := (if wv_MaxContext w > cd_MaxContext c then wv_MaxContext w else cd_MaxContext c),
        cd_CostPerHour := (if wv_CostPerHour w > 0 then wv_CostPerHour w else cd_CostPerHour c),
        cd_CostClass := (if wv_CostClass w \<noteq> '''' then wv_CostClass w else cd_CostClass c),
        cd_Runtime := (if wv_Runtime w \<noteq> '''' then wv_Runtime w else cd_Runtime c),
        cd_VRAMGB := (if wv_VRAMGB w > cd_VRAMGB c then wv_VRAMGB w else cd_VRAMGB c),
        cd_GPU := (if wv_GPU w \<noteq> '''' then wv_GPU w else cd_GPU c),
        cd_Capabilities := (if wv_Capabilities w \<noteq> [] then wv_Capabilities w else cd_Capabilities c)\<rparr>)"

definition add_model :: "WorkerView \<Rightarrow> Candidate \<Rightarrow> Candidate" where
  "add_model w c =
     (if wv_BaseModel w = '''' then c
      else
        (let i = join_model (wv_BaseModel w) (wv_Adapter w) in
         if i \<in> set (cd_Models c) then c else c\<lparr>cd_Models := cd_Models c @ [i]\<rparr>))"

text \<open>
  The loop over the views. The association list is the map \<open>byID\<close> in the order of \<open>order\<close>: a new
  id goes to the end, a known one keeps its place.
\<close>

definition candidates_step ::
  "(string \<Rightarrow> int) option \<Rightarrow> (string \<Rightarrow> real) option \<Rightarrow> WorkerView \<Rightarrow> (string \<times> Candidate) list \<Rightarrow>
     (string \<times> Candidate) list" where
  "candidates_step load latency w byID =
     AList.update (wv_ID w)
       (add_model w (case map_of byID (wv_ID w) of
          None \<Rightarrow> new_candidate load latency w
        | Some c \<Rightarrow> merge_view load w c)) byID"

definition CandidatesFromSnapshot ::
  "RoutingSnapshot option \<Rightarrow> (string \<Rightarrow> int) option \<Rightarrow> (string \<Rightarrow> real) option \<Rightarrow> Candidate list" where
  "CandidatesFromSnapshot snap load latency =
     (case snap of
        None \<Rightarrow> []
      | Some s \<Rightarrow> map snd (fold (candidates_step load latency) (rs_Workers s) []))"

section \<open>Filters\<close>

definition splitModel :: "string \<Rightarrow> string \<times> string \<times> bool" where
  "splitModel i =
     (if i = '''' then ('''', '''', False)
      else case index_byte i (CHR ''#'') of
             Some k \<Rightarrow> (take k i, drop (k + 1) i, True)
           | None \<Rightarrow> (i, '''', True))"

definition servesModel :: "string list \<Rightarrow> string \<Rightarrow> string \<Rightarrow> string \<Rightarrow> bool" where
  "servesModel models want base adapter =
     list_ex (\<lambda>m.
       m = want \<or> m = base
       \<or> (adapter = '''' \<and> has_prefix m (base @ ''#''))
       \<or> (case splitModel m of (mb, ma, ok) \<Rightarrow> ok \<and> mb = base \<and> (adapter = '''' \<or> ma = adapter))) models"

datatype Filter = HealthFilter | ModelFilter | CapabilityFilter | AdmissionFilter int

fun filter_name :: "Filter \<Rightarrow> string" where
  "filter_name HealthFilter = ''health''"
| "filter_name ModelFilter = ''model''"
| "filter_name CapabilityFilter = ''capability''"
| "filter_name (AdmissionFilter _) = ''admission''"

definition satisfiesCapability :: "Request \<Rightarrow> Candidate \<Rightarrow> bool" where
  "satisfiesCapability req c =
     (if sr_MinContext req > 0 \<and> cd_MaxContext c > 0 \<and> cd_MaxContext c < sr_MinContext req then False
      else if sr_BaseModel req = '''' then True
      else if cd_Models c = [] then False
      else servesModel (cd_Models c) (join_model (sr_BaseModel req) (sr_Adapter req))
             (sr_BaseModel req) (sr_Adapter req))"

fun apply_filter :: "Filter \<Rightarrow> Request option \<Rightarrow> Candidate list \<Rightarrow> Candidate list" where
  "apply_filter HealthFilter req cs = filter (\<lambda>c. cd_Healthy c \<and> cd_Ready c) cs"
| "apply_filter ModelFilter req cs =
     (case req of
        None \<Rightarrow> []
      | Some r \<Rightarrow>
          if sr_BaseModel r = '''' then []
          else filter (\<lambda>c. servesModel (cd_Models c) (join_model (sr_BaseModel r) (sr_Adapter r))
                             (sr_BaseModel r) (sr_Adapter r)) cs)"
| "apply_filter CapabilityFilter req cs =
     (case req of None \<Rightarrow> cs | Some r \<Rightarrow> filter (satisfiesCapability r) cs)"
| "apply_filter (AdmissionFilter limit) req cs =
     (if limit \<le> 0 then cs else filter (\<lambda>c. cd_QueueDepth c < limit) cs)"

definition CapRuntime :: "Candidate \<Rightarrow> string" where
  "CapRuntime c =
     (if cd_Runtime c \<noteq> '''' then to_lower (cd_Runtime c)
      else to_lower (get_str (cd_Capabilities c) ''runtime''))"

section \<open>Affinity\<close>

definition PrefixKey :: "(string \<Rightarrow> u64) \<Rightarrow> string \<Rightarrow> int \<Rightarrow> int \<Rightarrow> u64" where
  "PrefixKey sum64 prompt window blockBytes =
     (let bb = (if blockBytes \<le> 0 then 64 else blockBytes);
          win = (if window \<le> 0 then 1024 else window);
          n0 = (if int (length prompt) < win then int (length prompt) else win);
          n = n0 - n0 mod bb in
      if n \<le> 0 then (if prompt = '''' then 0 else sum64 prompt)
      else sum64 (take (nat n) prompt))"

text \<open>The score of a worker for a key: the hash of the key's eight bytes and the worker id.\<close>

definition hrw_score :: "(string \<Rightarrow> u64) \<Rightarrow> u64 \<Rightarrow> string \<Rightarrow> u64" where
  "hrw_score sum64 key w = sum64 (map char_of (le_bytes 8 (unat key)) @ w)"

fun hrw_loop :: "(string \<Rightarrow> u64) \<Rightarrow> string list \<Rightarrow> u64 \<Rightarrow> string \<Rightarrow> string" where
  "hrw_loop sc [] bestScore best = best"
| "hrw_loop sc (w # ws) bestScore best =
     (if sc w > bestScore \<or> (sc w = bestScore \<and> w < best) then hrw_loop sc ws (sc w) w
      else hrw_loop sc ws bestScore best)"

definition HRWPick :: "(string \<Rightarrow> u64) \<Rightarrow> u64 \<Rightarrow> string list \<Rightarrow> string" where
  "HRWPick sum64 key workerIDs =
     (case workerIDs of
        [] \<Rightarrow> ''''
      | w # ws \<Rightarrow> hrw_loop (hrw_score sum64 key) ws (hrw_score sum64 key w) w)"

section \<open>Latency averages\<close>

record EWMA =
  ew_tau :: duration
  ew_value :: real
  ew_last :: gotime

definition NewEWMA :: "duration \<Rightarrow> real \<Rightarrow> EWMA" where
  "NewEWMA tau seed =
     \<lparr>ew_tau = (if tau \<le> 0 then 10 * second else tau), ew_value = seed, ew_last = None\<rparr>"

definition dur_seconds :: "duration \<Rightarrow> real" where
  "dur_seconds d = of_int d / 1000000000"

definition EWMA_Update :: "EWMA \<Rightarrow> real \<Rightarrow> int \<Rightarrow> EWMA" where
  "EWMA_Update e sampleMs now =
     (case ew_last e of
        None \<Rightarrow> e\<lparr>ew_value := sampleMs, ew_last := Some now\<rparr>
      | Some l \<Rightarrow>
          (let dt0 = dur_seconds (time_sub (Some now) (Some l));
               dt = (if dt0 < 0 then 0 else dt0);
               tauSec = (if dur_seconds (ew_tau e) \<le> 0 then 10 else dur_seconds (ew_tau e));
               alpha = 1 - exp (- dt / tauSec) in
           e\<lparr>ew_value := alpha * sampleMs + (1 - alpha) * ew_value e, ew_last := Some now\<rparr>))"

record LatencyStore =
  la_tau :: duration
  la_seed :: real
  la_m :: "string \<rightharpoonup> EWMA"

definition NewLatencyStore :: "duration \<Rightarrow> LatencyStore" where
  "NewLatencyStore tau = \<lparr>la_tau = (if tau \<le> 0 then 10 * second else tau), la_seed = 0, la_m = Map.empty\<rparr>"

definition latency_getOrCreate :: "LatencyStore \<Rightarrow> string \<Rightarrow> EWMA \<times> LatencyStore" where
  "latency_getOrCreate s w =
     (case la_m s w of
        Some e \<Rightarrow> (e, s)
      | None \<Rightarrow> (let e = NewEWMA (la_tau s) (la_seed s) in (e, s\<lparr>la_m := (la_m s)(w \<mapsto> e)\<rparr>)))"

definition Observe :: "LatencyStore \<Rightarrow> string \<Rightarrow> real \<Rightarrow> int \<Rightarrow> LatencyStore" where
  "Observe s w sampleMs now =
     (if w = '''' \<or> sampleMs < 0 then s
      else (case latency_getOrCreate s w of (e, s') \<Rightarrow>
              s'\<lparr>la_m := (la_m s')(w \<mapsto> EWMA_Update e sampleMs now)\<rparr>))"

definition Latency_Get :: "LatencyStore \<Rightarrow> string \<Rightarrow> real" where
  "Latency_Get s w = (case la_m s w of Some e \<Rightarrow> ew_value e | None \<Rightarrow> 0)"

section \<open>Scorers\<close>

text \<open>The scorers with the state each keeps; a holder is given by what it holds.\<close>

datatype Scorer =
    LeastLoaded
  | LatencyScorer real
  | AffinityScorer int int string
  | CostScorer real
  | PolicyScorer "RoutingPolicy option"
  | OverlapScorer "CacheSnapshot option"

definition NewLatencyScorer :: "real \<Rightarrow> Scorer" where
  "NewLatencyScorer refMs = LatencyScorer (if refMs \<le> 0 then 100 else refMs)"

definition NewAffinityScorer :: "int \<Rightarrow> int \<Rightarrow> Scorer" where
  "NewAffinityScorer window blockBytes =
     AffinityScorer (if window \<le> 0 then 1024 else window) (if blockBytes \<le> 0 then 64 else blockBytes) ''''"

definition affinity_eligible :: "Candidate \<Rightarrow> bool" where
  "affinity_eligible c \<longleftrightarrow>
     get_str (cd_Capabilities c) ''no_local_kv'' \<noteq> ''true''
   \<and> get_str (cd_Capabilities c) ''provider'' \<noteq> ''true'' \<and> cd_Runtime c \<noteq> ''provider''"

definition affinity_Prepare ::
  "(string \<Rightarrow> u64) \<Rightarrow> int \<Rightarrow> int \<Rightarrow> Request option \<Rightarrow> Candidate list \<Rightarrow> string \<times> Request option" where
  "affinity_Prepare sum64 window blockBytes req candidates =
     (case req of
        None \<Rightarrow> ('''', None)
      | Some r \<Rightarrow>
          (let prompt = (if sr_AffinityKey r \<noteq> '''' then sr_AffinityKey r else sr_Prompt r) in
           if candidates = [] \<or> prompt = '''' then ('''', req)
           else
             (let ids = map cd_WorkerID (filter affinity_eligible candidates);
                  preferred = HRWPick sum64 (PrefixKey sum64 prompt window blockBytes) ids in
              (preferred, Some (r\<lparr>sr_PreferredWorker := preferred\<rparr>)))))"

definition cost_Prepare :: "Candidate list \<Rightarrow> real" where
  "cost_Prepare candidates =
     fold (\<lambda>c mx. if cd_CostPerHour c > mx then cd_CostPerHour c else mx) candidates 0"

fun Prepare ::
  "(string \<Rightarrow> u64) \<Rightarrow> Scorer \<Rightarrow> Request option \<Rightarrow> Candidate list \<Rightarrow> Scorer \<times> Request option" where
  "Prepare sum64 (AffinityScorer win bb pref) req cs =
     (case affinity_Prepare sum64 win bb req cs of (p, req') \<Rightarrow> (AffinityScorer win bb p, req'))"
| "Prepare sum64 (CostScorer mx) req cs = (CostScorer (cost_Prepare cs), req)"
| "Prepare sum64 s req cs = (s, req)"

definition cost_Score :: "real \<Rightarrow> Candidate \<Rightarrow> real" where
  "cost_Score mx c =
     (if mx \<le> 0 then 1
      else
        (let ratio = cd_CostPerHour c / mx;
             ratio = (if ratio < 0 then 0 else ratio);
             ratio = (if ratio > 1 then 1 else ratio) in 1 - ratio))"

definition policy_Score :: "RoutingPolicy option \<Rightarrow> Request option \<Rightarrow> Candidate \<Rightarrow> real" where
  "policy_Score held req c =
     (case (held, req) of
        (Some p, Some r) \<Rightarrow>
          if rp_WorkerWeights p = [] then 1
          else
            (case map_of (rp_WorkerWeights p) (sr_BaseModel r) of
               None \<Rightarrow> 1
             | Some byWorker \<Rightarrow>
                 (case map_of byWorker (cd_WorkerID c) of Some w \<Rightarrow> w | None \<Rightarrow> 1/100))
      | _ \<Rightarrow> 1)"

definition overlap_Score :: "CacheSnapshot option \<Rightarrow> Request option \<Rightarrow> Candidate \<Rightarrow> real" where
  "overlap_Score held req c =
     (case (held, req) of
        (Some snap, Some r) \<Rightarrow>
          if get_str (cd_Capabilities c) ''provider'' = ''true'' then 1/2
          else
            (case map_of (cs_WorkerBlocks snap) (cd_WorkerID c) of
               None \<Rightarrow> 1/2
             | Some have \<Rightarrow>
                 (let want = HashPromptApprox (sr_Prompt r) DefaultBlockSize (sr_Adapter r) in
                  if have = [] \<or> want = [] then 1/2
                  else
                    (case LongestConsecutivePrefix want (map_of have) of (blocks, score) \<Rightarrow>
                       if blocks = 0 then 0
                       else
                         (let norm = score / (real (length want) * of_int DefaultBlockSize) in
                          if norm > 1 then 1 else norm))))
      | _ \<Rightarrow> 1/2)"

text \<open>
  Scores are reals: a queue depth of exactly -1, which only a heartbeat with a negative one can report, gives \<open>+Inf\<close> in Go and
  0 here, so the model is faithful for the other depths.
\<close>

fun Score :: "Scorer \<Rightarrow> Request option \<Rightarrow> Candidate \<Rightarrow> real" where
  "Score LeastLoaded req c = 1 / of_int (1 + cd_QueueDepth c)"
| "Score (LatencyScorer refMs) req c =
     (if cd_EwmaLatencyMs c \<le> 0 then 1 else 1 / (1 + cd_EwmaLatencyMs c / refMs))"
| "Score (AffinityScorer win bb preferred) req c =
     (if preferred = '''' then 0 else if cd_WorkerID c = preferred then 1 else 0)"
| "Score (CostScorer mx) req c = cost_Score mx c"
| "Score (PolicyScorer held) req c = policy_Score held req c"
| "Score (OverlapScorer held) req c = overlap_Score held req c"

section \<open>The chain\<close>

record Chain =
  ch_Filters :: "Filter list"
  ch_Scorers :: "(Scorer \<times> real) list"

record ChainConfig =
  cc_WeightLoad :: real
  cc_WeightLatency :: real
  cc_WeightAffinity :: real
  cc_WeightCost :: real
  cc_WeightPolicy :: real
  cc_LatencyRefMs :: real
  cc_AdmissionLimit :: int
  cc_AffinityWindow :: int
  cc_AffinityBlock :: int
  cc_Policy :: "RoutingPolicy option option"
  cc_Overlap :: "CacheSnapshot option option"
  cc_WeightOverlap :: real

definition NewConfiguredChain :: "ChainConfig \<Rightarrow> Chain" where
  "NewConfiguredChain cfg =
     (let dflt = (cc_WeightLoad cfg \<le> 0 \<and> cc_WeightLatency cfg \<le> 0 \<and> cc_WeightAffinity cfg \<le> 0
                  \<and> cc_WeightCost cfg \<le> 0 \<and> cc_WeightPolicy cfg \<le> 0);
          wl = (if dflt then 45/100 else cc_WeightLoad cfg);
          wlat = (if dflt then 15/100 else cc_WeightLatency cfg);
          waff = (if dflt then 1/10 else cc_WeightAffinity cfg);
          wc = (if dflt then 15/100 else cc_WeightCost cfg);
          wp = (if dflt then 15/100 else cc_WeightPolicy cfg) in
      \<lparr>ch_Filters = [HealthFilter, ModelFilter, CapabilityFilter]
          @ (if cc_AdmissionLimit cfg > 0 then [AdmissionFilter (cc_AdmissionLimit cfg)] else []),
       ch_Scorers = [(LeastLoaded, wl), (NewLatencyScorer (cc_LatencyRefMs cfg), wlat)]
          @ (if waff > 0 then [(NewAffinityScorer (cc_AffinityWindow cfg) (cc_AffinityBlock cfg), waff)] else [])
          @ (if wc > 0 then [(CostScorer 0, wc)] else [])
          @ (case cc_Policy cfg of Some held \<Rightarrow> if wp > 0 then [(PolicyScorer held, wp)] else [] | None \<Rightarrow> [])
          @ (case cc_Overlap cfg of
               Some held \<Rightarrow> if cc_WeightOverlap cfg > 0 then [(OverlapScorer held, cc_WeightOverlap cfg)] else []
             | None \<Rightarrow> [])\<rparr>)"

definition DefaultChain :: Chain where
  "DefaultChain =
     NewConfiguredChain \<lparr>cc_WeightLoad = 45/100, cc_WeightLatency = 15/100, cc_WeightAffinity = 1/10,
       cc_WeightCost = 15/100, cc_WeightPolicy = 15/100, cc_LatencyRefMs = 100, cc_AdmissionLimit = 4,
       cc_AffinityWindow = 1024, cc_AffinityBlock = 64, cc_Policy = None, cc_Overlap = None,
       cc_WeightOverlap = 0\<rparr>"

record PickResult =
  pr_WorkerID :: string
  pr_Endpoint :: string
  pr_Score :: real

fun run_filters :: "Filter list \<Rightarrow> Request option \<Rightarrow> Candidate list \<Rightarrow> goerr + Candidate list" where
  "run_filters [] req surviving = Inr surviving"
| "run_filters (f # fs) req surviving =
     (let s = apply_filter f req surviving in
      if s = [] then
        Inl (if filter_name f = ''admission'' then ErrAdmissionRejected ''admission rejected''
             else ErrNoCapacity ''no capacity'')
      else run_filters fs req s)"

fun prepare_all ::
  "(string \<Rightarrow> u64) \<Rightarrow> (Scorer \<times> real) list \<Rightarrow> Request option \<Rightarrow> Candidate list \<Rightarrow>
     (Scorer \<times> real) list \<times> Request option" where
  "prepare_all sum64 [] req cs = ([], req)"
| "prepare_all sum64 ((s, w) # ss) req cs =
     (case Prepare sum64 s req cs of (s', req') \<Rightarrow>
        (case prepare_all sum64 ss req' cs of (ss', req'') \<Rightarrow> ((s', w) # ss', req'')))"

definition total_score :: "(Scorer \<times> real) list \<Rightarrow> Request option \<Rightarrow> Candidate \<Rightarrow> real" where
  "total_score scorers req c =
     fold (\<lambda>(s, w) total. total + (if w = 0 then 1 else w) * Score s req c) scorers 0"

definition scored_less :: "Candidate \<times> real \<Rightarrow> Candidate \<times> real \<Rightarrow> bool" where
  "scored_less a b =
     (if snd a \<noteq> snd b then snd a > snd b else cd_WorkerID (fst a) < cd_WorkerID (fst b))"

text \<open>
  \<open>Rank\<close> returns the ranking, the request with the preferred worker filled in, and the chain with
  the state its scorers keep.
\<close>

definition Rank ::
  "(string \<Rightarrow> u64) \<Rightarrow> Chain \<Rightarrow> Request option \<Rightarrow> Candidate list \<Rightarrow>
     (goerr + PickResult list) \<times> Request option \<times> Chain" where
  "Rank sum64 ch req candidates =
     (case run_filters (ch_Filters ch) req candidates of
        Inl e \<Rightarrow> (Inl e, req, ch)
      | Inr surviving \<Rightarrow>
          (case prepare_all sum64 (ch_Scorers ch) req surviving of (scorers, req') \<Rightarrow>
             (Inr (map (\<lambda>(c, total). \<lparr>pr_WorkerID = cd_WorkerID c, pr_Endpoint = cd_Endpoint c, pr_Score = total\<rparr>)
                    (sort_slice scored_less (map (\<lambda>c. (c, total_score scorers req' c)) surviving))),
              req', ch\<lparr>ch_Scorers := scorers\<rparr>)))"

text \<open>\<open>Pick\<close> takes the first of the ranking, which panics when there is none.\<close>

definition Pick ::
  "(string \<Rightarrow> u64) \<Rightarrow> Chain \<Rightarrow> Request option \<Rightarrow> Candidate list \<Rightarrow> (goerr + PickResult) outcome" where
  "Pick sum64 ch req candidates =
     (case fst (Rank sum64 ch req candidates) of
        Inl e \<Rightarrow> Ret (Inl e)
      | Inr [] \<Rightarrow> Panic
      | Inr (p # _) \<Rightarrow> Ret (Inr p))"

end
