(* ===== verification/Scheduler_Correct.thy ===== *)
theory Scheduler_Correct
  imports Scheduler
begin

text \<open>
  The correctness of the scheduler: what the filters admit, that the ranking is sorted, complete
  and independent of the order of the candidates, what rendezvous hashing promises, how views
  merge into candidates, and the ranges of the scores.
\<close>

section \<open>Filters\<close>

definition fits_request :: "Request \<Rightarrow> Candidate \<Rightarrow> bool" where
  "fits_request r c \<longleftrightarrow>
     cd_Healthy c \<and> cd_Ready c
   \<and> servesModel (cd_Models c) (join_model (sr_BaseModel r) (sr_Adapter r)) (sr_BaseModel r) (sr_Adapter r)
   \<and> \<not> (sr_MinContext r > 0 \<and> cd_MaxContext c > 0 \<and> cd_MaxContext c < sr_MinContext r)"

definition below_limit :: "int \<Rightarrow> Candidate \<Rightarrow> bool" where
  "below_limit limit c \<longleftrightarrow> limit \<le> 0 \<or> cd_QueueDepth c < limit"

lemma servesModel_nonempty: "servesModel ms want base adapter \<Longrightarrow> ms \<noteq> []"
  by (auto simp: servesModel_def)

lemma three_filters:
  assumes "sr_BaseModel r \<noteq> ''''"
  shows "apply_filter CapabilityFilter (Some r) (apply_filter ModelFilter (Some r)
           (apply_filter HealthFilter (Some r) cs)) = filter (fits_request r) cs"
  using assms
  by (auto simp: fits_request_def satisfiesCapability_def dest: servesModel_nonempty intro!: filter_cong)

lemma run_filters_configured:
  assumes "sr_BaseModel r \<noteq> ''''"
  shows "run_filters (ch_Filters (NewConfiguredChain cfg)) (Some r) cs =
     (if filter (fits_request r) cs = [] then Inl (ErrNoCapacity ''no capacity'')
      else if filter (\<lambda>c. fits_request r c \<and> below_limit (cc_AdmissionLimit cfg) c) cs = []
      then Inl (ErrAdmissionRejected ''admission rejected'')
      else Inr (filter (\<lambda>c. fits_request r c \<and> below_limit (cc_AdmissionLimit cfg) c) cs))"
proof -
  let ?h = "apply_filter HealthFilter (Some r) cs"
  let ?m = "apply_filter ModelFilter (Some r) ?h"
  let ?c = "apply_filter CapabilityFilter (Some r) ?m"
  have c: "?c = filter (fits_request r) cs" using assms by (rule three_filters)
  have "?h = [] \<Longrightarrow> ?m = []" and "?m = [] \<Longrightarrow> ?c = []" by (simp_all split: option.splits)
  then have base: "run_filters ([HealthFilter, ModelFilter, CapabilityFilter] @ fs) (Some r) cs =
      (if ?c = [] then Inl (ErrNoCapacity ''no capacity'') else run_filters fs (Some r) ?c)" for fs
    unfolding append_Cons append_Nil run_filters.simps Let_def filter_name.simps by auto
  show ?thesis
  proof (cases "0 < cc_AdmissionLimit cfg")
    case True
    then have f: "ch_Filters (NewConfiguredChain cfg) =
        [HealthFilter, ModelFilter, CapabilityFilter] @ [AdmissionFilter (cc_AdmissionLimit cfg)]"
      by (simp add: NewConfiguredChain_def Let_def)
    from True have "(\<lambda>x. fits_request r x \<and> below_limit (cc_AdmissionLimit cfg) x)
        = (\<lambda>x. fits_request r x \<and> cd_QueueDepth x < cc_AdmissionLimit cfg)"
      by (auto simp: below_limit_def)
    with True show ?thesis unfolding f base c by (auto simp: Let_def)
  next
    case False
    then have f: "ch_Filters (NewConfiguredChain cfg) = [HealthFilter, ModelFilter, CapabilityFilter] @ []"
      by (simp add: NewConfiguredChain_def Let_def)
    have "(\<lambda>x. fits_request r x \<and> below_limit (cc_AdmissionLimit cfg) x) = fits_request r"
      using False by (auto simp: below_limit_def)
    then show ?thesis unfolding f base c by simp
  qed
qed

lemma mset_apply_filter:
  "mset xs = mset ys \<Longrightarrow> mset (apply_filter f req xs) = mset (apply_filter f req ys)"
  by (cases f) (auto split: option.splits)

lemma run_filters_perm:
  assumes "mset xs = mset ys"
  shows "(\<exists>e. run_filters fs req xs = Inl e \<and> run_filters fs req ys = Inl e)
       \<or> (\<exists>xs' ys'. run_filters fs req xs = Inr xs' \<and> run_filters fs req ys = Inr ys'
            \<and> mset xs' = mset ys' \<and> set xs' \<subseteq> set xs)"
  using assms
proof (induction fs arbitrary: xs ys)
  case (Cons f fs)
  let ?x = "apply_filter f req xs" and ?y = "apply_filter f req ys"
  have eq: "mset ?x = mset ?y" using Cons.prems by (rule mset_apply_filter)
  have sub: "set ?x \<subseteq> set xs" by (cases f) (auto split: option.splits if_splits)
  show ?case
  proof (cases "?x = []")
    case True
    with eq have "?y = []" by simp
    with True show ?thesis by (simp add: Let_def)
  next
    case False
    with eq have "?y \<noteq> []" by auto
    with False Cons.IH [OF eq] sub show ?thesis by (simp add: Let_def) blast
  qed
qed simp

section \<open>Rendezvous hashing\<close>

text \<open>The loop keeps the least worker for this key: the highest score, then the smallest id.\<close>

definition hrw_key :: "(string \<Rightarrow> u64) \<Rightarrow> string \<Rightarrow> int \<times> string" where
  "hrw_key sc w = (- uint (sc w), w)"

lemma hrw_key_less: "hrw_key sc a < hrw_key sc b \<longleftrightarrow> sc a > sc b \<or> (sc a = sc b \<and> a < b)"
  by (auto simp: hrw_key_def word_less_def word_uint_eq_iff)

lemma hrw_key_inj: "hrw_key sc a = hrw_key sc b \<longleftrightarrow> a = b"
  by (auto simp: hrw_key_def)

lemma hrw_loop_least:
  "hrw_loop sc ws (sc b) b \<in> insert b (set ws)
   \<and> (\<forall>w \<in> insert b (set ws). hrw_key sc (hrw_loop sc ws (sc b) b) \<le> hrw_key sc w)"
proof (induction ws arbitrary: b)
  case (Cons w ws)
  show ?case
  proof (cases "hrw_key sc w < hrw_key sc b")
    case True
    then have "hrw_loop sc (w # ws) (sc b) b = hrw_loop sc ws (sc w) w" by (simp add: hrw_key_less)
    with Cons.IH [of w] True show ?thesis by (auto dest: order.strict_trans2 less_imp_le)
  next
    case False
    then have "hrw_loop sc (w # ws) (sc b) b = hrw_loop sc ws (sc b) b" by (auto simp: hrw_key_less)
    with Cons.IH [of b] False show ?thesis by (auto simp: not_less intro: order_trans)
  qed
qed simp

lemma HRWPick_least:
  assumes "ids \<noteq> []"
  shows "HRWPick sum64 key ids \<in> set ids"
    and "w \<in> set ids \<Longrightarrow> hrw_key (hrw_score sum64 key) (HRWPick sum64 key ids) \<le> hrw_key (hrw_score sum64 key) w"
  using assms hrw_loop_least [of "hrw_score sum64 key" "tl ids" "hd ids"]
  by (cases ids; auto simp: HRWPick_def)+

lemma HRWPick_unique:
  assumes "p \<in> set ids" and "\<forall>w \<in> set ids. hrw_key (hrw_score sum64 key) p \<le> hrw_key (hrw_score sum64 key) w"
  shows "HRWPick sum64 key ids = p"
proof -
  have ne: "ids \<noteq> []" using assms(1) by auto
  have "hrw_key (hrw_score sum64 key) p = hrw_key (hrw_score sum64 key) (HRWPick sum64 key ids)"
    using assms HRWPick_least [OF ne] by (meson order_antisym)
  then show ?thesis by (simp add: hrw_key_inj)
qed

lemma HRWPick_set_cong:
  assumes "set ids = set ids'"
  shows "HRWPick sum64 key ids = HRWPick sum64 key ids'"
proof (cases "ids = []")
  case False
  then have "ids' \<noteq> []" using assms by auto
  then show ?thesis using HRWPick_least [of ids'] assms by (intro HRWPick_unique) auto
qed (use assms in simp)

section \<open>Preparing the scorers\<close>

lemma cost_Prepare_Max: "cost_Prepare cs = Max (insert 0 (cd_CostPerHour ` set cs))"
proof -
  have "fold (\<lambda>c mx. if cd_CostPerHour c > mx then cd_CostPerHour c else mx) cs m
      = Max (insert m (cd_CostPerHour ` set cs))" for m
  proof (induction cs arbitrary: m)
    case (Cons c cs)
    have "(if cd_CostPerHour c > m then cd_CostPerHour c else m) = max m (cd_CostPerHour c)"
      by (simp add: max_def)
    with Cons.IH [of "max m (cd_CostPerHour c)"] show ?case
      by (cases "cs = []") (simp_all add: max.assoc max.left_commute)
  qed simp
  then show ?thesis by (simp add: cost_Prepare_def)
qed

lemma Prepare_perm:
  assumes "mset cs = mset cs'"
  shows "Prepare sum64 s req cs = Prepare sum64 s req cs'"
proof -
  have s: "set cs = set cs'" using assms by (rule mset_eq_setD)
  then have e: "cs = [] \<longleftrightarrow> cs' = []" by (metis set_empty)
  have "HRWPick sum64 k (map cd_WorkerID (filter affinity_eligible cs))
      = HRWPick sum64 k (map cd_WorkerID (filter affinity_eligible cs'))" for k
    by (rule HRWPick_set_cong) (simp add: s)
  then show ?thesis
    using e s by (cases s) (simp_all add: affinity_Prepare_def cost_Prepare_Max Let_def split: option.splits)
qed

lemma prepare_all_perm:
  "mset cs = mset cs' \<Longrightarrow> prepare_all sum64 ss req cs = prepare_all sum64 ss req cs'"
proof (induction ss arbitrary: req)
  case (Cons x ss)
  then show ?case by (cases x) (simp add: Prepare_perm [of cs cs'])
qed simp

section \<open>The ranking\<close>

interpretation ranking: keyed_less scored_less "\<lambda>x. (- snd x, cd_WorkerID (fst x))"
  by unfold_locales (auto simp: scored_less_def)

lemma scored_inj:
  assumes "distinct (map cd_WorkerID cs)"
  shows "inj_on (\<lambda>x. (- snd x, cd_WorkerID (fst x))) (set (map (\<lambda>c. (c, f c)) cs))"
  using assms by (auto simp: inj_on_def distinct_map)

lemma sort_scored_perm:
  assumes "mset cs = mset cs'" and "distinct (map cd_WorkerID cs)"
  shows "sort_slice scored_less (map (\<lambda>c. (c, f c)) cs) = sort_slice scored_less (map (\<lambda>c. (c, f c)) cs')"
proof (rule ranking.sort_slice_unique [symmetric])
  show "mset (sort_slice scored_less (map (\<lambda>c. (c, f c)) cs')) = mset (map (\<lambda>c. (c, f c)) cs)"
    using assms(1) by simp
qed (simp_all only: ranking.sort_slice_sorted scored_inj [OF assms(2)])

lemma total_score_sum:
  "total_score ss req c = sum_list (map (\<lambda>(s, w). (if w = 0 then 1 else w) * Score s req c) ss)"
proof -
  have "fold (\<lambda>(s, w) t. t + (if w = 0 then 1 else w) * Score s req c) ss a =
      a + sum_list (map (\<lambda>(s, w). (if w = 0 then 1 else w) * Score s req c) ss)" for a
    by (induction ss arbitrary: a) auto
  then show ?thesis by (simp add: total_score_def)
qed

section \<open>Merging views into candidates\<close>

definition merge_step :: "(string \<Rightarrow> int) option \<Rightarrow> WorkerView \<Rightarrow> Candidate \<Rightarrow> Candidate" where
  "merge_step load w c = add_model w (merge_view load w c)"

definition candidate_of ::
  "(string \<Rightarrow> int) option \<Rightarrow> (string \<Rightarrow> real) option \<Rightarrow> WorkerView list \<Rightarrow> Candidate option" where
  "candidate_of load lat vs =
     (case vs of [] \<Rightarrow> None
      | v # ws \<Rightarrow> Some (fold (merge_step load) ws (add_model v (new_candidate load lat v))))"

lemma candidate_of_snoc:
  "candidate_of load lat (vs @ [w]) =
     Some (add_model w (case candidate_of load lat vs of
        None \<Rightarrow> new_candidate load lat w | Some c \<Rightarrow> merge_view load w c))"
  by (cases vs) (simp_all add: candidate_of_def merge_step_def)

lemma candidates_fold_lookup:
  "map_of (fold (candidates_step load lat) ws []) i =
     candidate_of load lat (filter (\<lambda>v. wv_ID v = i) ws)"
proof (induction ws rule: rev_induct)
  case Nil
  show ?case by (simp add: candidate_of_def)
next
  case (snoc w ws)
  then show ?case by (auto simp: candidates_step_def update_conv candidate_of_snoc)
qed

lemma candidates_fold_distinct: "distinct (map fst (fold (candidates_step load lat) ws []))"
  by (induction ws rule: rev_induct) (simp_all add: candidates_step_def distinct_update)

definition view_depth :: "(string \<Rightarrow> int) option \<Rightarrow> WorkerView \<Rightarrow> int" where
  "view_depth load w = wv_QueueDepth w + wv_InFlight w + (case load of None \<Rightarrow> 0 | Some g \<Rightarrow> g (wv_ID w))"

text \<open>What the merged candidate says of the views it was merged from.\<close>

definition summarises :: "(string \<Rightarrow> int) option \<Rightarrow> WorkerView list \<Rightarrow> Candidate \<Rightarrow> bool" where
  "summarises load vs c \<longleftrightarrow>
     cd_WorkerID c \<in> wv_ID ` set vs
   \<and> (cd_Healthy c \<longleftrightarrow> (\<exists>v \<in> set vs. wv_Healthy v)) \<and> (cd_Ready c \<longleftrightarrow> (\<exists>v \<in> set vs. wv_Ready v))
   \<and> cd_QueueDepth c = Max (view_depth load ` set vs)
   \<and> cd_MaxContext c = Max (wv_MaxContext ` set vs)
   \<and> distinct (cd_Models c)
   \<and> set (cd_Models c) = ModelID ` {v \<in> set vs. wv_BaseModel v \<noteq> ''''}"

lemma summarises_new: "summarises load [v] (add_model v (new_candidate load lat v))"
  by (auto simp: summarises_def add_model_def new_candidate_def ModelID_def Let_def view_depth_def)

lemma summarises_merge:
  assumes "summarises load vs c" and "vs \<noteq> []"
  shows "summarises load (vs @ [w]) (merge_step load w c)"
proof -
  have keep: "cd_WorkerID (merge_step load w c) = cd_WorkerID c"
    "cd_Healthy (merge_step load w c) = (cd_Healthy c \<or> wv_Healthy w)"
    "cd_Ready (merge_step load w c) = (cd_Ready c \<or> wv_Ready w)"
    "cd_QueueDepth (merge_step load w c) = max (cd_QueueDepth c) (view_depth load w)"
    "cd_MaxContext (merge_step load w c) = max (cd_MaxContext c) (wv_MaxContext w)"
    "cd_Models (merge_step load w c) =
       (if wv_BaseModel w = '''' \<or> ModelID w \<in> set (cd_Models c) then cd_Models c
        else cd_Models c @ [ModelID w])"
    by (auto simp: merge_step_def add_model_def merge_view_def ModelID_def Let_def max_def view_depth_def)
  have mx: "Max (f ` set (vs @ [w])) = max (Max (f ` set vs)) (f w)" for f :: "WorkerView \<Rightarrow> 'x::linorder"
    using assms(2) by (simp add: max.commute)
  show ?thesis
    using assms(1) unfolding summarises_def keep mx by auto
qed

lemma candidate_of_summarises: "candidate_of load lat vs = Some c \<Longrightarrow> summarises load vs c"
proof (induction vs arbitrary: c rule: rev_induct)
  case (snoc w vs)
  show ?case
  proof (cases "vs = []")
    case True
    with snoc.prems summarises_new [of load w lat] show ?thesis by (simp add: candidate_of_def)
  next
    case False
    then obtain d where d: "candidate_of load lat vs = Some d" by (cases vs) (auto simp: candidate_of_def)
    with snoc.prems have "c = merge_step load w d" by (simp add: candidate_of_snoc merge_step_def)
    with snoc.IH [OF d] False show ?thesis by (simp add: summarises_merge)
  qed
qed (simp add: candidate_of_def)

section \<open>Scores\<close>

text \<open>
  What a scorer promises the chain: on the candidates it is meant for, a score between 0 and 1.
  The chain adds the scores with positive weights.
\<close>

locale unit_scorer =
  fixes score :: "Request option \<Rightarrow> Candidate \<Rightarrow> real"
    and domain :: "Candidate \<Rightarrow> bool"
  assumes unit_range: "domain c \<Longrightarrow> 0 \<le> score req c \<and> score req c \<le> 1"
begin

lemma weighted_range: "domain c \<Longrightarrow> 0 \<le> w \<Longrightarrow> 0 \<le> w * score req c \<and> w * score req c \<le> w"
  using unit_range [of c req] by (simp add: mult_left_le)

end

definition policy_unit :: "RoutingPolicy option \<Rightarrow> bool" where
  "policy_unit h \<longleftrightarrow>
     (case h of None \<Rightarrow> True
      | Some p \<Rightarrow> list_all (\<lambda>(_, ws). list_all (\<lambda>(_, w). 0 \<le> w \<and> w \<le> 1) ws) (rp_WorkerWeights p))"

definition cache_unit :: "CacheSnapshot option \<Rightarrow> bool" where
  "cache_unit h \<longleftrightarrow>
     (case h of None \<Rightarrow> True
      | Some s \<Rightarrow> list_all (\<lambda>(_, bs). list_all (\<lambda>(_, w). w \<le> 1) bs) (cs_WorkerBlocks s))"

interpretation load_scorer: unit_scorer "Score LeastLoaded" "\<lambda>c. 0 \<le> cd_QueueDepth c"
  by unfold_locales (simp add: field_simps)

interpretation latency_scorer: unit_scorer "Score (NewLatencyScorer r)" "\<lambda>_. True" for r :: real
  by unfold_locales (auto simp: NewLatencyScorer_def field_simps add_pos_nonneg)

interpretation affinity_scorer: unit_scorer "Score (AffinityScorer win bb p)" "\<lambda>_. True" for win bb p
  by unfold_locales simp

interpretation cost_scorer: unit_scorer "Score (CostScorer mx)" "\<lambda>_. True" for mx
  by unfold_locales (auto simp: cost_Score_def Let_def)

lemma policy_Score_unit:
  assumes "policy_unit h"
  shows "0 \<le> policy_Score h req c \<and> policy_Score h req c \<le> 1"
proof -
  have "0 \<le> w \<and> w \<le> 1" if "h = Some p" "map_of (rp_WorkerWeights p) m = Some ws" "map_of ws i = Some w" for p m ws i w
    using assms that by (auto simp: policy_unit_def dest!: map_of_list_all)
  then show ?thesis by (auto simp: policy_Score_def split: option.splits)
qed

interpretation policy_scorer: unit_scorer "Score (PolicyScorer h)" "\<lambda>_. policy_unit h" for h
  by unfold_locales (simp add: policy_Score_unit)

lemma overlap_Score_unit:
  assumes "cache_unit h"
  shows "0 \<le> overlap_Score h req c \<and> overlap_Score h req c \<le> 1"
proof -
  have "0 \<le> snd (LongestConsecutivePrefix want (map_of have))"
    if "h = Some s" "map_of (cs_WorkerBlocks s) i = Some have" for s i want "have"
  proof -
    have "\<forall>b w. map_of have b = Some w \<longrightarrow> w \<le> 1"
      using assms that by (auto simp: cache_unit_def dest!: map_of_list_all)
    from block_scores_bounds [OF this] show ?thesis
      by (simp add: LongestConsecutivePrefix_def lcp_loop_takeWhile Let_def)
  qed
  then show ?thesis
    by (auto simp: overlap_Score_def Let_def DefaultBlockSize_def split: option.splits prod.splits)
      (metis snd_conv zero_le_divide_iff of_nat_0_le_iff mult_nonneg_nonneg zero_le_numeral)+
qed

interpretation overlap_scorer: unit_scorer "Score (OverlapScorer h)" "\<lambda>_. cache_unit h" for h
  by unfold_locales (simp add: overlap_Score_unit)

section \<open>Latency averages\<close>

lemma convex_between:
  fixes a :: real
  assumes "0 \<le> a" "a \<le> 1" "lo \<le> x" "x \<le> hi" "lo \<le> y" "y \<le> hi"
  shows "lo \<le> a * x + (1 - a) * y \<and> a * x + (1 - a) * y \<le> hi"
proof -
  have "a * lo + (1 - a) * lo \<le> a * x + (1 - a) * y" "a * x + (1 - a) * y \<le> a * hi + (1 - a) * hi"
    using assms by (intro add_mono mult_left_mono; simp)+
  then show ?thesis by (simp add: algebra_simps)
qed

lemma EWMA_Update_between:
  assumes "lo \<le> x" "x \<le> hi" and "ew_last e = None \<or> lo \<le> ew_value e \<and> ew_value e \<le> hi"
  shows "lo \<le> ew_value (EWMA_Update e x now) \<and> ew_value (EWMA_Update e x now) \<le> hi
       \<and> ew_last (EWMA_Update e x now) = Some now"
proof (cases "ew_last e")
  case None
  with assms show ?thesis by (simp add: EWMA_Update_def)
next
  case (Some l)
  define dt where "dt = (let d = dur_seconds (time_sub (Some now) (Some l)) in if d < 0 then 0 else d)"
  define tau where "tau = (if dur_seconds (ew_tau e) \<le> 0 then 10 else dur_seconds (ew_tau e))"
  have "0 \<le> dt / tau" by (simp add: dt_def tau_def Let_def)
  then have "0 \<le> 1 - exp (- dt / tau)" "1 - exp (- dt / tau) \<le> 1" by simp_all
  with convex_between [of "1 - exp (- dt / tau)" lo x hi "ew_value e"] assms Some show ?thesis
    by (auto simp: EWMA_Update_def dt_def tau_def Let_def)
qed

section \<open>Properties\<close>

definition demo_candidate :: "string \<Rightarrow> int \<Rightarrow> Candidate" where
  "demo_candidate i depth =
     \<lparr>cd_WorkerID = i, cd_Endpoint = ''h:1'', cd_QueueDepth = depth, cd_Healthy = True, cd_Ready = True,
      cd_EwmaLatencyMs = 0, cd_Models = [''m''], cd_MaxContext = 0, cd_CostPerHour = 0, cd_CostClass = '''',
      cd_Runtime = '''', cd_VRAMGB = 0, cd_GPU = '''', cd_Capabilities = []\<rparr>"

definition demo_req :: Request where
  "demo_req = \<lparr>sr_BaseModel = ''m'', sr_Adapter = '''', sr_Prompt = ''hi'', sr_AffinityKey = '''',
     sr_PreferredWorker = '''', sr_MinContext = 0\<rparr>"

definition demo_cfg :: ChainConfig where
  "demo_cfg = \<lparr>cc_WeightLoad = 1, cc_WeightLatency = 1, cc_WeightAffinity = 0, cc_WeightCost = 0,
     cc_WeightPolicy = 0, cc_LatencyRefMs = 100, cc_AdmissionLimit = 4, cc_AffinityWindow = 0,
     cc_AffinityBlock = 0, cc_Policy = None, cc_Overlap = None, cc_WeightOverlap = 0\<rparr>"

lemma demo_run_filters:
  "run_filters (ch_Filters (NewConfiguredChain demo_cfg)) (Some demo_req)
     [demo_candidate ''a'' 1, demo_candidate ''b'' 9] = Inr [demo_candidate ''a'' 1]"
  by (simp add: NewConfiguredChain_def demo_cfg_def demo_req_def demo_candidate_def join_model_def
      servesModel_def satisfiesCapability_def)

lemma demo_rank_Inr:
  "\<exists>out r ch. Rank sum64 (NewConfiguredChain demo_cfg) (Some demo_req)
     [demo_candidate ''a'' 1, demo_candidate ''b'' 9] = (Inr out, r, ch)"
  unfolding Rank_def demo_run_filters by (simp split: prod.splits)

text \<open>The ranking of any chain with the filters of a configured one.\<close>

lemma rank_listing:
  assumes "sr_BaseModel r \<noteq> ''''" and "ch_Filters ch = ch_Filters (NewConfiguredChain cfg)"
    and "Rank sum64 ch (Some r) cs = (Inr out, req', ch')"
  shows "out \<noteq> []
       \<and> mset (map (\<lambda>p. (pr_WorkerID p, pr_Endpoint p)) out)
         = mset (map (\<lambda>c. (cd_WorkerID c, cd_Endpoint c))
             (filter (\<lambda>c. fits_request r c \<and> below_limit (cc_AdmissionLimit cfg) c) cs))
       \<and> sorted (map (\<lambda>p. (- pr_Score p, pr_WorkerID p)) out)"
proof -
  let ?el = "filter (\<lambda>c. fits_request r c \<and> below_limit (cc_AdmissionLimit cfg) c) cs"
  obtain ss where out: "out = map (\<lambda>(c, total). \<lparr>pr_WorkerID = cd_WorkerID c, pr_Endpoint = cd_Endpoint c, pr_Score = total\<rparr>)
        (sort_slice scored_less (map (\<lambda>c. (c, total_score ss req' c)) ?el))"
    and ne: "?el \<noteq> []"
    using assms(3) unfolding Rank_def assms(2) run_filters_configured [OF assms(1)]
    by (auto split: if_splits prod.splits)
  let ?sorted = "sort_slice scored_less (map (\<lambda>c. (c, total_score ss req' c)) ?el)"
  have "length out = length ?el" by (simp add: out)
  then have "out \<noteq> []" using ne by auto
  moreover have "mset (map (\<lambda>p. (pr_WorkerID p, pr_Endpoint p)) out)
      = image_mset (\<lambda>(c, t). (cd_WorkerID c, cd_Endpoint c)) (mset ?sorted)"
    by (simp add: out comp_def case_prod_beta' image_mset.compositionality del: mset_sort_slice)
  then have "mset (map (\<lambda>p. (pr_WorkerID p, pr_Endpoint p)) out)
      = mset (map (\<lambda>c. (cd_WorkerID c, cd_Endpoint c)) ?el)"
    by (simp add: image_mset.compositionality comp_def case_prod_beta')
  moreover have "map (\<lambda>p. (- pr_Score p, pr_WorkerID p)) out = map (\<lambda>x. (- snd x, cd_WorkerID (fst x))) ?sorted"
    by (simp add: out case_prod_beta')
  then have "sorted (map (\<lambda>p. (- pr_Score p, pr_WorkerID p)) out)"
    by (simp only: ranking.sort_slice_sorted)
  ultimately show ?thesis by blast
qed

text \<open>
  C7. The ranking of a configured chain is complete and sound: it is never empty, it lists exactly
  the candidates that are healthy, ready, serve the model, have room for the context and are
  below the admission limit, each once, in descending order of score with ties by worker id; and
  \<open>Pick\<close> returns its first entry.
\<close>

theorem rank_sound_complete:
  assumes "sr_BaseModel r \<noteq> ''''"
    and "Rank sum64 (NewConfiguredChain cfg) (Some r) cs = (Inr out, req', ch')"
  shows "out \<noteq> []
       \<and> mset (map (\<lambda>p. (pr_WorkerID p, pr_Endpoint p)) out)
         = mset (map (\<lambda>c. (cd_WorkerID c, cd_Endpoint c))
             (filter (\<lambda>c. fits_request r c \<and> below_limit (cc_AdmissionLimit cfg) c) cs))
       \<and> sorted (map (\<lambda>p. (- pr_Score p, pr_WorkerID p)) out)
       \<and> Pick sum64 (NewConfiguredChain cfg) (Some r) cs = Ret (Inr (hd out))"
  using rank_listing [OF assms(1) refl assms(2)] assms(2) by (cases out) (simp_all add: Pick_def)

theorem rank_sound_complete_witness:
  "\<exists>out r ch. Rank (\<lambda>_. 0) (NewConfiguredChain demo_cfg) (Some demo_req)
       [demo_candidate ''a'' 1, demo_candidate ''b'' 9] = (Inr out, r, ch) \<and> out \<noteq> []"
proof -
  obtain out r ch where R: "Rank (\<lambda>_. 0) (NewConfiguredChain demo_cfg) (Some demo_req)
      [demo_candidate ''a'' 1, demo_candidate ''b'' 9] = (Inr out, r, ch)" using demo_rank_Inr by blast
  from rank_sound_complete [OF _ R] R show ?thesis by (auto simp: demo_req_def)
qed

text \<open>
  The two errors of the ranking are exactly the two reasons there can be none: no capacity when no
  candidate fits the request, admission rejected when some fit and all of them are at the
  admission limit. \<open>Pick\<close> never panics on a configured chain.
\<close>

theorem rank_errors:
  assumes "sr_BaseModel r \<noteq> ''''"
  shows "(fst (Rank sum64 (NewConfiguredChain cfg) (Some r) cs) = Inl e \<longleftrightarrow>
            (if \<exists>c \<in> set cs. fits_request r c
             then (\<forall>c \<in> set cs. fits_request r c \<longrightarrow> \<not> below_limit (cc_AdmissionLimit cfg) c)
                  \<and> e = ErrAdmissionRejected ''admission rejected''
             else e = ErrNoCapacity ''no capacity''))
       \<and> Pick sum64 (NewConfiguredChain cfg) (Some r) cs \<noteq> Panic"
proof -
  have "Pick sum64 (NewConfiguredChain cfg) (Some r) cs \<noteq> Panic"
  proof (cases "Rank sum64 (NewConfiguredChain cfg) (Some r) cs")
    case (fields res r' ch')
    show ?thesis
    proof (cases res)
      case (Inr out)
      have "length out = length (filter (\<lambda>c. fits_request r c \<and> below_limit (cc_AdmissionLimit cfg) c) cs)
          \<and> filter (\<lambda>c. fits_request r c \<and> below_limit (cc_AdmissionLimit cfg) c) cs \<noteq> []"
        using fields Inr unfolding Rank_def run_filters_configured [OF assms]
        by (auto split: if_splits prod.splits)
      then show ?thesis using fields Inr by (cases out) (auto simp: Pick_def)
    qed (simp add: Pick_def fields)
  qed
  then show ?thesis
    unfolding Rank_def run_filters_configured [OF assms]
    by (auto simp: filter_empty_conv split: prod.splits)
qed

theorem rank_errors_witness:
  "fst (Rank (\<lambda>_. 0) (NewConfiguredChain demo_cfg) (Some demo_req) [demo_candidate ''b'' 9])
     = Inl (ErrAdmissionRejected ''admission rejected'')"
proof -
  have "sr_BaseModel demo_req \<noteq> ''''" by (simp add: demo_req_def)
  from rank_errors [OF this, of "\<lambda>_. 0" demo_cfg "[demo_candidate ''b'' 9]"
      "ErrAdmissionRejected ''admission rejected''"]
  show ?thesis
    by (simp add: fits_request_def below_limit_def demo_candidate_def demo_req_def demo_cfg_def
        servesModel_def join_model_def)
qed

text \<open>
  C29. The decision does not depend on the order in which candidates arrive (a Go map is iterated in
  random order): for candidates with distinct worker ids, any permutation gives the same
  ranking with the same scores, the same preferred worker and the same scorer state.
\<close>

theorem rank_order_independent:
  assumes "mset cs = mset cs'" and "distinct (map cd_WorkerID cs)"
  shows "Rank sum64 ch req cs = Rank sum64 ch req cs'"
proof -
  consider e where "run_filters (ch_Filters ch) req cs = Inl e" "run_filters (ch_Filters ch) req cs' = Inl e"
    | xs ys where "run_filters (ch_Filters ch) req cs = Inr xs" "run_filters (ch_Filters ch) req cs' = Inr ys"
        "mset xs = mset ys" "set xs \<subseteq> set cs" "distinct (map cd_WorkerID xs)"
  proof -
    have "distinct (map cd_WorkerID (apply_filter f req zs))" if "distinct (map cd_WorkerID zs)" for f zs
      using that by (cases f) (auto simp: distinct_map_filter split: option.splits)
    then have d: "run_filters fs req zs = Inr xs \<Longrightarrow> distinct (map cd_WorkerID zs) \<Longrightarrow>
        distinct (map cd_WorkerID xs)" for fs xs zs
      by (induction fs arbitrary: zs) (auto simp: Let_def split: if_splits)
    show thesis
      using that run_filters_perm [OF assms(1), of "ch_Filters ch" req] d assms(2) by blast
  qed
  then show ?thesis
  proof cases
    case 1
    then show ?thesis by (simp add: Rank_def)
  next
    case 2
    then show ?thesis
      by (simp add: Rank_def prepare_all_perm [OF 2(3)] sort_scored_perm [OF 2(3,5)] split: prod.splits)
  qed
qed

theorem rank_order_independent_witness:
  "Rank (\<lambda>_. 0) (NewConfiguredChain demo_cfg) (Some demo_req) [demo_candidate ''a'' 1, demo_candidate ''b'' 2]
   = Rank (\<lambda>_. 0) (NewConfiguredChain demo_cfg) (Some demo_req) [demo_candidate ''b'' 2, demo_candidate ''a'' 1]"
  by (rule rank_order_independent) (simp_all add: demo_candidate_def add_mset_commute)

text \<open>
  C30. Rendezvous hashing with minimal disruption, for any hash function: the pick is one of the
  workers and does not depend on their order; when workers leave, a key whose worker stays is
  not moved; and when a worker joins, a key either stays or moves to the newcomer.
\<close>

theorem hrw_minimal_disruption:
  assumes "ids \<noteq> []"
  shows "HRWPick sum64 key ids \<in> set ids
       \<and> (set ids' \<subseteq> set ids \<and> HRWPick sum64 key ids \<in> set ids' \<longrightarrow>
            HRWPick sum64 key ids' = HRWPick sum64 key ids)
       \<and> HRWPick sum64 key (w # ids) \<in> {w, HRWPick sum64 key ids}"
proof (intro conjI impI)
  show in_ids: "HRWPick sum64 key ids \<in> set ids" using assms by (rule HRWPick_least)
  show "HRWPick sum64 key ids' = HRWPick sum64 key ids"
    if "set ids' \<subseteq> set ids \<and> HRWPick sum64 key ids \<in> set ids'"
    using that HRWPick_least [OF assms] by (intro HRWPick_unique) auto
  show "HRWPick sum64 key (w # ids) \<in> {w, HRWPick sum64 key ids}"
  proof (cases "HRWPick sum64 key (w # ids) = w")
    case False
    then have "HRWPick sum64 key (w # ids) \<in> set ids" using HRWPick_least(1) [of "w # ids"] by auto
    moreover have "\<forall>v \<in> set ids. hrw_key (hrw_score sum64 key) (HRWPick sum64 key (w # ids))
        \<le> hrw_key (hrw_score sum64 key) v" using HRWPick_least(2) [of "w # ids"] by auto
    ultimately have "HRWPick sum64 key ids = HRWPick sum64 key (w # ids)" by (rule HRWPick_unique)
    then show ?thesis by simp
  qed simp
qed

theorem hrw_minimal_disruption_witness:
  "HRWPick (\<lambda>s. of_nat (length s)) 7 [''aa'', ''b'', ''c''] \<in> {''aa'', ''b'', ''c''}"
  using hrw_minimal_disruption [of "[''aa'', ''b'', ''c'']" "\<lambda>s. of_nat (length s)" 7 "[]" "[]"] by simp

text \<open>
  Affinity follows the prompt's prefix: two prompts of at least a window that agree on the
  window's whole blocks have the same affinity key, so the same workers give the same pick.
\<close>

theorem affinity_same_prefix:
  assumes "0 < window" and "0 < blockBytes" and "blockBytes \<le> window"
    and "window \<le> int (length p)" and "window \<le> int (length q)"
    and "take (nat (window - window mod blockBytes)) p = take (nat (window - window mod blockBytes)) q"
    and "set ids = set ids'"
  shows "PrefixKey sum64 p window blockBytes = PrefixKey sum64 q window blockBytes
       \<and> HRWPick sum64 (PrefixKey sum64 p window blockBytes) ids
         = HRWPick sum64 (PrefixKey sum64 q window blockBytes) ids'"
proof -
  have "window mod blockBytes < window"
    using assms(1-3) by (meson order_less_le_trans pos_mod_bound)
  then have "PrefixKey sum64 p window blockBytes = PrefixKey sum64 q window blockBytes"
    using assms by (simp add: PrefixKey_def Let_def not_less)
  then show ?thesis using HRWPick_set_cong [OF assms(7)] by simp
qed

theorem affinity_same_prefix_witness:
  "PrefixKey (\<lambda>s. of_nat (length s)) ''abcdX'' 4 2 = PrefixKey (\<lambda>s. of_nat (length s)) ''abcdYZ'' 4 2"
  using affinity_same_prefix [of 4 2 "''abcdX''" "''abcdYZ''" "[]" "[]"] by simp

text \<open>
  Merging the snapshot: there is exactly one candidate per worker id of the snapshot, and it
  summarises that worker's views: healthy or ready when one of them is, the largest queue depth
  (with the gateway's own in-flight count) and context, and each model id once.
\<close>

theorem candidates_summarise_views:
  "let cs = CandidatesFromSnapshot (Some snap) load lat in
     distinct (map cd_WorkerID cs) \<and> cd_WorkerID ` set cs = wv_ID ` set (rs_Workers snap)
   \<and> (\<forall>c \<in> set cs. summarises load (filter (\<lambda>v. wv_ID v = cd_WorkerID c) (rs_Workers snap)) c)"
proof -
  let ?al = "fold (candidates_step load lat) (rs_Workers snap) []"
  have cs: "CandidatesFromSnapshot (Some snap) load lat = map snd ?al"
    by (simp add: CandidatesFromSnapshot_def)
  have d: "distinct (map fst ?al)" by (rule candidates_fold_distinct)
  have key: "candidate_of load lat (filter (\<lambda>v. wv_ID v = i) (rs_Workers snap)) = Some c" if "(i, c) \<in> set ?al" for i c
    using that d candidates_fold_lookup [of load lat "rs_Workers snap" i] by (metis map_of_eq_Some_iff)
  have sm: "summarises load (filter (\<lambda>v. wv_ID v = i) (rs_Workers snap)) c \<and> cd_WorkerID c = i"
    if "(i, c) \<in> set ?al" for i c
    using candidate_of_summarises [OF key [OF that]] by (auto simp: summarises_def)
  have ids: "map cd_WorkerID (map snd ?al) = map fst ?al" using sm by (auto simp: case_prod_beta')
  have "fst ` set ?al = wv_ID ` set (rs_Workers snap)"
  proof (intro set_eqI)
    fix i
    have "i \<in> fst ` set ?al \<longleftrightarrow> candidate_of load lat (filter (\<lambda>v. wv_ID v = i) (rs_Workers snap)) \<noteq> None"
      unfolding candidates_fold_lookup [symmetric] by (metis map_of_eq_None_iff)
    also have "\<dots> \<longleftrightarrow> i \<in> wv_ID ` set (rs_Workers snap)"
    proof (cases "filter (\<lambda>v. wv_ID v = i) (rs_Workers snap)")
      case Nil
      then show ?thesis by (auto simp: candidate_of_def filter_empty_conv)
    next
      case (Cons v vs)
      then have "v \<in> set (filter (\<lambda>v. wv_ID v = i) (rs_Workers snap))" by (simp only: list.set_intros)
      then have "i \<in> wv_ID ` set (rs_Workers snap)" by auto
      with Cons show ?thesis by (simp add: candidate_of_def)
    qed
    finally show "i \<in> fst ` set ?al \<longleftrightarrow> i \<in> wv_ID ` set (rs_Workers snap)" .
  qed
  moreover have "cd_WorkerID ` set (map snd ?al) = fst ` set ?al"
    by (metis ids set_map)
  moreover have "distinct (map cd_WorkerID (map snd ?al))" using d by (simp only: ids)
  moreover have "summarises load (filter (\<lambda>v. wv_ID v = cd_WorkerID c) (rs_Workers snap)) c"
    if "c \<in> set (map snd ?al)" for c
    using that sm by auto
  ultimately show ?thesis unfolding cs Let_def by blast
qed

theorem candidates_summarise_views_witness:
  "let cs = CandidatesFromSnapshot (Some \<lparr>rs_BuiltAt = 0, rs_Epoch = 1, rs_Workers = demo_views\<rparr>) None None in
     cd_WorkerID ` set cs = {''v''} \<and> (\<forall>c \<in> set cs. summarises None demo_views c)"
proof -
  let ?snap = "\<lparr>rs_BuiltAt = 0, rs_Epoch = 1, rs_Workers = demo_views\<rparr>"
  let ?cs = "CandidatesFromSnapshot (Some ?snap) None None"
  note main = candidates_summarise_views [of ?snap None None, unfolded Let_def]
  have "wv_ID ` set demo_views = {''v''}" by (simp add: demo_views_def)
  with main have ids: "cd_WorkerID ` set ?cs = {''v''}" by simp
  have "summarises None demo_views c" if c: "c \<in> set ?cs" for c
  proof -
    from ids c have "cd_WorkerID c = ''v''" by blast
    then have "filter (\<lambda>v. wv_ID v = cd_WorkerID c) (rs_Workers ?snap) = demo_views" by (simp add: demo_views_def)
    with main c show ?thesis by metis
  qed
  with ids show ?thesis by (simp add: Let_def)
qed

text \<open>A prepared scorer keeps its kind, so its scores keep their range.\<close>

fun scorer_domain :: "Scorer \<Rightarrow> Candidate \<Rightarrow> bool" where
  "scorer_domain LeastLoaded c \<longleftrightarrow> 0 \<le> cd_QueueDepth c"
| "scorer_domain (LatencyScorer r) c \<longleftrightarrow> 0 < r"
| "scorer_domain (PolicyScorer h) c \<longleftrightarrow> policy_unit h"
| "scorer_domain (OverlapScorer h) c \<longleftrightarrow> cache_unit h"
| "scorer_domain _ c \<longleftrightarrow> True"

lemma scorer_domain_Prepare: "scorer_domain (fst (Prepare sum64 s req cs)) c = scorer_domain s c"
  by (cases s) (auto split: prod.splits)

lemma Score_unit:
  assumes "scorer_domain s c"
  shows "0 \<le> Score s req c \<and> Score s req c \<le> 1"
proof (cases s)
  case (LatencyScorer r)
  then have "s = NewLatencyScorer r" using assms by (simp add: NewLatencyScorer_def)
  then show ?thesis using latency_scorer.unit_range by blast
qed (use assms load_scorer.unit_range affinity_scorer.unit_range cost_scorer.unit_range
    policy_scorer.unit_range overlap_scorer.unit_range in fastforce)+

lemma prepare_all_domain:
  "prepare_all sum64 ss req cs = (ss', req') \<Longrightarrow>
     map snd ss' = map snd ss \<and> (list_all (\<lambda>(s, w). scorer_domain s c) ss' = list_all (\<lambda>(s, w). scorer_domain s c) ss)"
proof (induction ss arbitrary: req ss' req')
  case (Cons x ss)
  obtain s w where x: "x = (s, w)" by (cases x)
  obtain s1 r1 where p: "Prepare sum64 s req cs = (s1, r1)" by fastforce
  obtain ss1 r2 where q: "prepare_all sum64 ss r1 cs = (ss1, r2)" by fastforce
  from Cons.IH [OF q] Cons.prems scorer_domain_Prepare [of sum64 s req cs c] x p q show ?case by auto
qed simp

lemma total_score_range:
  assumes "list_all (\<lambda>(s, w). scorer_domain s c \<and> 0 < w) ss"
  shows "0 \<le> total_score ss req c \<and> total_score ss req c \<le> sum_list (map snd ss)"
  using assms unfolding total_score_sum
proof (induction ss)
  case (Cons x ss)
  obtain s w where x: "x = (s, w)" by (cases x)
  with Cons.prems have "0 \<le> w * Score s req c \<and> w * Score s req c \<le> w"
    using Score_unit [of s c req] by (simp add: mult_left_le)
  moreover have "0 \<le> (\<Sum>(s, w)\<leftarrow>ss. (if w = 0 then 1 else w) * Score s req c)
      \<and> (\<Sum>(s, w)\<leftarrow>ss. (if w = 0 then 1 else w) * Score s req c) \<le> sum_list (map snd ss)"
    using Cons x by simp
  moreover have "(\<Sum>(s, w)\<leftarrow>x # ss. (if w = 0 then 1 else w) * Score s req c)
      = w * Score s req c + (\<Sum>(s, w)\<leftarrow>ss. (if w = 0 then 1 else w) * Score s req c)"
    using Cons.prems x by simp
  ultimately show ?case using x by (auto simp del: sum_list.Cons) (simp add: add_mono)
qed simp

text \<open>
  The scores of a ranking lie between 0 and the sum of the scorers' weights, when the weights are
  positive, no queue depth is negative and the policy and cache weights lie between 0 and 1.
\<close>

theorem rank_scores_bounded:
  assumes "list_all (\<lambda>(s, w). 0 < w) (ch_Scorers ch)"
    and "\<forall>c \<in> set cs. list_all (\<lambda>(s, w). scorer_domain s c) (ch_Scorers ch)"
    and "Rank sum64 ch req cs = (Inr out, req', ch')" and "p \<in> set out"
  shows "0 \<le> pr_Score p \<and> pr_Score p \<le> sum_list (map snd (ch_Scorers ch))"
proof -
  obtain xs ss where xs: "run_filters (ch_Filters ch) req cs = Inr xs"
    and ss: "prepare_all sum64 (ch_Scorers ch) req xs = (ss, req')"
    and out: "out = map (\<lambda>(c, total). \<lparr>pr_WorkerID = cd_WorkerID c, pr_Endpoint = cd_Endpoint c, pr_Score = total\<rparr>)
        (sort_slice scored_less (map (\<lambda>c. (c, total_score ss req' c)) xs))"
    using assms(3) by (auto simp: Rank_def split: sum.splits prod.splits)
  from out assms(4) obtain c where c: "c \<in> set xs" "pr_Score p = total_score ss req' c" by auto
  have "c \<in> set cs" using c(1) run_filters_perm [of cs cs "ch_Filters ch" req] xs by auto
  with assms(2) prepare_all_domain [OF ss, of c]
  have "list_all (\<lambda>(s, w). scorer_domain s c) ss" and w: "map snd ss = map snd (ch_Scorers ch)" by auto
  moreover have "\<forall>w \<in> set (map snd ss). 0 < w"
    unfolding w using assms(1) by (auto simp: list_all_iff)
  then have "list_all (\<lambda>(s, w). 0 < w) ss" by (simp add: list_all_iff case_prod_beta')
  ultimately have "list_all (\<lambda>(s, w). scorer_domain s c \<and> 0 < w) ss"
    by (simp add: list_all_iff case_prod_beta')
  from total_score_range [OF this] c(2) w show ?thesis by simp
qed

theorem rank_scores_bounded_witness:
  "\<exists>out r ch. Rank (\<lambda>_. 0) (NewConfiguredChain demo_cfg) (Some demo_req)
       [demo_candidate ''a'' 1, demo_candidate ''b'' 9] = (Inr out, r, ch)
     \<and> (\<forall>p \<in> set out. 0 \<le> pr_Score p \<and> pr_Score p \<le> 2)"
proof -
  obtain out r ch where R: "Rank (\<lambda>_. 0) (NewConfiguredChain demo_cfg) (Some demo_req)
      [demo_candidate ''a'' 1, demo_candidate ''b'' 9] = (Inr out, r, ch)" using demo_rank_Inr by blast
  have s: "ch_Scorers (NewConfiguredChain demo_cfg) = [(LeastLoaded, 1), (LatencyScorer 100, 1)]"
    by (simp add: NewConfiguredChain_def demo_cfg_def NewLatencyScorer_def)
  have "\<forall>p \<in> set out. 0 \<le> pr_Score p \<and> pr_Score p \<le> 2"
    using rank_scores_bounded [OF _ _ R] by (auto simp: s demo_candidate_def)
  with R show ?thesis by blast
qed

text \<open>
  A weight of 0 does not switch a scorer off: \<open>Rank\<close> reads it as 1, so a chain whose load or
  latency weight is configured as 0 ranks as one in which that weight is 1.
\<close>

theorem zero_weight_is_one:
  "fst (Rank sum64 (ch\<lparr>ch_Scorers := (s, 0) # ss\<rparr>) req cs)
   = fst (Rank sum64 (ch\<lparr>ch_Scorers := (s, 1) # ss\<rparr>) req cs)"
proof -
  have "total_score ((s', 0) # ss') r = total_score ((s', 1) # ss') r" for s' ss' r
    by (simp add: fun_eq_iff total_score_sum)
  then show ?thesis by (auto simp: Rank_def split: sum.splits prod.splits)
qed

text \<open>
  A reported prefix attracts its prompt: after a worker reports the block keys of a prompt from
  device memory, the overlap score of that worker for a request with the same prompt and adapter
  is 1. The base model of the request is not compared with the one of the report.
\<close>

theorem report_then_overlap:
  assumes "w \<noteq> ''''" and "tier \<noteq> ''cpu''" and "sr_Prompt r \<noteq> ''''"
    and "cd_WorkerID c = w" and "get_str (cd_Capabilities c) ''provider'' \<noteq> ''true''"
    and "Report hex s w base (sr_Adapter r) tier
           (HashPromptApprox (sr_Prompt r) DefaultBlockSize (sr_Adapter r)) now = (s', cmds, ev)"
  shows "Score (OverlapScorer (sv_holder s')) (Some r) c = 1"
proof -
  define want where "want = HashPromptApprox (sr_Prompt r) DefaultBlockSize (sr_Adapter r)"
  have "go_runes (map of_char (sr_Prompt r)) \<noteq> []"
    using assms(3) by (subst go_runes.simps) simp
  then have ne: "want \<noteq> []"
    by (simp add: want_def HashPromptApprox_def assms(3) HashBlocks_def ChunkTokens_def
        DefaultBlockSize_def chunk.simps Let_def)
  have "s' = Apply s \<lparr>ev_Type = ''stored'', ev_WorkerID = w, ev_BaseModel = base, ev_Adapter = sr_Adapter r,
      ev_Tier = tier, ev_Hashes = want\<rparr> now"
    using assms(6) by (auto simp: Report_def Let_def want_def)
  then have held: "sv_holder s' = Some \<lparr>cs_WorkerBlocks = ix_byWorker (sv_index s'), cs_BuiltAt = now\<rparr>"
    and hb: "holds_block (sv_index s') = spec_apply \<lparr>ev_Type = ''stored'', ev_WorkerID = w, ev_BaseModel = base,
      ev_Adapter = sr_Adapter r, ev_Tier = tier, ev_Hashes = want\<rparr> (holds_block (sv_index s))"
    by (simp_all add: Apply_def publishSnapshot_def SnapshotForScoring_def apply_index_refines)
  have one: "map_of (blocks_of (ix_byWorker (sv_index s')) w) h = Some 1" if "h \<in> set want" for h
    using fun_cong [OF hb, of "(w, h)"] that assms(1,2)
    by (simp add: holds_block_def spec_apply_def tier_weight_def)
  obtain bs where bs: "map_of (ix_byWorker (sv_index s')) w = Some bs"
    using one [of "hd want"] ne by (auto simp: blocks_of_def split: option.splits)
  then have have_bs: "map_of bs h = Some 1" if "h \<in> set want" for h
    using one [OF that] by (simp add: blocks_of_def)
  then have "bs \<noteq> []" using ne by (metis list.set_sel(1) map_of.simps(1) option.distinct(1))
  have "takeWhile (\<lambda>h. map_of bs h \<noteq> None) want = want" using have_bs by (simp add: takeWhile_eq_all_conv)
  moreover have "map (block_score (map_of bs)) want = replicate (length want) 256"
    using have_bs by (simp add: map_replicate_const [symmetric] block_score_def cong: map_cong)
  ultimately have "LongestConsecutivePrefix want (map_of bs) = (int (length want), 256 * real (length want))"
    by (simp add: LongestConsecutivePrefix_def lcp_loop_takeWhile sum_list_replicate Let_def
        del: takeWhile_eq_all_conv)
  moreover have "HashPromptApprox (sr_Prompt r) 256 (sr_Adapter r) = want"
    by (simp add: want_def DefaultBlockSize_def)
  ultimately show ?thesis
    using held bs \<open>bs \<noteq> []\<close> ne assms(4,5)
    by (simp add: overlap_Score_def DefaultBlockSize_def Let_def)
qed

theorem report_then_overlap_witness:
  "Score (OverlapScorer (sv_holder (fst (Report (\<lambda>_. ''0'') (NewCacheService 0) ''a'' ''other'' ''''
     ''gpu'' (HashPromptApprox ''hi'' DefaultBlockSize '''') 1)))) (Some demo_req) (demo_candidate ''a'' 1) = 1"
proof -
  obtain s' cmds ev where R: "Report (\<lambda>_. ''0'') (NewCacheService 0) ''a'' ''other'' (sr_Adapter demo_req)
     ''gpu'' (HashPromptApprox (sr_Prompt demo_req) DefaultBlockSize (sr_Adapter demo_req)) 1 = (s', cmds, ev)"
    by (metis prod.exhaust)
  have "sr_Prompt demo_req \<noteq> ''''" "cd_WorkerID (demo_candidate ''a'' 1) = ''a''"
    "get_str (cd_Capabilities (demo_candidate ''a'' 1)) ''provider'' \<noteq> ''true''"
    by (simp_all add: demo_req_def demo_candidate_def go_lookup_def)
  from report_then_overlap [OF _ _ this R] have "Score (OverlapScorer (sv_holder s')) (Some demo_req) (demo_candidate ''a'' 1) = 1"
    by simp
  moreover have "sr_Prompt demo_req = ''hi''" "sr_Adapter demo_req = ''''" by (simp_all add: demo_req_def)
  ultimately show ?thesis using R by simp
qed

text \<open>
  The latency average stays within the range of what was observed: after any number of samples,
  at any times, even if the clock goes back, the value the scheduler reads for a worker lies
  between bounds of the samples; with no sample it reads 0.
\<close>

theorem latency_between_samples:
  assumes "\<forall>(x, now) \<in> set obs. lo \<le> x \<and> x \<le> hi" and "0 \<le> lo" and "w \<noteq> ''''"
  shows "(let s = fold (\<lambda>(x, now) s. Observe s w x now) obs (NewLatencyStore tau) in
          if obs = [] then Latency_Get s w = 0 else lo \<le> Latency_Get s w \<and> Latency_Get s w \<le> hi)"
proof -
  let ?run = "\<lambda>obs. fold (\<lambda>(x, now) s. Observe s w x now) obs (NewLatencyStore tau)"
  have "(obs = [] \<longrightarrow> la_m (?run obs) w = None)
      \<and> (obs \<noteq> [] \<longrightarrow> (\<exists>e. la_m (?run obs) w = Some e \<and> lo \<le> ew_value e \<and> ew_value e \<le> hi))"
    using assms(1)
  proof (induction obs rule: rev_induct)
    case Nil
    show ?case by (simp add: NewLatencyStore_def)
  next
    case (snoc ob obs)
    obtain x now where ob: "ob = (x, now)" by (cases ob)
    with snoc.prems have x: "lo \<le> x" "x \<le> hi" by auto
    define e where "e = fst (latency_getOrCreate (?run obs) w)"
    have "ew_last e = None \<or> lo \<le> ew_value e \<and> ew_value e \<le> hi"
      using snoc by (cases "obs = []") (auto simp: e_def latency_getOrCreate_def NewEWMA_def Let_def)
    from EWMA_Update_between [OF x this, of now] show ?case
      using x assms(2,3) by (simp add: ob Observe_def e_def case_prod_beta')
  qed
  then show ?thesis by (cases "obs = []") (auto simp: Latency_Get_def Let_def)
qed

theorem latency_between_samples_witness:
  "10 \<le> Latency_Get (Observe (Observe (NewLatencyStore 0) ''w'' 10 0) ''w'' 30 5) ''w''"
  using latency_between_samples [of "[(10, 0), (30, 5)]" 10 30 "''w''" 0] by (simp add: Let_def)

end
