(* ===== verification/Catalog.thy ===== *)
theory Catalog
  imports Routing
begin

text \<open>
  The model catalog: its tables (\<open>services/catalog/models.go\<close>), the repository over them
  (\<open>repository.go\<close>) and the service that rebuilds the snapshot the gateway resolves names with
  (\<open>snapshot.go\<close>). The database is explicit state; \<open>fault\<close> is its verdict on each statement in
  turn and \<open>ids\<close> the supply of random identifiers, so the theorems that need every statement
  accepted, or identifiers that differ, say so.
\<close>

section \<open>Tables\<close>

record Model =
  md_ID :: string
  md_Name :: string
  md_BaseModel :: string
  md_Adapter :: string
  md_CreatedAt :: gotime

record ModelAssignment =
  ma_ID :: string
  ma_ModelID :: string
  ma_WorkerID :: string
  ma_CreatedAt :: gotime

record catalog_db =
  ct_models :: "Model list"
  ct_assigns :: "ModelAssignment list"
  ct_calls :: nat
  ct_ids :: nat

text \<open>One statement: its verdict, and the count of statements moved on.\<close>

definition db_call :: "(nat \<Rightarrow> goerr option) \<Rightarrow> catalog_db \<Rightarrow> goerr option \<times> catalog_db" where
  "db_call fault db = (fault (ct_calls db), db\<lparr>ct_calls := Suc (ct_calls db)\<rparr>)"

definition newID :: "(nat \<Rightarrow> string) \<Rightarrow> catalog_db \<Rightarrow> string \<times> catalog_db" where
  "newID ids db = (ids (ct_ids db), db\<lparr>ct_ids := Suc (ct_ids db)\<rparr>)"

section \<open>The repository\<close>

definition ListModels :: "(nat \<Rightarrow> goerr option) \<Rightarrow> catalog_db \<Rightarrow> (goerr + Model list) \<times> catalog_db" where
  "ListModels fault db =
     (case db_call fault db of
        (Some e, db') \<Rightarrow> (Inl e, db')
      | (None, db') \<Rightarrow> (Inr (sort_slice (\<lambda>a b. md_Name a < md_Name b) (ct_models db')), db'))"

definition ListAssignments :: "(nat \<Rightarrow> goerr option) \<Rightarrow> catalog_db \<Rightarrow> (goerr + ModelAssignment list) \<times> catalog_db" where
  "ListAssignments fault db =
     (case db_call fault db of
        (Some e, db') \<Rightarrow> (Inl e, db')
      | (None, db') \<Rightarrow> (Inr (ct_assigns db'), db'))"

text \<open>The insert of a model: a conflict on the name updates the base model and the adapter.\<close>

definition insert_model :: "Model \<Rightarrow> Model list \<Rightarrow> Model list" where
  "insert_model m ms =
     (if md_Name m \<in> md_Name ` set ms
      then map (\<lambda>r. if md_Name r = md_Name m
                    then r\<lparr>md_BaseModel := md_BaseModel m, md_Adapter := md_Adapter m\<rparr> else r) ms
      else ms @ [m])"

text \<open>
  The table's second unique index is on base model and adapter: a row of another name with the identity of the new one
  makes the statement fail, whether it inserts or updates.
\<close>

definition identity_taken :: "Model \<Rightarrow> Model list \<Rightarrow> bool" where
  "identity_taken m ms \<longleftrightarrow>
     (\<exists>r \<in> set ms. md_Name r \<noteq> md_Name m \<and> md_BaseModel r = md_BaseModel m \<and> md_Adapter r = md_Adapter m)"

definition duplicate_key :: goerr where
  "duplicate_key = PlainErr ''duplicate key value violates unique constraint''"

definition UpsertModel ::
  "(nat \<Rightarrow> goerr option) \<Rightarrow> (nat \<Rightarrow> string) \<Rightarrow> int \<Rightarrow> Model \<Rightarrow> catalog_db \<Rightarrow> goerr option \<times> Model \<times> catalog_db" where
  "UpsertModel fault ids now m db =
     (let (m1, db1) = (if md_ID m = '''' then (case newID ids db of (i, d) \<Rightarrow> (m\<lparr>md_ID := i\<rparr>, d)) else (m, db));
          m2 = (if md_CreatedAt m1 = None then m1\<lparr>md_CreatedAt := Some now\<rparr> else m1) in
      case db_call fault db1 of
        (Some e, db2) \<Rightarrow> (Some e, m2, db2)
      | (None, db2) \<Rightarrow>
          if identity_taken m2 (ct_models db2) then (Some duplicate_key, m2, db2)
          else (None, m2, db2\<lparr>ct_models := insert_model m2 (ct_models db2)\<rparr>))"

definition insert_assignment :: "ModelAssignment \<Rightarrow> ModelAssignment list \<Rightarrow> ModelAssignment list" where
  "insert_assignment a as =
     (if \<exists>r \<in> set as. ma_ModelID r = ma_ModelID a \<and> ma_WorkerID r = ma_WorkerID a then as else as @ [a])"

definition UpsertAssignment ::
  "(nat \<Rightarrow> goerr option) \<Rightarrow> (nat \<Rightarrow> string) \<Rightarrow> int \<Rightarrow> ModelAssignment \<Rightarrow> catalog_db \<Rightarrow> goerr option \<times> catalog_db" where
  "UpsertAssignment fault ids now a db =
     (let (a1, db1) = (if ma_ID a = '''' then (case newID ids db of (i, d) \<Rightarrow> (a\<lparr>ma_ID := i\<rparr>, d)) else (a, db));
          a2 = (if ma_CreatedAt a1 = None then a1\<lparr>ma_CreatedAt := Some now\<rparr> else a1) in
      case db_call fault db1 of
        (Some e, db2) \<Rightarrow> (Some e, db2)
      | (None, db2) \<Rightarrow> (None, db2\<lparr>ct_assigns := insert_assignment a2 (ct_assigns db2)\<rparr>))"

text \<open>The loop of \<open>SeedFromWorkers\<close> over the rows of \<open>servable_models\<close>.\<close>

definition seed_row ::
  "(nat \<Rightarrow> goerr option) \<Rightarrow> (nat \<Rightarrow> string) \<Rightarrow> int \<Rightarrow> ServableModel \<Rightarrow> catalog_db \<Rightarrow> goerr option \<times> catalog_db" where
  "seed_row fault ids now rw db =
     (let name = join_model (sm_BaseModel rw) (sm_Adapter rw);
          (i, db1) = newID ids db;
          (e1, m, db2) = UpsertModel fault ids now
             \<lparr>md_ID = i, md_Name = name, md_BaseModel = sm_BaseModel rw, md_Adapter = sm_Adapter rw,
              md_CreatedAt = Some now\<rparr> db1 in
      if e1 \<noteq> None then (e1, db2)
      else
        (case db_call fault db2 of
           (Some e, db3) \<Rightarrow> (Some e, db3)
         | (None, db3) \<Rightarrow>
             (case find (\<lambda>r. md_Name r = name) (ct_models db3) of
                None \<Rightarrow> (Some (PlainErr ''record not found''), db3)
              | Some stored \<Rightarrow>
                  (let (j, db4) = newID ids db3 in
                   UpsertAssignment fault ids now
                     \<lparr>ma_ID = j, ma_ModelID = md_ID stored, ma_WorkerID = sm_WorkerID rw,
                      ma_CreatedAt = Some now\<rparr> db4))))"

fun seed_rows ::
  "(nat \<Rightarrow> goerr option) \<Rightarrow> (nat \<Rightarrow> string) \<Rightarrow> int \<Rightarrow> ServableModel list \<Rightarrow> nat \<Rightarrow> catalog_db \<Rightarrow>
     nat \<times> goerr option \<times> catalog_db" where
  "seed_rows fault ids now [] n db = (n, None, db)"
| "seed_rows fault ids now (rw # rws) n db =
     (if sm_BaseModel rw = '''' then seed_rows fault ids now rws n db
      else
        (case seed_row fault ids now rw db of
           (Some e, db') \<Rightarrow> (n, Some e, db')
         | (None, db') \<Rightarrow> seed_rows fault ids now rws (Suc n) db'))"

definition SeedFromWorkers ::
  "(nat \<Rightarrow> goerr option) \<Rightarrow> (nat \<Rightarrow> string) \<Rightarrow> int \<Rightarrow> ServableModel list \<Rightarrow> catalog_db \<Rightarrow>
     nat \<times> goerr option \<times> catalog_db" where
  "SeedFromWorkers fault ids now servable db =
     (case db_call fault db of
        (Some e, db1) \<Rightarrow> (0, Some e, db1)
      | (None, db1) \<Rightarrow>
          if length (ct_models db1) > 0 then (0, None, db1)
          else
            (case db_call fault db1 of
               (Some e, db2) \<Rightarrow> (0, Some e, db2)
             | (None, db2) \<Rightarrow> seed_rows fault ids now servable 0 db2))"

section \<open>The snapshot\<close>

record ModelIdentity =
  mi_ID :: string
  mi_Name :: string
  mi_BaseModel :: string
  mi_Adapter :: string

record CatalogSnapshot =
  ca_ByName :: "(string \<times> ModelIdentity) list"
  ca_WorkersByModel :: "string \<Rightarrow> string list"
  ca_BuiltAt :: int

definition Resolve :: "CatalogSnapshot option \<Rightarrow> string \<Rightarrow> (ModelIdentity \<times> string list) option" where
  "Resolve s name =
     (case s of
        None \<Rightarrow> None
      | Some c \<Rightarrow>
          (case map_of (ca_ByName c) name of
             None \<Rightarrow> None
           | Some i \<Rightarrow> Some (i, ca_WorkersByModel c (mi_ID i))))"

definition Catalog_Empty :: "CatalogSnapshot option \<Rightarrow> bool" where
  "Catalog_Empty s \<longleftrightarrow> (case s of None \<Rightarrow> True | Some c \<Rightarrow> ca_ByName c = [])"

definition ModelNames :: "CatalogSnapshot option \<Rightarrow> ModelIdentity list" where
  "ModelNames s = (case s of None \<Rightarrow> [] | Some c \<Rightarrow> map snd (ca_ByName c))"

definition identity_of :: "Model \<Rightarrow> ModelIdentity" where
  "identity_of m = \<lparr>mi_ID = md_ID m, mi_Name = md_Name m, mi_BaseModel = md_BaseModel m, mi_Adapter = md_Adapter m\<rparr>"

definition snapshot_of :: "Model list \<Rightarrow> ModelAssignment list \<Rightarrow> int \<Rightarrow> CatalogSnapshot" where
  "snapshot_of models assigns now =
     \<lparr>ca_ByName = fold (\<lambda>m s. AList.update (md_Name m) (identity_of m) s) models [],
      ca_WorkersByModel = fold (\<lambda>a s. s(ma_ModelID a := s (ma_ModelID a) @ [ma_WorkerID a])) assigns (\<lambda>_. []),
      ca_BuiltAt = now\<rparr>"

text \<open>\<open>Rebuild\<close>: an error of the seed is only logged.\<close>

definition Rebuild ::
  "(nat \<Rightarrow> goerr option) \<Rightarrow> (nat \<Rightarrow> string) \<Rightarrow> int \<Rightarrow> ServableModel list \<Rightarrow> catalog_db \<Rightarrow>
     CatalogSnapshot option \<Rightarrow> goerr option \<times> catalog_db \<times> CatalogSnapshot option" where
  "Rebuild fault ids now servable db holder =
     (case SeedFromWorkers fault ids now servable db of (_, _, db1) \<Rightarrow>
        (case ListModels fault db1 of
           (Inl e, db2) \<Rightarrow> (Some e, db2, holder)
         | (Inr models, db2) \<Rightarrow>
             (case ListAssignments fault db2 of
                (Inl e, db3) \<Rightarrow> (Some e, db3, holder)
              | (Inr assigns, db3) \<Rightarrow> (None, db3, Some (snapshot_of models assigns now)))))"

section \<open>Facts\<close>

lemma identity_of_ID [simp]: "mi_ID (identity_of m) = md_ID m"
  by (simp add: identity_of_def)

lemma byName_lookup:
  "map_of (fold (\<lambda>m s. AList.update (md_Name m) (identity_of m) s) ms s) n =
     (case find (\<lambda>m. md_Name m = n) (rev ms) of None \<Rightarrow> map_of s n | Some m \<Rightarrow> Some (identity_of m))"
  by (induction ms rule: rev_induct) (auto simp: update_conv)

lemma workersByModel_lookup:
  "fold (\<lambda>a s. s(ma_ModelID a := s (ma_ModelID a) @ [ma_WorkerID a])) as s i =
     s i @ map ma_WorkerID (filter (\<lambda>a. ma_ModelID a = i) as)"
  by (induction as arbitrary: s) auto

lemma find_unique:
  assumes "distinct (map f xs)" and "x \<in> set xs" and "set ys = set xs"
  shows "find (\<lambda>z. f z = f x) ys = Some x"
proof -
  have "find (\<lambda>z. f z = f x) ys \<noteq> None" using assms by (auto simp: find_None_iff)
  then obtain z where z: "find (\<lambda>z. f z = f x) ys = Some z" by blast
  then have "z \<in> set ys" "f z = f x" by (auto simp: find_Some_iff)
  with assms have "z = x" by (auto simp: distinct_map dest: inj_onD)
  with z show ?thesis by simp
qed

text \<open>The tables after seeding the rows \<open>rws\<close>, when every statement is accepted.\<close>

definition row_name :: "ServableModel \<Rightarrow> string" where
  "row_name rw = join_model (sm_BaseModel rw) (sm_Adapter rw)"

definition seeded :: "(nat \<Rightarrow> string) \<Rightarrow> ServableModel list \<Rightarrow> catalog_db \<Rightarrow> bool" where
  "seeded ids rws db \<longleftrightarrow>
     distinct (map md_Name (ct_models db)) \<and> distinct (map md_ID (ct_models db))
   \<and> md_ID ` set (ct_models db) \<subseteq> ids ` {..<ct_ids db}
   \<and> (\<lambda>m. (md_Name m, md_BaseModel m, md_Adapter m)) ` set (ct_models db)
       = (\<lambda>r. (row_name r, sm_BaseModel r, sm_Adapter r)) ` set rws
   \<and> (\<forall>i w. (\<exists>a \<in> set (ct_assigns db). ma_ModelID a = i \<and> ma_WorkerID a = w) \<longleftrightarrow>
        (\<exists>r \<in> set rws. \<exists>m \<in> set (ct_models db). md_Name m = row_name r \<and> md_ID m = i \<and> sm_WorkerID r = w))"

abbreviation accepts :: "nat \<Rightarrow> goerr option" where
  "accepts \<equiv> \<lambda>_. None"

definition same_names :: "ServableModel list \<Rightarrow> bool" where
  "same_names rws \<longleftrightarrow>
     (\<forall>r \<in> set rws. \<forall>q \<in> set rws. row_name r = row_name q \<longrightarrow>
        sm_BaseModel r = sm_BaseModel q \<and> sm_Adapter r = sm_Adapter q)"

definition row_model :: "(nat \<Rightarrow> string) \<Rightarrow> int \<Rightarrow> ServableModel \<Rightarrow> catalog_db \<Rightarrow> Model" where
  "row_model ids now rw db =
     \<lparr>md_ID = ids (ct_ids db), md_Name = row_name rw, md_BaseModel = sm_BaseModel rw,
      md_Adapter = sm_Adapter rw, md_CreatedAt = Some now\<rparr>"

lemma find_insert_model:
  "find (\<lambda>r. md_Name r = md_Name m) (insert_model m ms) \<noteq> None"
proof -
  have "map md_Name (insert_model m ms) =
      (if md_Name m \<in> md_Name ` set ms then map md_Name ms else map md_Name ms @ [md_Name m])"
    by (auto simp: insert_model_def)
  then have "md_Name m \<in> set (map md_Name (insert_model m ms))" by simp
  then show ?thesis by (auto simp: find_None_iff)
qed

lemma same_namesD:
  "same_names rws \<Longrightarrow> r \<in> set rws \<Longrightarrow> q \<in> set rws \<Longrightarrow> row_name r = row_name q \<Longrightarrow>
     sm_BaseModel r = sm_BaseModel q \<and> sm_Adapter r = sm_Adapter q"
  unfolding same_names_def by blast

lemma seeded_assigns:
  "seeded ids rws db \<Longrightarrow>
     (\<exists>a \<in> set (ct_assigns db). ma_ModelID a = i \<and> ma_WorkerID a = w) \<longleftrightarrow>
     (\<exists>r \<in> set rws. \<exists>m \<in> set (ct_models db). md_Name m = row_name r \<and> md_ID m = i \<and> sm_WorkerID r = w)"
  by (simp add: seeded_def)

lemma seeded_row_of_model:
  assumes "seeded ids rws db" and "m \<in> set (ct_models db)"
  shows "\<exists>r \<in> set rws. row_name r = md_Name m \<and> sm_BaseModel r = md_BaseModel m \<and> sm_Adapter r = md_Adapter m"
proof -
  have "(md_Name m, md_BaseModel m, md_Adapter m) \<in> (\<lambda>r. (row_name r, sm_BaseModel r, sm_Adapter r)) ` set rws"
    using assms by (auto simp: seeded_def simp del: image_iff)
  then show ?thesis by auto
qed

lemma seeded_model_of_row:
  assumes "seeded ids rws db" and "r \<in> set rws"
  shows "\<exists>m \<in> set (ct_models db). md_Name m = row_name r \<and> md_BaseModel m = sm_BaseModel r \<and> md_Adapter m = sm_Adapter r"
proof -
  have "(row_name r, sm_BaseModel r, sm_Adapter r) \<in> (\<lambda>m. (md_Name m, md_BaseModel m, md_Adapter m)) ` set (ct_models db)"
    using assms by (auto simp: seeded_def)
  then show ?thesis by auto
qed

text \<open>Seeded names are built from the identity, so no identity is taken under another name.\<close>

lemma seeded_identity_free:
  assumes "seeded ids rws db"
  shows "\<not> identity_taken (row_model ids now rw db) (ct_models db)"
proof
  assume "identity_taken (row_model ids now rw db) (ct_models db)"
  then obtain m where m: "m \<in> set (ct_models db)" "md_Name m \<noteq> row_name rw" "md_BaseModel m = sm_BaseModel rw" "md_Adapter m = sm_Adapter rw"
    by (auto simp: identity_taken_def row_model_def)
  from seeded_row_of_model [OF assms m(1)] m(2-4) show False by (auto simp: row_name_def)
qed

lemma seed_row_accepts:
  assumes "\<forall>k. ids k \<noteq> ''''" and free: "\<not> identity_taken (row_model ids now rw db) (ct_models db)"
  shows "\<exists>stored. find (\<lambda>r. md_Name r = row_name rw) (insert_model (row_model ids now rw db) (ct_models db)) = Some stored
     \<and> seed_row accepts ids now rw db =
       (None, db\<lparr>ct_models := insert_model (row_model ids now rw db) (ct_models db),
          ct_assigns := insert_assignment \<lparr>ma_ID = ids (Suc (ct_ids db)), ma_ModelID = md_ID stored,
             ma_WorkerID = sm_WorkerID rw, ma_CreatedAt = Some now\<rparr> (ct_assigns db),
          ct_calls := ct_calls db + 3, ct_ids := ct_ids db + 2\<rparr>)"
proof -
  have "md_Name (row_model ids now rw db) = row_name rw" by (simp add: row_model_def)
  then obtain stored where st: "find (\<lambda>r. md_Name r = row_name rw)
      (insert_model (row_model ids now rw db) (ct_models db)) = Some stored"
    using find_insert_model [of "row_model ids now rw db" "ct_models db"] by auto
  then show ?thesis
    using assms
    by (simp add: seed_row_def newID_def UpsertModel_def UpsertAssignment_def db_call_def Let_def
        row_model_def row_name_def)
qed

lemma insert_assignment_pairs:
  "(\<exists>a \<in> set (insert_assignment b as). ma_ModelID a = i \<and> ma_WorkerID a = w) \<longleftrightarrow>
     (i = ma_ModelID b \<and> w = ma_WorkerID b) \<or> (\<exists>a \<in> set as. ma_ModelID a = i \<and> ma_WorkerID a = w)"
  by (auto simp: insert_assignment_def)

lemma seeded_model_of_name:
  assumes "seeded ids rws db" and "m \<in> set (ct_models db)" and "m' \<in> set (ct_models db)"
    and "md_Name m = md_Name m'"
  shows "m = m'"
  using assms by (auto simp: seeded_def distinct_map dest: inj_onD)

lemma seed_row_models:
  assumes s: "seeded ids rws db" and clash: "same_names (rws @ [rw])"
    and inj: "inj ids"
  shows "\<exists>m ms'. insert_model (row_model ids now rw db) (ct_models db) = ms' \<and> m \<in> set ms'
     \<and> md_Name m = row_name rw \<and> set ms' = insert m (set (ct_models db))
     \<and> md_BaseModel m = sm_BaseModel rw \<and> md_Adapter m = sm_Adapter rw
     \<and> distinct (map md_Name ms') \<and> distinct (map md_ID ms') \<and> md_ID ` set ms' \<subseteq> ids ` {..<ct_ids db + 2}"
proof (cases "row_name rw \<in> md_Name ` set (ct_models db)")
  case True
  then obtain m where m: "m \<in> set (ct_models db)" "md_Name m = row_name rw" by auto
  then obtain r where r: "r \<in> set rws" "row_name r = row_name rw" "md_BaseModel m = sm_BaseModel r"
    "md_Adapter m = sm_Adapter r"
    using seeded_row_of_model [OF s m(1)] by auto
  then have mb: "md_BaseModel m = sm_BaseModel rw" "md_Adapter m = sm_Adapter rw"
    using same_namesD [OF clash, of r rw] by simp_all
  have "map (\<lambda>q. if md_Name q = row_name rw then q\<lparr>md_BaseModel := sm_BaseModel rw, md_Adapter := sm_Adapter rw\<rparr> else q)
      (ct_models db) = ct_models db"
  proof (rule map_idI)
    fix q assume "q \<in> set (ct_models db)"
    then show "(if md_Name q = row_name rw
        then q\<lparr>md_BaseModel := sm_BaseModel rw, md_Adapter := sm_Adapter rw\<rparr> else q) = q"
      using seeded_model_of_name [OF s m(1), of q] m(2) mb by auto
  qed
  then have "insert_model (row_model ids now rw db) (ct_models db) = ct_models db"
    using True by (simp add: insert_model_def row_model_def cong: if_cong)
  moreover have "ids ` {..<ct_ids db} \<subseteq> ids ` {..<ct_ids db + 2}" by (intro image_mono) auto
  ultimately show ?thesis
    using m mb s by (auto simp: seeded_def intro!: exI [of _ m] exI [of _ "ct_models db"])
next
  case False
  let ?m = "row_model ids now rw db"
  have ins: "insert_model ?m (ct_models db) = ct_models db @ [?m]"
    using False by (simp add: insert_model_def row_model_def)
  have "ids (ct_ids db) \<notin> ids ` {..<ct_ids db}" using inj by (auto dest: injD)
  then have "md_ID ?m \<notin> md_ID ` set (ct_models db)"
    using s by (auto simp: seeded_def row_model_def)
  moreover have "md_ID ` set (ct_models db @ [?m]) \<subseteq> ids ` {..<ct_ids db + 2}"
    using s by (auto simp: seeded_def row_model_def subset_iff image_iff Bex_def) (metis less_Suc_eq)+
  moreover have "md_Name ?m \<notin> md_Name ` set (ct_models db)" using False by (simp add: row_model_def)
  ultimately show ?thesis
    using s unfolding ins
    by (intro exI [of _ ?m] exI [of _ "ct_models db @ [?m]"]) (simp add: seeded_def row_model_def)
qed

lemma seed_row_seeded:
  assumes s: "seeded ids rws db" and clash: "same_names (rws @ [rw])"
    and inj: "inj ids" and ne: "\<forall>k. ids k \<noteq> ''''"
  shows "\<exists>db'. seed_row accepts ids now rw db = (None, db') \<and> seeded ids (rws @ [rw]) db'"
proof -
  let ?ms = "insert_model (row_model ids now rw db) (ct_models db)"
  obtain m where m: "m \<in> set ?ms" "md_Name m = row_name rw" "set ?ms = insert m (set (ct_models db))"
    "md_BaseModel m = sm_BaseModel rw" "md_Adapter m = sm_Adapter rw"
    and d: "distinct (map md_Name ?ms)" "distinct (map md_ID ?ms)" "md_ID ` set ?ms \<subseteq> ids ` {..<ct_ids db + 2}"
    using seed_row_models [OF s clash inj, of now] by blast
  obtain stored where st: "find (\<lambda>r. md_Name r = row_name rw) ?ms = Some stored"
    and run: "seed_row accepts ids now rw db =
       (None, db\<lparr>ct_models := ?ms,
          ct_assigns := insert_assignment \<lparr>ma_ID = ids (Suc (ct_ids db)), ma_ModelID = md_ID stored,
             ma_WorkerID = sm_WorkerID rw, ma_CreatedAt = Some now\<rparr> (ct_assigns db),
          ct_calls := ct_calls db + 3, ct_ids := ct_ids db + 2\<rparr>)"
    using seed_row_accepts [OF ne seeded_identity_free [OF s]] by blast
  have "stored = m" using find_unique [OF d(1) m(1) refl] st m(2) by simp
  have uniq: "x = m" if "x \<in> set ?ms" "md_Name x = row_name rw" for x
    using that m(1,2) d(1) by (metis distinct_map inj_onD)
  have old: "(\<exists>r \<in> set rws. \<exists>x \<in> set (ct_models db). md_Name x = row_name r \<and> md_ID x = i \<and> sm_WorkerID r = w)
      \<longleftrightarrow> (\<exists>r \<in> set rws. \<exists>x \<in> set ?ms. md_Name x = row_name r \<and> md_ID x = i \<and> sm_WorkerID r = w)" for i w
  proof
    assume "\<exists>r \<in> set rws. \<exists>x \<in> set ?ms. md_Name x = row_name r \<and> md_ID x = i \<and> sm_WorkerID r = w"
    then obtain r x where rx: "r \<in> set rws" "x \<in> set ?ms" "md_Name x = row_name r" "md_ID x = i" "sm_WorkerID r = w"
      by blast
    from seeded_model_of_row [OF s rx(1)] obtain y where y: "y \<in> set (ct_models db)" "md_Name y = row_name r"
      by blast
    then have "y \<in> set ?ms" using m(3) by blast
    then have "x = y" using rx(2,3) y(2) d(1) by (metis distinct_map inj_onD)
    with y rx show "\<exists>r \<in> set rws. \<exists>x \<in> set (ct_models db). md_Name x = row_name r \<and> md_ID x = i \<and> sm_WorkerID r = w"
      by blast
  qed (use m(3) in blast)
  have pairs: "(\<exists>a \<in> set (ct_assigns db). ma_ModelID a = i \<and> ma_WorkerID a = w) \<longleftrightarrow>
      (\<exists>r \<in> set rws. \<exists>x \<in> set ?ms. md_Name x = row_name r \<and> md_ID x = i \<and> sm_WorkerID r = w)" for i w
    unfolding seeded_assigns [OF s] by (rule old)
  let ?as = "insert_assignment \<lparr>ma_ID = ids (Suc (ct_ids db)), ma_ModelID = md_ID m,
             ma_WorkerID = sm_WorkerID rw, ma_CreatedAt = Some now\<rparr> (ct_assigns db)"
  have new: "(i = md_ID m \<and> w = sm_WorkerID rw) \<longleftrightarrow>
      (\<exists>x \<in> set ?ms. md_Name x = row_name rw \<and> md_ID x = i \<and> sm_WorkerID rw = w)" for i w
    using m(1,2) uniq by blast
  have "(\<exists>a \<in> set ?as. ma_ModelID a = i \<and> ma_WorkerID a = w) \<longleftrightarrow>
      (\<exists>r \<in> set (rws @ [rw]). \<exists>x \<in> set ?ms. md_Name x = row_name r \<and> md_ID x = i \<and> sm_WorkerID r = w)" for i w
    unfolding insert_assignment_pairs pairs using new [of i w] by simp
  moreover have "(\<lambda>m. (md_Name m, md_BaseModel m, md_Adapter m)) ` set ?ms
      = (\<lambda>r. (row_name r, sm_BaseModel r, sm_Adapter r)) ` set (rws @ [rw])"
    using s m by (simp add: seeded_def)
  ultimately have "seeded ids (rws @ [rw]) (db\<lparr>ct_models := ?ms, ct_assigns := ?as,
          ct_calls := ct_calls db + 3, ct_ids := ct_ids db + 2\<rparr>)"
    using d by (simp add: seeded_def)
  with run \<open>stored = m\<close> show ?thesis by blast
qed

definition named_rows :: "ServableModel list \<Rightarrow> ServableModel list" where
  "named_rows rws = filter (\<lambda>r. sm_BaseModel r \<noteq> '''') rws"

lemma seed_rows_seeded:
  assumes "seeded ids before db" and "same_names (before @ named_rows rws)"
    and "inj ids" and "\<forall>k. ids k \<noteq> ''''"
  shows "\<exists>db'. seed_rows accepts ids now rws n db = (n + length (named_rows rws), None, db')
            \<and> seeded ids (before @ named_rows rws) db'"
  using assms(1,2)
proof (induction rws arbitrary: before n db)
  case Nil
  then show ?case by (simp add: named_rows_def)
next
  case (Cons rw rws)
  show ?case
  proof (cases "sm_BaseModel rw = ''''")
    case True
    with Cons show ?thesis by (simp add: named_rows_def)
  next
    case False
    then have nr: "named_rows (rw # rws) = rw # named_rows rws" by (simp add: named_rows_def)
    have "same_names (before @ [rw])"
      using Cons.prems(2) by (auto simp: same_names_def nr)
    from seed_row_seeded [OF Cons.prems(1) this assms(3,4), of now]
    obtain db1 where 1: "seed_row accepts ids now rw db = (None, db1)" "seeded ids (before @ [rw]) db1" by blast
    have "same_names ((before @ [rw]) @ named_rows rws)" using Cons.prems(2) by (simp add: nr)
    from Cons.IH [OF 1(2) this, of "Suc n"] 1(1) False show ?thesis by (simp add: nr)
  qed
qed

lemma workers_of_model:
  assumes "seeded ids rws db" and "m \<in> set (ct_models db)"
  shows "w \<in> set (map ma_WorkerID (filter (\<lambda>a. ma_ModelID a = md_ID m) (ct_assigns db))) \<longleftrightarrow>
           (\<exists>r \<in> set rws. row_name r = md_Name m \<and> sm_WorkerID r = w)"
proof -
  have "w \<in> set (map ma_WorkerID (filter (\<lambda>a. ma_ModelID a = md_ID m) (ct_assigns db))) \<longleftrightarrow>
      (\<exists>a \<in> set (ct_assigns db). ma_ModelID a = md_ID m \<and> ma_WorkerID a = w)" by auto
  also have "\<dots> \<longleftrightarrow> (\<exists>r \<in> set rws. \<exists>x \<in> set (ct_models db). md_Name x = row_name r \<and> md_ID x = md_ID m \<and> sm_WorkerID r = w)"
    by (rule seeded_assigns [OF assms(1)])
  also have "\<dots> \<longleftrightarrow> (\<exists>r \<in> set rws. row_name r = md_Name m \<and> sm_WorkerID r = w)"
  proof -
    have "x = m" if "x \<in> set (ct_models db)" "md_ID x = md_ID m" for x
      using assms that by (auto simp: seeded_def distinct_map dest: inj_onD)
    then show ?thesis using assms(2) by metis
  qed
  finally show ?thesis .
qed

section \<open>Properties\<close>

text \<open>
  Seeding an empty catalog from the registered workers makes every served model resolvable: the
  rebuild succeeds, the name of each row with a base model resolves to that base model and
  adapter with exactly the workers registered for it, and no other name resolves. Every database
  statement is accepted, the generated identifiers differ, and rows of one name agree on what it
  means.
\<close>

theorem catalog_seed_resolves:
  assumes "inj ids" and "\<forall>k. ids k \<noteq> ''''" and "same_names (named_rows rws)"
    and "ct_models db = []" and "ct_assigns db = []"
  shows "\<exists>db' snap. Rebuild accepts ids now rws db holder = (None, db', Some snap)
    \<and> (\<forall>name. case Resolve (Some snap) name of
         None \<Rightarrow> \<forall>r \<in> set (named_rows rws). row_name r \<noteq> name
       | Some (i, ws) \<Rightarrow>
           (\<exists>r \<in> set (named_rows rws). row_name r = name \<and> mi_BaseModel i = sm_BaseModel r \<and> mi_Adapter i = sm_Adapter r)
         \<and> (\<forall>w. w \<in> set ws \<longleftrightarrow> (\<exists>r \<in> set (named_rows rws). row_name r = name \<and> sm_WorkerID r = w)))"
proof -
  define db2 where "db2 = db\<lparr>ct_calls := Suc (Suc (ct_calls db))\<rparr>"
  have "seeded ids [] db2" using assms(4,5) by (simp add: seeded_def db2_def)
  from seed_rows_seeded [OF this _ assms(1,2), of rws now 0] assms(3)
  obtain db3 where 3: "seed_rows accepts ids now rws 0 db2 = (length (named_rows rws), None, db3)"
    and s: "seeded ids (named_rows rws) db3" by auto
  define ms where "ms = sort_slice (\<lambda>a b. md_Name a < md_Name b) (ct_models db3)"
  let ?snap = "snapshot_of ms (ct_assigns db3) now"
  have R: "Rebuild accepts ids now rws db holder = (None, db3\<lparr>ct_calls := Suc (Suc (ct_calls db3))\<rparr>, Some ?snap)"
    using 3 assms(4)
    by (simp add: Rebuild_def SeedFromWorkers_def db_call_def ListModels_def ListAssignments_def
        db2_def ms_def)
  have "set (rev ms) = set (ct_models db3)" by (simp add: ms_def)
  then have res: "Resolve (Some ?snap) (md_Name m) =
      Some (identity_of m, map ma_WorkerID (filter (\<lambda>a. ma_ModelID a = md_ID m) (ct_assigns db3)))"
    if "m \<in> set (ct_models db3)" for m
    using find_unique [of md_Name "ct_models db3" m "rev ms"] s that
    by (simp add: Resolve_def snapshot_of_def byName_lookup workersByModel_lookup seeded_def)
  have none: "Resolve (Some ?snap) name = None" if "name \<notin> md_Name ` set (ct_models db3)" for name
  proof -
    have "find (\<lambda>m. md_Name m = name) (rev ms) = None" using that by (auto simp: find_None_iff ms_def)
    then show ?thesis by (simp add: Resolve_def snapshot_of_def byName_lookup)
  qed
  have "case Resolve (Some ?snap) name of
         None \<Rightarrow> \<forall>r \<in> set (named_rows rws). row_name r \<noteq> name
       | Some (i, ws) \<Rightarrow>
           (\<exists>r \<in> set (named_rows rws). row_name r = name \<and> mi_BaseModel i = sm_BaseModel r \<and> mi_Adapter i = sm_Adapter r)
         \<and> (\<forall>w. w \<in> set ws \<longleftrightarrow> (\<exists>r \<in> set (named_rows rws). row_name r = name \<and> sm_WorkerID r = w))" for name
  proof (cases "name \<in> md_Name ` set (ct_models db3)")
    case True
    then obtain m where m: "m \<in> set (ct_models db3)" "md_Name m = name" by auto
    with seeded_row_of_model [OF s m(1)] workers_of_model [OF s m(1)] res [OF m(1)] show ?thesis
      by (auto simp: identity_of_def)
  next
    case False
    moreover have "row_name r \<in> md_Name ` set (ct_models db3)" if "r \<in> set (named_rows rws)" for r
      using seeded_model_of_row [OF s that] by force
    ultimately show ?thesis by (auto simp: none)
  qed
  with R show ?thesis by blast
qed

definition demo_row :: ServableModel where
  "demo_row = \<lparr>sm_WorkerID = ''w1'', sm_BaseModel = ''m'', sm_Adapter = '''', sm_MaxContext = 0\<rparr>"

theorem catalog_seed_resolves_witness:
  "\<exists>db' snap. Rebuild accepts (\<lambda>k. replicate (Suc k) (CHR ''x'')) 7 [demo_row]
      \<lparr>ct_models = [], ct_assigns = [], ct_calls = 0, ct_ids = 0\<rparr> None = (None, db', Some snap)
    \<and> Resolve (Some snap) ''m'' \<noteq> None \<and> Resolve (Some snap) ''other'' = None"
proof -
  let ?db = "\<lparr>ct_models = [], ct_assigns = [], ct_calls = 0, ct_ids = 0\<rparr>"
  have n: "named_rows [demo_row] = [demo_row]" "row_name demo_row = ''m''"
    by (simp_all add: named_rows_def demo_row_def row_name_def join_model_def)
  have "inj (\<lambda>k. replicate (Suc k) (CHR ''x''))" by (intro injI) (simp add: replicate_eq_replicate)
  moreover have "same_names (named_rows [demo_row])" by (simp add: n same_names_def)
  ultimately obtain db' snap where R: "Rebuild accepts (\<lambda>k. replicate (Suc k) (CHR ''x'')) 7 [demo_row] ?db None = (None, db', Some snap)"
    and all: "\<forall>name. case Resolve (Some snap) name of
         None \<Rightarrow> \<forall>r \<in> set (named_rows [demo_row]). row_name r \<noteq> name
       | Some (i, ws) \<Rightarrow>
           (\<exists>r \<in> set (named_rows [demo_row]). row_name r = name \<and> mi_BaseModel i = sm_BaseModel r \<and> mi_Adapter i = sm_Adapter r)
         \<and> (\<forall>w. w \<in> set ws \<longleftrightarrow> (\<exists>r \<in> set (named_rows [demo_row]). row_name r = name \<and> sm_WorkerID r = w))"
    using catalog_seed_resolves [of "\<lambda>k. replicate (Suc k) (CHR ''x'')" "[demo_row]" ?db 7 None] by auto
  from all [rule_format, of "''m''"] all [rule_format, of "''other''"] R show ?thesis
    by (auto simp: n split: option.splits)
qed

text \<open>
  The catalog is seeded once: as soon as it has a model, a rebuild does not depend on the registered
  workers any more, so a worker or a model that registers later is never added to the snapshot
  by the periodic rebuild.
\<close>

theorem catalog_seed_once:
  assumes "ct_models db \<noteq> []"
  shows "Rebuild fault ids now rws db holder = Rebuild fault ids now rws' db holder"
proof -
  have "SeedFromWorkers fault ids now rws db = SeedFromWorkers fault ids now rws' db"
    using assms by (auto simp: SeedFromWorkers_def db_call_def split: option.splits)
  then show ?thesis by (simp add: Rebuild_def)
qed

theorem catalog_seed_once_witness:
  "Rebuild accepts (\<lambda>k. ''x'') 7 [] \<lparr>ct_models = [row_model (\<lambda>k. ''i'') 0 demo_row
       \<lparr>ct_models = [], ct_assigns = [], ct_calls = 0, ct_ids = 0\<rparr>], ct_assigns = [], ct_calls = 0, ct_ids = 0\<rparr> None
   = Rebuild accepts (\<lambda>k. ''x'') 7 [demo_row\<lparr>sm_BaseModel := ''late''\<rparr>] \<lparr>ct_models = [row_model (\<lambda>k. ''i'') 0 demo_row
       \<lparr>ct_models = [], ct_assigns = [], ct_calls = 0, ct_ids = 0\<rparr>], ct_assigns = [], ct_calls = 0, ct_ids = 0\<rparr> None"
  by (rule catalog_seed_once) simp

end
