(* ===== verification/Gateway_Select.thy ===== *)
theory Gateway_Select
  imports Catalog Scheduler_Correct Inflight
begin

text \<open>
  Choosing the workers for a request: \<open>services/gateway/snapshot_select.go\<close> over the catalog, the
  routing snapshot and the scheduler, the model names of \<open>translate.go\<close>, and the mapping of errors
  to HTTP answers in \<open>errors.go\<close>. The metrics the selector feeds are not modelled.
\<close>

section \<open>Model names\<close>

definition ParseModelID :: "string \<Rightarrow> string \<times> string" where
  "ParseModelID raw =
     (let i = trim_space raw in
      if i = '''' then ('''', '''')
      else case index_byte i (CHR ''#'') of
             Some k \<Rightarrow> (take k i, drop (k + 1) i)
           | None \<Rightarrow> (i, ''''))"

section \<open>The selector\<close>

record SelectedWorker =
  sw_ID :: string
  sw_Endpoint :: string
  sw_Models :: "string list"

record SnapshotSelector =
  se_holder :: "RoutingSnapshot option"
  se_catalog :: "CatalogSnapshot option"
  se_inflight :: tracker
  se_latency :: LatencyStore
  se_chain :: Chain
  se_admissionLimit :: int

text \<open>The workers a catalog entry allows; \<^const>\<open>None\<close> when the catalog does not restrict them.\<close>

definition resolveModel :: "SnapshotSelector \<Rightarrow> string \<Rightarrow> goerr + string \<times> string \<times> string list option" where
  "resolveModel s model =
     (case ParseModelID model of (base, adapter) \<Rightarrow>
        if Catalog_Empty (se_catalog s) then Inr (base, adapter, None)
        else
          (case Resolve (se_catalog s) model of
             None \<Rightarrow> Inl (ErrModelNotFound model)
           | Some (i, workers) \<Rightarrow> Inr (mi_BaseModel i, mi_Adapter i, Some workers)))"

definition filterByWorkerIDs :: "Candidate list \<Rightarrow> string list \<Rightarrow> Candidate list" where
  "filterByWorkerIDs cands allowed = filter (\<lambda>c. cd_WorkerID c \<in> set allowed) cands"

definition sched_request :: "string \<Rightarrow> string \<Rightarrow> string \<Rightarrow> Request" where
  "sched_request base adapter prompt =
     \<lparr>sr_BaseModel = base, sr_Adapter = adapter, sr_Prompt = prompt, sr_AffinityKey = '''',
      sr_PreferredWorker = '''', sr_MinContext = 0\<rparr>"

definition selected :: "string \<Rightarrow> PickResult \<Rightarrow> SelectedWorker" where
  "selected model p = \<lparr>sw_ID = pr_WorkerID p, sw_Endpoint = pr_Endpoint p, sw_Models = [model]\<rparr>"

text \<open>The error of the chain, wrapped with the model's name.\<close>

definition wrap_rank_error :: "string \<Rightarrow> goerr \<Rightarrow> goerr" where
  "wrap_rank_error model e =
     (case e of
        ErrAdmissionRejected _ \<Rightarrow> ErrAdmissionRejected model
      | ErrNoCapacity _ \<Rightarrow> ErrNoCapacity model
      | _ \<Rightarrow> e)"

definition SelectWorkers ::
  "(string \<Rightarrow> u64) \<Rightarrow> SnapshotSelector \<Rightarrow> string \<Rightarrow> string \<Rightarrow> int \<Rightarrow>
     (goerr + SelectedWorker list) \<times> SnapshotSelector" where
  "SelectWorkers sum64 s model prompt limit0 =
     (case se_holder s of
        None \<Rightarrow> (Inl ErrNoSnapshot, s)
      | Some snap \<Rightarrow>
          (let limit = (if limit0 \<le> 0 then 3 else limit0) in
           case resolveModel s model of
             Inl e \<Rightarrow> (Inl e, s)
           | Inr (base, adapter, allowed) \<Rightarrow>
               (let req = sched_request base adapter prompt;
                    candidates = CandidatesFromSnapshot (Some snap)
                      (Some (Inflight_Get (se_inflight s))) (Some (Latency_Get (se_latency s)));
                    candidates' = (case allowed of
                        None \<Rightarrow> candidates
                      | Some ws \<Rightarrow> filterByWorkerIDs candidates ws) in
                if allowed \<noteq> None \<and> candidates' = [] then (Inl (ErrNoLiveAssignee model), s)
                else
                  (case Rank sum64 (se_chain s) (Some req) candidates' of
                     (Inl e, _, ch) \<Rightarrow> (Inl (wrap_rank_error model e), s\<lparr>se_chain := ch\<rparr>)
                   | (Inr ranked, _, ch) \<Rightarrow>
                       (Inr (map (selected model)
                          (if int (length ranked) > limit then take (nat limit) ranked else ranked)),
                        s\<lparr>se_chain := ch\<rparr>)))))"

definition SelectWorker ::
  "(string \<Rightarrow> u64) \<Rightarrow> SnapshotSelector \<Rightarrow> string \<Rightarrow> string \<Rightarrow> (goerr + SelectedWorker) outcome \<times> SnapshotSelector" where
  "SelectWorker sum64 s model prompt =
     (case SelectWorkers sum64 s model prompt 1 of
        (Inl e, s') \<Rightarrow> (Ret (Inl e), s')
      | (Inr [], s') \<Rightarrow> (Panic, s')
      | (Inr (w # _), s') \<Rightarrow> (Ret (Inr w), s'))"

record modelObject =
  mo_ID :: string
  mo_Object :: string
  mo_Created :: int
  mo_OwnedBy :: string

definition model_object :: "string \<Rightarrow> int \<Rightarrow> modelObject" where
  "model_object i created = \<lparr>mo_ID = i, mo_Object = ''model'', mo_Created = created, mo_OwnedBy = ''forge''\<rparr>"

definition unix_or_now :: "int \<Rightarrow> int \<Rightarrow> int" where
  "unix_or_now builtAt now = (if builtAt div second = 0 then now div second else builtAt div second)"

fun list_snapshot_models :: "int \<Rightarrow> WorkerView list \<Rightarrow> string list \<Rightarrow> modelObject list" where
  "list_snapshot_models created [] seen = []"
| "list_snapshot_models created (w # ws) seen =
     (if wv_BaseModel w = '''' then list_snapshot_models created ws seen
      else
        (let i = join_model (wv_BaseModel w) (wv_Adapter w) in
         if i \<in> set seen then list_snapshot_models created ws seen
         else model_object i created # list_snapshot_models created ws (i # seen)))"

definition Selector_ListModels :: "SnapshotSelector \<Rightarrow> int \<Rightarrow> modelObject list" where
  "Selector_ListModels s now =
     (case se_catalog s of
        Some cat \<Rightarrow>
          if ca_ByName cat \<noteq> [] then
            map (\<lambda>(_, m). model_object (mi_Name m) (unix_or_now (ca_BuiltAt cat) now)) (ca_ByName cat)
          else (case se_holder s of
                  None \<Rightarrow> []
                | Some snap \<Rightarrow> list_snapshot_models (unix_or_now (rs_BuiltAt snap) now) (rs_Workers snap) [])
      | None \<Rightarrow>
          (case se_holder s of
             None \<Rightarrow> []
           | Some snap \<Rightarrow> list_snapshot_models (unix_or_now (rs_BuiltAt snap) now) (rs_Workers snap) []))"

section \<open>Errors over HTTP\<close>

definition selectErrorStatus :: "goerr \<Rightarrow> int \<times> string \<times> string" where
  "selectErrorStatus e =
     (case e of
        ErrNoSnapshot \<Rightarrow> (503, ''server_error'', ''no_snapshot'')
      | ErrModelNotFound _ \<Rightarrow> (404, ''invalid_request_error'', ''model_not_found'')
      | ErrNoLiveAssignee _ \<Rightarrow> (503, ''server_error'', ''no_capacity'')
      | ErrAdmissionRejected _ \<Rightarrow> (429, ''capacity_exceeded'', ''fleet_saturated'')
      | ErrNoCapacity _ \<Rightarrow> (503, ''server_error'', ''no_capacity'')
      | _ \<Rightarrow> (404, ''invalid_request_error'', ''model_not_found''))"

text \<open>\<open>err_text\<close> is the error's \<open>Error()\<close> method.\<close>

definition mapGRPCError :: "(goerr \<Rightarrow> string) \<Rightarrow> goerr \<Rightarrow> int \<times> string \<times> string \<times> string" where
  "mapGRPCError err_text e =
     (case e of
        StatusErr c msg \<Rightarrow>
          (case c of
             NotFound \<Rightarrow> (404, msg, ''invalid_request_error'', ''model_not_found'')
           | Unavailable \<Rightarrow> (503, msg, ''server_error'', ''unavailable'')
           | ResourceExhausted \<Rightarrow> (429, msg, ''server_error'', ''rate_limit'')
           | DeadlineExceeded \<Rightarrow> (504, msg, ''server_error'', ''timeout'')
           | InvalidArgument \<Rightarrow> (400, msg, ''invalid_request_error'', ''invalid_request'')
           | Canceled \<Rightarrow> (408, msg, ''server_error'', ''canceled'')
           | _ \<Rightarrow> (500, msg, ''server_error'', ''internal''))
      | _ \<Rightarrow> (500, err_text e, ''server_error'', ''internal''))"

section \<open>Facts\<close>

lemma Rank_empty_base:
  assumes "sr_BaseModel r = ''''" and "ch_Filters ch = ch_Filters (NewConfiguredChain cfg)"
  shows "fst (Rank sum64 ch (Some r) cs) = Inl (ErrNoCapacity ''no capacity'')"
proof -
  have "run_filters (ch_Filters ch) (Some r) cs = Inl (ErrNoCapacity ''no capacity'')"
    using assms by (simp add: NewConfiguredChain_def Let_def)
  then show ?thesis by (simp add: Rank_def)
qed

lemma Rank_error_kind:
  assumes "ch_Filters ch = ch_Filters (NewConfiguredChain cfg)"
    and "fst (Rank sum64 ch (Some r) cs) = Inl e"
  shows "e = (if sr_BaseModel r \<noteq> '''' \<and> (\<exists>c \<in> set cs. fits_request r c)
              then ErrAdmissionRejected ''admission rejected'' else ErrNoCapacity ''no capacity'')"
proof (cases "sr_BaseModel r = ''''")
  case True
  with Rank_empty_base [OF True assms(1)] assms(2) show ?thesis by simp
next
  case False
  with assms(2) show ?thesis
    unfolding Rank_def assms(1) run_filters_configured [OF False]
    by (auto simp: filter_empty_conv split: if_splits prod.splits)
qed

lemma candidates_distinct:
  "distinct (map cd_WorkerID (CandidatesFromSnapshot (Some snap) load lat))"
proof -
  let ?al = "fold (candidates_step load lat) (rs_Workers snap) []"
  have "cd_WorkerID c = i" if "(i, c) \<in> set ?al" for i c
  proof -
    have "candidate_of load lat (filter (\<lambda>v. wv_ID v = i) (rs_Workers snap)) = Some c"
      using that candidates_fold_distinct [of load lat "rs_Workers snap"]
        candidates_fold_lookup [of load lat "rs_Workers snap" i] by (metis map_of_eq_Some_iff)
    from candidate_of_summarises [OF this] show ?thesis by (auto simp: summarises_def)
  qed
  then have "map cd_WorkerID (map snd ?al) = map fst ?al" by (auto simp: case_prod_beta')
  then show ?thesis using candidates_fold_distinct [of load lat "rs_Workers snap"]
    by (simp only: CandidatesFromSnapshot_def option.case)
qed

text \<open>The candidates the scheduler is given, and the eligible ones among them.\<close>

definition selector_candidates :: "SnapshotSelector \<Rightarrow> RoutingSnapshot \<Rightarrow> Candidate list" where
  "selector_candidates s snap = CandidatesFromSnapshot (Some snap)
     (Some (Inflight_Get (se_inflight s))) (Some (Latency_Get (se_latency s)))"

definition assigned :: "SnapshotSelector \<Rightarrow> string \<Rightarrow> string \<Rightarrow> bool" where
  "assigned s model w \<longleftrightarrow>
     Catalog_Empty (se_catalog s) \<or> (\<exists>i ws. Resolve (se_catalog s) model = Some (i, ws) \<and> w \<in> set ws)"

definition model_identity :: "SnapshotSelector \<Rightarrow> string \<Rightarrow> string \<times> string" where
  "model_identity s model =
     (if Catalog_Empty (se_catalog s) then ParseModelID model
      else case Resolve (se_catalog s) model of
             Some (i, _) \<Rightarrow> (mi_BaseModel i, mi_Adapter i) | None \<Rightarrow> ('''', ''''))"

lemma SelectWorkers_Inr:
  assumes "SelectWorkers sum64 s model prompt limit = (Inr ws, s')"
  obtains snap cs ranked req' ch' where "se_holder s = Some snap"
    and "cs = filter (\<lambda>c. assigned s model (cd_WorkerID c)) (selector_candidates s snap)"
    and "Rank sum64 (se_chain s)
          (Some (sched_request (fst (model_identity s model)) (snd (model_identity s model)) prompt)) cs
        = (Inr ranked, req', ch')"
    and "ws = map (selected model) (take (nat (if limit \<le> 0 then 3 else limit)) ranked)"
proof -
  from assms obtain snap base adapter allowed where
    snap: "se_holder s = Some snap" and res: "resolveModel s model = Inr (base, adapter, allowed)"
    by (auto simp: SelectWorkers_def Let_def split: option.splits sum.splits)
  let ?cs = "case allowed of None \<Rightarrow> selector_candidates s snap
     | Some ws \<Rightarrow> filterByWorkerIDs (selector_candidates s snap) ws"
  have cs: "?cs = filter (\<lambda>c. assigned s model (cd_WorkerID c)) (selector_candidates s snap)"
    using res by (auto simp: resolveModel_def assigned_def filterByWorkerIDs_def split: if_splits option.splits prod.splits)
  have mi: "model_identity s model = (base, adapter)"
    using res by (auto simp: resolveModel_def model_identity_def split: if_splits option.splits prod.splits)
  from assms snap res obtain ranked req' ch' where
    r: "Rank sum64 (se_chain s) (Some (sched_request base adapter prompt)) ?cs = (Inr ranked, req', ch')"
    and ws: "ws = map (selected model) (if int (length ranked) > (if limit \<le> 0 then 3 else limit)
        then take (nat (if limit \<le> 0 then 3 else limit)) ranked else ranked)"
    unfolding SelectWorkers_def selector_candidates_def
    by (auto simp: Let_def split: if_splits option.splits sum.splits prod.splits)
  have "ws = map (selected model) (take (nat (if limit \<le> 0 then 3 else limit)) ranked)"
    using ws by (auto split: if_splits)
  with snap cs r mi show thesis by (intro that [of snap "?cs" ranked req' ch']) simp_all
qed

section \<open>Properties\<close>

text \<open>
  C25. What the gateway dispatches to: a successful selection is the head, as long as the requested number, of the ranking of exactly the workers of
  the current snapshot that are healthy and ready, below the admission limit, serve the model the name resolves to and,
  when the catalog is not empty, are assigned to it there; the ranking is by descending score with ties by worker id. So
  the selection is not empty, has each worker once, and no eligible worker that was left out has a better score than one that was taken.
\<close>

theorem select_workers_sound:
  assumes "ch_Filters (se_chain s) = ch_Filters (NewConfiguredChain cfg)"
    and "SelectWorkers sum64 s model prompt limit = (Inr ws, s')"
  shows "ws \<noteq> [] \<and> length ws \<le> nat (if limit \<le> 0 then 3 else limit) \<and> distinct (map sw_ID ws)
    \<and> (\<forall>w \<in> set ws. \<exists>snap c. se_holder s = Some snap \<and> c \<in> set (selector_candidates s snap)
         \<and> sw_ID w = cd_WorkerID c \<and> sw_Endpoint w = cd_Endpoint c
         \<and> fits_request (sched_request (fst (model_identity s model)) (snd (model_identity s model)) prompt) c
         \<and> below_limit (cc_AdmissionLimit cfg) c \<and> assigned s model (sw_ID w))
    \<and> (\<exists>snap ranked req' ch'. se_holder s = Some snap
         \<and> Rank sum64 (se_chain s) (Some (sched_request (fst (model_identity s model)) (snd (model_identity s model)) prompt))
             (filter (\<lambda>c. assigned s model (cd_WorkerID c)) (selector_candidates s snap)) = (Inr ranked, req', ch')
         \<and> ws = map (selected model) (take (nat (if limit \<le> 0 then 3 else limit)) ranked)
         \<and> sorted (map (\<lambda>p. (- pr_Score p, pr_WorkerID p)) ranked)
         \<and> mset (map pr_WorkerID ranked) = mset (map cd_WorkerID (filter (\<lambda>c. assigned s model (cd_WorkerID c)
             \<and> fits_request (sched_request (fst (model_identity s model)) (snd (model_identity s model)) prompt) c
             \<and> below_limit (cc_AdmissionLimit cfg) c) (selector_candidates s snap)))
         \<and> (\<forall>p \<in> set (take (nat (if limit \<le> 0 then 3 else limit)) ranked).
              \<forall>q \<in> set (drop (nat (if limit \<le> 0 then 3 else limit)) ranked). pr_Score q \<le> pr_Score p))"
proof -
  obtain snap cs ranked req' ch' where snap: "se_holder s = Some snap"
    and cs: "cs = filter (\<lambda>c. assigned s model (cd_WorkerID c)) (selector_candidates s snap)"
    and R: "Rank sum64 (se_chain s)
          (Some (sched_request (fst (model_identity s model)) (snd (model_identity s model)) prompt)) cs
        = (Inr ranked, req', ch')"
    and ws: "ws = map (selected model) (take (nat (if limit \<le> 0 then 3 else limit)) ranked)"
    using SelectWorkers_Inr [OF assms(2)] by blast
  let ?r = "sched_request (fst (model_identity s model)) (snd (model_identity s model)) prompt"
  have base: "sr_BaseModel ?r \<noteq> ''''" using Rank_empty_base [OF _ assms(1), of ?r sum64 cs] R by auto
  let ?el = "filter (\<lambda>c. fits_request ?r c \<and> below_limit (cc_AdmissionLimit cfg) c) cs"
  from rank_listing [OF base assms(1) R]
  have ne: "ranked \<noteq> []" and ms: "mset (map (\<lambda>p. (pr_WorkerID p, pr_Endpoint p)) ranked)
      = mset (map (\<lambda>c. (cd_WorkerID c, cd_Endpoint c)) ?el)"
    and order: "sorted (map (\<lambda>p. (- pr_Score p, pr_WorkerID p)) ranked)" by auto
  have "distinct (map cd_WorkerID (selector_candidates s snap))"
    unfolding selector_candidates_def by (rule candidates_distinct)
  then have "distinct (map cd_WorkerID ?el)" unfolding cs by (intro distinct_map_filter)
  moreover have "mset (map pr_WorkerID ranked) = mset (map cd_WorkerID ?el)"
    using arg_cong [OF ms, of "image_mset fst"] by (simp add: image_mset.compositionality comp_def)
  moreover note ids = this
  ultimately have dr: "distinct (map pr_WorkerID ranked)" by (metis mset_eq_imp_distinct_iff)
  have el: "?el = filter (\<lambda>c. assigned s model (cd_WorkerID c) \<and> fits_request ?r c \<and> below_limit (cc_AdmissionLimit cfg) c)
      (selector_candidates s snap)" by (simp add: cs conj_ac)
  have best: "\<forall>p \<in> set (take n ranked). \<forall>q \<in> set (drop n ranked). pr_Score q \<le> pr_Score p" for n
  proof -
    have "sorted_wrt (\<lambda>p q. (- pr_Score p, pr_WorkerID p) \<le> (- pr_Score q, pr_WorkerID q)) (take n ranked @ drop n ranked)"
      using order by (simp add: sorted_map)
    then show ?thesis unfolding sorted_wrt_append by (fastforce simp: less_eq_prod_def)
  qed
  have "map sw_ID ws = take (nat (if limit \<le> 0 then 3 else limit)) (map pr_WorkerID ranked)"
    by (simp add: ws selected_def take_map)
  then have "distinct (map sw_ID ws)" using dr by (metis distinct_take)
  moreover have "ws \<noteq> []" using ne by (auto simp: ws)
  moreover have "\<exists>c \<in> set ?el. sw_ID w = cd_WorkerID c \<and> sw_Endpoint w = cd_Endpoint c" if "w \<in> set ws" for w
  proof -
    from that obtain p where p: "p \<in> set ranked" "w = selected model p" by (auto simp: ws dest: in_set_takeD)
    have "(pr_WorkerID p, pr_Endpoint p) \<in> set (map (\<lambda>c. (cd_WorkerID c, cd_Endpoint c)) ?el)"
      using mset_eq_setD [OF ms] p(1) by (metis (no_types, lifting) image_eqI image_set)
    then show ?thesis using p(2) by (auto simp: selected_def)
  qed
  ultimately have sound: "ws \<noteq> [] \<and> length ws \<le> nat (if limit \<le> 0 then 3 else limit) \<and> distinct (map sw_ID ws)
    \<and> (\<forall>w \<in> set ws. \<exists>snap c. se_holder s = Some snap \<and> c \<in> set (selector_candidates s snap)
         \<and> sw_ID w = cd_WorkerID c \<and> sw_Endpoint w = cd_Endpoint c
         \<and> fits_request ?r c \<and> below_limit (cc_AdmissionLimit cfg) c \<and> assigned s model (sw_ID w))"
    using snap by (fastforce simp: ws cs)
  have "mset (map pr_WorkerID ranked) = mset (map cd_WorkerID (filter (\<lambda>c. assigned s model (cd_WorkerID c)
             \<and> fits_request ?r c \<and> below_limit (cc_AdmissionLimit cfg) c) (selector_candidates s snap)))"
    using ids unfolding el .
  then show ?thesis using sound R [unfolded cs]
    by (intro conjI exI [of _ snap] exI [of _ ranked] exI [of _ req'] exI [of _ ch']) (use snap ws order best in simp_all)
qed

definition demo_snapshot :: RoutingSnapshot where
  "demo_snapshot = \<lparr>rs_BuiltAt = 0, rs_Epoch = 1, rs_Workers = demo_views\<rparr>"

definition demo_selector :: SnapshotSelector where
  "demo_selector = \<lparr>se_holder = Some demo_snapshot, se_catalog = None, se_inflight = NewInflightTracker,
     se_latency = NewLatencyStore 0, se_chain = NewConfiguredChain demo_cfg, se_admissionLimit = 4\<rparr>"

lemma demo_ParseModelID: "ParseModelID ''m'' = (''m'', '''')"
  by (simp add: ParseModelID_def trim_space_visible visible_def)

lemma demo_candidates:
  "CandidatesFromSnapshot (Some demo_snapshot) (Some (Inflight_Get NewInflightTracker))
     (Some (Latency_Get (NewLatencyStore 0))) =
     [\<lparr>cd_WorkerID = ''v'', cd_Endpoint = '''', cd_QueueDepth = 0, cd_Healthy = True, cd_Ready = True,
       cd_EwmaLatencyMs = 0, cd_Models = [''m''], cd_MaxContext = 0, cd_CostPerHour = 0, cd_CostClass = '''',
       cd_Runtime = ''provider'', cd_VRAMGB = 0, cd_GPU = '''', cd_Capabilities = []\<rparr>]"
  by (simp add: CandidatesFromSnapshot_def demo_snapshot_def demo_views_def candidates_step_def
      new_candidate_def add_model_def join_model_def Inflight_Get_def NewInflightTracker_def
      Latency_Get_def NewLatencyStore_def)

lemma demo_select: "\<exists>ws s'. SelectWorkers (\<lambda>_. 0) demo_selector ''m'' ''hi'' 2 = (Inr ws, s')"
proof -
  have f: "run_filters (ch_Filters (NewConfiguredChain demo_cfg)) (Some (sched_request ''m'' '''' ''hi'')) [c] = Inr [c]"
    if "cd_Healthy c" "cd_Ready c" "cd_Models c = [''m'']" "cd_QueueDepth c = 0" for c
    using that by (simp add: NewConfiguredChain_def demo_cfg_def sched_request_def join_model_def
        servesModel_def satisfiesCapability_def)
  show ?thesis
    unfolding SelectWorkers_def
    by (simp add: demo_selector_def resolveModel_def Catalog_Empty_def demo_ParseModelID demo_candidates
        Let_def Rank_def f split: prod.splits)
qed

theorem select_workers_sound_witness:
  "\<exists>ws s'. SelectWorkers (\<lambda>_. 0) demo_selector ''m'' ''hi'' 2 = (Inr ws, s') \<and> ws \<noteq> [] \<and> length ws \<le> 2"
proof -
  obtain ws s' where S: "SelectWorkers (\<lambda>_. 0) demo_selector ''m'' ''hi'' 2 = (Inr ws, s')"
    using demo_select by blast
  have c: "ch_Filters (se_chain demo_selector) = ch_Filters (NewConfiguredChain demo_cfg)"
    by (simp add: demo_selector_def)
  from select_workers_sound [OF c S] S show ?thesis by auto
qed

text \<open>
  Why a selection fails, and what the client sees: 503 before the first snapshot, 404 for a name a
  non-empty catalog does not have, 503 when none of the assigned workers is in the snapshot, 429
  when workers fit but all are at the admission limit, and 503 when none fits.
\<close>

theorem select_errors:
  assumes "ch_Filters (se_chain s) = ch_Filters (NewConfiguredChain cfg)"
    and "SelectWorkers sum64 s model prompt limit = (Inl e, s')"
  shows "selectErrorStatus e =
     (case se_holder s of
        None \<Rightarrow> (503, ''server_error'', ''no_snapshot'')
      | Some snap \<Rightarrow>
          if \<not> Catalog_Empty (se_catalog s) \<and> Resolve (se_catalog s) model = None
          then (404, ''invalid_request_error'', ''model_not_found'')
          else
            (let r = sched_request (fst (model_identity s model)) (snd (model_identity s model)) prompt in
             if sr_BaseModel r \<noteq> ''''
                \<and> (\<exists>c \<in> set (selector_candidates s snap). assigned s model (cd_WorkerID c) \<and> fits_request r c)
             then (429, ''capacity_exceeded'', ''fleet_saturated'')
             else (503, ''server_error'', ''no_capacity'')))"
proof (cases "se_holder s")
  case None
  with assms(2) show ?thesis by (auto simp: SelectWorkers_def selectErrorStatus_def)
next
  case (Some snap)
  show ?thesis
  proof (cases "\<not> Catalog_Empty (se_catalog s) \<and> Resolve (se_catalog s) model = None")
    case True
    then have "e = ErrModelNotFound model"
      using assms(2) Some by (auto simp: SelectWorkers_def resolveModel_def split: prod.splits)
    with True Some show ?thesis by (simp add: selectErrorStatus_def)
  next
    case False
    then obtain base adapter allowed where res: "resolveModel s model = Inr (base, adapter, allowed)"
      by (cases "ParseModelID model"; cases "Catalog_Empty (se_catalog s)";
          cases "Resolve (se_catalog s) model") (auto simp: resolveModel_def)
    let ?r = "sched_request base adapter prompt"
    let ?cs = "filter (\<lambda>c. assigned s model (cd_WorkerID c)) (selector_candidates s snap)"
    have mi: "model_identity s model = (base, adapter)"
      using res by (auto simp: resolveModel_def model_identity_def split: if_splits option.splits prod.splits)
    have cs: "(case allowed of None \<Rightarrow> selector_candidates s snap
        | Some ws \<Rightarrow> filterByWorkerIDs (selector_candidates s snap) ws) = ?cs"
      using res by (auto simp: resolveModel_def assigned_def filterByWorkerIDs_def split: if_splits option.splits prod.splits)
    have "(e = ErrNoLiveAssignee model \<and> ?cs = [])
        \<or> (\<exists>e'. fst (Rank sum64 (se_chain s) (Some ?r) ?cs) = Inl e' \<and> e = wrap_rank_error model e')"
      using assms(2) unfolding SelectWorkers_def Some res selector_candidates_def [symmetric]
      by (simp add: Let_def cs split: if_splits sum.splits prod.splits)
    then show ?thesis
    proof (elim disjE exE conjE)
      assume "e = ErrNoLiveAssignee model" "?cs = []"
      with False Some mi show ?thesis by (auto simp: selectErrorStatus_def filter_empty_conv)
    next
      fix e' assume e': "fst (Rank sum64 (se_chain s) (Some ?r) ?cs) = Inl e'" "e = wrap_rank_error model e'"
      have "(\<exists>c \<in> set ?cs. fits_request ?r c) \<longleftrightarrow>
          (\<exists>c \<in> set (selector_candidates s snap). assigned s model (cd_WorkerID c) \<and> fits_request ?r c)"
        by auto
      with Rank_error_kind [OF assms(1) e'(1)] e'(2) False Some mi show ?thesis
        by (simp add: wrap_rank_error_def selectErrorStatus_def Let_def)
    qed
  qed
qed

theorem select_errors_witness:
  "\<exists>e s'. SelectWorkers (\<lambda>_. 0) (demo_selector\<lparr>se_holder := None\<rparr>) ''m'' ''hi'' 2 = (Inl e, s')
     \<and> selectErrorStatus e = (503, ''server_error'', ''no_snapshot'')"
proof -
  let ?s = "demo_selector\<lparr>se_holder := None\<rparr>"
  have S: "SelectWorkers (\<lambda>_. 0) ?s ''m'' ''hi'' 2 = (Inl ErrNoSnapshot, ?s)" by (simp add: SelectWorkers_def)
  have c: "ch_Filters (se_chain ?s) = ch_Filters (NewConfiguredChain demo_cfg)" by (simp add: demo_selector_def)
  from select_errors [OF c S] S show ?thesis by simp
qed

end
