(* ===== verification/Gateway_Auth.thy ===== *)
theory Gateway_Auth
  imports Inflight
begin

text \<open>
  Who may call the gateway: the key store of \<open>services/gateway/apikey.go\<close> and the middleware of
  \<open>services/gateway/middleware.go\<close> that authenticates a request, takes a slot of the client's
  concurrency limit and gives it back. \<open>hash\<close> is \<open>HashAPIKey\<close> (SHA-256 in hex): the theorems hold for
  any function in its place, and say where two keys are told apart only by their hashes.
\<close>

section \<open>The key store\<close>

record APIKey =
  ak_ID :: string
  ak_KeyHash :: string
  ak_ClientID :: string
  ak_MaxConcurrent :: int
  ak_Enabled :: bool

record ClientIdentity =
  ci_ClientID :: string
  ci_MaxConcurrent :: int
  ci_KeyID :: string

record KeyStore =
  ks_hasDB :: bool
  ks_byHash :: "(string \<times> ClientIdentity) list"
  ks_envOnly :: bool

definition NewKeyStore :: "bool \<Rightarrow> KeyStore" where
  "NewKeyStore hasDB = \<lparr>ks_hasDB = hasDB, ks_byHash = [], ks_envOnly = False\<rparr>"

text \<open>\<open>fmtSscanf\<close>: the leading digits as an \<open>int\<close> of 64 bits, kept when positive.\<close>

definition wrap64 :: "int \<Rightarrow> int" where
  "wrap64 x = (x + 2 ^ 63) mod 2 ^ 64 - 2 ^ 63"

definition is_dec :: "char \<Rightarrow> bool" where
  "is_dec c \<longleftrightarrow> 48 \<le> (of_char c :: nat) \<and> (of_char c :: nat) \<le> 57"

definition fmtSscanf :: "string \<Rightarrow> int \<Rightarrow> int" where
  "fmtSscanf s n =
     (let v = fold (\<lambda>c v. wrap64 (v * 10 + (of_char c - 48))) (takeWhile is_dec s) 0 in
      if v > 0 then v else n)"

text \<open>One part of the comma-separated list: \<open>key\<close>, \<open>key:client\<close> or \<open>key:client:limit\<close>.\<close>

definition parse_env_part :: "string \<Rightarrow> (string \<times> ClientIdentity) option" where
  "parse_env_part raw =
     (let part = trim_space raw in
      if part = '''' then None
      else
        (let (key, client, maxC) =
           (case index_byte part (CHR '':'') of
              None \<Rightarrow> (part, ''client'', 32)
            | Some i \<Rightarrow>
                (let rest = drop (i + 1) part in
                 case index_byte rest (CHR '':'') of
                   Some j \<Rightarrow> (take i part, take j rest, fmtSscanf (drop (j + 1) rest) 32)
                 | None \<Rightarrow> (take i part, rest, 32))) in
         if key = '''' then None
         else Some (key, \<lparr>ci_ClientID = client, ci_MaxConcurrent = (if maxC \<le> 0 then 32 else maxC),
                          ci_KeyID = ''env-'' @ client\<rparr>)))"

definition add_env_part :: "(string \<Rightarrow> string) \<Rightarrow> string \<Rightarrow> (string \<times> ClientIdentity) list \<Rightarrow> (string \<times> ClientIdentity) list" where
  "add_env_part hash raw m =
     (case parse_env_part raw of None \<Rightarrow> m | Some (key, ident) \<Rightarrow> AList.update (hash key) ident m)"

definition LoadFromEnv :: "(string \<Rightarrow> string) \<Rightarrow> KeyStore \<Rightarrow> string \<Rightarrow> string \<Rightarrow> KeyStore" where
  "LoadFromEnv hash s csv single =
     (let m0 = (if single \<noteq> ''''
                then AList.update (hash single)
                       \<lparr>ci_ClientID = ''default'', ci_MaxConcurrent = 32, ci_KeyID = ''env-default''\<rparr> (ks_byHash s)
                else ks_byHash s);
          m = fold (add_env_part hash) (split_byte csv (CHR '','')) m0 in
      s\<lparr>ks_byHash := m, ks_envOnly := (ks_envOnly s \<or> m \<noteq> [] \<and> \<not> ks_hasDB s)\<rparr>)"

text \<open>\<open>Reload\<close>: \<open>answer\<close> is the query for the enabled rows.\<close>

definition row_identity :: "APIKey \<Rightarrow> ClientIdentity" where
  "row_identity r =
     \<lparr>ci_ClientID = ak_ClientID r,
      ci_MaxConcurrent = (if ak_MaxConcurrent r \<le> 0 then 32 else ak_MaxConcurrent r), ci_KeyID = ak_ID r\<rparr>"

definition Reload :: "KeyStore \<Rightarrow> goerr + APIKey list \<Rightarrow> goerr option \<times> KeyStore" where
  "Reload s answer =
     (if \<not> ks_hasDB s then (None, s)
      else
        (case answer of
           Inl e \<Rightarrow> (Some e, s)
         | Inr rows \<Rightarrow>
             (None, s\<lparr>ks_byHash := fold (\<lambda>r m. AList.update (ak_KeyHash r) (row_identity r) m) rows
                (filter (\<lambda>(h, ident). has_prefix (ci_KeyID ident) ''env-'') (ks_byHash s))\<rparr>)))"

definition Required :: "KeyStore \<Rightarrow> bool" where
  "Required s \<longleftrightarrow> ks_byHash s \<noteq> []"

definition Lookup :: "(string \<Rightarrow> string) \<Rightarrow> KeyStore \<Rightarrow> string \<Rightarrow> ClientIdentity option" where
  "Lookup hash s rawKey = (if rawKey = '''' then None else map_of (ks_byHash s) (hash rawKey))"

text \<open>
  \<open>Upsert\<close> saves the row by its primary key and reloads. The table is explicit; \<open>refused\<close> is the
  database's verdict on the save.
\<close>

definition save_row :: "APIKey \<Rightarrow> APIKey list \<Rightarrow> APIKey list" where
  "save_row r rows =
     (if ak_ID r \<in> ak_ID ` set rows then map (\<lambda>q. if ak_ID q = ak_ID r then r else q) rows else rows @ [r])"

definition Upsert_key ::
  "(string \<Rightarrow> string) \<Rightarrow> KeyStore \<Rightarrow> APIKey list \<Rightarrow> goerr option \<Rightarrow> string \<Rightarrow> string \<Rightarrow> string \<Rightarrow> int \<Rightarrow>
     goerr option \<times> KeyStore \<times> APIKey list" where
  "Upsert_key hash s table refused i rawKey clientID mx =
     (if \<not> ks_hasDB s then (Some (PlainErr ''unsupported data''), s, table)
      else
        (let row = \<lparr>ak_ID = i, ak_KeyHash = hash rawKey, ak_ClientID = clientID,
                    ak_MaxConcurrent = (if mx \<le> 0 then 32 else mx), ak_Enabled = True\<rparr> in
         case refused of
           Some e \<Rightarrow> (Some e, s, table)
         | None \<Rightarrow>
             (let table' = save_row row table in
              case Reload s (Inr (filter ak_Enabled table')) of (e, s') \<Rightarrow> (e, s', table'))))"

section \<open>The middleware\<close>

text \<open>A request as the middleware reads it: its path and its headers, absent ones empty.\<close>

record http_req =
  hr_Path :: string
  hr_Header :: "string \<Rightarrow> string"

definition extractAPIKey :: "http_req \<Rightarrow> string" where
  "extractAPIKey c =
     (let auth = hr_Header c ''Authorization'' in
      if length auth > 7 \<and> (take 7 auth = ''Bearer '' \<or> take 7 auth = ''bearer '') then drop 7 auth
      else hr_Header c ''X-API-Key'')"

datatype auth_answer =
    Skip
  | Unauthorized
  | Saturated ClientIdentity
  | Admitted "ClientIdentity option"

definition authenticate ::
  "(string \<Rightarrow> string) \<Rightarrow> KeyStore option \<Rightarrow> ConcurrencyLimiter \<Rightarrow> http_req \<Rightarrow> auth_answer \<times> ConcurrencyLimiter" where
  "authenticate hash keys lm c =
     (if hr_Path c = ''/healthz'' \<or> hr_Path c = ''/internal/cache/events'' then (Skip, lm)
      else
        (case keys of
           None \<Rightarrow> (Admitted None, lm)
         | Some ks \<Rightarrow>
             if \<not> Required ks then (Admitted None, lm)
             else
               (case Lookup hash ks (extractAPIKey c) of
                  None \<Rightarrow> (Unauthorized, lm)
                | Some ident \<Rightarrow>
                    (case Acquire lm (ci_ClientID ident) (ci_MaxConcurrent ident) of
                       (True, lm') \<Rightarrow> (Admitted (Some ident), lm')
                     | (False, lm') \<Rightarrow> (Saturated ident, lm')))))"

text \<open>
  The middleware around the rest of the chain \<open>nxt\<close>, which sees the client and may itself let
  other requests run, so it takes and returns the limiter. The answer is the status and the code
  of the error, or what \<open>nxt\<close> answered.
\<close>

definition Middleware ::
  "(string \<Rightarrow> string) \<Rightarrow> KeyStore option \<Rightarrow> http_req \<Rightarrow>
     (ClientIdentity option \<Rightarrow> ConcurrencyLimiter \<Rightarrow> 'a \<times> ConcurrencyLimiter) \<Rightarrow> ConcurrencyLimiter \<Rightarrow>
     (int \<times> string + 'a) \<times> ConcurrencyLimiter" where
  "Middleware hash keys c nxt lm =
     (case authenticate hash keys lm c of
        (Skip, lm') \<Rightarrow> (case nxt None lm' of (a, lm'') \<Rightarrow> (Inr a, lm''))
      | (Unauthorized, lm') \<Rightarrow> (Inl (401, ''unauthorized''), lm')
      | (Saturated _, lm') \<Rightarrow> (Inl (429, ''client_saturated''), lm')
      | (Admitted None, lm') \<Rightarrow> (case nxt None lm' of (a, lm'') \<Rightarrow> (Inr a, lm''))
      | (Admitted (Some ident), lm') \<Rightarrow>
          (case nxt (Some ident) lm' of (a, lm'') \<Rightarrow> (Inr a, release_client lm'' (ci_ClientID ident))))"

definition ClientFromContext :: "ClientIdentity option \<Rightarrow> ClientIdentity" where
  "ClientFromContext v =
     (case v of Some i \<Rightarrow> i | None \<Rightarrow> \<lparr>ci_ClientID = ''anonymous'', ci_MaxConcurrent = 32, ci_KeyID = ''''\<rparr>)"

section \<open>Facts\<close>

lemma split_byte_notin: "c \<notin> set s \<Longrightarrow> split_byte s c = [s]"
  by (induction s) auto

lemma split_byte_append: "c \<notin> set p \<Longrightarrow> split_byte (p @ c # s) c = p # split_byte s c"
  by (induction p) auto

lemma split_join:
  assumes "ps \<noteq> []" and "\<forall>p \<in> set ps. c \<notin> set p"
  shows "split_byte (join_with [c] ps) c = ps"
  using assms
proof (induction "[c]" ps rule: join_with.induct)
  case (2 p)
  then show ?case by (simp add: split_byte_notin)
next
  case (3 p q ps)
  then show ?case by (simp add: split_byte_append)
qed simp

text \<open>An entry as it is written in the variable, and the identity it stands for.\<close>

record env_entry =
  en_key :: string
  en_client :: string
  en_limit :: string

definition plain :: "string \<Rightarrow> bool" where
  "plain s \<longleftrightarrow> s \<noteq> '''' \<and> list_all (\<lambda>c. visible c \<and> c \<noteq> CHR '':'' \<and> c \<noteq> CHR '','') s"

definition print_entry :: "env_entry \<Rightarrow> string" where
  "print_entry en = en_key en @ '':'' @ en_client en @ '':'' @ en_limit en"

definition entry_identity :: "env_entry \<Rightarrow> ClientIdentity" where
  "entry_identity en =
     \<lparr>ci_ClientID = en_client en, ci_MaxConcurrent = fmtSscanf (en_limit en) 32, ci_KeyID = ''env-'' @ en_client en\<rparr>"

definition entry_ok :: "env_entry \<Rightarrow> bool" where
  "entry_ok en \<longleftrightarrow> plain (en_key en) \<and> plain (en_client en) \<and> plain (en_limit en)"

lemma plainD: "plain s \<Longrightarrow> s \<noteq> [] \<and> visible (hd s) \<and> visible (last s) \<and> CHR '':'' \<notin> set s \<and> CHR '','' \<notin> set s"
  by (auto simp: plain_def list_all_iff)

lemma fmtSscanf_pos: "0 < n \<Longrightarrow> 0 < fmtSscanf s n"
  by (simp add: fmtSscanf_def Let_def)

lemma parse_print_entry:
  assumes "entry_ok en"
  shows "parse_env_part (print_entry en) = Some (en_key en, entry_identity en)"
proof -
  note k = plainD [of "en_key en"] and cl = plainD [of "en_client en"] and l = plainD [of "en_limit en"]
  have p: "plain (en_key en)" "plain (en_client en)" "plain (en_limit en)" using assms by (auto simp: entry_ok_def)
  have "trim_space (print_entry en) = print_entry en"
    using k [OF p(1)] l [OF p(3)] by (intro trim_space_visible) (auto simp: print_entry_def)
  moreover have "index_byte (print_entry en) (CHR '':'') = Some (length (en_key en))"
    using k [OF p(1)] by (simp add: print_entry_def)
  moreover have "index_byte (en_client en @ CHR '':'' # en_limit en) (CHR '':'') = Some (length (en_client en))"
    using cl [OF p(2)] by simp
  moreover have "print_entry en \<noteq> []" by (simp add: print_entry_def)
  moreover have "fmtSscanf (en_limit en) 32 > 0" by (rule fmtSscanf_pos) simp
  ultimately show ?thesis
    using k [OF p(1)] by (simp add: parse_env_part_def print_entry_def entry_identity_def Let_def)
qed

lemma comma_notin_entry: "entry_ok en \<Longrightarrow> CHR '','' \<notin> set (print_entry en)"
  using plainD [of "en_key en"] plainD [of "en_client en"] plainD [of "en_limit en"]
  by (auto simp: entry_ok_def print_entry_def)

lemma fold_add_env:
  assumes "\<forall>en \<in> set ens. entry_ok en"
  shows "map_of (fold (add_env_part hash) (map print_entry ens) m) h =
     (case find (\<lambda>en. hash (en_key en) = h) (rev ens) of Some en \<Rightarrow> Some (entry_identity en) | None \<Rightarrow> map_of m h)"
  using assms
  by (induction ens rule: rev_induct) (auto simp: add_env_part_def parse_print_entry update_conv)

lemma reload_lookup:
  "map_of (fold (\<lambda>r m. AList.update (ak_KeyHash r) (row_identity r) m) rows m) h =
     (case find (\<lambda>r. ak_KeyHash r = h) (rev rows) of Some r \<Rightarrow> Some (row_identity r) | None \<Rightarrow> map_of m h)"
  by (induction rows rule: rev_induct) (auto simp: update_conv)

lemma map_of_filter_value:
  assumes "distinct (map fst m)"
  shows "map_of (filter (\<lambda>(h, v). P v) m) h = (case map_of m h of Some v \<Rightarrow> if P v then Some v else None | None \<Rightarrow> None)"
  using assms by (induction m) (auto simp: map_of_eq_None_iff image_iff split: option.splits)

section \<open>Properties\<close>

text \<open>
  Keys configured in the environment authenticate: for a list of \<open>key:client:limit\<close> entries written
  with plain characters, a raw key is accepted after loading exactly when its hash is that of an
  entry's key or was in the store before, and it then carries the client, the limit and the key
  id of the last such entry.
\<close>

theorem env_keys_roundtrip:
  assumes "ens \<noteq> []" and "\<forall>en \<in> set ens. entry_ok en" and "raw \<noteq> ''''"
  shows "Lookup hash (LoadFromEnv hash s (join_with '','' (map print_entry ens)) '''') raw =
     (case find (\<lambda>en. hash (en_key en) = hash raw) (rev ens) of
        Some en \<Rightarrow> Some (entry_identity en)
      | None \<Rightarrow> Lookup hash s raw)"
proof -
  have "split_byte (join_with '','' (map print_entry ens)) (CHR '','') = map print_entry ens"
    using assms(1,2) comma_notin_entry by (intro split_join) auto
  then show ?thesis
    using assms(3)
    by (simp add: LoadFromEnv_def Lookup_def Let_def fold_add_env [OF assms(2)] split: option.splits)
qed

theorem env_keys_roundtrip_witness:
  "Lookup (\<lambda>k. k) (LoadFromEnv (\<lambda>k. k) (NewKeyStore False) ''k1:alice:5,k2:bob:7'' '''') ''k2''
     = Some \<lparr>ci_ClientID = ''bob'', ci_MaxConcurrent = 7, ci_KeyID = ''env-bob''\<rparr>"
proof -
  let ?ens = "[\<lparr>en_key = ''k1'', en_client = ''alice'', en_limit = ''5''\<rparr>,
               \<lparr>en_key = ''k2'', en_client = ''bob'', en_limit = ''7''\<rparr>]"
  have ok: "\<forall>en \<in> set ?ens. entry_ok en" by (simp add: entry_ok_def plain_def visible_def)
  have csv: "join_with '','' (map print_entry ?ens) = ''k1:alice:5,k2:bob:7''" by (simp add: print_entry_def)
  have "fmtSscanf ''7'' 32 = 7" by (simp add: fmtSscanf_def is_dec_def wrap64_def)
  with env_keys_roundtrip [OF _ ok, of "''k2''" "\<lambda>k. k" "NewKeyStore False"] show ?thesis
    unfolding csv by (simp add: entry_identity_def)
qed

text \<open>
  A reload makes the database authoritative: afterwards a key is accepted exactly when an enabled
  row has its hash, with that row's client and limit, or when the store had it under a key id
  that starts with \<open>env-\<close>. A key removed or disabled in the database is therefore refused after
  the next reload unless its id has that prefix. A failed query leaves the store as it was.
\<close>

theorem reload_authoritative:
  assumes "distinct (map fst (ks_byHash s))" and "ks_hasDB s" and "raw \<noteq> ''''"
  shows "Lookup hash (snd (Reload s (Inr rows))) raw =
     (case find (\<lambda>r. ak_KeyHash r = hash raw) (rev rows) of
        Some r \<Rightarrow> Some (row_identity r)
      | None \<Rightarrow>
          (case Lookup hash s raw of
             Some ident \<Rightarrow> if has_prefix (ci_KeyID ident) ''env-'' then Some ident else None
           | None \<Rightarrow> None))
   \<and> Reload s (Inl e) = (Some e, s)"
  using assms by (simp add: Reload_def Lookup_def reload_lookup map_of_filter_value split: option.splits)

definition demo_store :: KeyStore where
  "demo_store = \<lparr>ks_hasDB = True, ks_byHash = [(''a'', \<lparr>ci_ClientID = ''c'', ci_MaxConcurrent = 1, ci_KeyID = ''k1''\<rparr>)],
     ks_envOnly = False\<rparr>"

theorem reload_authoritative_witness:
  "Lookup (\<lambda>k. k) (snd (Reload demo_store (Inr []))) ''a'' = None \<and> Lookup (\<lambda>k. k) demo_store ''a'' \<noteq> None"
  using reload_authoritative [of demo_store "''a''" "\<lambda>k. k" "[]" EOF]
  by (simp add: demo_store_def Lookup_def has_prefix_def)

text \<open>Every identity in a store has a positive limit, so a known client can always be admitted.\<close>

definition keystore_ok :: "KeyStore \<Rightarrow> bool" where
  "keystore_ok s \<longleftrightarrow> (\<forall>h i. map_of (ks_byHash s) h = Some i \<longrightarrow> 0 < ci_MaxConcurrent i)"

lemma parse_env_part_pos: "parse_env_part raw = Some (k, i) \<Longrightarrow> 0 < ci_MaxConcurrent i"
  by (auto simp: parse_env_part_def Let_def split: if_splits option.splits prod.splits)

lemma fold_env_pos:
  assumes "\<forall>h i. map_of m h = Some i \<longrightarrow> 0 < ci_MaxConcurrent i"
    and "map_of (fold (add_env_part hash) parts m) h = Some i"
  shows "0 < ci_MaxConcurrent i"
  using assms
proof (induction parts arbitrary: m)
  case (Cons p ps)
  have "\<forall>h i. map_of (add_env_part hash p m) h = Some i \<longrightarrow> 0 < ci_MaxConcurrent i"
    using Cons.prems(1)
    by (auto simp: add_env_part_def update_conv dest: parse_env_part_pos split: option.splits if_splits)
  with Cons.IH [of "add_env_part hash p m"] Cons.prems(2) show ?case by simp
qed simp

lemma LoadFromEnv_ok [forge_inv]: "keystore_ok s \<Longrightarrow> keystore_ok (LoadFromEnv hash s csv single)"
  unfolding keystore_ok_def LoadFromEnv_def Let_def
  by (auto simp: update_conv split: if_splits elim!: fold_env_pos [rotated])

lemma Reload_ok [forge_inv]:
  assumes "keystore_ok s" and "distinct (map fst (ks_byHash s))"
  shows "keystore_ok (snd (Reload s answer))"
proof (cases answer)
  case (Inr rows)
  have "0 < ci_MaxConcurrent (row_identity r)" for r by (simp add: row_identity_def)
  with assms Inr show ?thesis
    unfolding keystore_ok_def Reload_def
    by (simp add: reload_lookup map_of_filter_value del: map_of_eq_Some_iff split: option.splits)
qed (use assms in \<open>simp add: keystore_ok_def Reload_def\<close>)

text \<open>
  C34. The middleware admits only whom it should: when keys are required and the path is not exempt,
  the rest of the chain runs exactly for a request whose key is known and whose client has a
  free slot, with the slot taken; otherwise the answer is 401 or 429. In every case the slot is
  given back: the limiter's counters end as they were. The rest of the chain is any function
  that gives back the slots it takes.
\<close>

theorem middleware_admission:
  assumes "hr_Path c \<noteq> ''/healthz''" and "hr_Path c \<noteq> ''/internal/cache/events''" and "Required ks"
    and "keystore_ok ks" and "\<forall>k. 0 \<le> client_count lm k"
    and "\<forall>v l. client_count (snd (nxt v l)) = client_count l"
  shows "client_count (snd (Middleware hash (Some ks) c nxt lm)) = client_count lm
    \<and> (case Lookup hash ks (extractAPIKey c) of
         None \<Rightarrow> fst (Middleware hash (Some ks) c nxt lm) = Inl (401, ''unauthorized'')
       | Some i \<Rightarrow>
           if client_count lm (ci_ClientID i) < ci_MaxConcurrent i
           then (\<exists>lm'. fst (Middleware hash (Some ks) c nxt lm) = Inr (fst (nxt (Some i) lm'))
                 \<and> client_count lm' (ci_ClientID i) = client_count lm (ci_ClientID i) + 1)
           else fst (Middleware hash (Some ks) c nxt lm) = Inl (429, ''client_saturated''))"
proof (cases "Lookup hash ks (extractAPIKey c)")
  case None
  with assms(1-3) show ?thesis by (simp add: Middleware_def authenticate_def)
next
  case (Some i)
  then have pos: "0 < ci_MaxConcurrent i" using assms(4) by (auto simp: Lookup_def keystore_ok_def split: if_splits)
  obtain ok l1 where A: "Acquire lm (ci_ClientID i) (ci_MaxConcurrent i) = (ok, l1)" by fastforce
  obtain a l2 where N: "nxt (Some i) l1 = (a, l2)" by fastforce
  have l2: "client_count l2 = client_count l1" using assms(6) N by (metis snd_conv)
  show ?thesis
  proof (cases "client_count lm (ci_ClientID i) < ci_MaxConcurrent i")
    case True
    from limiter.acquire_free [OF pos True] A
    have ok: ok and l1: "client_count l1 = (client_count lm)(ci_ClientID i := client_count lm (ci_ClientID i) + 1)"
      by auto
    have "0 < client_count l2 (ci_ClientID i)" using l1 l2 assms(5) by (simp add: add_nonneg_pos)
    then have "client_count (release_client l2 (ci_ClientID i)) = client_count lm"
      using limiter.release_open [of l2 "ci_ClientID i"] l1 l2 by simp
    moreover have "Middleware hash (Some ks) c nxt lm = (Inr a, release_client l2 (ci_ClientID i))"
      using ok Some A N assms(1-3) by (simp add: Middleware_def authenticate_def)
    ultimately show ?thesis using True Some N l1 by (auto intro!: exI [of _ l1])
  next
    case False
    then have "ci_MaxConcurrent i \<le> client_count lm (ci_ClientID i)" by simp
    from limiter.acquire_full [OF pos this] A have "\<not> ok" "client_count l1 = client_count lm" by auto
    with False Some A assms(1-3) show ?thesis by (simp add: Middleware_def authenticate_def)
  qed
qed

definition demo_http :: "string \<Rightarrow> http_req" where
  "demo_http key = \<lparr>hr_Path = ''/v1/models'', hr_Header = (\<lambda>h. if h = ''X-API-Key'' then key else '''')\<rparr>"

theorem middleware_admission_witness:
  "fst (Middleware (\<lambda>k. k) (Some demo_store) (demo_http ''wrong'') (\<lambda>v l. (0::nat, l)) NewConcurrencyLimiter)
     = Inl (401, ''unauthorized'')"
proof -
  have "hr_Path (demo_http ''wrong'') \<noteq> ''/healthz''" "hr_Path (demo_http ''wrong'') \<noteq> ''/internal/cache/events''"
    "Required demo_store" "keystore_ok demo_store" "\<forall>k. 0 \<le> client_count NewConcurrencyLimiter k"
    "Lookup (\<lambda>k. k) demo_store (extractAPIKey (demo_http ''wrong'')) = None"
    by (simp_all add: demo_http_def Required_def demo_store_def keystore_ok_def client_count_def
        NewConcurrencyLimiter_def Lookup_def extractAPIKey_def)
  with middleware_admission [of "demo_http ''wrong''" demo_store NewConcurrencyLimiter "\<lambda>v l. (0::nat, l)" "\<lambda>k. k"]
  show ?thesis by simp
qed

end
