(* ===== verification/Adapters.thy ===== *)
theory Adapters
  imports Routing
begin

text \<open>
  The runtimes a worker talks to and the RPC it serves: the shared types of \<open>worker/adapters\<close>, the
  vLLM and Ollama adapters, the OpenAI-compatible provider backend of
  \<open>services/provider/openai.go\<close>, and \<open>worker/grpc/server.go\<close>. An HTTP exchange is a parameter: it
  answers with an error, or a status, the text of a short read and the lines of the body with the
  error the scanner ended with. JSON decoding is a parameter too. A sink is a function on an
  environment, so a theorem about a sink that records its chunks is about every run.
\<close>

section \<open>Requests and chunks\<close>

text \<open>The dynamic values of an options map: a type assertion succeeds on one constructor only.\<close>

datatype gval = GFloat64 real | GFloat32 real | GInt int | GInt32 i32 | GBool bool | GStr string

type_synonym options = "(string \<times> gval) list"

record AGenerateRequest =
  gr_Model :: string
  gr_Prompt :: string
  gr_Options :: options
  gr_KeepAlive :: string

record ATokenChunk =
  at_Text :: string
  at_Done :: bool
  at_FinishReason :: string
  at_PromptTokens :: i32
  at_EvalTokens :: i32
  at_TotalDurNs :: int

definition text_chunk :: "string \<Rightarrow> ATokenChunk" where
  "text_chunk t = \<lparr>at_Text = t, at_Done = False, at_FinishReason = '''', at_PromptTokens = 0,
     at_EvalTokens = 0, at_TotalDurNs = 0\<rparr>"

definition done_chunk :: "string \<Rightarrow> string \<Rightarrow> i32 \<Rightarrow> i32 \<Rightarrow> ATokenChunk" where
  "done_chunk t finish p e = \<lparr>at_Text = t, at_Done = True, at_FinishReason = finish, at_PromptTokens = p,
     at_EvalTokens = e, at_TotalDurNs = 0\<rparr>"

type_synonym 'e sink = "ATokenChunk \<Rightarrow> 'e \<Rightarrow> goerr option \<times> 'e"

datatype http_answer =
    HttpErr string
  | HttpResp int string "string list" "goerr option"

text \<open>
  The context's error: at the moment the request fails, at the scanner's \<open>i\<close>-th line, and after
  the last line.
\<close>

datatype ctx_state = Ctx_canceled | Ctx_deadline

type_synonym ctx = "nat \<Rightarrow> ctx_state option"

definition ctx_Err :: "ctx \<Rightarrow> nat \<Rightarrow> goerr option" where
  "ctx_Err ctx i =
     map_option (\<lambda>st. case st of Ctx_canceled \<Rightarrow> CtxCanceled | Ctx_deadline \<Rightarrow> CtxDeadlineExceeded) (ctx i)"

definition opt_float64 :: "options \<Rightarrow> string \<Rightarrow> real option" where
  "opt_float64 opts k = (case map_of opts k of Some (GFloat64 v) \<Rightarrow> Some v | _ \<Rightarrow> None)"

definition opt_pos_int :: "options \<Rightarrow> string \<Rightarrow> int option" where
  "opt_pos_int opts k = (case map_of opts k of Some (GInt v) \<Rightarrow> if v > 0 then Some v else None | _ \<Rightarrow> None)"

section \<open>The chunks of an OpenAI-style stream\<close>

text \<open>A decoded payload: the choices (content and finish reason), the usage and the error message.\<close>

record sseChunk =
  sc_Choices :: "(string \<times> string option) list"
  sc_Usage :: "(i32 \<times> i32) option"
  sc_Error :: "string option"

definition sse_payload :: "string \<Rightarrow> string option" where
  "sse_payload raw =
     (let line = trim_space raw in
      if line = '''' \<or> \<not> has_prefix line ''data:'' then None
      else Some (trim_space (trim_prefix line ''data:'')))"

definition choice_text :: "sseChunk \<Rightarrow> string" where
  "choice_text c = (case sc_Choices c of [] \<Rightarrow> '''' | (t, _) # _ \<Rightarrow> t)"

definition choice_finish :: "sseChunk \<Rightarrow> string" where
  "choice_finish c = (case sc_Choices c of (_, Some f) # _ \<Rightarrow> f | _ \<Rightarrow> '''')"

section \<open>The vLLM adapter\<close>

record vllm =
  vl_servedModel :: string
  vl_forgeModel :: string

record chatBody =
  cb_Model :: string
  cb_Prompt :: string
  cb_Temperature :: "real option"
  cb_TopP :: "real option"
  cb_MaxTokens :: "int option"

definition resolveServed :: "vllm \<Rightarrow> string \<Rightarrow> string" where
  "resolveServed a model =
     (if vl_servedModel a \<noteq> '''' \<and> (model = '''' \<or> model = vl_forgeModel a \<or> model = vl_servedModel a)
      then vl_servedModel a
      else if model \<noteq> '''' then model
      else if vl_forgeModel a \<noteq> '''' then vl_forgeModel a
      else vl_servedModel a)"

definition toForge :: "vllm \<Rightarrow> string \<Rightarrow> string" where
  "toForge a served =
     (if vl_forgeModel a \<noteq> '''' \<and> (served = vl_servedModel a \<or> served = vl_forgeModel a \<or> vl_servedModel a = '''')
      then vl_forgeModel a else served)"

definition vllm_isModelMissing :: "string \<Rightarrow> bool" where
  "vllm_isModelMissing msg \<longleftrightarrow>
     contains_str (to_lower msg) ''not found'' \<or> contains_str (to_lower msg) ''does not exist''"

definition vllm_body :: "vllm \<Rightarrow> AGenerateRequest \<Rightarrow> chatBody" where
  "vllm_body a req =
     \<lparr>cb_Model = resolveServed a (gr_Model req), cb_Prompt = gr_Prompt req,
      cb_Temperature = opt_float64 (gr_Options req) ''temperature'',
      cb_TopP = opt_float64 (gr_Options req) ''top_p'',
      cb_MaxTokens = (case opt_pos_int (gr_Options req) ''max_tokens'' of
          Some v \<Rightarrow> Some v | None \<Rightarrow> opt_pos_int (gr_Options req) ''num_predict'')\<rparr>"

fun vllm_scan ::
  "(string \<Rightarrow> sseChunk option) \<Rightarrow> ctx \<Rightarrow> string \<Rightarrow> 'e sink \<Rightarrow> nat \<Rightarrow> string list \<Rightarrow> goerr option \<Rightarrow>
     i32 \<Rightarrow> i32 \<Rightarrow> 'e \<Rightarrow> goerr option \<times> 'e" where
  "vllm_scan unmarshal ctx model sink i [] scanErr p ev e =
     (case scanErr of
        Some err \<Rightarrow> ((case ctx_Err ctx i of Some ce \<Rightarrow> Some ce | None \<Rightarrow> Some (PlainErr ''vllm stream'')), e)
      | None \<Rightarrow> sink (done_chunk '''' ''stop'' p ev) e)"
| "vllm_scan unmarshal ctx model sink i (raw # rest) scanErr p ev e =
     (case ctx_Err ctx i of
        Some err \<Rightarrow> (Some err, e)
      | None \<Rightarrow>
          (case sse_payload raw of
             None \<Rightarrow> vllm_scan unmarshal ctx model sink (Suc i) rest scanErr p ev e
           | Some payload \<Rightarrow>
               if payload = ''[DONE]'' then sink (done_chunk '''' ''stop'' p ev) e
               else
                 (case unmarshal payload of
                    None \<Rightarrow> (Some (PlainErr ''vllm sse''), e)
                  | Some c \<Rightarrow>
                      if (case sc_Error c of Some m \<Rightarrow> m \<noteq> '''' | None \<Rightarrow> False) then
                        (let m = (case sc_Error c of Some m \<Rightarrow> m | None \<Rightarrow> '''') in
                         (Some (if vllm_isModelMissing m then ModelNotFoundError model
                                else PlainErr (''vllm generate: '' @ m)), e))
                      else
                        (let (p', ev') = (case sc_Usage c of Some u \<Rightarrow> u | None \<Rightarrow> (p, ev));
                             text = choice_text c; finish = choice_finish c in
                         if text = '''' \<and> finish = '''' then
                           vllm_scan unmarshal ctx model sink (Suc i) rest scanErr p' ev' e
                         else if finish \<noteq> '''' then sink (done_chunk text finish p' ev') e
                         else
                           (case sink (text_chunk text) e of
                              (Some err, e') \<Rightarrow> (Some err, e')
                            | (None, e') \<Rightarrow> vllm_scan unmarshal ctx model sink (Suc i) rest scanErr p' ev' e')))))"

definition vllm_Generate ::
  "(chatBody \<Rightarrow> http_answer) \<Rightarrow> (string \<Rightarrow> sseChunk option) \<Rightarrow> ctx \<Rightarrow> vllm \<Rightarrow> AGenerateRequest \<Rightarrow> 'e sink \<Rightarrow> 'e \<Rightarrow>
     goerr option \<times> 'e" where
  "vllm_Generate post unmarshal ctx a req sink e =
     (if gr_Model req = '''' \<and> vl_forgeModel a = '''' \<and> vl_servedModel a = '''' then (Some (ModelNotFoundError ''''), e)
      else if gr_Prompt req = '''' then (Some (PlainErr ''prompt is required''), e)
      else
        (case post (vllm_body a req) of
           HttpErr m \<Rightarrow> ((case ctx_Err ctx 0 of Some ce \<Rightarrow> Some ce | None \<Rightarrow> Some (PlainErr (''vllm generate: '' @ m))), e)
         | HttpResp status msg lines scanErr \<Rightarrow>
             if status = 404 then (Some (ModelNotFoundError (gr_Model req)), e)
             else if status \<noteq> 200 then
               (Some (if vllm_isModelMissing msg then ModelNotFoundError (gr_Model req)
                      else PlainErr (''vllm generate: status: '' @ trim_space msg)), e)
             else vllm_scan unmarshal ctx (gr_Model req) sink 0 lines scanErr 0 0 e))"

record AModelInfo =
  mi_Base :: string
  mi_Adpt :: string
  mi_MaxCtx :: u32

definition vllm_models :: "vllm \<Rightarrow> string list \<Rightarrow> AModelInfo list" where
  "vllm_models a ids =
     (let ms = map (\<lambda>i. \<lparr>mi_Base = toForge a i, mi_Adpt = '''', mi_MaxCtx = 0\<rparr>) ids in
      if ms = [] \<and> vl_forgeModel a \<noteq> '''' then [\<lparr>mi_Base = vl_forgeModel a, mi_Adpt = '''', mi_MaxCtx = 0\<rparr>]
      else ms)"

subsection \<open>Load metrics\<close>

text \<open>\<open>strings.Fields\<close> on ASCII white space.\<close>

definition is_ascii_space :: "char \<Rightarrow> bool" where
  "is_ascii_space c \<longleftrightarrow> (let n = of_char c :: nat in n = 9 \<or> n = 10 \<or> n = 11 \<or> n = 12 \<or> n = 13 \<or> n = 32)"

fun go_fields :: "string \<Rightarrow> string \<Rightarrow> string list" where
  "go_fields [] cur = (if cur = [] then [] else [rev cur])"
| "go_fields (c # cs) cur =
     (if is_ascii_space c then (if cur = [] then go_fields cs [] else rev cur # go_fields cs [])
      else go_fields cs (c # cur))"

definition splitMetric :: "(string \<Rightarrow> real option) \<Rightarrow> string \<Rightarrow> (string \<times> real) option" where
  "splitMetric parseFloat line =
     (let fields = go_fields line [] in
      if length fields < 2 then None
      else
        (let name0 = hd fields;
             name = (case index_byte name0 (CHR 0x7B) of Some i \<Rightarrow> take i name0 | None \<Rightarrow> name0) in
         case parseFloat (last fields) of None \<Rightarrow> None | Some v \<Rightarrow> Some (name, v)))"

record LoadSnapshot =
  lo_Running :: real
  lo_Waiting :: real
  lo_KVCacheUsage :: real
  lo_GPUCacheUsage :: real

definition metric_line :: "(string \<Rightarrow> real option) \<Rightarrow> string \<Rightarrow> LoadSnapshot \<Rightarrow> LoadSnapshot" where
  "metric_line parseFloat raw snap =
     (let line = trim_space raw in
      if line = '''' \<or> has_prefix line ''#'' then snap
      else
        (case splitMetric parseFloat line of
           None \<Rightarrow> snap
         | Some (name, val) \<Rightarrow>
             if has_prefix name ''vllm:num_requests_running'' \<or> has_prefix name ''vllm_num_requests_running''
             then snap\<lparr>lo_Running := val\<rparr>
             else if has_prefix name ''vllm:num_requests_waiting'' \<or> has_prefix name ''vllm_num_requests_waiting''
             then snap\<lparr>lo_Waiting := val\<rparr>
             else if has_prefix name ''vllm:kv_cache_usage_perc'' \<or> has_prefix name ''vllm_kv_cache_usage_perc''
             then snap\<lparr>lo_KVCacheUsage := val\<rparr>
             else if has_prefix name ''vllm:gpu_cache_usage_perc'' \<or> has_prefix name ''vllm_gpu_cache_usage_perc''
             then snap\<lparr>lo_GPUCacheUsage := val\<rparr>
             else snap))"

definition parsePrometheus :: "(string \<Rightarrow> real option) \<Rightarrow> string \<Rightarrow> LoadSnapshot" where
  "parsePrometheus parseFloat body =
     fold (metric_line parseFloat) (split_byte body (CHR 0x0A))
       \<lparr>lo_Running = 0, lo_Waiting = 0, lo_KVCacheUsage = 0, lo_GPUCacheUsage = 0\<rparr>"

section \<open>The Ollama adapter\<close>

record streamLine =
  sl_Response :: string
  sl_Done :: bool
  sl_DoneReason :: string
  sl_PromptEvalCount :: i32
  sl_EvalCount :: i32
  sl_TotalDuration :: int
  sl_Error :: string

record generateBody =
  gb_Model :: string
  gb_Prompt :: string
  gb_KeepAlive :: string
  gb_Think :: bool
  gb_Options :: options

definition ollama_isModelMissing :: "string \<Rightarrow> bool" where
  "ollama_isModelMissing msg \<longleftrightarrow>
     contains_str (to_lower msg) ''not found'' \<or> contains_str (to_lower msg) ''pull''"

definition ollama_body :: "string \<Rightarrow> AGenerateRequest \<Rightarrow> generateBody" where
  "ollama_body keepAlive req =
     (let (think, opts) = (case map_of (gr_Options req) ''think'' of
            Some (GBool v) \<Rightarrow> (v, AList.delete ''think'' (gr_Options req))
          | _ \<Rightarrow> (False, gr_Options req)) in
      \<lparr>gb_Model = gr_Model req, gb_Prompt = gr_Prompt req,
       gb_KeepAlive = (if gr_KeepAlive req = '''' then keepAlive else gr_KeepAlive req),
       gb_Think = think, gb_Options = opts\<rparr>)"

definition ollama_chunk :: "streamLine \<Rightarrow> ATokenChunk" where
  "ollama_chunk c =
     (if sl_Done c then
        \<lparr>at_Text = sl_Response c, at_Done = True,
         at_FinishReason = (if sl_DoneReason c = '''' then ''stop'' else sl_DoneReason c),
         at_PromptTokens = sl_PromptEvalCount c, at_EvalTokens = sl_EvalCount c,
         at_TotalDurNs = sl_TotalDuration c\<rparr>
      else text_chunk (sl_Response c))"

fun ollama_scan ::
  "(string \<Rightarrow> streamLine option) \<Rightarrow> ctx \<Rightarrow> string \<Rightarrow> 'e sink \<Rightarrow> nat \<Rightarrow> string list \<Rightarrow> goerr option \<Rightarrow>
     'e \<Rightarrow> goerr option \<times> 'e" where
  "ollama_scan unmarshal ctx model sink i [] scanErr e =
     (case scanErr of
        Some err \<Rightarrow> ((case ctx_Err ctx i of Some ce \<Rightarrow> Some ce | None \<Rightarrow> Some (PlainErr ''ollama stream'')), e)
      | None \<Rightarrow> (None, e))"
| "ollama_scan unmarshal ctx model sink i (line # rest) scanErr e =
     (case ctx_Err ctx i of
        Some err \<Rightarrow> (Some err, e)
      | None \<Rightarrow>
          if line = '''' then ollama_scan unmarshal ctx model sink (Suc i) rest scanErr e
          else
            (case unmarshal line of
               None \<Rightarrow> (Some (PlainErr ''ollama ndjson''), e)
             | Some c \<Rightarrow>
                 if sl_Error c \<noteq> '''' then
                   (Some (if ollama_isModelMissing (sl_Error c) then ModelNotFoundError model
                          else PlainErr (''ollama generate: '' @ sl_Error c)), e)
                 else
                   (case sink (ollama_chunk c) e of
                      (Some err, e') \<Rightarrow> (Some err, e')
                    | (None, e') \<Rightarrow> ollama_scan unmarshal ctx model sink (Suc i) rest scanErr e')))"

definition ollama_Generate ::
  "(generateBody \<Rightarrow> http_answer) \<Rightarrow> (string \<Rightarrow> string option) \<Rightarrow> (string \<Rightarrow> streamLine option) \<Rightarrow> ctx \<Rightarrow> string \<Rightarrow>
     AGenerateRequest \<Rightarrow> 'e sink \<Rightarrow> 'e \<Rightarrow> goerr option \<times> 'e" where
  "ollama_Generate post unmarshalErr unmarshal ctx keepAlive req sink e =
     (if gr_Model req = '''' then (Some (ModelNotFoundError ''''), e)
      else if gr_Prompt req = '''' then (Some (PlainErr ''prompt is required''), e)
      else
        (case post (ollama_body keepAlive req) of
           HttpErr m \<Rightarrow> ((case ctx_Err ctx 0 of Some ce \<Rightarrow> Some ce | None \<Rightarrow> Some (PlainErr (''ollama generate: '' @ m))), e)
         | HttpResp status msg lines scanErr \<Rightarrow>
             if status = 404 then (Some (ModelNotFoundError (gr_Model req)), e)
             else if status \<noteq> 200 then
               (case unmarshalErr msg of
                  Some em \<Rightarrow>
                    if em \<noteq> '''' then
                      (Some (if ollama_isModelMissing em then ModelNotFoundError (gr_Model req)
                             else PlainErr (''ollama generate: '' @ em)), e)
                    else (Some (PlainErr (''ollama generate: status: '' @ trim_space msg)), e)
                | None \<Rightarrow> (Some (PlainErr (''ollama generate: status: '' @ trim_space msg)), e))
             else ollama_scan unmarshal ctx (gr_Model req) sink 0 lines scanErr e))"

definition HasModel :: "string list \<Rightarrow> string \<Rightarrow> bool" where
  "HasModel names model = list_ex (\<lambda>m. m = model \<or> has_prefix m (model @ '':'')) names"

section \<open>The provider backend\<close>

record OpenAICompat =
  oc_id :: string
  oc_baseURL :: string
  oc_apiKey :: string
  oc_modelMap :: "(string \<times> string) list"

definition NewOpenAICompat :: "string \<Rightarrow> string \<Rightarrow> string \<Rightarrow> (string \<times> string) list \<Rightarrow> OpenAICompat" where
  "NewOpenAICompat i baseURL apiKey models =
     \<lparr>oc_id = i, oc_baseURL = trim_right_byte baseURL (CHR ''/''), oc_apiKey = apiKey, oc_modelMap = models\<rparr>"

definition ResolveModel :: "OpenAICompat \<Rightarrow> string \<Rightarrow> string" where
  "ResolveModel b base =
     (case map_of (oc_modelMap b) base of Some m \<Rightarrow> if m \<noteq> '''' then m else base | None \<Rightarrow> base)"

definition ResolveAPIKey :: "(string \<Rightarrow> string) \<Rightarrow> string \<Rightarrow> string" where
  "ResolveAPIKey getenv ref =
     (if ref = '''' then ''''
      else if getenv ref \<noteq> '''' then getenv ref
      else if has_prefix ref ''FORGE_'' then getenv ref
      else getenv (''FORGE_'' @ to_upper ref))"

definition provider_body :: "OpenAICompat \<Rightarrow> AGenerateRequest \<Rightarrow> chatBody" where
  "provider_body b req =
     \<lparr>cb_Model = ResolveModel b (gr_Model req), cb_Prompt = gr_Prompt req,
      cb_Temperature = opt_float64 (gr_Options req) ''temperature'',
      cb_TopP = opt_float64 (gr_Options req) ''top_p'',
      cb_MaxTokens = opt_pos_int (gr_Options req) ''num_predict''\<rparr>"

text \<open>The provider's loop skips a payload it cannot decode and does not look at the scanner's error.\<close>

fun provider_scan ::
  "(string \<Rightarrow> sseChunk option) \<Rightarrow> ctx \<Rightarrow> 'e sink \<Rightarrow> nat \<Rightarrow> string list \<Rightarrow> i32 \<Rightarrow> i32 \<Rightarrow> 'e \<Rightarrow> goerr option \<times> 'e" where
  "provider_scan unmarshal ctx sink i [] p ev e = sink (done_chunk '''' ''stop'' p ev) e"
| "provider_scan unmarshal ctx sink i (raw # rest) p ev e =
     (case ctx_Err ctx i of
        Some err \<Rightarrow> (Some err, e)
      | None \<Rightarrow>
          (case sse_payload raw of
             None \<Rightarrow> provider_scan unmarshal ctx sink (Suc i) rest p ev e
           | Some payload \<Rightarrow>
               if payload = ''[DONE]'' then sink (done_chunk '''' ''stop'' p ev) e
               else
                 (case unmarshal payload of
                    None \<Rightarrow> provider_scan unmarshal ctx sink (Suc i) rest p ev e
                  | Some c \<Rightarrow>
                      (let (p', ev') = (case sc_Usage c of Some u \<Rightarrow> u | None \<Rightarrow> (p, ev));
                           text = choice_text c; finish = choice_finish c in
                       if text = '''' \<and> finish = '''' then
                         provider_scan unmarshal ctx sink (Suc i) rest p' ev' e
                       else if finish \<noteq> '''' then sink (done_chunk text finish p' ev') e
                       else
                         (case sink (text_chunk text) e of
                            (Some err, e') \<Rightarrow> (Some err, e')
                          | (None, e') \<Rightarrow> provider_scan unmarshal ctx sink (Suc i) rest p' ev' e')))))"

definition provider_Generate ::
  "(chatBody \<Rightarrow> http_answer) \<Rightarrow> (string \<Rightarrow> sseChunk option) \<Rightarrow> ctx \<Rightarrow> OpenAICompat \<Rightarrow> AGenerateRequest \<Rightarrow> 'e sink \<Rightarrow> 'e \<Rightarrow>
     goerr option \<times> 'e" where
  "provider_Generate post unmarshal ctx b req sink e =
     (if ResolveModel b (gr_Model req) = '''' then (Some (ModelNotFoundError (gr_Model req)), e)
      else
        (case post (provider_body b req) of
           HttpErr m \<Rightarrow>
             ((case ctx_Err ctx 0 of Some ce \<Rightarrow> Some ce | None \<Rightarrow> Some (PlainErr (''provider '' @ oc_id b @ '': '' @ m))), e)
         | HttpResp status msg lines scanErr \<Rightarrow>
             if status = 404 then (Some (ModelNotFoundError (gr_Model req)), e)
             else if status = 401 \<or> status = 403 then (Some (PlainErr (''provider '' @ oc_id b @ '': auth failed'')), e)
             else if status \<noteq> 200 then
               (Some (PlainErr (''provider '' @ oc_id b @ '': status: '' @ trim_space msg)), e)
             else provider_scan unmarshal ctx sink 0 lines 0 0 e))"

section \<open>The worker's RPC\<close>

record SamplingParams =
  sp_Temperature :: real
  sp_TopK :: i32
  sp_TopP :: real
  sp_MaxTokens :: i32

record WGenerateRequest =
  wg_BaseModel :: string
  wg_Adapter :: "string option"
  wg_Prompt :: string
  wg_Sampling :: "SamplingParams option"

record WUsage =
  wu_PromptTokens :: i32
  wu_CompletionTokens :: i32
  wu_TotalDurationNs :: int

record WTokenChunk =
  wt_Text :: string
  wt_Done :: bool
  wt_FinishReason :: string
  wt_Usage :: "WUsage option"

definition pos_i32 :: "i32 \<Rightarrow> bool" where "pos_i32 w \<longleftrightarrow> sint w > 0"

definition server_options :: "SamplingParams option \<Rightarrow> options" where
  "server_options sp =
     (case sp of
        None \<Rightarrow> []
      | Some s \<Rightarrow>
          (if sp_Temperature s > 0 then [(''temperature'', GFloat32 (sp_Temperature s))] else [])
          @ (if pos_i32 (sp_TopK s) then [(''top_k'', GInt32 (sp_TopK s))] else [])
          @ (if sp_TopP s > 0 then [(''top_p'', GFloat32 (sp_TopP s))] else [])
          @ (if pos_i32 (sp_MaxTokens s) then [(''num_predict'', GInt32 (sp_MaxTokens s))] else []))"

definition server_chunk :: "ATokenChunk \<Rightarrow> WTokenChunk" where
  "server_chunk c =
     \<lparr>wt_Text = at_Text c, wt_Done = at_Done c,
      wt_FinishReason = (if at_Done c then at_FinishReason c else ''''),
      wt_Usage = (if at_Done c then Some \<lparr>wu_PromptTokens = at_PromptTokens c, wu_CompletionTokens = at_EvalTokens c,
                    wu_TotalDurationNs = at_TotalDurNs c\<rparr> else None)\<rparr>"

definition mapError :: "(goerr \<Rightarrow> string) \<Rightarrow> goerr option \<Rightarrow> goerr option" where
  "mapError err_text err =
     (case err of
        None \<Rightarrow> None
      | Some CtxCanceled \<Rightarrow> Some (StatusErr Canceled ''client canceled'')
      | Some CtxDeadlineExceeded \<Rightarrow> Some (StatusErr DeadlineExceeded ''deadline exceeded'')
      | Some (ModelNotFoundError m) \<Rightarrow> Some (StatusErr NotFound (err_text (ModelNotFoundError m)))
      | Some (StatusErr c msg) \<Rightarrow> if c = OK then None else Some (StatusErr c msg)
      | Some e \<Rightarrow> Some (StatusErr Internal (''generate: '' @ err_text e)))"

text \<open>
  The RPC over an adapter's \<open>Generate\<close>; the sink sends each chunk on the stream \<open>send\<close>.
\<close>

definition Server_Generate ::
  "(goerr \<Rightarrow> string) \<Rightarrow> (AGenerateRequest \<Rightarrow> 'e sink \<Rightarrow> 'e \<Rightarrow> goerr option \<times> 'e) \<Rightarrow> string \<Rightarrow>
     WGenerateRequest \<Rightarrow> (WTokenChunk \<Rightarrow> 'e \<Rightarrow> goerr option \<times> 'e) \<Rightarrow> 'e \<Rightarrow> goerr option \<times> 'e" where
  "Server_Generate err_text generate keepAlive req send e =
     (if wg_Prompt req = '''' then (Some (StatusErr InvalidArgument ''prompt is required''), e)
      else if wg_BaseModel req = '''' then (Some (StatusErr InvalidArgument ''model.base_model is required''), e)
      else
        (case generate \<lparr>gr_Model = wg_BaseModel req, gr_Prompt = wg_Prompt req,
               gr_Options = server_options (wg_Sampling req), gr_KeepAlive = keepAlive\<rparr>
               (\<lambda>c. send (server_chunk c)) e of
           (err, e') \<Rightarrow> (mapError err_text err, e')))"

section \<open>The stream interface\<close>

text \<open>
  What a runtime promises the worker's RPC: on success some text chunks and then one final chunk
  with a finish reason, on failure no final chunk. A sink that always accepts sees the whole run.
\<close>

abbreviation recording :: "(ATokenChunk \<Rightarrow> 'm) \<Rightarrow> ATokenChunk \<Rightarrow> 'm list \<Rightarrow> goerr option \<times> 'm list" where
  "recording f \<equiv> \<lambda>c es. (None, es @ [f c])"

definition complete_stream :: "ATokenChunk list \<Rightarrow> bool" where
  "complete_stream cs \<longleftrightarrow>
     (\<exists>ts d. cs = map text_chunk ts @ [d] \<and> '''' \<notin> set ts \<and> at_Done d \<and> at_FinishReason d \<noteq> '''')"

definition partial_stream :: "ATokenChunk list \<Rightarrow> bool" where
  "partial_stream cs \<longleftrightarrow> (\<exists>ts. cs = map text_chunk ts \<and> '''' \<notin> set ts)"

locale token_stream =
  fixes gen :: "'r \<Rightarrow> (ATokenChunk \<Rightarrow> WTokenChunk list \<Rightarrow> goerr option \<times> WTokenChunk list) \<Rightarrow>
                WTokenChunk list \<Rightarrow> goerr option \<times> WTokenChunk list"
    and emitted :: "'r \<Rightarrow> goerr option \<times> ATokenChunk list"
  assumes gen_emitted: "gen r (recording f) es = (fst (emitted r), es @ map f (snd (emitted r)))"
    and success_complete: "fst (emitted r) = None \<Longrightarrow> complete_stream (snd (emitted r))"
    and failure_partial: "fst (emitted r) \<noteq> None \<Longrightarrow> partial_stream (snd (emitted r))"
begin

lemma success_messages:
  assumes "gen r (recording server_chunk) [] = (None, ms)"
  shows "\<exists>ts d. ms = map (\<lambda>t. server_chunk (text_chunk t)) ts @ [d] \<and> '''' \<notin> set ts
           \<and> wt_Done d \<and> wt_FinishReason d \<noteq> '''' \<and> wt_Usage d \<noteq> None"
proof -
  have e: "fst (emitted r) = None" "ms = map server_chunk (snd (emitted r))"
    using assms gen_emitted [of r server_chunk "[]"] by auto
  from success_complete [OF e(1)] obtain ts d where
    "snd (emitted r) = map text_chunk ts @ [d]" "'''' \<notin> set ts" "at_Done d" "at_FinishReason d \<noteq> ''''"
    by (auto simp: complete_stream_def)
  then show ?thesis
    by (intro exI [of _ ts] exI [of _ "server_chunk d"]) (simp add: e(2) server_chunk_def comp_def)
qed

lemma failure_messages:
  assumes "gen r (recording server_chunk) [] = (Some err, ms)"
  shows "\<forall>m \<in> set ms. \<not> wt_Done m"
proof -
  have e: "fst (emitted r) \<noteq> None" "ms = map server_chunk (snd (emitted r))"
    using assms gen_emitted [of r server_chunk "[]"] by auto
  from failure_partial [OF e(1)] show ?thesis
    by (auto simp: partial_stream_def e(2) server_chunk_def text_chunk_def)
qed

end

lemma complete_stream_Cons: "t \<noteq> '''' \<Longrightarrow> complete_stream cs \<Longrightarrow> complete_stream (text_chunk t # cs)"
  unfolding complete_stream_def by (metis (no_types, lifting) append_Cons list.simps(9) set_ConsD)

lemma complete_stream_done: "f \<noteq> '''' \<Longrightarrow> complete_stream [done_chunk t f p e]"
  by (auto simp: complete_stream_def done_chunk_def)

lemma partial_stream_Cons: "t \<noteq> '''' \<Longrightarrow> partial_stream cs \<Longrightarrow> partial_stream (text_chunk t # cs)"
  unfolding partial_stream_def by (metis (no_types, lifting) list.simps(9) set_ConsD)

lemma partial_stream_Nil [simp]: "partial_stream []"
  by (simp add: partial_stream_def)

text \<open>The chunks a run of each loop emits, as a function of the body alone.\<close>

definition next_usage :: "sseChunk \<Rightarrow> i32 \<Rightarrow> i32 \<Rightarrow> i32 \<times> i32" where
  "next_usage c p ev = (case sc_Usage c of Some u \<Rightarrow> u | None \<Rightarrow> (p, ev))"

definition chunk_error :: "string \<Rightarrow> sseChunk \<Rightarrow> goerr option" where
  "chunk_error model c =
     (case sc_Error c of
        Some m \<Rightarrow> if m = '''' then None
                  else Some (if vllm_isModelMissing m then ModelNotFoundError model
                             else PlainErr (''vllm generate: '' @ m))
      | None \<Rightarrow> None)"

fun vllm_emit ::
  "(string \<Rightarrow> sseChunk option) \<Rightarrow> ctx \<Rightarrow> string \<Rightarrow> nat \<Rightarrow> string list \<Rightarrow> goerr option \<Rightarrow> i32 \<Rightarrow> i32 \<Rightarrow>
     goerr option \<times> ATokenChunk list" where
  "vllm_emit um ctx model i [] scanErr p ev =
     (case scanErr of
        Some err \<Rightarrow> ((case ctx_Err ctx i of Some ce \<Rightarrow> Some ce | None \<Rightarrow> Some (PlainErr ''vllm stream'')), [])
      | None \<Rightarrow> (None, [done_chunk '''' ''stop'' p ev]))"
| "vllm_emit um ctx model i (raw # rest) scanErr p ev =
     (case ctx_Err ctx i of
        Some err \<Rightarrow> (Some err, [])
      | None \<Rightarrow>
          (case sse_payload raw of
             None \<Rightarrow> vllm_emit um ctx model (Suc i) rest scanErr p ev
           | Some payload \<Rightarrow>
               if payload = ''[DONE]'' then (None, [done_chunk '''' ''stop'' p ev])
               else
                 (case um payload of
                    None \<Rightarrow> (Some (PlainErr ''vllm sse''), [])
                  | Some c \<Rightarrow>
                      (case chunk_error model c of
                         Some err \<Rightarrow> (Some err, [])
                       | None \<Rightarrow>
                           (case next_usage c p ev of (p', ev') \<Rightarrow>
                              if choice_finish c \<noteq> '''' then
                                (None, [done_chunk (choice_text c) (choice_finish c) p' ev'])
                              else if choice_text c = '''' then vllm_emit um ctx model (Suc i) rest scanErr p' ev'
                              else
                                (case vllm_emit um ctx model (Suc i) rest scanErr p' ev' of
                                   (err, cs) \<Rightarrow> (err, text_chunk (choice_text c) # cs)))))))"

lemma vllm_scan_emit:
  "vllm_scan um ctx model (recording f) i ls se p ev es =
     (fst (vllm_emit um ctx model i ls se p ev), es @ map f (snd (vllm_emit um ctx model i ls se p ev)))"
proof (induction ls arbitrary: i p ev es)
  case (Cons l ls)
  show ?case
  proof (cases "ctx_Err ctx i")
    case None
    note ctx = this
    show ?thesis
    proof (cases "sse_payload l")
      case pl: (Some payload)
      show ?thesis
      proof (cases "um payload")
        case um: (Some c)
        show ?thesis
          by (cases "sc_Error c")
            (auto simp: ctx pl um Cons.IH chunk_error_def next_usage_def Let_def split: prod.splits)
      qed (simp add: ctx pl)
    qed (simp add: ctx Cons.IH)
  qed simp
qed (simp split: option.splits)

fun provider_emit ::
  "(string \<Rightarrow> sseChunk option) \<Rightarrow> ctx \<Rightarrow> nat \<Rightarrow> string list \<Rightarrow> i32 \<Rightarrow> i32 \<Rightarrow> goerr option \<times> ATokenChunk list" where
  "provider_emit um ctx i [] p ev = (None, [done_chunk '''' ''stop'' p ev])"
| "provider_emit um ctx i (raw # rest) p ev =
     (case ctx_Err ctx i of
        Some err \<Rightarrow> (Some err, [])
      | None \<Rightarrow>
          (case sse_payload raw of
             None \<Rightarrow> provider_emit um ctx (Suc i) rest p ev
           | Some payload \<Rightarrow>
               if payload = ''[DONE]'' then (None, [done_chunk '''' ''stop'' p ev])
               else
                 (case um payload of
                    None \<Rightarrow> provider_emit um ctx (Suc i) rest p ev
                  | Some c \<Rightarrow>
                      (case next_usage c p ev of (p', ev') \<Rightarrow>
                         if choice_finish c \<noteq> '''' then
                           (None, [done_chunk (choice_text c) (choice_finish c) p' ev'])
                         else if choice_text c = '''' then provider_emit um ctx (Suc i) rest p' ev'
                         else
                           (case provider_emit um ctx (Suc i) rest p' ev' of
                              (err, cs) \<Rightarrow> (err, text_chunk (choice_text c) # cs))))))"

lemma provider_scan_emit:
  "provider_scan um ctx (recording f) i ls p ev es =
     (fst (provider_emit um ctx i ls p ev), es @ map f (snd (provider_emit um ctx i ls p ev)))"
proof (induction ls arbitrary: i p ev es)
  case (Cons l ls)
  show ?case
  proof (cases "ctx_Err ctx i")
    case None
    note ctx = this
    show ?thesis
    proof (cases "sse_payload l")
      case pl: (Some payload)
      show ?thesis
      proof (cases "um payload")
        case um: (Some c)
        show ?thesis
          by (auto simp: ctx pl um Cons.IH next_usage_def Let_def split: prod.splits)
      qed (simp add: ctx pl Cons.IH)
    qed (simp add: ctx Cons.IH)
  qed simp
qed simp

lemma vllm_emit_stream:
  "(fst (vllm_emit um ctx model i ls se p ev) = None \<longrightarrow> complete_stream (snd (vllm_emit um ctx model i ls se p ev)))
   \<and> (fst (vllm_emit um ctx model i ls se p ev) \<noteq> None \<longrightarrow> partial_stream (snd (vllm_emit um ctx model i ls se p ev)))"
proof (induction ls arbitrary: i p ev)
  case (Cons l ls)
  show ?case
  proof (cases "ctx_Err ctx i")
    case None
    note ctx = this
    show ?thesis
    proof (cases "sse_payload l")
      case pl: (Some payload)
      show ?thesis
      proof (cases "um payload")
        case um: (Some c)
        obtain p' ev' where u: "next_usage c p ev = (p', ev')" by fastforce
        obtain err cs where v: "vllm_emit um ctx model (Suc i) ls se p' ev' = (err, cs)" by fastforce
        show ?thesis
          using Cons.IH [of "Suc i" p' ev']
          by (simp add: ctx pl um u v complete_stream_done complete_stream_Cons partial_stream_Cons
              split: option.splits)
      qed (simp add: ctx pl complete_stream_done)
    qed (use Cons.IH in \<open>simp add: ctx\<close>)
  qed simp
qed (simp add: complete_stream_done split: option.splits)

lemma provider_emit_stream:
  "(fst (provider_emit um ctx i ls p ev) = None \<longrightarrow> complete_stream (snd (provider_emit um ctx i ls p ev)))
   \<and> (fst (provider_emit um ctx i ls p ev) \<noteq> None \<longrightarrow> partial_stream (snd (provider_emit um ctx i ls p ev)))"
proof (induction ls arbitrary: i p ev)
  case (Cons l ls)
  show ?case
  proof (cases "ctx_Err ctx i")
    case None
    note ctx = this
    show ?thesis
    proof (cases "sse_payload l")
      case pl: (Some payload)
      show ?thesis
      proof (cases "um payload")
        case um: (Some c)
        obtain p' ev' where u: "next_usage c p ev = (p', ev')" by fastforce
        obtain err cs where v: "provider_emit um ctx (Suc i) ls p' ev' = (err, cs)" by fastforce
        show ?thesis
          using Cons.IH [of "Suc i" p' ev']
          by (simp add: ctx pl um u v complete_stream_done complete_stream_Cons partial_stream_Cons)
      qed (use Cons.IH in \<open>simp add: ctx pl complete_stream_done\<close>)
    qed (use Cons.IH in \<open>simp add: ctx\<close>)
  qed simp
qed (simp add: complete_stream_done)

lemma vllm_Generate_emitted:
  "vllm_Generate post um ctx a req (recording f) es =
     (let r = vllm_Generate post um ctx a req (recording id) [] in (fst r, es @ map f (snd r)))"
  by (simp add: vllm_Generate_def vllm_scan_emit Let_def split: http_answer.splits)

lemma provider_Generate_emitted:
  "provider_Generate post um ctx b req (recording f) es =
     (let r = provider_Generate post um ctx b req (recording id) [] in (fst r, es @ map f (snd r)))"
  by (simp add: provider_Generate_def provider_scan_emit Let_def split: http_answer.splits)

interpretation vllm_stream: token_stream
  "\<lambda>(post, um, ctx, a, req). vllm_Generate post um ctx a req"
  "\<lambda>(post, um, ctx, a, req). vllm_Generate post um ctx a req (recording id) []"
proof (unfold_locales, goal_cases)
  case (1 r f es)
  show ?case
    by (cases r) (subst case_prod_conv | simp add: vllm_Generate_emitted [of _ _ _ _ _ f es] Let_def)+
next
  case (2 r)
  then show ?case
    using vllm_emit_stream
    by (cases r) (auto simp: vllm_Generate_def vllm_scan_emit split: if_splits http_answer.splits option.splits)
next
  case (3 r)
  then show ?case
    using vllm_emit_stream
    by (cases r) (auto simp: vllm_Generate_def vllm_scan_emit split: if_splits http_answer.splits option.splits)
qed

interpretation provider_stream: token_stream
  "\<lambda>(post, um, ctx, b, req). provider_Generate post um ctx b req"
  "\<lambda>(post, um, ctx, b, req). provider_Generate post um ctx b req (recording id) []"
proof (unfold_locales, goal_cases)
  case (1 r f es)
  show ?case
    by (cases r) (subst case_prod_conv | simp add: provider_Generate_emitted [of _ _ _ _ _ f es] Let_def)+
next
  case (2 r)
  then show ?case
    using provider_emit_stream
    by (cases r) (auto simp: provider_Generate_def provider_scan_emit split: if_splits http_answer.splits option.splits)
next
  case (3 r)
  then show ?case
    using provider_emit_stream
    by (cases r) (auto simp: provider_Generate_def provider_scan_emit split: if_splits http_answer.splits option.splits)
qed

text \<open>No error of the adapter is a gRPC status of its own.\<close>

lemma ctx_Err_no_status:
  assumes "ctx_Err ctx i = Some e"
  shows "status_code e = None"
proof -
  from assms obtain st where "ctx i = Some st" by (auto simp: ctx_Err_def)
  with assms show ?thesis by (cases st) (auto simp: ctx_Err_def)
qed

lemma vllm_emit_no_status:
  "fst (vllm_emit um ctx model i ls se p ev) = Some e \<Longrightarrow> status_code e = None"
proof (induction ls arbitrary: i p ev)
  case (Cons l ls)
  then show ?case
    by (auto simp: chunk_error_def dest: ctx_Err_no_status split: option.splits if_splits prod.splits)
      (metis fst_conv)+
qed (auto dest: ctx_Err_no_status split: option.splits)

lemma vllm_Generate_no_status:
  assumes "fst (vllm_Generate post um ctx a req (recording f) es) = Some e"
  shows "status_code e = None"
  using assms
  by (auto simp: vllm_Generate_def vllm_scan_emit dest: ctx_Err_no_status vllm_emit_no_status
      split: if_splits http_answer.splits option.splits)

section \<open>Properties\<close>

text \<open>
  C35. The worker's stream is well formed: a successful \<open>Generate\<close> RPC over the vLLM adapter sends text
  messages and then exactly one final message, with a finish reason and a usage; one that fails
  has sent no final message, so a client never takes a broken generation for a complete one.
\<close>

theorem worker_stream_protocol:
  "case Server_Generate err_text (vllm_Generate post um ctx a) ka req (\<lambda>m ms. (None, ms @ [m])) [] of
     (None, ms) \<Rightarrow>
       (\<exists>ts d. ms = map (\<lambda>t. server_chunk (text_chunk t)) ts @ [d] \<and> '''' \<notin> set ts
          \<and> wt_Done d \<and> wt_FinishReason d \<noteq> '''' \<and> wt_Usage d \<noteq> None)
   | (Some e, ms) \<Rightarrow> \<forall>m \<in> set ms. \<not> wt_Done m"
proof -
  let ?gr = "\<lparr>gr_Model = wg_BaseModel req, gr_Prompt = wg_Prompt req, gr_Options = server_options (wg_Sampling req),
     gr_KeepAlive = ka\<rparr>"
  obtain err ms where g: "vllm_Generate post um ctx a ?gr (recording server_chunk) [] = (err, ms)" by fastforce
  have err: "mapError err_text err = None \<longleftrightarrow> err = None"
    using vllm_Generate_no_status [of post um ctx a ?gr server_chunk "[]"] g
    by (auto simp: mapError_def split: option.splits goerr.splits)
  show ?thesis
  proof (cases err)
    case None
    with g vllm_stream.success_messages [of "(post, um, ctx, a, ?gr)" ms] show ?thesis
      by (simp add: Server_Generate_def mapError_def)
  next
    case (Some x)
    with g err vllm_stream.failure_messages [of "(post, um, ctx, a, ?gr)" x ms] show ?thesis
      by (auto simp: Server_Generate_def split: option.splits)
  qed
qed

definition demo_request :: WGenerateRequest where
  "demo_request = \<lparr>wg_BaseModel = ''m'', wg_Adapter = None, wg_Prompt = ''hi'', wg_Sampling = None\<rparr>"

theorem worker_stream_protocol_witness:
  "\<exists>ts d. snd (Server_Generate (\<lambda>_. '''') (vllm_Generate (\<lambda>_. HttpResp 200 '''' [] None) (\<lambda>_. None) (\<lambda>_. None)
        \<lparr>vl_servedModel = '''', vl_forgeModel = ''''\<rparr>) '''' demo_request (\<lambda>m ms. (None, ms @ [m])) [])
      = map (\<lambda>t. server_chunk (text_chunk t)) ts @ [d] \<and> wt_Done d \<and> wt_Usage d \<noteq> None"
proof -
  let ?r = "Server_Generate (\<lambda>_. '''') (vllm_Generate (\<lambda>_. HttpResp 200 '''' [] None) (\<lambda>_. None) (\<lambda>_. None)
        \<lparr>vl_servedModel = '''', vl_forgeModel = ''''\<rparr>) '''' demo_request (\<lambda>m ms. (None, ms @ [m])) []"
  have "fst ?r = None" by (simp add: Server_Generate_def vllm_Generate_def demo_request_def mapError_def)
  with worker_stream_protocol [of "\<lambda>_. ''''" "\<lambda>_. HttpResp 200 '''' [] None" "\<lambda>_. None" "\<lambda>_. None"
      "\<lparr>vl_servedModel = '''', vl_forgeModel = ''''\<rparr>" "''''" demo_request]
  show ?thesis by (cases ?r) (simp, blast)
qed

text \<open>
  The options the RPC builds carry \<open>float32\<close> and \<open>int32\<close> values, and the vLLM adapter asks for
  \<open>float64\<close> and \<open>int\<close>: no assertion succeeds.
\<close>

lemma server_options_float64: "opt_float64 (server_options sp) k = None"
  by (cases sp) (auto simp: server_options_def opt_float64_def)

lemma server_options_pos_int: "opt_pos_int (server_options sp) k = None"
  by (cases sp) (auto simp: server_options_def opt_pos_int_def)

text \<open>
  Over the vLLM adapter a request's sampling parameters and its LoRA adapter never reach the
  runtime: for every runtime behaviour, stream and request, the RPC does what it does for the same
  request without them.
\<close>

theorem worker_ignores_sampling:
  "Server_Generate err_text (vllm_Generate post um ctx a) ka req send e
   = Server_Generate err_text (vllm_Generate post um ctx a) ka (req\<lparr>wg_Sampling := None, wg_Adapter := None\<rparr>) send e"
  by (simp add: Server_Generate_def vllm_Generate_def vllm_body_def server_options_float64 server_options_pos_int
      cong: http_answer.case_cong if_cong)

end
