(* ===== verification/Provider.thy ===== *)
theory Provider
  imports Adapters
begin

text \<open>
  The provider registry of \<open>services/provider/registry.go\<close>: the enabled providers and their model
  maps, read from the database, become virtual workers that the routing publisher adds to its
  snapshot and backends that the gateway dispatches to. The rows of the two tables are arguments;
  the environment variables are the function \<open>getenv\<close>.
\<close>

section \<open>Rows\<close>

record ProviderRow =
  pv_ID :: string
  pv_BaseURL :: string
  pv_APIKeyRef :: string
  pv_Enabled :: bool
  pv_CostInPerMTok :: real
  pv_CostOutPerMTok :: real
  pv_CostPerHour :: real

record ModelMap =
  mm_ProviderID :: string
  mm_BaseModel :: string
  mm_Adapter :: string
  mm_ProviderModel :: string
  mm_MaxContext :: int

record VirtualWorker =
  vw_ID :: string
  vw_ProviderID :: string
  vw_Endpoint :: string
  vw_BaseModel :: string
  vw_Adapter :: string
  vw_MaxContext :: u32
  vw_CostPerHour :: real
  vw_CostInPerM :: real
  vw_CostOutPerM :: real
  vw_ProviderModel :: string
  vw_Backend :: OpenAICompat

record ProviderRegistry =
  rg_workers :: "VirtualWorker list"
  rg_byID :: "(string \<times> OpenAICompat) list"

definition NewRegistry :: ProviderRegistry where
  "NewRegistry = \<lparr>rg_workers = [], rg_byID = []\<rparr>"

section \<open>Reload\<close>

definition provider_rows :: "ModelMap list \<Rightarrow> string \<Rightarrow> ModelMap list" where
  "provider_rows maps i = filter (\<lambda>m. mm_ProviderID m = i) maps"

definition provider_model_map :: "ModelMap list \<Rightarrow> (string \<times> string) list" where
  "provider_model_map rows = fold (\<lambda>m. AList.update (mm_BaseModel m) (mm_ProviderModel m)) rows []"

definition provider_backend :: "(string \<Rightarrow> string) \<Rightarrow> ModelMap list \<Rightarrow> ProviderRow \<Rightarrow> OpenAICompat" where
  "provider_backend getenv maps p =
     NewOpenAICompat (pv_ID p) (pv_BaseURL p) (ResolveAPIKey getenv (pv_APIKeyRef p))
       (provider_model_map (provider_rows maps (pv_ID p)))"

definition provider_cost :: "ProviderRow \<Rightarrow> real" where
  "provider_cost p =
     (if pv_CostPerHour p \<le> 0 then
        (let c = (pv_CostInPerMTok p + pv_CostOutPerMTok p) * 10 in if c \<le> 0 then 1 else c)
      else pv_CostPerHour p)"

definition virtual_id :: "string \<Rightarrow> string \<Rightarrow> string \<Rightarrow> string" where
  "virtual_id p base adapter =
     ''provider:'' @ p @ '':'' @ base @ (if adapter \<noteq> '''' then ''#'' @ adapter else '''')"

definition virtual_worker :: "OpenAICompat \<Rightarrow> ProviderRow \<Rightarrow> ModelMap \<Rightarrow> VirtualWorker" where
  "virtual_worker backend p m =
     \<lparr>vw_ID = virtual_id (pv_ID p) (mm_BaseModel m) (mm_Adapter m), vw_ProviderID = pv_ID p,
      vw_Endpoint = ''provider://'' @ pv_ID p, vw_BaseModel = mm_BaseModel m, vw_Adapter = mm_Adapter m,
      vw_MaxContext = word_of_int (mm_MaxContext m), vw_CostPerHour = provider_cost p,
      vw_CostInPerM = pv_CostInPerMTok p, vw_CostOutPerM = pv_CostOutPerMTok p,
      vw_ProviderModel = mm_ProviderModel m, vw_Backend = backend\<rparr>"

text \<open>
  \<open>Reload\<close>: the answers of the two queries, the first one restricted to enabled rows; without a
  database it does nothing.
\<close>

definition provider_Reload ::
  "(string \<Rightarrow> string) \<Rightarrow> (goerr + ProviderRow list) option \<Rightarrow> goerr + ModelMap list \<Rightarrow> ProviderRegistry \<Rightarrow>
     goerr option \<times> ProviderRegistry" where
  "provider_Reload getenv table maps r =
     (case table of
        None \<Rightarrow> (None, r)
      | Some (Inl e) \<Rightarrow> (Some e, r)
      | Some (Inr rows) \<Rightarrow>
          (case maps of
             Inl e \<Rightarrow> (Some e, r)
           | Inr ms \<Rightarrow>
               (let providers = filter pv_Enabled rows in
                (None,
                 \<lparr>rg_workers = concat (map (\<lambda>p. map (virtual_worker (provider_backend getenv ms p) p)
                                                   (provider_rows ms (pv_ID p))) providers),
                  rg_byID = fold (\<lambda>p. AList.update (pv_ID p) (provider_backend getenv ms p)) providers []\<rparr>))))"

definition Registry_Backend :: "ProviderRegistry \<Rightarrow> string \<Rightarrow> OpenAICompat option" where
  "Registry_Backend r i = map_option vw_Backend (find (\<lambda>w. vw_ID w = i) (rg_workers r))"

definition BackendByEndpoint :: "ProviderRegistry \<Rightarrow> string \<Rightarrow> OpenAICompat option" where
  "BackendByEndpoint r ep =
     (if length ep < 11 \<or> take 11 ep \<noteq> ''provider://'' then None else map_of (rg_byID r) (drop 11 ep))"

definition virtual_view :: "VirtualWorker \<Rightarrow> WorkerView" where
  "virtual_view w =
     \<lparr>wv_ID = vw_ID w, wv_Endpoint = vw_Endpoint w, wv_BaseModel = vw_BaseModel w, wv_Adapter = vw_Adapter w,
      wv_Healthy = True, wv_Ready = True, wv_QueueDepth = 0, wv_InFlight = 0, wv_MaxContext = vw_MaxContext w,
      wv_CostPerHour = vw_CostPerHour w, wv_CostClass = ''paid'', wv_Runtime = ''provider'', wv_VRAMGB = 0,
      wv_GPU = '''',
      wv_Capabilities = [(''provider'', ''true''), (''no_local_kv'', ''true''), (''provider_id'', vw_ProviderID w),
         (''cost_class'', ''paid''), (''cost_per_hour'', fmt_f4 (vw_CostPerHour w))]\<rparr>"

definition SnapshotViews :: "ProviderRegistry \<Rightarrow> WorkerView list" where
  "SnapshotViews r = map virtual_view (rg_workers r)"

section \<open>Facts\<close>

lemma append_colon_inject:
  assumes "CHR '':'' \<notin> set p" and "CHR '':'' \<notin> set q" and "p @ '':'' @ s = q @ '':'' @ t"
  shows "p = q"
proof -
  have "takeWhile (\<lambda>c. c \<noteq> CHR '':'') (x @ '':'' @ y) = x" if "CHR '':'' \<notin> set x" for x y :: string
    using that by (subst takeWhile_append2) auto
  then show ?thesis using assms by metis
qed

lemma virtual_id_provider:
  assumes "CHR '':'' \<notin> set p" and "CHR '':'' \<notin> set q" and "virtual_id p b a = virtual_id q b' a'"
  shows "p = q"
  using append_colon_inject [OF assms(1,2)] assms(3) by (auto simp: virtual_id_def)

lemma find_append: "find P (xs @ ys) = (case find P xs of Some x \<Rightarrow> Some x | None \<Rightarrow> find P ys)"
  by (induction xs) auto

lemma find_filter: "find P (filter Q xs) = find (\<lambda>x. Q x \<and> P x) xs"
  by (induction xs) auto

lemma find_is_Some: "x \<in> set xs \<Longrightarrow> P x \<Longrightarrow> \<exists>y. find P xs = Some y \<and> y \<in> set xs \<and> P y"
  by (induction xs) auto

lemma map_of_fold_update:
  "map_of (fold (\<lambda>x. AList.update (k x) (v x)) xs al) i
   = (case find (\<lambda>x. k x = i) (rev xs) of Some x \<Rightarrow> Some (v x) | None \<Rightarrow> map_of al i)"
  by (induction xs arbitrary: al)
    (auto simp: update_conv' find_append split: option.splits)

text \<open>The row that decides the model a provider is asked for: the last one for the base model.\<close>

definition deciding_row :: "ModelMap list \<Rightarrow> string \<Rightarrow> string \<Rightarrow> ModelMap option" where
  "deciding_row ms p base = find (\<lambda>m. mm_ProviderID m = p \<and> mm_BaseModel m = base) (rev ms)"

lemma backend_ResolveModel:
  assumes "deciding_row ms (pv_ID p) base = Some d"
  shows "ResolveModel (provider_backend getenv ms p) base
         = (if mm_ProviderModel d \<noteq> '''' then mm_ProviderModel d else base)"
  using assms
  by (simp add: ResolveModel_def provider_backend_def NewOpenAICompat_def provider_model_map_def map_of_fold_update
      provider_rows_def rev_filter find_filter deciding_row_def)

lemma backend_id [simp]: "oc_id (provider_backend getenv ms p) = pv_ID p"
  by (simp add: provider_backend_def NewOpenAICompat_def)

lemma BackendByEndpoint_loaded:
  assumes "distinct (map pv_ID ps)" and "p \<in> set ps"
  shows "BackendByEndpoint \<lparr>rg_workers = ws, rg_byID = fold (\<lambda>p. AList.update (pv_ID p) (f p)) ps []\<rparr>
           (''provider://'' @ pv_ID p) = Some (f p)"
proof -
  obtain q where q: "find (\<lambda>x. pv_ID x = pv_ID p) (rev ps) = Some q" "q \<in> set ps" "pv_ID q = pv_ID p"
    using find_is_Some [of p "rev ps" "\<lambda>x. pv_ID x = pv_ID p"] assms(2) by auto
  from q(2,3) assms have "q = p" by (simp add: distinct_map inj_on_def)
  with q show ?thesis by (simp add: BackendByEndpoint_def map_of_fold_update)
qed

definition loaded_workers :: "(string \<Rightarrow> string) \<Rightarrow> ModelMap list \<Rightarrow> ProviderRow list \<Rightarrow> VirtualWorker list" where
  "loaded_workers getenv ms ps =
     concat (map (\<lambda>p. map (virtual_worker (provider_backend getenv ms p) p) (provider_rows ms (pv_ID p))) ps)"

lemma loaded_workers_set:
  "w \<in> set (loaded_workers getenv ms ps) \<longleftrightarrow>
   (\<exists>p \<in> set ps. \<exists>m \<in> set ms. mm_ProviderID m = pv_ID p \<and> w = virtual_worker (provider_backend getenv ms p) p m)"
  by (auto simp: loaded_workers_def provider_rows_def)

lemma image_compr2: "g ` {f p m | p m. P p m} = {g (f p m) | p m. P p m}"
  by blast

lemma loaded_workers_keys:
  "(\<lambda>w. (vw_Endpoint w, vw_BaseModel w, vw_Adapter w)) ` set (loaded_workers getenv ms ps)
   = {(''provider://'' @ pv_ID p, mm_BaseModel m, mm_Adapter m) | p m.
        p \<in> set ps \<and> m \<in> set ms \<and> mm_ProviderID m = pv_ID p}"
proof -
  have "set (loaded_workers getenv ms ps)
        = {virtual_worker (provider_backend getenv ms p) p m | p m.
             p \<in> set ps \<and> m \<in> set ms \<and> mm_ProviderID m = pv_ID p}"
    using loaded_workers_set [of _ getenv ms ps] by blast
  then show ?thesis by (simp add: image_compr2 virtual_worker_def)
qed

lemma Registry_Backend_loaded:
  assumes "distinct (map pv_ID ps)" and "\<forall>p \<in> set ps. CHR '':'' \<notin> set (pv_ID p)"
    and "p \<in> set ps" and "m \<in> set ms" and "mm_ProviderID m = pv_ID p"
  shows "Registry_Backend \<lparr>rg_workers = loaded_workers getenv ms ps, rg_byID = bs\<rparr>
           (virtual_id (pv_ID p) (mm_BaseModel m) (mm_Adapter m)) = Some (provider_backend getenv ms p)"
proof -
  let ?i = "virtual_id (pv_ID p) (mm_BaseModel m) (mm_Adapter m)"
  have "virtual_worker (provider_backend getenv ms p) p m \<in> set (loaded_workers getenv ms ps)"
    using assms(3-5) by (auto simp: loaded_workers_set)
  then obtain w where w: "find (\<lambda>w. vw_ID w = ?i) (loaded_workers getenv ms ps) = Some w"
      "w \<in> set (loaded_workers getenv ms ps)" "vw_ID w = ?i"
    using find_is_Some [of _ _ "\<lambda>w. vw_ID w = ?i"] by (fastforce simp: virtual_worker_def)
  from w(2) obtain q m' where q: "q \<in> set ps" "w = virtual_worker (provider_backend getenv ms q) q m'"
    by (auto simp: loaded_workers_set)
  with w(3) have "virtual_id (pv_ID q) (mm_BaseModel m') (mm_Adapter m') = ?i" by (simp add: virtual_worker_def)
  from virtual_id_provider [OF _ _ this] assms(2,3) q(1) have "pv_ID q = pv_ID p" by blast
  with assms(1,3) q(1) have "q = p" by (simp add: distinct_map inj_on_def)
  with w(1) q(2) show ?thesis by (simp add: Registry_Backend_def virtual_worker_def)
qed

text \<open>A view dispatches to a provider: both lookups give its backend, which asks for the deciding row's model.\<close>

definition dispatches_to :: "ModelMap list \<Rightarrow> ProviderRegistry \<Rightarrow> WorkerView \<Rightarrow> ProviderRow \<Rightarrow> bool" where
  "dispatches_to ms r v p \<longleftrightarrow>
     (\<exists>b d. oc_id b = pv_ID p \<and> wv_Endpoint v = ''provider://'' @ pv_ID p
        \<and> Registry_Backend r (wv_ID v) = Some b \<and> BackendByEndpoint r (wv_Endpoint v) = Some b
        \<and> deciding_row ms (pv_ID p) (wv_BaseModel v) = Some d
        \<and> ResolveModel b (wv_BaseModel v)
          = (if mm_ProviderModel d \<noteq> '''' then mm_ProviderModel d else wv_BaseModel v))"

lemma loaded_view_dispatches:
  assumes "distinct (map pv_ID ps)" and "\<forall>p \<in> set ps. CHR '':'' \<notin> set (pv_ID p)"
    and "p \<in> set ps" and "m \<in> set ms" and "mm_ProviderID m = pv_ID p"
    and "r = \<lparr>rg_workers = loaded_workers getenv ms ps,
               rg_byID = fold (\<lambda>p. AList.update (pv_ID p) (provider_backend getenv ms p)) ps []\<rparr>"
  shows "dispatches_to ms r (virtual_view (virtual_worker (provider_backend getenv ms p) p m)) p"
proof -
  obtain d where d: "deciding_row ms (pv_ID p) (mm_BaseModel m) = Some d"
    unfolding deciding_row_def
    using find_is_Some [of m "rev ms" "\<lambda>x. mm_ProviderID x = pv_ID p \<and> mm_BaseModel x = mm_BaseModel m"] assms(4,5)
    by auto
  show ?thesis
    unfolding dispatches_to_def
    using d backend_ResolveModel [OF d, of getenv] Registry_Backend_loaded [OF assms(1-5), of getenv]
      BackendByEndpoint_loaded [OF assms(1,3), of "loaded_workers getenv ms ps" "provider_backend getenv ms"]
    by (intro exI [of _ "provider_backend getenv ms p"] exI [of _ d])
      (simp add: assms(6) virtual_view_def virtual_worker_def)
qed

lemma provider_Reload_loaded:
  assumes "provider_Reload getenv (Some (Inr rows)) (Inr ms) r = (err, r')"
  shows "err = None"
    and "r' = \<lparr>rg_workers = loaded_workers getenv ms (filter pv_Enabled rows),
      rg_byID = fold (\<lambda>p. AList.update (pv_ID p) (provider_backend getenv ms p)) (filter pv_Enabled rows) []\<rparr>"
  using assms by (auto simp: provider_Reload_def loaded_workers_def Let_def)

section \<open>Properties\<close>

text \<open>
  After a successful reload the snapshot views are exactly the mapped models of the enabled
  providers, all of them routable at a positive cost, and each view can be dispatched: by its id and
  by its endpoint the registry finds the backend of that very provider, when provider ids are
  distinct and contain no colon. The model asked for is the one of the provider's last row for the
  base model, so rows that differ in the adapter only share one provider model.
\<close>

theorem provider_views_dispatch:
  assumes "provider_Reload getenv (Some (Inr rows)) (Inr ms) r = (err, r')"
    and "distinct (map pv_ID (filter pv_Enabled rows))"
    and "\<forall>p \<in> set rows. CHR '':'' \<notin> set (pv_ID p)"
  shows "err = None
    \<and> (\<lambda>v. (wv_Endpoint v, wv_BaseModel v, wv_Adapter v)) ` set (SnapshotViews r')
         = {(''provider://'' @ pv_ID p, mm_BaseModel m, mm_Adapter m) | p m.
              p \<in> set rows \<and> pv_Enabled p \<and> m \<in> set ms \<and> mm_ProviderID m = pv_ID p}
    \<and> (\<forall>v \<in> set (SnapshotViews r'). wv_Healthy v \<and> wv_Ready v \<and> wv_CostPerHour v > 0
         \<and> (\<exists>p \<in> set rows. pv_Enabled p \<and> dispatches_to ms r' v p))"
proof (intro conjI ballI)
  note loaded = provider_Reload_loaded [OF assms(1)]
  show "err = None" by (rule loaded)
  show "(\<lambda>v. (wv_Endpoint v, wv_BaseModel v, wv_Adapter v)) ` set (SnapshotViews r')
         = {(''provider://'' @ pv_ID p, mm_BaseModel m, mm_Adapter m) | p m.
              p \<in> set rows \<and> pv_Enabled p \<and> m \<in> set ms \<and> mm_ProviderID m = pv_ID p}"
    using loaded_workers_keys [of getenv ms "filter pv_Enabled rows"]
    by (simp add: loaded SnapshotViews_def image_image virtual_view_def conj_assoc)
  fix v
  assume "v \<in> set (SnapshotViews r')"
  then obtain p m where p: "p \<in> set rows" "pv_Enabled p" and m: "m \<in> set ms" "mm_ProviderID m = pv_ID p"
    and v: "v = virtual_view (virtual_worker (provider_backend getenv ms p) p m)"
    by (auto simp: loaded SnapshotViews_def loaded_workers_set)
  show "wv_Healthy v" "wv_Ready v" "wv_CostPerHour v > 0"
    by (auto simp: v virtual_view_def virtual_worker_def provider_cost_def Let_def)
  have "dispatches_to ms r' v p"
    unfolding v using loaded_view_dispatches [OF assms(2) _ _ m loaded(2)] assms(3) p by simp
  with p show "\<exists>p \<in> set rows. pv_Enabled p \<and> dispatches_to ms r' v p" by blast
qed

definition demo_provider :: "string \<Rightarrow> bool \<Rightarrow> ProviderRow" where
  "demo_provider i on =
     \<lparr>pv_ID = i, pv_BaseURL = ''http://p/'', pv_APIKeyRef = '''', pv_Enabled = on, pv_CostInPerMTok = 1,
      pv_CostOutPerMTok = 2, pv_CostPerHour = 0\<rparr>"

definition demo_maps :: "ModelMap list" where
  "demo_maps =
     [\<lparr>mm_ProviderID = ''a'', mm_BaseModel = ''m'', mm_Adapter = '''', mm_ProviderModel = ''big'', mm_MaxContext = 0\<rparr>,
      \<lparr>mm_ProviderID = ''a'', mm_BaseModel = ''m'', mm_Adapter = ''sql'', mm_ProviderModel = ''big-sql'', mm_MaxContext = 0\<rparr>]"

theorem provider_views_dispatch_witness:
  "let r' = snd (provider_Reload (\<lambda>_. '''') (Some (Inr [demo_provider ''a'' True, demo_provider ''b'' False]))
              (Inr demo_maps) NewRegistry) in
   length (SnapshotViews r') = 2
   \<and> (\<forall>v \<in> set (SnapshotViews r'). wv_Healthy v \<and> wv_Ready v \<and> wv_CostPerHour v > 0
         \<and> (\<exists>p \<in> {demo_provider ''a'' True, demo_provider ''b'' False}. pv_Enabled p \<and> dispatches_to demo_maps r' v p))"
  using provider_views_dispatch [of "\<lambda>_. ''''" "[demo_provider ''a'' True, demo_provider ''b'' False]" demo_maps
      NewRegistry None
      "snd (provider_Reload (\<lambda>_. '''') (Some (Inr [demo_provider ''a'' True, demo_provider ''b'' False]))
              (Inr demo_maps) NewRegistry)"]
  by (simp add: provider_Reload_def demo_provider_def demo_maps_def SnapshotViews_def provider_rows_def)

end
