(* ===== verification/Gateway_Dispatch.thy ===== *)
theory Gateway_Dispatch
  imports Reliability Provider Gateway_Select
begin

text \<open>
  From a ranked list of workers to an answer: the request translation of \<open>translate.go\<close>, the
  provider stream of \<open>provider_dial.go\<close>, the failover of \<open>dispatch.go\<close> and the stream handling of
  \<open>handler.go\<close> (\<open>collect\<close>, \<open>streamChatFailover\<close>, \<open>streamTextFailover\<close>, \<open>sse.go\<close>). Everything outside
  the gateway is the record \<open>World\<close> over an environment: dialling a worker, its \<open>Generate\<close> call, an
  HTTP exchange with a provider, closing a connection, the clock. A stream is the list of chunks
  it delivers and the error it ends with; streams are finite.
\<close>

section \<open>Requests\<close>

record chatMessage =
  cm_Role :: string
  cm_Content :: string

record chatCompletionRequest =
  cr_Model :: string
  cr_Messages :: "chatMessage list"
  cr_Stream :: bool
  cr_Temperature :: "real option"
  cr_TopP :: "real option"
  cr_MaxTokens :: "i32 option"
  cr_MaxCompletionTokens :: "i32 option"
  cr_IncludeUsage :: "bool option"

text \<open>The prompt of a completion request as JSON decodes it: a string, an array or something else.\<close>

datatype json_item = JStr string | JOther

datatype json_prompt = PStr string | PArr "json_item list" | POther

record completionRequest =
  tr_Model :: string
  tr_Prompt :: json_prompt
  tr_Stream :: bool
  tr_Temperature :: "real option"
  tr_TopP :: "real option"
  tr_MaxTokens :: "i32 option"
  tr_IncludeUsage :: "bool option"

definition messagesToPrompt :: "chatMessage list \<Rightarrow> string" where
  "messagesToPrompt ms =
     concat (map (\<lambda>m. (if cm_Role m = '''' then ''user'' else cm_Role m) @ '': '' @ cm_Content m @ [CHR 0x0A]) ms)
     @ ''assistant: ''"

fun prompt_parts :: "json_item list \<Rightarrow> goerr + string list" where
  "prompt_parts [] = Inr []"
| "prompt_parts (JStr s # xs) = (case prompt_parts xs of Inl e \<Rightarrow> Inl e | Inr ps \<Rightarrow> Inr (s # ps))"
| "prompt_parts (JOther # xs) = Inl (PlainErr ''prompt array must contain strings'')"

definition promptFromCompletions :: "json_prompt \<Rightarrow> goerr + string" where
  "promptFromCompletions p =
     (case p of
        PStr s \<Rightarrow> Inr s
      | PArr xs \<Rightarrow> (case prompt_parts xs of Inl e \<Rightarrow> Inl e | Inr ps \<Rightarrow> Inr (join_with [CHR 0x0A] ps))
      | POther \<Rightarrow> Inl (PlainErr ''prompt must be a string or array of strings''))"

definition toWorkerRequest ::
  "string \<Rightarrow> string \<Rightarrow> real option \<Rightarrow> real option \<Rightarrow> i32 option \<Rightarrow> WGenerateRequest" where
  "toWorkerRequest model prompt temperature topP maxTok =
     (case ParseModelID model of (base, adapter) \<Rightarrow>
        \<lparr>wg_BaseModel = base, wg_Adapter = (if adapter \<noteq> '''' then Some adapter else None), wg_Prompt = prompt,
         wg_Sampling =
           (if temperature \<noteq> None \<or> topP \<noteq> None \<or> maxTok \<noteq> None then
              Some \<lparr>sp_Temperature = (case temperature of Some t \<Rightarrow> t | None \<Rightarrow> 0), sp_TopK = 0,
                    sp_TopP = (case topP of Some t \<Rightarrow> t | None \<Rightarrow> 0),
                    sp_MaxTokens = (case maxTok of Some n \<Rightarrow> n | None \<Rightarrow> 0)\<rparr>
            else None)\<rparr>)"

definition maxTokensFromChat :: "chatCompletionRequest \<Rightarrow> i32 option" where
  "maxTokensFromChat req =
     (case cr_MaxCompletionTokens req of Some n \<Rightarrow> Some n | None \<Rightarrow> cr_MaxTokens req)"

section \<open>Streams and the world\<close>

datatype stream = Stream "WTokenChunk list" "goerr option"

fun Recv :: "stream \<Rightarrow> (goerr + WTokenChunk) \<times> stream" where
  "Recv (Stream [] fin) = (Inl (case fin of Some e \<Rightarrow> e | None \<Rightarrow> EOF), Stream [] fin)"
| "Recv (Stream (c # cs) fin) = (Inr c, Stream cs fin)"

text \<open>
  \<open>wd_sel\<close> is the branch the provider's sink takes at its \<open>k\<close>-th chunk: the context's end, or the
  channel.
\<close>

record 'e World =
  wd_tick :: "'e \<Rightarrow> int \<times> 'e"
  wd_dial :: "string \<Rightarrow> 'e \<Rightarrow> goerr option \<times> 'e"
  wd_Generate :: "string \<Rightarrow> WGenerateRequest \<Rightarrow> 'e \<Rightarrow> (goerr + stream) \<times> 'e"
  wd_close :: "string \<Rightarrow> 'e \<Rightarrow> 'e"
  wd_post :: "OpenAICompat \<Rightarrow> chatBody \<Rightarrow> 'e \<Rightarrow> http_answer \<times> 'e"
  wd_unmarshal :: "string \<Rightarrow> sseChunk option"
  wd_ctx :: ctx
  wd_sel :: ctx
  wd_err_text :: "goerr \<Rightarrow> string"

datatype closer = CloseNothing | CloseConn string

fun run_closer :: "'e World \<Rightarrow> closer \<Rightarrow> 'e \<Rightarrow> 'e" where
  "run_closer W CloseNothing e = e"
| "run_closer W (CloseConn ep) e = wd_close W ep e"

section \<open>Providers\<close>

definition isProviderEndpoint :: "string \<Rightarrow> bool" where
  "isProviderEndpoint ep \<longleftrightarrow> has_prefix ep ''provider://''"

definition provider_options :: "SamplingParams option \<Rightarrow> options" where
  "provider_options sp =
     (case sp of
        None \<Rightarrow> []
      | Some s \<Rightarrow>
          (if sp_Temperature s \<noteq> 0 then [(''temperature'', GFloat64 (sp_Temperature s))] else [])
          @ (if sp_TopP s \<noteq> 0 then [(''top_p'', GFloat64 (sp_TopP s))] else [])
          @ (if pos_i32 (sp_MaxTokens s) then [(''num_predict'', GInt (sint (sp_MaxTokens s)))] else []))"

definition provider_msg :: "ATokenChunk \<Rightarrow> WTokenChunk" where
  "provider_msg c =
     \<lparr>wt_Text = at_Text c, wt_Done = at_Done c, wt_FinishReason = at_FinishReason c,
      wt_Usage = (if at_Done c then Some \<lparr>wu_PromptTokens = at_PromptTokens c, wu_CompletionTokens = at_EvalTokens c,
                    wu_TotalDurationNs = at_TotalDurNs c\<rparr> else None)\<rparr>"

definition provider_sink :: "ctx \<Rightarrow> WTokenChunk list sink" where
  "provider_sink sel c ms =
     (case ctx_Err sel (length ms) of Some err \<Rightarrow> (Some err, ms) | None \<Rightarrow> (None, ms @ [provider_msg c]))"

definition openProviderStream ::
  "'e World \<Rightarrow> ProviderRegistry option \<Rightarrow> SelectedWorker \<Rightarrow> WGenerateRequest \<Rightarrow> 'e \<Rightarrow>
     (goerr + stream \<times> closer) \<times> 'e" where
  "openProviderStream W providers w req e =
     (case providers of
        None \<Rightarrow> (Inl ErrUnexpectedEOF, e)
      | Some r \<Rightarrow>
          (case (case Registry_Backend r (sw_ID w) of
                   Some b \<Rightarrow> Some b | None \<Rightarrow> BackendByEndpoint r (sw_Endpoint w)) of
             None \<Rightarrow> (Inl ErrUnexpectedEOF, e)
           | Some b \<Rightarrow>
               (let areq = \<lparr>gr_Model = wg_BaseModel req, gr_Prompt = wg_Prompt req,
                      gr_Options = provider_options (wg_Sampling req), gr_KeepAlive = ''''\<rparr>;
                    (ans, e') = (if ResolveModel b (gr_Model areq) = '''' then (HttpErr '''', e)
                                 else wd_post W b (provider_body b areq) e);
                    (err, ms) = provider_Generate (\<lambda>_. ans) (wd_unmarshal W) (wd_ctx W) b areq
                                  (provider_sink (wd_sel W)) [] in
                (Inr (Stream ms err, CloseNothing), e'))))"

section \<open>Dispatch\<close>

definition openGenerate ::
  "'e World \<Rightarrow> ProviderRegistry option \<Rightarrow> SelectedWorker \<Rightarrow> WGenerateRequest \<Rightarrow> 'e \<Rightarrow>
     (goerr + stream \<times> closer) \<times> 'e" where
  "openGenerate W providers w req e =
     (if isProviderEndpoint (sw_Endpoint w) then openProviderStream W providers w req e
      else
        (case wd_dial W (sw_Endpoint w) e of
           (Some err, e1) \<Rightarrow> (Inl (StatusErr Unavailable (''dial worker: '' @ wd_err_text W err)), e1)
         | (None, e1) \<Rightarrow>
             (case wd_Generate W (sw_Endpoint w) req e1 of
                (Inl err, e2) \<Rightarrow> (Inl err, wd_close W (sw_Endpoint w) e2)
              | (Inr s, e2) \<Rightarrow> (Inr (s, CloseConn (sw_Endpoint w)), e2))))"

record usage =
  us_PromptTokens :: i32
  us_CompletionTokens :: i32
  us_TotalTokens :: i32

definition to_usage :: "WUsage \<Rightarrow> usage" where
  "to_usage u = \<lparr>us_PromptTokens = wu_PromptTokens u, us_CompletionTokens = wu_CompletionTokens u,
     us_TotalTokens = wu_PromptTokens u + wu_CompletionTokens u\<rparr>"

definition usageOrZero :: "usage option \<Rightarrow> usage" where
  "usageOrZero u = (case u of Some x \<Rightarrow> x | None \<Rightarrow>
     \<lparr>us_PromptTokens = 0, us_CompletionTokens = 0, us_TotalTokens = 0\<rparr>)"

text \<open>The loop of \<open>collect\<close> with its three accumulators.\<close>

fun collect_loop ::
  "WTokenChunk list \<Rightarrow> goerr option \<Rightarrow> string \<Rightarrow> usage option \<Rightarrow> string \<Rightarrow> goerr + string \<times> usage option \<times> string" where
  "collect_loop [] fin b u finish =
     (case fin of
        None \<Rightarrow> Inr (b, u, finish)
      | Some e \<Rightarrow> if e = EOF then Inr (b, u, finish) else Inl e)"
| "collect_loop (c # cs) fin b u finish =
     collect_loop cs fin (b @ wt_Text c)
       (if wt_Done c then (case wt_Usage c of Some x \<Rightarrow> Some (to_usage x) | None \<Rightarrow> u) else u)
       (if wt_Done c then wt_FinishReason c else finish)"

definition collect ::
  "'e World \<Rightarrow> ProviderRegistry option \<Rightarrow> WGenerateRequest \<Rightarrow> SelectedWorker \<Rightarrow> 'e \<Rightarrow>
     (goerr + string \<times> usage option \<times> string) \<times> 'e" where
  "collect W providers req w e =
     (case openGenerate W providers w req e of
        (Inl err, e1) \<Rightarrow> (Inl err, e1)
      | (Inr (Stream cs fin, cl), e1) \<Rightarrow> (collect_loop cs fin '''' None '''', run_closer W cl e1))"

definition zeroSelected :: SelectedWorker where
  "zeroSelected = \<lparr>sw_ID = '''', sw_Endpoint = '''', sw_Models = []\<rparr>"

definition by_id :: "SelectedWorker list \<Rightarrow> string \<Rightarrow> SelectedWorker" where
  "by_id ws i = (case find (\<lambda>w. sw_ID w = i) (rev ws) of Some w \<Rightarrow> w | None \<Rightarrow> zeroSelected)"

text \<open>
  \<open>withFailover\<close>: \<open>fn\<close> may store a result, which the model keeps as a value of type \<open>'r\<close> beside the
  environment.
\<close>

definition withFailover ::
  "'e World \<Rightarrow> (SelectedWorker \<Rightarrow> 'e \<times> 'r \<Rightarrow> goerr option \<times> 'e \<times> 'r) \<Rightarrow> SelectedWorker list \<Rightarrow> Failover option \<Rightarrow>
     'e \<times> 'r \<Rightarrow> (SelectedWorker option \<times> goerr option) \<times> Failover option \<times> 'e \<times> 'r" where
  "withFailover W fn workers fo e =
     (if workers = [] then ((None, Some (PlainErr ''no workers'')), fo, e)
      else
        (case fo of
           None \<Rightarrow> (case fn (hd workers) e of (err, e') \<Rightarrow> ((Some (hd workers), err), None, e'))
         | Some f \<Rightarrow>
             (case Failover_Do (\<lambda>(e, r). case wd_tick W e of (t, e') \<Rightarrow> (t, e', r))
                     (\<lambda>w. fn (by_id workers (fw_ID w))) f
                     (map (\<lambda>w. \<lparr>fw_ID = sw_ID w, fw_Endpoint = sw_Endpoint w\<rparr>) workers) e of
                (used, Some err, f', e') \<Rightarrow> ((None, Some err), Some f', e')
              | (used, None, f', e') \<Rightarrow> ((Some (by_id workers (fw_ID used)), None), Some f', e'))))"

type_synonym collected = "string \<times> usage option \<times> string"

definition collectWithFailover ::
  "'e World \<Rightarrow> ProviderRegistry option \<Rightarrow> WGenerateRequest \<Rightarrow> SelectedWorker list \<Rightarrow> Failover option \<Rightarrow> 'e \<Rightarrow>
     (collected \<times> SelectedWorker option \<times> goerr option) \<times> Failover option \<times> 'e" where
  "collectWithFailover W providers req workers fo e =
     (case withFailover W
             (\<lambda>w (e, r). case collect W providers req w e of
                (Inl err, e') \<Rightarrow> (Some err, e', r)
              | (Inr res, e') \<Rightarrow> (None, e', res))
             workers fo (e, ('''', None, '''')) of
        ((used, err), fo', e', r) \<Rightarrow> ((r, used, err), fo', e'))"

section \<open>The first token\<close>

text \<open>The failover's parts when there is one.\<close>

definition opt_denies :: "Failover option \<Rightarrow> bool" where
  "opt_denies fo \<longleftrightarrow> (case fo of Some f \<Rightarrow> budget_denies f | None \<Rightarrow> False)"

definition opt_allow ::
  "'e World \<Rightarrow> Failover option \<Rightarrow> string \<Rightarrow> 'e \<Rightarrow> goerr option \<times> Failover option \<times> 'e" where
  "opt_allow W fo i e =
     (case fo of
        None \<Rightarrow> (None, None, e)
      | Some f \<Rightarrow> (case breaker_allow (wd_tick W) f i e of (r, f', e') \<Rightarrow> (r, Some f', e')))"

definition recordFail ::
  "'e World \<Rightarrow> Failover option \<Rightarrow> string \<Rightarrow> goerr \<Rightarrow> 'e \<Rightarrow> Failover option \<times> 'e" where
  "recordFail W fo i err e =
     (case fo of
        None \<Rightarrow> (None, e)
      | Some f \<Rightarrow>
          if IsExcluded err then (Some f, e)
          else (case breaker_failure (wd_tick W) f i e of (f', e') \<Rightarrow> (Some f', e')))"

definition note_failure :: "Failover option \<Rightarrow> string \<Rightarrow> SelectedWorker list \<Rightarrow> Failover option" where
  "note_failure fo i ws =
     map_option
       (\<lambda>f. let f1 = f\<lparr>Budget := map_option OnFailure (Budget f)\<rparr> in
            case ws of [] \<Rightarrow> f1 | w' # _ \<Rightarrow> inc_failover f1 i (sw_ID w') ''unavailable'') fo"

text \<open>
  \<open>streamFirstToken\<close> at index \<open>i\<close> of \<open>n\<close> workers. The result is the error and, when the code returns a
  stream, the stream with its closer, the worker and the first chunk if there was one: both may be
  nil.
\<close>

type_synonym opened = "stream \<times> closer \<times> SelectedWorker \<times> WTokenChunk option"

fun first_token ::
  "'e World \<Rightarrow> ProviderRegistry option \<Rightarrow> WGenerateRequest \<Rightarrow> nat \<Rightarrow> nat \<Rightarrow> goerr option \<Rightarrow> SelectedWorker list \<Rightarrow>
     Failover option \<Rightarrow> 'e \<Rightarrow> (goerr option \<times> opened option) \<times> Failover option \<times> 'e" where
  "first_token W providers req n i lastErr [] fo e = ((no_healthy lastErr, None), fo, e)"
| "first_token W providers req n i lastErr (w # ws) fo e =
     (if i > 0 \<and> opt_denies fo then ((lastErr, None), fo, e)
      else
        (case opt_allow W fo (sw_ID w) e of (r, fo1, e1) \<Rightarrow>
           if r \<noteq> None \<and> n > 1 then first_token W providers req n (Suc i) lastErr ws fo1 e1
           else
             (case openGenerate W providers w req e1 of
                (Inl err, e2) \<Rightarrow>
                  (case recordFail W fo1 (sw_ID w) err e2 of (fo2, e3) \<Rightarrow>
                     if \<not> Retryable (Some err) then ((Some err, None), fo2, e3)
                     else first_token W providers req n (Suc i) (Some err) ws (note_failure fo2 (sw_ID w) ws) e3)
              | (Inr (s, cl), e2) \<Rightarrow>
                  (case Recv s of
                     (Inl err, s') \<Rightarrow>
                       (case recordFail W fo1 (sw_ID w) err (run_closer W cl e2) of (fo2, e3) \<Rightarrow>
                          if err = EOF then
                            ((None, Some (s', cl, w, None)), map_option (\<lambda>f. on_success f (sw_ID w)) fo2, e3)
                          else if \<not> Retryable (Some err) then ((Some err, None), fo2, e3)
                          else first_token W providers req n (Suc i) (Some err) ws (note_failure fo2 (sw_ID w) ws) e3)
                   | (Inr c0, s') \<Rightarrow>
                       ((None, Some (s', cl, w, Some c0)), map_option (\<lambda>f. on_success f (sw_ID w)) fo1, e2)))))"

definition streamFirstToken ::
  "'e World \<Rightarrow> ProviderRegistry option \<Rightarrow> WGenerateRequest \<Rightarrow> SelectedWorker list \<Rightarrow> Failover option \<Rightarrow> 'e \<Rightarrow>
     (goerr option \<times> opened option) \<times> Failover option \<times> 'e" where
  "streamFirstToken W providers req workers fo e =
     first_token W providers req (length workers) 0 None workers fo e"

section \<open>Server-sent events\<close>

record chunk_head =
  ck_ID :: string
  ck_Object :: string
  ck_Created :: int
  ck_Model :: string

text \<open>What a chunk carries: the assistant role, content, the finish reason, or the usage and no choice.\<close>

datatype delta = DRole | DContent string | DStop string | DUsage usage

datatype sse_event = SseChunk chunk_head delta | SseError string | SseDone

text \<open>A writer that may refuse: \<open>wr k\<close> says whether the \<open>k\<close>-th event gets through.\<close>

type_synonym writer = "nat \<Rightarrow> bool"

definition writeSSE :: "writer \<Rightarrow> sse_event list \<Rightarrow> sse_event \<Rightarrow> goerr option \<times> sse_event list" where
  "writeSSE wr out ev = (if wr (length out) then (None, out @ [ev]) else (Some (PlainErr ''write''), out))"

text \<open>The closure \<open>handle\<close> with the variables it updates: the events, the usage and the finish reason.\<close>

type_synonym sse_state = "sse_event list \<times> usage option \<times> string"

definition handle_chunk :: "writer \<Rightarrow> chunk_head \<Rightarrow> WTokenChunk \<Rightarrow> sse_state \<Rightarrow> goerr option \<times> sse_state" where
  "handle_chunk wr h c st =
     (case st of (out, fu, fr) \<Rightarrow>
        (case (if wt_Text c \<noteq> '''' then writeSSE wr out (SseChunk h (DContent (wt_Text c))) else (None, out)) of
           (Some err, out') \<Rightarrow> (Some err, out', fu, fr)
         | (None, out') \<Rightarrow>
             if wt_Done c then
               (None, out', (case wt_Usage c of Some u \<Rightarrow> Some (to_usage u) | None \<Rightarrow> fu),
                if wt_FinishReason c = '''' then ''stop'' else wt_FinishReason c)
             else (None, out', fu, fr)))"

text \<open>The end of a stream: the stop chunk, the usage if it was asked for, and the terminator.\<close>

definition sse_finish :: "writer \<Rightarrow> chunk_head \<Rightarrow> bool \<Rightarrow> sse_state \<Rightarrow> goerr option \<times> sse_event list" where
  "sse_finish wr h includeUsage st =
     (case st of (out, fu, finish) \<Rightarrow>
        (case writeSSE wr out (SseChunk h (DStop (if finish = '''' then ''stop'' else finish))) of
           (Some err, out1) \<Rightarrow> (Some err, out1)
         | (None, out1) \<Rightarrow>
             (case (case (includeUsage, fu) of
                      (True, Some u) \<Rightarrow> writeSSE wr out1 (SseChunk h (DUsage u)) | _ \<Rightarrow> (None, out1)) of
                (Some err, out2) \<Rightarrow> (Some err, out2)
              | (None, out2) \<Rightarrow> writeSSE wr out2 SseDone)))"

fun sse_loop ::
  "(goerr \<Rightarrow> string) \<Rightarrow> writer \<Rightarrow> chunk_head \<Rightarrow> bool \<Rightarrow> WTokenChunk list \<Rightarrow> goerr option \<Rightarrow> sse_state \<Rightarrow>
     goerr option \<times> sse_event list" where
  "sse_loop err_text wr h includeUsage [] fin st =
     (case fin of
        None \<Rightarrow> sse_finish wr h includeUsage st
      | Some err \<Rightarrow>
          if err = EOF then sse_finish wr h includeUsage st
          else (None, snd (writeSSE wr (fst st) (SseError (err_text err)))))"
| "sse_loop err_text wr h includeUsage (c # cs) fin st =
     (case handle_chunk wr h c st of
        (Some err, st') \<Rightarrow> (Some err, fst st')
      | (None, st') \<Rightarrow> sse_loop err_text wr h includeUsage cs fin st')"

text \<open>
  The two streaming handlers. The result is the worker, the error and the events that were written,
  or a panic after those events: with a nil stream and no error, \<open>stream.Recv()\<close> dereferences nil.
\<close>

type_synonym 'e stream_result =
  "((SelectedWorker option \<times> goerr option) outcome \<times> sse_event list) \<times> Failover option \<times> 'e"

definition sse_body ::
  "'e World \<Rightarrow> writer \<Rightarrow> chunk_head \<Rightarrow> bool \<Rightarrow> opened \<Rightarrow> sse_event list \<Rightarrow> goerr option \<times> sse_event list" where
  "sse_body W wr h includeUsage opened out =
     (case opened of (Stream cs fin, _, _, first) \<Rightarrow>
        (case (case first of None \<Rightarrow> (None, out, None, '''') | Some c \<Rightarrow> handle_chunk wr h c (out, None, '''')) of
           (Some err, st) \<Rightarrow> (Some err, fst st)
         | (None, st) \<Rightarrow> sse_loop (wd_err_text W) wr h includeUsage cs fin st))"

definition streamChatFailover ::
  "'e World \<Rightarrow> ProviderRegistry option \<Rightarrow> writer \<Rightarrow> string \<Rightarrow> int \<Rightarrow> WGenerateRequest \<Rightarrow> string \<Rightarrow> bool \<Rightarrow>
     SelectedWorker list \<Rightarrow> Failover option \<Rightarrow> 'e \<Rightarrow> 'e stream_result" where
  "streamChatFailover W providers wr i created req model includeUsage workers fo e =
     (case streamFirstToken W providers req workers fo e of
        ((Some err, _), fo', e') \<Rightarrow> ((Ret (None, Some err), []), fo', e')
      | ((None, opened), fo', e') \<Rightarrow>
          (let h = \<lparr>ck_ID = i, ck_Object = ''chat.completion.chunk'', ck_Created = created, ck_Model = model\<rparr> in
           case (writeSSE wr [] (SseChunk h DRole), opened) of
             ((_, out), None) \<Rightarrow> ((Panic, out), fo', e')
           | ((Some err, out), Some (_, cl, w, _)) \<Rightarrow> ((Ret (Some w, Some err), out), fo', run_closer W cl e')
           | ((None, out), Some (s, cl, w, first)) \<Rightarrow>
               (case sse_body W wr h includeUsage (s, cl, w, first) out of
                  (err, out') \<Rightarrow> ((Ret (Some w, err), out'), fo', run_closer W cl e'))))"

definition streamTextFailover ::
  "'e World \<Rightarrow> ProviderRegistry option \<Rightarrow> writer \<Rightarrow> string \<Rightarrow> int \<Rightarrow> WGenerateRequest \<Rightarrow> string \<Rightarrow> bool \<Rightarrow>
     SelectedWorker list \<Rightarrow> Failover option \<Rightarrow> 'e \<Rightarrow> 'e stream_result" where
  "streamTextFailover W providers wr i created req model includeUsage workers fo e =
     (case streamFirstToken W providers req workers fo e of
        ((Some err, _), fo', e') \<Rightarrow> ((Ret (None, Some err), []), fo', e')
      | ((None, None), fo', e') \<Rightarrow> ((Panic, []), fo', e')
      | ((None, Some (s, cl, w, first)), fo', e') \<Rightarrow>
          (let h = \<lparr>ck_ID = i, ck_Object = ''text_completion'', ck_Created = created, ck_Model = model\<rparr> in
           case sse_body W wr h includeUsage (s, cl, w, first) [] of
             (err, out) \<Rightarrow> ((Ret (Some w, err), out), fo', run_closer W cl e')))"

section \<open>What a stream writes\<close>

definition or_stop :: "string \<Rightarrow> string" where
  "or_stop f = (if f = '''' then ''stop'' else f)"

definition contents :: "chunk_head \<Rightarrow> WTokenChunk list \<Rightarrow> sse_event list" where
  "contents h cs = map (\<lambda>c. SseChunk h (DContent (wt_Text c))) (filter (\<lambda>c. wt_Text c \<noteq> '''') cs)"

text \<open>The last events, from what \<open>collect\<close> computes on the same stream.\<close>

definition closing :: "(goerr \<Rightarrow> string) \<Rightarrow> chunk_head \<Rightarrow> bool \<Rightarrow> goerr + collected \<Rightarrow> sse_event list" where
  "closing err_text h includeUsage r =
     (case r of
        Inl err \<Rightarrow> [SseError (err_text err)]
      | Inr (_, u, finish) \<Rightarrow>
          SseChunk h (DStop (or_stop finish))
          # (case (includeUsage, u) of (True, Some x) \<Rightarrow> [SseChunk h (DUsage x)] | _ \<Rightarrow> []) @ [SseDone])"

lemma collect_loop_text:
  "collect_loop cs fin b u f = Inr (t, u', f') \<Longrightarrow> t = b @ concat (map wt_Text cs)"
proof (induction cs arbitrary: b u f)
  case (Cons c cs)
  from Cons.IH [OF Cons.prems [unfolded collect_loop.simps]] show ?case by simp
qed (auto split: option.splits if_splits)

lemma contents_Cons:
  "contents h (c # cs) = (if wt_Text c \<noteq> '''' then [SseChunk h (DContent (wt_Text c))] else []) @ contents h cs"
  by (simp add: contents_def)

lemma contents_text: "concat (map (\<lambda>ev. case ev of SseChunk _ (DContent t) \<Rightarrow> t | _ \<Rightarrow> '''') (contents h cs)) = concat (map wt_Text cs)"
proof (induction cs)
  case (Cons c cs)
  then show ?case by (simp add: contents_Cons)
qed (simp add: contents_def)

text \<open>With a writer that takes everything, the events are the contents and the closing events.\<close>

lemma handle_chunk_accepting:
  "handle_chunk (\<lambda>_. True) h c (out, fu, fr)
   = (None, out @ contents h [c],
      (if wt_Done c then (case wt_Usage c of Some u \<Rightarrow> Some (to_usage u) | None \<Rightarrow> fu) else fu),
      (if wt_Done c then or_stop (wt_FinishReason c) else fr))"
  by (simp add: handle_chunk_def writeSSE_def contents_def or_stop_def)

lemma sse_finish_accepting:
  "sse_finish (\<lambda>_. True) h inc (out, fu, fr) = (None, out @ closing et h inc (Inr (t, fu, fr)))"
  by (cases inc; cases fu) (simp_all add: sse_finish_def writeSSE_def closing_def or_stop_def)

lemma closing_or_stop: "or_stop f = or_stop g \<Longrightarrow> closing et h inc (Inr (t, u, f)) = closing et h inc (Inr (t', u, g))"
  by (simp add: closing_def)

lemma or_stop_or_stop [simp]: "or_stop (or_stop f) = or_stop f"
  by (simp add: or_stop_def)

lemma sse_loop_accepting:
  assumes "or_stop fr = or_stop f"
  shows "sse_loop et (\<lambda>_. True) h inc cs fin (out, u, fr)
         = (None, out @ contents h cs @ closing et h inc (collect_loop cs fin b u f))"
  using assms
proof (induction cs arbitrary: out u fr b f)
  case Nil
  then show ?case
    using closing_or_stop [OF Nil, of et h inc] sse_finish_accepting [of h inc out u fr et]
    by (auto simp: contents_def closing_def writeSSE_def split: option.splits)
next
  case (Cons c cs)
  show ?case
    by (simp add: handle_chunk_accepting contents_Cons [of h c cs] contents_Cons [of h c "[]"]
        Cons.IH [where b = "b @ wt_Text c" and f = "if wt_Done c then wt_FinishReason c else f"] Cons.prems)
      (simp add: contents_def)
qed

definition received :: "opened \<Rightarrow> WTokenChunk list \<times> goerr option" where
  "received ow = (case ow of (Stream cs fin, _, _, first) \<Rightarrow>
     ((case first of Some c \<Rightarrow> c # cs | None \<Rightarrow> cs), fin))"

lemma sse_body_received:
  assumes "received ow = (cs, fin)"
  shows "sse_body W wr h inc ow out = sse_loop (wd_err_text W) wr h inc cs fin (out, None, '''')"
proof -
  obtain cs' fin' cl w first where ow: "ow = (Stream cs' fin', cl, w, first)"
    by (metis prod.exhaust stream.exhaust)
  with assms show ?thesis
    by (cases first) (auto simp: sse_body_def received_def split: prod.splits option.splits)
qed

lemma sse_body_accepting:
  assumes "received ow = (cs, fin)"
  shows "sse_body W (\<lambda>_. True) h inc ow out
         = (None, out @ contents h cs @ closing (wd_err_text W) h inc (collect_loop cs fin '''' None ''''))"
  unfolding sse_body_received [OF assms] by (rule sse_loop_accepting) simp

text \<open>Any other writer cuts that list of events short.\<close>

lemma writeSSE_prefix: "\<exists>zs. out @ [ev] = snd (writeSSE wr out ev) @ zs"
  by (simp add: writeSSE_def)

lemma handle_chunk_prefix:
  "(\<exists>zs. fst (snd (handle_chunk (\<lambda>_. True) h c st)) = fst (snd (handle_chunk wr h c st)) @ zs)
   \<and> (fst (handle_chunk wr h c st) = None \<longrightarrow> handle_chunk wr h c st = handle_chunk (\<lambda>_. True) h c st)"
  by (cases st) (auto simp: handle_chunk_def writeSSE_def split: if_splits)

lemma sse_finish_prefix: "\<exists>zs. snd (sse_finish (\<lambda>_. True) h inc st) = snd (sse_finish wr h inc st) @ zs"
  by (cases st) (auto simp: sse_finish_def writeSSE_def split: bool.splits option.splits)

lemma sse_loop_extends: "\<exists>zs. snd (sse_loop et wr h inc cs fin st) = fst st @ zs"
proof (induction cs arbitrary: st)
  case Nil
  show ?case
    by (cases st) (auto simp: sse_finish_def writeSSE_def split: bool.splits option.splits)
next
  case (Cons c cs)
  have "\<exists>zs. fst (snd (handle_chunk wr h c st)) = fst st @ zs"
    by (cases st) (auto simp: handle_chunk_def writeSSE_def)
  with Cons.IH [of "snd (handle_chunk wr h c st)"] show ?case
    by (cases "handle_chunk wr h c st") (auto split: option.splits)
qed

lemma sse_loop_prefix:
  "\<exists>zs. snd (sse_loop et (\<lambda>_. True) h inc cs fin st) = snd (sse_loop et wr h inc cs fin st) @ zs"
proof (induction cs arbitrary: st)
  case Nil
  show ?case
    using sse_finish_prefix [of h inc st wr] by (cases st) (auto simp: writeSSE_def split: option.splits)
next
  case (Cons c cs)
  obtain r st' where a: "handle_chunk (\<lambda>_. True) h c st = (r, st')" using prod.exhaust by blast
  then have r: "r = None" by (cases st) (simp add: handle_chunk_accepting)
  show ?case
  proof (cases "fst (handle_chunk wr h c st)")
    case None
    with handle_chunk_prefix [of h c st wr] have "handle_chunk wr h c st = handle_chunk (\<lambda>_. True) h c st" by simp
    with a r Cons.IH [of st'] show ?thesis by simp
  next
    case (Some err)
    obtain st2 where b: "handle_chunk wr h c st = (Some err, st2)" using Some by (metis prod.collapse)
    from handle_chunk_prefix [of h c st wr] a b obtain zs where "fst st' = fst st2 @ zs" by auto
    with a r b sse_loop_extends [of et "\<lambda>_. True" h inc cs fin st'] show ?thesis by auto
  qed
qed

lemma sse_body_prefix: "\<exists>zs. snd (sse_body W (\<lambda>_. True) h inc ow out) = snd (sse_body W wr h inc ow out) @ zs"
proof (cases "received ow")
  case (Pair cs fin)
  show ?thesis unfolding sse_body_received [OF Pair] by (rule sse_loop_prefix)
qed

text \<open>The script of a stream: contents, then either an error or the stop, at most one usage and the terminator.\<close>

definition sse_script :: "chunk_head \<Rightarrow> sse_event list \<Rightarrow> bool" where
  "sse_script h evs \<longleftrightarrow>
     (\<exists>ts fin. evs = map (\<lambda>t. SseChunk h (DContent t)) ts @ fin \<and> '''' \<notin> set ts
        \<and> ((\<exists>m. fin = [SseError m])
           \<or> (\<exists>f us. f \<noteq> '''' \<and> length us \<le> 1 \<and> fin = SseChunk h (DStop f) # map (\<lambda>u. SseChunk h (DUsage u)) us @ [SseDone])))"

lemma closing_script: "\<exists>fin. closing et h inc r = fin \<and> ((\<exists>m. fin = [SseError m])
           \<or> (\<exists>f us. f \<noteq> '''' \<and> length us \<le> 1 \<and> fin = SseChunk h (DStop f) # map (\<lambda>u. SseChunk h (DUsage u)) us @ [SseDone]))"
proof (cases r)
  case (Inl e)
  then show ?thesis by (simp add: closing_def)
next
  case (Inr x)
  obtain t u f where x: "x = (t, u, f)" by (metis prod.exhaust)
  let ?us = "if inc then (case u of Some y \<Rightarrow> [y] | None \<Rightarrow> []) else []"
  have "closing et h inc r = SseChunk h (DStop (or_stop f)) # map (\<lambda>u. SseChunk h (DUsage u)) ?us @ [SseDone]"
    by (cases inc; cases u) (simp_all add: closing_def Inr x)
  moreover have "or_stop f \<noteq> ''''" "length ?us \<le> 1" by (auto simp: or_stop_def split: option.splits)
  ultimately show ?thesis by blast
qed

lemma contents_texts:
  "contents h cs = map (\<lambda>t. SseChunk h (DContent t)) (filter (\<lambda>t. t \<noteq> '''') (map wt_Text cs))"
  by (induction cs) (auto simp: contents_def)

lemma script_closing: "sse_script h (contents h cs @ closing et h inc r)"
  unfolding sse_script_def contents_texts
  using closing_script [of et h inc r]
  by (intro exI [of _ "filter (\<lambda>t. t \<noteq> '''') (map wt_Text cs)"] exI [of _ "closing et h inc r"]) auto

lemma script_done_last:
  assumes "sse_script h evs" and "evs = out @ zs" and "SseDone \<in> set out"
  shows "zs = []"
proof -
  from assms(1) obtain ys d where ys: "evs = ys @ [d]" "SseDone \<notin> set ys"
    by (fastforce simp: sse_script_def)
  show ?thesis
  proof (rule ccontr)
    assume "zs \<noteq> []"
    with assms(2) ys(1) have "ys = out @ butlast zs" by (metis butlast_append butlast_snoc)
    with assms(3) ys(2) show False by simp
  qed
qed

section \<open>One worker\<close>

lemma streamFirstToken_single:
  "streamFirstToken W P req [w] None e
   = (case openGenerate W P w req e of
        (Inl err, e2) \<Rightarrow> ((Some err, None), None, e2)
      | (Inr (s, cl), e2) \<Rightarrow>
          (case Recv s of
             (Inl err, s') \<Rightarrow>
               (if err = EOF then ((None, Some (s', cl, w, None)), None, run_closer W cl e2)
                else ((Some err, None), None, run_closer W cl e2))
           | (Inr c0, s') \<Rightarrow> ((None, Some (s', cl, w, Some c0)), None, e2)))"
  by (auto simp: streamFirstToken_def opt_allow_def recordFail_def note_failure_def no_healthy_def
      split: prod.splits sum.splits)

lemma collectWithFailover_single:
  "collectWithFailover W P req [w] None e
   = (case openGenerate W P w req e of
        (Inl err, e2) \<Rightarrow> ((('''', None, ''''), Some w, Some err), None, e2)
      | (Inr (Stream cs fin, cl), e2) \<Rightarrow>
          (case collect_loop cs fin '''' None '''' of
             Inl err \<Rightarrow> ((('''', None, ''''), Some w, Some err), None, run_closer W cl e2)
           | Inr r \<Rightarrow> ((r, Some w, None), None, run_closer W cl e2)))"
  by (auto simp: collectWithFailover_def withFailover_def collect_def split: prod.splits sum.splits stream.splits)

lemma script_of_collected:
  assumes "collect_loop cs fin '''' None '''' = Inr (text, u, finish)"
  shows "\<exists>ts. concat ts = text \<and> '''' \<notin> set ts \<and> contents h cs = map (\<lambda>t. SseChunk h (DContent t)) ts"
proof -
  have "concat (filter (\<lambda>t. t \<noteq> '''') xs) = concat xs" for xs :: "string list" by (induction xs) auto
  with collect_loop_text [OF assms] show ?thesis
    by (intro exI [of _ "filter (\<lambda>t. t \<noteq> '''') (map wt_Text cs)"]) (simp add: contents_texts)
qed

definition opened_ok :: "SelectedWorker list \<Rightarrow> goerr option \<times> opened option \<Rightarrow> bool" where
  "opened_ok ws r \<longleftrightarrow> (\<forall>s cl w first. snd r = Some (s, cl, w, first) \<longrightarrow> fst r = None \<and> w \<in> set ws)"

lemma opened_ok_simps [simp]:
  "opened_ok ws (err, None)"
  "opened_ok ws (err, Some (s, cl, w, first)) \<longleftrightarrow> err = None \<and> w \<in> set ws"
  by (auto simp: opened_ok_def)

lemma first_token_opened: "opened_ok ws (fst (first_token W P req n i le ws fo e))"
proof (induction ws arbitrary: i le fo e)
  case (Cons w ws)
  have IH: "opened_ok (w # ws) (fst (first_token W P req n i le ws fo e))" for i le fo e
    using Cons.IH [of i le fo e] by (auto simp: opened_ok_def)
  show ?case by (auto simp: IH split: prod.split sum.split)
qed simp

section \<open>Connections\<close>

text \<open>The world with a record of the connections it opened and closed.\<close>

datatype conn = Opened string | Closed string

definition conn_world :: "'e World \<Rightarrow> ('e \<times> conn list) World" where
  "conn_world W =
     \<lparr>wd_tick = (\<lambda>(e, l). case wd_tick W e of (t, e') \<Rightarrow> (t, e', l)),
      wd_dial = (\<lambda>ep (e, l). case wd_dial W ep e of
         (None, e') \<Rightarrow> (None, e', l @ [Opened ep]) | (Some err, e') \<Rightarrow> (Some err, e', l)),
      wd_Generate = (\<lambda>ep req (e, l). case wd_Generate W ep req e of (r, e') \<Rightarrow> (r, e', l)),
      wd_close = (\<lambda>ep (e, l). (wd_close W ep e, l @ [Closed ep])),
      wd_post = (\<lambda>b body (e, l). case wd_post W b body e of (r, e') \<Rightarrow> (r, e', l)),
      wd_unmarshal = wd_unmarshal W, wd_ctx = wd_ctx W, wd_sel = wd_sel W, wd_err_text = wd_err_text W\<rparr>"

definition unclosed :: "conn list \<Rightarrow> string \<Rightarrow> int" where
  "unclosed l ep = int (count_list l (Opened ep)) - int (count_list l (Closed ep))"

definition holds :: "closer \<Rightarrow> string \<Rightarrow> int" where
  "holds cl ep = (if cl = CloseConn ep then 1 else 0)"

lemma count_list_snoc: "count_list (l @ [x]) y = count_list l y + (if x = y then 1 else 0)"
  by (induction l) auto

lemma unclosed_simps [simp]:
  "unclosed (l @ [Opened ep']) ep = unclosed l ep + (if ep' = ep then 1 else 0)"
  "unclosed (l @ [Closed ep']) ep = unclosed l ep - (if ep' = ep then 1 else 0)"
  by (simp_all add: unclosed_def count_list_snoc)

lemma tick_log [simp]: "snd (snd (wd_tick (conn_world W) st)) = snd st"
  by (cases st) (simp add: conn_world_def split: prod.splits)

lemma tick_logD: "wd_tick (conn_world W) st = (t, e', l) \<Longrightarrow> l = snd st"
  using tick_log [of W st] by simp

lemma run_closer_log: "unclosed (snd (run_closer (conn_world W) cl st)) ep = unclosed (snd st) ep - holds cl ep"
  by (cases cl; cases st) (auto simp: conn_world_def holds_def)

lemma opt_allow_log [simp]: "snd (snd (snd (opt_allow (conn_world W) fo i st))) = snd st"
  by (auto simp: opt_allow_def breaker_allow_def Let_def dest: tick_logD split: option.splits prod.splits)

lemma recordFail_log [simp]: "snd (snd (recordFail (conn_world W) fo i err st)) = snd st"
  by (auto simp: recordFail_def breaker_failure_def Let_def dest: tick_logD split: option.splits prod.splits)

lemma openProviderStream_log:
  "snd (snd (openProviderStream (conn_world W) P w req st)) = snd st
   \<and> (\<forall>s cl. fst (openProviderStream (conn_world W) P w req st) = Inr (s, cl) \<longrightarrow> cl = CloseNothing)"
  by (cases st)
    (auto simp: openProviderStream_def conn_world_def Let_def split: option.splits prod.splits if_splits)

lemma openGenerate_log:
  "unclosed (snd (snd (openGenerate (conn_world W) P w req st))) ep
   = unclosed (snd st) ep
     + (case fst (openGenerate (conn_world W) P w req st) of Inl _ \<Rightarrow> 0 | Inr (_, cl) \<Rightarrow> holds cl ep)"
proof (cases "isProviderEndpoint (sw_Endpoint w)")
  case True
  with openProviderStream_log [of W P w req st] show ?thesis
    by (cases "openProviderStream (conn_world W) P w req st")
      (auto simp: openGenerate_def holds_def split: sum.splits)
next
  case False
  then show ?thesis
    by (cases st) (auto simp: openGenerate_def conn_world_def holds_def split: sum.splits prod.splits option.splits)
qed

lemma openGenerate_log_cases:
  assumes "openGenerate (conn_world W) P w req st = (r, st')"
  shows "unclosed (snd st') ep = unclosed (snd st) ep + (case r of Inl _ \<Rightarrow> 0 | Inr (_, cl) \<Rightarrow> holds cl ep)"
  using openGenerate_log [of W P w req st ep] assms by simp

lemma collect_log: "unclosed (snd (snd (collect (conn_world W) P req w st))) ep = unclosed (snd st) ep"
proof -
  obtain r st' where o: "openGenerate (conn_world W) P w req st = (r, st')" using prod.exhaust by blast
  note l = openGenerate_log_cases [OF o, of ep]
  show ?thesis
  proof (cases r)
    case (Inl err)
    with o l show ?thesis by (simp add: collect_def)
  next
    case (Inr x)
    obtain cs fin cl where "x = (Stream cs fin, cl)" by (metis prod.exhaust stream.exhaust)
    with Inr o l run_closer_log [of W cl st' ep] show ?thesis by (simp add: collect_def)
  qed
qed

text \<open>What the result of \<open>streamFirstToken\<close> still holds open: nothing once the first receive failed.\<close>

definition opened_holds :: "opened option \<Rightarrow> string \<Rightarrow> int" where
  "opened_holds ow ep = (case ow of Some (_, cl, _, Some _) \<Rightarrow> holds cl ep | _ \<Rightarrow> 0)"

lemma opened_holds_simps [simp]:
  "opened_holds None ep = 0"
  "opened_holds (Some (s, cl, w, None)) ep = 0"
  "opened_holds (Some (s, cl, w, Some c)) ep = holds cl ep"
  by (simp_all add: opened_holds_def)

lemma first_token_log:
  "unclosed (snd (snd (snd (first_token (conn_world W) P req n i le ws fo st)))) ep
   = unclosed (snd st) ep + opened_holds (snd (fst (first_token (conn_world W) P req n i le ws fo st))) ep"
proof (induction ws arbitrary: i le fo st)
  case Nil
  show ?case by simp
next
  case (Cons w ws)
  obtain r fo1 e1 where al: "opt_allow (conn_world W) fo (sw_ID w) st = (r, fo1, e1)" by (metis prod.exhaust)
  have s1: "snd e1 = snd st" using opt_allow_log [of W fo "sw_ID w" st] al by simp
  obtain og e2 where og: "openGenerate (conn_world W) P w req e1 = (og, e2)" using prod.exhaust by blast
  note l = openGenerate_log_cases [OF og, of ep]
  have failed: "unclosed (snd e3) ep = unclosed (snd e) ep"
    if "recordFail (conn_world W) fo1 (sw_ID w) err e = (fo2, e3)" for err e fo2 e3
    using recordFail_log [of W fo1 "sw_ID w" err e] that by simp
  show ?case
  proof (cases og)
    case (Inl err)
    obtain fo2 e3 where rf: "recordFail (conn_world W) fo1 (sw_ID w) err e2 = (fo2, e3)" by (metis prod.exhaust)
    with Inl al og l s1 failed [OF rf] show ?thesis by (simp add: Cons.IH)
  next
    case (Inr x)
    obtain s cl where x: "x = (s, cl)" by (cases x)
    obtain rc s' where rc: "Recv s = (rc, s')" by (cases "Recv s")
    show ?thesis
    proof (cases rc)
      case (Inl err)
      obtain fo2 e3 where rf: "recordFail (conn_world W) fo1 (sw_ID w) err (run_closer (conn_world W) cl e2) = (fo2, e3)"
        by (metis prod.exhaust)
      with Inl Inr x rc al og l s1 failed [OF rf] run_closer_log [of W cl e2 ep] show ?thesis by (simp add: Cons.IH)
    next
      case (Inr c)
      with \<open>og = Inr x\<close> x rc al og l s1 show ?thesis by (simp add: Cons.IH)
    qed
  qed
qed

lemma Failover_Do_env:
  assumes tick: "\<And>e. I e \<Longrightarrow> I (snd (tick e))" and call: "\<And>w e. I e \<Longrightarrow> I (snd (call w e))" and "I e"
  shows "I (snd (snd (snd (Failover_Do tick call f ws e))))"
proof -
  have allow: "I (snd (snd (breaker_allow tick f i e)))" if "I e" for f i e
    using tick [OF that] that by (auto simp: breaker_allow_def Let_def split: option.splits prod.splits)
  have fail: "I (snd (breaker_failure tick f i e))" if "I e" for f i e
    using tick [OF that] that by (auto simp: breaker_failure_def Let_def split: option.splits prod.splits)
  have order: "I (snd (snd (snd (do_order tick f e ws))))" if "I e" for f e ws
    using that
  proof (induction ws arbitrary: f e)
    case (Cons w ws)
    then show ?case
      using allow [OF Cons.prems]
      by (auto simp: Let_def split_beta split: option.splits prod.splits)
  qed simp
  have loop: "I (snd (snd (snd (do_loop tick call n i k le ws f e))))" if "I e" for n i k le ws f e
    using that
  proof (induction ws arbitrary: i k le f e)
    case (Cons w ws)
    obtain r f1 e1 where al: "breaker_allow tick f (fw_ID w) e = (r, f1, e1)" by (metis prod.exhaust)
    have 1: "I e1" using allow [OF Cons.prems, of f "fw_ID w"] al by simp
    obtain cr e2 where cl: "call w e1 = (cr, e2)" by fastforce
    have 2: "I e2" using call [OF 1, of w] cl by simp
    obtain f2 e3 where fl: "breaker_failure tick f1 (fw_ID w) e2 = (f2, e3)" by fastforce
    have 3: "I e3" using fail [OF 2, of f1 "fw_ID w"] fl by simp
    show ?case
      using al cl fl 1 2 3 Cons.IH Cons.prems by (auto simp: Let_def split: option.splits)
  qed simp
  obtain ord opn f1 e1 where d: "do_order tick f e ws = (ord, opn, f1, e1)" by (metis prod.exhaust)
  with order [OF assms(3), of f ws] loop show ?thesis using assms(3) by (simp add: Failover_Do_def Let_def)
qed

lemma collectWithFailover_log:
  "unclosed (snd (snd (snd (collectWithFailover (conn_world W) P req ws fo st)))) ep = unclosed (snd st) ep"
proof -
  let ?fn = "\<lambda>w (e, r). case collect (conn_world W) P req w e of
     (Inl err, e') \<Rightarrow> (Some err, e', r) | (Inr res, e') \<Rightarrow> (None, e', res)"
  let ?I = "\<lambda>x. unclosed (snd (fst x)) ep = unclosed (snd st) ep"
  have fn: "?I (snd (?fn w x))" if "?I x" for w x
    using collect_log [of W P req w "fst x" ep] that
    by (cases x; cases "collect (conn_world W) P req w (fst x)") (auto split: sum.splits)
  have tick: "?I (snd ((\<lambda>(e, r). case wd_tick (conn_world W) e of (t, e') \<Rightarrow> (t, e', r)) x))" if "?I x" for x
    using that by (cases x) (auto dest: tick_logD split: prod.splits)
  have "?I (snd (snd (withFailover (conn_world W) ?fn ws fo (st, r))))" for r
  proof (cases fo)
    case None
    have "?I (st, r)" by simp
    from fn [OF this, of "hd ws"] show ?thesis
      by (auto simp: withFailover_def None split: prod.splits)
  next
    case (Some f)
    let ?cands = "map (\<lambda>w. \<lparr>fw_ID = sw_ID w, fw_Endpoint = sw_Endpoint w\<rparr>) ws"
    have "?I (snd (snd (snd (Failover_Do (\<lambda>(e, r). case wd_tick (conn_world W) e of (t, e') \<Rightarrow> (t, e', r))
             (\<lambda>w. ?fn (by_id ws (fw_ID w))) f ?cands (st, r)))))"
      by (rule Failover_Do_env [where I = ?I]) (use tick fn in auto)
    then show ?thesis
      by (auto simp: withFailover_def Some split: prod.splits option.splits)
  qed
  from this [of "('''', None, '''')"] show ?thesis
    by (simp add: collectWithFailover_def split_beta)
qed

lemma streamChatFailover_log:
  "unclosed (snd (snd (snd (streamChatFailover (conn_world W) P wr i created req model inc ws fo st)))) ep
   \<le> unclosed (snd st) ep"
proof -
  let ?R = "streamFirstToken (conn_world W) P req ws fo st"
  obtain err ow fo' st' where r: "?R = ((err, ow), fo', st')" by (metis prod.exhaust)
  have l: "unclosed (snd st') ep = unclosed (snd st) ep + opened_holds ow ep"
    using first_token_log [of W P req "length ws" 0 None ws fo st ep] r by (simp add: streamFirstToken_def)
  have close: "unclosed (snd (run_closer (conn_world W) cl st')) ep \<le> unclosed (snd st) ep" if "ow = Some (s, cl, w, c0)"
    for s cl w c0
    using l that run_closer_log [of W cl st' ep] by (cases c0) (auto simp: holds_def)
  show ?thesis
  proof (cases err)
    case (Some x)
    then have "ow = None \<Longrightarrow> ?thesis" using r l by (simp add: streamChatFailover_def)
    moreover have "ow = None"
      using first_token_opened [of ws "conn_world W" P req "length ws" 0 None fo st] Some r
      by (cases ow) (auto simp: streamFirstToken_def opened_ok_def)
    ultimately show ?thesis by simp
  next
    case None
    with r l close show ?thesis
      by (cases ow) (auto simp: streamChatFailover_def Let_def split: prod.splits option.splits)
  qed
qed

lemma streamTextFailover_log:
  "unclosed (snd (snd (snd (streamTextFailover (conn_world W) P wr i created req model inc ws fo st)))) ep
   \<le> unclosed (snd st) ep"
proof -
  let ?R = "streamFirstToken (conn_world W) P req ws fo st"
  obtain err ow fo' st' where r: "?R = ((err, ow), fo', st')" by (metis prod.exhaust)
  have l: "unclosed (snd st') ep = unclosed (snd st) ep + opened_holds ow ep"
    using first_token_log [of W P req "length ws" 0 None ws fo st ep] r by (simp add: streamFirstToken_def)
  have none: "ow = None" if "err = Some x" for x
    using first_token_opened [of ws "conn_world W" P req "length ws" 0 None fo st] that r
    by (cases ow) (auto simp: streamFirstToken_def opened_ok_def)
  show ?thesis
  proof (cases ow)
    case None
    with r l show ?thesis by (cases err) (simp_all add: streamTextFailover_def)
  next
    case (Some z)
    obtain s cl w c0 where z: "z = (s, cl, w, c0)" by (metis prod.exhaust)
    have "unclosed (snd (run_closer (conn_world W) cl st')) ep \<le> unclosed (snd st) ep"
      using l Some z run_closer_log [of W cl st' ep] by (cases c0) (auto simp: holds_def)
    with r Some z none show ?thesis
      by (cases err) (auto simp: streamTextFailover_def Let_def split: prod.splits)
  qed
qed

text \<open>The events of one worker's stream, unless it fails before its first chunk.\<close>

lemma streamChat_single:
  assumes "openGenerate W P w req e = (Inr (Stream cs fin, cl), e2)"
    and "cs \<noteq> [] \<or> (\<exists>r. collect_loop cs fin '''' None '''' = Inr r)"
  shows "let h = \<lparr>ck_ID = i, ck_Object = ''chat.completion.chunk'', ck_Created = created, ck_Model = model\<rparr> in
         fst (streamChatFailover W P (\<lambda>_. True) i created req model inc [w] None e)
         = (Ret (Some w, None),
            SseChunk h DRole # contents h cs @ closing (wd_err_text W) h inc (collect_loop cs fin '''' None ''''))"
proof (cases cs)
  case Nil
  with assms sse_body_accepting [of "(Stream [] fin, cl, w, None)" "[]" fin W] show ?thesis
    by (auto simp: streamChatFailover_def streamFirstToken_single writeSSE_def received_def Let_def
        split: option.splits if_splits)
next
  case (Cons c cs')
  with assms sse_body_accepting [of "(Stream cs' fin, cl, w, Some c)" cs fin W] show ?thesis
    by (simp add: streamChatFailover_def streamFirstToken_single writeSSE_def received_def Let_def)
qed

section \<open>Properties\<close>

text \<open>
  C3. Streaming and collecting agree: for one worker and every behaviour of the world, when the
  collected answer has a text, a usage and a finish reason, the event stream carries the role, that
  very text in non-empty pieces, that finish reason (stop when it is empty), the usage when it was
  asked for and is known, and the terminator; when collecting fails, streaming returns the same
  error before any event, or ends the events with it and without a terminator.
\<close>

theorem stream_equals_collect:
  "let h = \<lparr>ck_ID = i, ck_Object = ''chat.completion.chunk'', ck_Created = created, ck_Model = model\<rparr>;
       streamed = fst (streamChatFailover W P (\<lambda>_. True) i created req model inc [w] None e) in
   case fst (collectWithFailover W P req [w] None e) of
     ((text, u, finish), used, None) \<Rightarrow>
       used = Some w
       \<and> (\<exists>ts. concat ts = text \<and> '''' \<notin> set ts
            \<and> streamed = (Ret (Some w, None),
                SseChunk h DRole # map (\<lambda>t. SseChunk h (DContent t)) ts
                @ SseChunk h (DStop (if finish = '''' then ''stop'' else finish))
                # (if inc \<and> u \<noteq> None then [SseChunk h (DUsage (usageOrZero u))] else []) @ [SseDone]))
   | (_, _, Some err) \<Rightarrow>
       streamed = (Ret (None, Some err), [])
       \<or> (\<exists>ts. '''' \<notin> set ts
            \<and> streamed = (Ret (Some w, None),
                SseChunk h DRole # map (\<lambda>t. SseChunk h (DContent t)) ts @ [SseError (wd_err_text W err)]))"
proof -
  let ?h = "\<lparr>ck_ID = i, ck_Object = ''chat.completion.chunk'', ck_Created = created, ck_Model = model\<rparr>"
  obtain og e2 where og: "openGenerate W P w req e = (og, e2)" by fastforce
  show ?thesis
  proof (cases og)
    case (Inl err)
    with og show ?thesis
      by (simp add: Let_def collectWithFailover_single streamChatFailover_def streamFirstToken_single)
  next
    case (Inr x)
    obtain cs fin cl where x: "x = (Stream cs fin, cl)" by (metis prod.exhaust stream.exhaust)
    show ?thesis
    proof (cases "collect_loop cs fin '''' None ''''")
      case r: (Inl err)
      show ?thesis
      proof (cases "cs = []")
        case True
        with og Inr x r show ?thesis
          by (auto simp: Let_def collectWithFailover_single streamChatFailover_def streamFirstToken_single
              split: option.splits if_splits)
      next
        case False
        with og Inr x r streamChat_single [of W P w req e cs fin cl e2 i created model inc] show ?thesis
          by (auto simp: Let_def collectWithFailover_single contents_texts closing_def
              intro!: exI [of _ "filter (\<lambda>t. t \<noteq> '''') (map wt_Text cs)"])
      qed
    next
      case r: (Inr r)
      obtain tx u finish where tuf: "r = (tx, u, finish)" by (metis prod.exhaust)
      have cl2: "closing (wd_err_text W) ?h inc (Inr (tx, u, finish))
          = SseChunk ?h (DStop (if finish = '''' then ''stop'' else finish))
            # (if inc \<and> u \<noteq> None then [SseChunk ?h (DUsage (usageOrZero u))] else []) @ [SseDone]"
        by (cases inc; cases u) (simp_all add: closing_def or_stop_def usageOrZero_def)
      obtain ts where ts: "concat ts = tx" "'''' \<notin> set ts" "contents ?h cs = map (\<lambda>t. SseChunk ?h (DContent t)) ts"
        using script_of_collected r tuf by metis
      from streamChat_single [of W P w req e cs fin cl e2 i created model inc] og Inr x r tuf ts cl2 show ?thesis
        by (auto simp: Let_def collectWithFailover_single intro!: exI [of _ ts])
    qed
  qed
qed

end
