(* ===== verification/Gateway_Dispatch_Correct.thy ===== *)
theory Gateway_Dispatch_Correct
  imports Gateway_Dispatch
begin

text \<open>
  What holds of a dispatched request for every writer, failover state and behaviour of the workers:
  the events a client receives, the connections the gateway closes, and the path on which the
  streaming handlers dereference a nil stream.
\<close>

section \<open>The event protocol\<close>

lemma streamFirstToken_opened:
  assumes "streamFirstToken W P req ws fo e = ((err, ow), fo', e')"
  shows "opened_ok ws (err, ow)"
  using first_token_opened [of ws W P req "length ws" 0 None fo e] assms by (simp add: streamFirstToken_def)

lemma sse_body_script:
  "\<exists>evs zs. sse_script h evs \<and> out0 @ evs = snd (sse_body W wr h inc ow out0) @ zs
     \<and> (zs = [] \<longrightarrow> snd (sse_body W wr h inc ow out0) = out0 @ evs)"
proof -
  obtain cs fin where r: "received ow = (cs, fin)" by fastforce
  let ?evs = "contents h cs @ closing (wd_err_text W) h inc (collect_loop cs fin '''' None '''')"
  obtain zs where "out0 @ ?evs = snd (sse_body W wr h inc ow out0) @ zs"
    using sse_body_prefix [of W h inc ow out0 wr] sse_body_accepting [OF r, of W h inc out0] by auto
  then show ?thesis using script_closing [of h cs "wd_err_text W" inc] by (intro exI [of _ ?evs] exI [of _ zs]) auto
qed

text \<open>The error of a body: nothing is reported when the terminator went out.\<close>

lemma sse_finish_done: "SseDone \<in> set (snd (sse_finish wr h inc (out, fu, fr))) \<Longrightarrow> SseDone \<notin> set out \<Longrightarrow>
    fst (sse_finish wr h inc (out, fu, fr)) = None"
  by (auto simp: sse_finish_def writeSSE_def split: if_splits bool.splits option.splits)

lemma handle_chunk_done:
  "SseDone \<notin> set (fst st) \<Longrightarrow> SseDone \<notin> set (fst (snd (handle_chunk wr h c st)))"
  by (cases st) (auto simp: handle_chunk_def writeSSE_def split: if_splits)

lemma sse_loop_done:
  "SseDone \<in> set (snd (sse_loop et wr h inc cs fin st)) \<Longrightarrow> SseDone \<notin> set (fst st) \<Longrightarrow>
    fst (sse_loop et wr h inc cs fin st) = None"
proof (induction cs arbitrary: st)
  case Nil
  then show ?case using sse_finish_done
    by (cases st) (auto split: option.splits if_splits)
next
  case (Cons c cs)
  obtain r st' where a: "handle_chunk wr h c st = (r, st')" using prod.exhaust by blast
  with handle_chunk_done [OF Cons.prems(2), of wr h c] Cons show ?case by (cases r) auto
qed

section \<open>Properties\<close>

text \<open>
  C2. The event protocol holds for every writer, even one that fails half way, every list of workers
  and every failover state: the events a chat client receives are a prefix of the role, non-empty
  contents, and then either one error or the stop, at most one usage and the terminator. A client
  that sees the terminator has the whole script and no error; before any event the handler returns
  an error and no worker.
\<close>

theorem sse_protocol:
  "let h = \<lparr>ck_ID = i, ck_Object = ''chat.completion.chunk'', ck_Created = created, ck_Model = model\<rparr> in
   case fst (streamChatFailover W P wr i created req model inc ws fo e) of
     (Ret (None, err), out) \<Rightarrow> out = [] \<and> err \<noteq> None
   | (Ret (Some w, err), out) \<Rightarrow>
       w \<in> set ws
       \<and> (\<exists>evs. sse_script h evs \<and> prefix out (SseChunk h DRole # evs)
            \<and> (SseDone \<in> set out \<longrightarrow> out = SseChunk h DRole # evs \<and> err = None))
   | (Panic, out) \<Rightarrow> prefix out [SseChunk h DRole]"
proof -
  let ?h = "\<lparr>ck_ID = i, ck_Object = ''chat.completion.chunk'', ck_Created = created, ck_Model = model\<rparr>"
  obtain err ow fo' e' where r: "streamFirstToken W P req ws fo e = ((err, ow), fo', e')" by (metis prod.exhaust)
  note ok = streamFirstToken_opened [OF r]
  show ?thesis
  proof (cases "err = None \<and> ow \<noteq> None")
    case False
    with r ok show ?thesis
      by (cases err; cases ow)
        (auto simp: streamChatFailover_def Let_def writeSSE_def)
  next
    case True
    then obtain s cl w first where ow: "ow = Some (s, cl, w, first)" "err = None" by (cases ow) auto
    with ok have w: "w \<in> set ws" by simp
    show ?thesis
    proof (cases "wr 0")
      case False
      with r ow w show ?thesis
        using script_closing [of ?h "[]" "\<lambda>_. ''''" inc "Inl EOF"]
        by (auto simp: streamChatFailover_def Let_def writeSSE_def)
    next
      case True
      let ?role = "SseChunk ?h DRole"
      obtain berr out where b: "sse_body W wr ?h inc (s, cl, w, first) [?role] = (berr, out)" by fastforce
      have res: "fst (streamChatFailover W P wr i created req model inc ws fo e) = (Ret (Some w, berr), out)"
        using r ow True b by (simp add: streamChatFailover_def Let_def writeSSE_def)
      obtain evs zs where evs: "sse_script ?h evs" "?role # evs = out @ zs"
        using sse_body_script [of ?h "[?role]" W wr inc "(s, cl, w, first)"] b by auto
      have "out = ?role # evs \<and> berr = None" if d: "SseDone \<in> set out"
      proof -
        obtain out' where out': "out = ?role # out'" using evs(2) d by (cases out) auto
        with evs d have "zs = []" using script_done_last [OF evs(1), of out' zs] by auto
        moreover obtain cs fin where rc: "received (s, cl, w, first) = (cs, fin)" by fastforce
        have "berr = None"
          using b d sse_loop_done [of "wd_err_text W" wr ?h inc cs fin "([?role], None, '''')"]
          unfolding sse_body_received [OF rc] by simp
        ultimately show ?thesis using evs by simp
      qed
      with res w evs show ?thesis by (auto simp: Let_def prefix_def)
    qed
  qed
qed

definition demo_world :: "nat World" where
  "demo_world =
     \<lparr>wd_tick = (\<lambda>e. (int e, Suc e)), wd_dial = (\<lambda>_ e. (None, e)), wd_Generate = (\<lambda>_ _ e. (Inr (Stream [] None), e)),
      wd_close = (\<lambda>_ e. e), wd_post = (\<lambda>_ _ e. (HttpErr '''', e)), wd_unmarshal = (\<lambda>_. None), wd_ctx = (\<lambda>_. None),
      wd_sel = (\<lambda>_. None), wd_err_text = (\<lambda>_. '''')\<rparr>"

definition demo_selected :: "string \<Rightarrow> SelectedWorker" where
  "demo_selected i = \<lparr>sw_ID = i, sw_Endpoint = i @ '':1'', sw_Models = [''m'']\<rparr>"

theorem sse_protocol_witness:
  "let h = \<lparr>ck_ID = ''id'', ck_Object = ''chat.completion.chunk'', ck_Created = 0, ck_Model = ''m''\<rparr> in
   fst (streamChatFailover demo_world None (\<lambda>_. True) ''id'' 0 (toWorkerRequest ''m'' ''hi'' None None None) ''m'' False
          [demo_selected ''a''] None 0)
   = (Ret (Some (demo_selected ''a''), None), [SseChunk h DRole, SseChunk h (DStop ''stop''), SseDone])
   \<and> sse_script h [SseChunk h (DStop ''stop''), SseDone]"
proof -
  let ?h = "\<lparr>ck_ID = ''id'', ck_Object = ''chat.completion.chunk'', ck_Created = 0, ck_Model = ''m''\<rparr>"
  have run: "fst (streamChatFailover demo_world None (\<lambda>_. True) ''id'' 0 (toWorkerRequest ''m'' ''hi'' None None None) ''m''
       False [demo_selected ''a''] None 0)
     = (Ret (Some (demo_selected ''a''), None), [SseChunk ?h DRole, SseChunk ?h (DStop ''stop''), SseDone])"
    by (simp add: streamChatFailover_def streamFirstToken_single openGenerate_def isProviderEndpoint_def has_prefix_def
        demo_selected_def demo_world_def writeSSE_def sse_body_def sse_finish_def Let_def)
  with sse_protocol [where i = "''id''" and created = 0 and model = "''m''" and W = demo_world and P = None
      and wr = "\<lambda>_. True" and req = "toWorkerRequest ''m'' ''hi'' None None None" and inc = False
      and ws = "[demo_selected ''a'']" and fo = None and e = 0]
  show ?thesis by (auto simp: Let_def)
qed

text \<open>
  C10. Connections are not leaked, for every world, writer and failover state: after a collected
  request every endpoint was closed as often as it was opened, and after a streamed one at least as
  often (the empty stream's connection is closed twice).
\<close>

theorem connections_closed:
  "(let l = snd (snd (snd (collectWithFailover (conn_world W) P req ws fo (e, [])))) in
    count_list l (Opened ep) = count_list l (Closed ep))
   \<and> (let l = snd (snd (snd (streamChatFailover (conn_world W) P wr i created req model inc ws fo (e, [])))) in
    count_list l (Opened ep) \<le> count_list l (Closed ep))
   \<and> (let l = snd (snd (snd (streamTextFailover (conn_world W) P wr i created req model inc ws fo (e, [])))) in
    count_list l (Opened ep) \<le> count_list l (Closed ep))"
  using collectWithFailover_log [of W P req ws fo "(e, [])" ep]
    streamChatFailover_log [of W P wr i created req model inc ws fo "(e, [])" ep]
    streamTextFailover_log [of W P wr i created req model inc ws fo "(e, [])" ep]
  by (simp add: unclosed_def Let_def)

text \<open>
  C26. The nil stream is reachable: when the first of several workers is half-open without a probe
  left and the retry budget is drained, the first token is reported as found without any worker
  having been asked, and both streaming handlers panic, the chat handler after it has sent the role.
\<close>

theorem stream_nil_panics:
  assumes "Budget f = Some bu" and "\<not> Budget_Allow bu" and "Breaker f = Some b"
    and "wb_state (bm_get b (sw_ID w1)) = StateHalfOpen" and "halfOpenLeft (bm_get b (sw_ID w1)) = 0"
    and "wr 0"
  shows "fst (streamChatFailover W P wr i created req model inc (w1 # w2 # ws) (Some f) e)
     = (Panic, [SseChunk \<lparr>ck_ID = i, ck_Object = ''chat.completion.chunk'', ck_Created = created, ck_Model = model\<rparr> DRole])
   \<and> fst (streamTextFailover W P wr i created req model inc (w1 # w2 # ws) (Some f) e) = (Panic, [])
   \<and> snd (snd (streamFirstToken W P req (w1 # w2 # ws) (Some f) e)) = snd (wd_tick W e)"
proof -
  have "\<exists>f'. streamFirstToken W P req (w1 # w2 # ws) (Some f) e = ((None, None), Some f', snd (wd_tick W e))"
    using assms(1-5)
    by (auto simp: streamFirstToken_def opt_denies_def opt_allow_def breaker_allow_def Allow_def Let_def
        budget_denies_def split_beta)
  then show ?thesis using assms(6)
    by (auto simp: streamChatFailover_def streamTextFailover_def writeSSE_def Let_def)
qed

theorem stream_nil_panics_witness:
  "fst (fst (streamChatFailover demo_world None (\<lambda>_. True) ''id'' 0 (toWorkerRequest ''m'' ''hi'' None None None) ''m'' False
     [demo_selected ''a'', demo_selected ''b'']
     (Some (NewFailover (Some (OnFailure (NewRetryBudget 2 (1/10)))) (Some demo_breaker) None 3)) 7)) = Panic"
proof -
  have "\<not> Budget_Allow (OnFailure (NewRetryBudget 2 (1/10)))"
    by (simp add: Budget_Allow_def OnFailure_def NewRetryBudget_def)
  with stream_nil_panics [of "NewFailover (Some (OnFailure (NewRetryBudget 2 (1/10)))) (Some demo_breaker) None 3" _
      demo_breaker "demo_selected ''a''" "\<lambda>_. True" demo_world None "''id''" 0
      "toWorkerRequest ''m'' ''hi'' None None None" "''m''" False "demo_selected ''b''" "[]" 7]
  show ?thesis
    by (simp add: demo_breaker_states demo_selected_def NewFailover_def)
qed

end
