(* ===== verification/Gateway_Handler.thy ===== *)
theory Gateway_Handler
  imports Gateway_Dispatch_Correct Gateway_Auth
begin

text \<open>
  The HTTP handlers of \<open>services/gateway/handler.go\<close>: a chat or text completion from the bound
  request to the response, with the admission, the activation of a cold model, the dispatch, the
  latency and metric updates and the audit record. The handler and its selector share the tracker
  and the latency store, as \<open>cmd/forge-controlplane\<close> builds them. \<open>bind\<close> is the answer of
  \<open>ShouldBindJSON\<close>; the completion id, the creation time and
  the times at which the request starts and its outcome is known are arguments.
  The time-to-first-token histogram is not modelled.
\<close>

section \<open>State\<close>

datatype metric_event =
    MDuration string string bool int
  | MAdmitted string
  | MRejected string string
  | MInflight string int

record AuditEvent =
  au_RequestID :: string
  au_ClientID :: string
  au_Route :: string
  au_Model :: string
  au_WorkerID :: string
  au_Stream :: bool
  au_Status :: int
  au_LatencyMs :: int
  au_PromptTok :: i32
  au_CompTok :: i32
  au_Error :: string

record Handler =
  gh_selector :: SnapshotSelector
  gh_tracking :: bool
  gh_observing :: bool
  gh_failover :: "Failover option"
  gh_providers :: "ProviderRegistry option"
  gh_admissionLimit :: int
  gh_retryAfterSec :: int
  gh_maxAttempts :: int
  gh_metrics :: "metric_event list"
  gh_audit :: "AuditEvent list"

definition NewHandler ::
  "SnapshotSelector \<Rightarrow> bool \<Rightarrow> bool \<Rightarrow> Failover option \<Rightarrow> int \<Rightarrow> int \<Rightarrow> int \<Rightarrow> Handler" where
  "NewHandler sel tracking observing fo limit retryAfter attempts =
     \<lparr>gh_selector = sel, gh_tracking = tracking, gh_observing = observing, gh_failover = fo, gh_providers = None,
      gh_admissionLimit = (if limit \<le> 0 then 4 else limit),
      gh_retryAfterSec = (if retryAfter \<le> 0 then 2 else retryAfter),
      gh_maxAttempts = (if attempts \<le> 0 then 3 else attempts), gh_metrics = [], gh_audit = []\<rparr>"

abbreviation gh_tracker :: "Handler \<Rightarrow> tracker" where
  "gh_tracker h \<equiv> se_inflight (gh_selector h)"

definition set_tracker :: "tracker \<Rightarrow> Handler \<Rightarrow> Handler" where
  "set_tracker t h = h\<lparr>gh_selector := (gh_selector h)\<lparr>se_inflight := t\<rparr>\<rparr>"

definition log_metric :: "metric_event \<Rightarrow> Handler \<Rightarrow> Handler" where
  "log_metric m h = h\<lparr>gh_metrics := gh_metrics h @ [m]\<rparr>"

text \<open>\<open>time.Since\<close> at the moment \<open>now\<close>, in whole milliseconds.\<close>

definition since_ms :: "int \<Rightarrow> int \<Rightarrow> int" where
  "since_ms start now = (now - start) div millisecond"

definition observeLatency :: "string \<Rightarrow> int \<Rightarrow> int \<Rightarrow> Handler \<Rightarrow> Handler" where
  "observeLatency w start now h =
     (if \<not> gh_observing h \<or> w = '''' then h
      else h\<lparr>gh_selector := (gh_selector h)\<lparr>se_latency :=
        Observe (se_latency (gh_selector h)) w (real_of_int (since_ms start now)) now\<rparr>\<rparr>)"

section \<open>Admission\<close>

definition set_inflight_metric :: "string \<Rightarrow> Handler \<Rightarrow> Handler" where
  "set_inflight_metric w h = log_metric (MInflight w (Inflight_Get (gh_tracker h) w)) h"

text \<open>\<open>tryAdmit\<close> and the function it returns; without a tracker the function does nothing.\<close>

definition tryAdmit :: "string \<Rightarrow> Handler \<Rightarrow> handle option option \<times> Handler" where
  "tryAdmit w h =
     (if \<not> gh_tracking h then (Some None, h)
      else
        (case TryTrack (gh_tracker h) w (gh_admissionLimit h) of
           (None, t) \<Rightarrow> (None, set_tracker t h)
         | (Some k, t) \<Rightarrow> (Some (Some k), set_inflight_metric w (set_tracker t h))))"

definition release_admission :: "handle option \<Rightarrow> Handler \<Rightarrow> Handler" where
  "release_admission k h =
     (case k of
        None \<Rightarrow> h
      | Some x \<Rightarrow> set_inflight_metric (fst x) (set_tracker (snd (done_handle x (gh_tracker h))) h))"

fun admit_loop ::
  "SelectedWorker list \<Rightarrow> SelectedWorker list \<Rightarrow> Handler \<Rightarrow> (SelectedWorker list \<times> handle option) option \<times> Handler" where
  "admit_loop before [] h = (None, h)"
| "admit_loop before (w # ws) h =
     (case tryAdmit (sw_ID w) h of
        (None, h') \<Rightarrow> admit_loop (before @ [w]) ws h'
      | (Some k, h') \<Rightarrow> (Some (w # before @ ws, k), h'))"

definition admitFromRanked ::
  "SelectedWorker list \<Rightarrow> Handler \<Rightarrow> (SelectedWorker list \<times> handle option) option \<times> Handler" where
  "admitFromRanked workers h =
     (if workers = [] then (None, h)
      else if \<not> gh_tracking h then (Some (workers, None), h)
      else admit_loop [] workers h)"

section \<open>Activation\<close>

text \<open>
  What activating the model does: whether it is needed, the activator's answer, the snapshots that
  successive polls of \<open>waitForCapacity\<close> find before the deadline, and the context's error if it ended.
\<close>

record activation =
  ac_needs :: bool
  ac_error :: "goerr option"
  ac_views :: "RoutingSnapshot option list"
  ac_ctx :: "goerr option"

fun waitForCapacity ::
  "(string \<Rightarrow> u64) \<Rightarrow> string \<Rightarrow> string \<Rightarrow> goerr option \<Rightarrow> RoutingSnapshot option list \<Rightarrow> goerr option \<Rightarrow>
     SnapshotSelector \<Rightarrow> (goerr + SelectedWorker) outcome \<times> SnapshotSelector" where
  "waitForCapacity sum64 model prompt ctxErr [] lastErr s =
     (Ret (Inl (case ctxErr of Some e \<Rightarrow> e | None \<Rightarrow>
        (case lastErr of Some e \<Rightarrow> e | None \<Rightarrow> PlainErr ''no capacity after activate''))), s)"
| "waitForCapacity sum64 model prompt ctxErr (v # vs) lastErr s =
     (case SelectWorker sum64 (s\<lparr>se_holder := v\<rparr>) model prompt of
        (Ret (Inl err), s') \<Rightarrow> waitForCapacity sum64 model prompt ctxErr vs (Some err) s'
      | r \<Rightarrow> r)"

definition tryActivate :: "(string \<Rightarrow> u64) \<Rightarrow> activation \<Rightarrow> string \<Rightarrow> Handler \<Rightarrow> bool outcome \<times> Handler" where
  "tryActivate sum64 act model h =
     (if \<not> ac_needs act \<or> ac_error act \<noteq> None then (Ret False, h)
      else
        (case waitForCapacity sum64 model '''' (ac_ctx act) (ac_views act) None (gh_selector h) of
           (Ret (Inr _), s) \<Rightarrow> (Ret True, h\<lparr>gh_selector := s\<rparr>)
         | (Ret (Inl _), s) \<Rightarrow> (Ret False, h\<lparr>gh_selector := s\<rparr>)
         | (Panic, s) \<Rightarrow> (Panic, h\<lparr>gh_selector := s\<rparr>)))"

definition rankWorkers ::
  "(string \<Rightarrow> u64) \<Rightarrow> string \<Rightarrow> string \<Rightarrow> Handler \<Rightarrow> (goerr + SelectedWorker list) \<times> Handler" where
  "rankWorkers sum64 model prompt h =
     (case SelectWorkers sum64 (gh_selector h) model prompt (gh_maxAttempts h) of
        (r, s) \<Rightarrow> (r, h\<lparr>gh_selector := s\<rparr>))"

section \<open>Responses\<close>

datatype response =
    RError int string string string
  | RRejected int
  | RChat string string string usage
  | RText string string string usage
  | REvents "sse_event list"

fun http_status :: "response \<Rightarrow> int" where
  "http_status (RError st _ _ _) = st"
| "http_status (RRejected _) = 429"
| "http_status (RChat _ _ _ _) = 200"
| "http_status (RText _ _ _ _) = 200"
| "http_status (REvents _) = 200"

definition writeAdmissionRejected :: "int \<Rightarrow> response" where
  "writeAdmissionRejected n = RRejected (if n \<le> 0 then 2 else n)"

text \<open>The block for a failed selection. Its \<open>statusCode\<close> is a new variable, so the outer one keeps 200.\<close>

definition select_failed :: "(goerr \<Rightarrow> string) \<Rightarrow> string \<Rightarrow> goerr \<Rightarrow> Handler \<Rightarrow> response \<times> Handler" where
  "select_failed err_text model err h =
     (case selectErrorStatus err of (st, typ, code) \<Rightarrow>
        if (case err of ErrAdmissionRejected _ \<Rightarrow> True | _ \<Rightarrow> False) then
          (writeAdmissionRejected (gh_retryAfterSec h), log_metric (MRejected model ''fleet_saturated'') h)
        else
          (RError st (err_text err) typ code,
           if st = 503 \<or> st = 404 then log_metric (MRejected model code) h else h))"

text \<open>The variables the deferred function reads.\<close>

record audit_vars =
  av_status :: int
  av_worker :: string
  av_error :: string
  av_usage :: "usage option"

definition audit0 :: audit_vars where
  "audit0 = \<lparr>av_status = 200, av_worker = '''', av_error = '''', av_usage = None\<rparr>"

record request_env =
  rq_affinity :: string
  rq_id :: string
  rq_client :: "ClientIdentity option"
  rq_completionID :: string
  rq_created :: int
  rq_start :: int
  rq_now :: int

section \<open>Dispatching the admitted request\<close>

text \<open>
  The end of both handlers: the outcome of the stream or of the collection, the response, and the
  audit variables. A response was started exactly when a worker is returned.
\<close>

definition stream_answer ::
  "(goerr \<Rightarrow> string) \<Rightarrow> request_env \<Rightarrow> 'e stream_result \<Rightarrow> Handler \<Rightarrow> (response outcome \<times> audit_vars) \<times> Handler \<times> 'e" where
  "stream_answer err_text rq r h =
     (case r of ((res, out), fo, e) \<Rightarrow>
        (let h = h\<lparr>gh_failover := fo\<rparr> in
         case res of
           Panic \<Rightarrow> ((Panic, audit0), h, e)
         | Ret (None, None) \<Rightarrow> ((Ret (REvents out), audit0), h, e)
         | Ret (None, Some err) \<Rightarrow>
             (case mapGRPCError err_text err of (st, msg, typ, code) \<Rightarrow>
                ((Ret (RError st msg typ code), audit0\<lparr>av_status := st, av_error := err_text err\<rparr>), h, e))
         | Ret (Some w, err) \<Rightarrow>
             ((Ret (REvents out),
               audit0\<lparr>av_worker := sw_ID w, av_error := (case err of Some x \<Rightarrow> err_text x | None \<Rightarrow> '''')\<rparr>),
              observeLatency (sw_ID w) (rq_start rq) (rq_now rq) h, e)))"

definition collect_answer ::
  "(string \<Rightarrow> string \<Rightarrow> usage \<Rightarrow> response) \<Rightarrow> (goerr \<Rightarrow> string) \<Rightarrow> request_env \<Rightarrow>
     (collected \<times> SelectedWorker option \<times> goerr option) \<times> Failover option \<times> 'e \<Rightarrow> Handler \<Rightarrow>
     (response outcome \<times> audit_vars) \<times> Handler \<times> 'e" where
  "collect_answer mk err_text rq r h =
     (case r of (((body, u, finish), used, err), fo, e) \<Rightarrow>
        (let h1 = h\<lparr>gh_failover := fo\<rparr>;
             h2 = (case used of Some w \<Rightarrow> observeLatency (sw_ID w) (rq_start rq) (rq_now rq) h1 | None \<Rightarrow> h1);
             av = audit0\<lparr>av_worker := (case used of Some w \<Rightarrow> sw_ID w | None \<Rightarrow> ''''), av_usage := u\<rparr> in
         case err of
           Some x \<Rightarrow>
             (case mapGRPCError err_text x of (st, msg, typ, code) \<Rightarrow>
                ((Ret (RError st msg typ code), av\<lparr>av_status := st, av_error := err_text x\<rparr>), h2, e))
         | None \<Rightarrow> ((Ret (mk body (if finish = '''' then ''stop'' else finish) (usageOrZero u)), av), h2, e)))"

section \<open>The handlers\<close>

definition bad_request :: "string \<Rightarrow> response outcome" where
  "bad_request msg = Ret (RError 400 msg ''invalid_request_error'' ''invalid_request'')"

definition route_prompt :: "request_env \<Rightarrow> string \<Rightarrow> string" where
  "route_prompt rq prompt = (if rq_affinity rq \<noteq> '''' then rq_affinity rq else prompt)"

text \<open>Selection and admission with their early returns; \<open>k\<close> is the rest of the handler.\<close>

definition admit_then ::
  "(goerr \<Rightarrow> string) \<Rightarrow> string \<Rightarrow> goerr + SelectedWorker list \<Rightarrow>
     (SelectedWorker list \<Rightarrow> Handler \<Rightarrow> 'e \<Rightarrow> (response outcome \<times> audit_vars) \<times> Handler \<times> 'e) \<Rightarrow>
     Handler \<Rightarrow> 'e \<Rightarrow> (response outcome \<times> audit_vars) \<times> Handler \<times> 'e" where
  "admit_then err_text model ranked k h e =
     (case ranked of
        Inl err \<Rightarrow>
          (case select_failed err_text model err h of
             (resp, h') \<Rightarrow> ((Ret resp, audit0\<lparr>av_error := err_text err\<rparr>), h', e))
      | Inr workers \<Rightarrow>
          (case admitFromRanked workers h of
             (None, h') \<Rightarrow>
               ((Ret (writeAdmissionRejected (gh_retryAfterSec h')),
                 audit0\<lparr>av_status := 429, av_error := ''fleet_saturated''\<rparr>),
                log_metric (MRejected model ''fleet_saturated'') h', e)
           | (Some (ordered, done_fn), h') \<Rightarrow>
               (case k ordered (log_metric (MAdmitted model) h') e of
                  (r, h2, e2) \<Rightarrow> (r, release_admission done_fn h2, e2))))"

definition log_duration :: "string \<Rightarrow> string \<Rightarrow> bool \<Rightarrow> audit_vars \<Rightarrow> Handler \<Rightarrow> Handler" where
  "log_duration route model streaming av h = log_metric (MDuration route model streaming (av_status av)) h"

definition log_audit :: "request_env \<Rightarrow> string \<Rightarrow> bool \<Rightarrow> audit_vars \<Rightarrow> Handler \<Rightarrow> Handler" where
  "log_audit rq model streaming av h =
     h\<lparr>gh_audit := gh_audit h @
        [\<lparr>au_RequestID = rq_id rq, au_ClientID = ci_ClientID (ClientFromContext (rq_client rq)),
          au_Route = ''chat_completions'', au_Model = model, au_WorkerID = av_worker av, au_Stream = streaming,
          au_Status = av_status av, au_LatencyMs = since_ms (rq_start rq) (rq_now rq),
          au_PromptTok = us_PromptTokens (usageOrZero (av_usage av)),
          au_CompTok = us_CompletionTokens (usageOrZero (av_usage av)), au_Error = av_error av\<rparr>]\<rparr>"

definition chat_select ::
  "(string \<Rightarrow> u64) \<Rightarrow> activation \<Rightarrow> string \<Rightarrow> string \<Rightarrow> Handler \<Rightarrow> (goerr + SelectedWorker list) outcome \<times> Handler" where
  "chat_select sum64 act model prompt h =
     (case rankWorkers sum64 model prompt h of
        (Inr ws, h1) \<Rightarrow> (Ret (Inr ws), h1)
      | (Inl err, h1) \<Rightarrow>
          (case tryActivate sum64 act model h1 of
             (Panic, h2) \<Rightarrow> (Panic, h2)
           | (Ret False, h2) \<Rightarrow> (Ret (Inl err), h2)
           | (Ret True, h2) \<Rightarrow> (case rankWorkers sum64 model prompt h2 of (r, h3) \<Rightarrow> (Ret r, h3))))"

definition chat_dispatch ::
  "'e World \<Rightarrow> writer \<Rightarrow> request_env \<Rightarrow> chatCompletionRequest \<Rightarrow> SelectedWorker list \<Rightarrow> Handler \<Rightarrow> 'e \<Rightarrow>
     (response outcome \<times> audit_vars) \<times> Handler \<times> 'e" where
  "chat_dispatch W wr rq req ws h e =
     (let gen = toWorkerRequest (cr_Model req) (messagesToPrompt (cr_Messages req)) (cr_Temperature req) (cr_TopP req)
                  (maxTokensFromChat req);
          inc = (cr_IncludeUsage req = Some True) in
      if cr_Stream req then
        stream_answer (wd_err_text W) rq
          (streamChatFailover W (gh_providers h) wr (rq_completionID rq) (rq_created rq) gen (cr_Model req) inc ws
             (gh_failover h) e) h
      else
        collect_answer (RChat (cr_Model req)) (wd_err_text W) rq
          (collectWithFailover W (gh_providers h) gen ws (gh_failover h) e) h)"

definition chatCompletions ::
  "(string \<Rightarrow> u64) \<Rightarrow> 'e World \<Rightarrow> writer \<Rightarrow> activation \<Rightarrow> request_env \<Rightarrow> goerr + chatCompletionRequest \<Rightarrow>
     Handler \<Rightarrow> 'e \<Rightarrow> response outcome \<times> Handler \<times> 'e" where
  "chatCompletions sum64 W wr act rq bind h e =
     (case bind of
        Inl err \<Rightarrow> (bad_request (wd_err_text W err), h, e)
      | Inr req \<Rightarrow>
          if cr_Model req = '''' then (bad_request ''model is required'', h, e)
          else if cr_Messages req = [] then (bad_request ''messages is required'', h, e)
          else
            (let prompt = messagesToPrompt (cr_Messages req);
                 ((resp, av), h2, e2) =
                   (case chat_select sum64 act (cr_Model req) (route_prompt rq prompt) h of
                      (Panic, h1) \<Rightarrow> ((Panic, audit0), h1, e)
                    | (Ret ranked, h1) \<Rightarrow>
                        admit_then (wd_err_text W) (cr_Model req) ranked
                          (chat_dispatch W wr rq req) h1 e) in
             (resp, log_audit rq (cr_Model req) (cr_Stream req) av
                      (log_duration ''chat_completions'' (cr_Model req) (cr_Stream req) av h2), e2)))"

definition text_dispatch ::
  "'e World \<Rightarrow> writer \<Rightarrow> request_env \<Rightarrow> completionRequest \<Rightarrow> string \<Rightarrow> SelectedWorker list \<Rightarrow> Handler \<Rightarrow> 'e \<Rightarrow>
     (response outcome \<times> audit_vars) \<times> Handler \<times> 'e" where
  "text_dispatch W wr rq req prompt ws h e =
     (let gen = toWorkerRequest (tr_Model req) prompt (tr_Temperature req) (tr_TopP req) (tr_MaxTokens req);
          inc = (tr_IncludeUsage req = Some True) in
      if tr_Stream req then
        stream_answer (wd_err_text W) rq
          (streamTextFailover W (gh_providers h) wr (rq_completionID rq) (rq_created rq) gen (tr_Model req) inc ws
             (gh_failover h) e) h
      else
        collect_answer (RText (tr_Model req)) (wd_err_text W) rq
          (collectWithFailover W (gh_providers h) gen ws (gh_failover h) e) h)"

definition completions ::
  "(string \<Rightarrow> u64) \<Rightarrow> 'e World \<Rightarrow> writer \<Rightarrow> request_env \<Rightarrow> goerr + completionRequest \<Rightarrow>
     Handler \<Rightarrow> 'e \<Rightarrow> response outcome \<times> Handler \<times> 'e" where
  "completions sum64 W wr rq bind h e =
     (case bind of
        Inl err \<Rightarrow> (bad_request (wd_err_text W err), h, e)
      | Inr req \<Rightarrow>
          if tr_Model req = '''' then (bad_request ''model is required'', h, e)
          else
            (case promptFromCompletions (tr_Prompt req) of
               Inl _ \<Rightarrow> (bad_request ''prompt is required'', h, e)
             | Inr prompt \<Rightarrow>
                 if prompt = '''' then (bad_request ''prompt is required'', h, e)
                 else
                   (let (ranked, h1) = rankWorkers sum64 (tr_Model req) (route_prompt rq prompt) h;
                        ((resp, av), h2, e2) =
                          admit_then (wd_err_text W) (tr_Model req) ranked
                            (text_dispatch W wr rq req prompt) h1 e in
                    (resp, log_duration ''completions'' (tr_Model req) (tr_Stream req) av h2, e2))))"

section \<open>Frame conditions\<close>

text \<open>What a part of a handler leaves alone: the counters, the metrics and the audit log.\<close>

definition same_books :: "Handler \<Rightarrow> Handler \<Rightarrow> bool" where
  "same_books h h' \<longleftrightarrow> gh_tracker h' = gh_tracker h \<and> gh_metrics h' = gh_metrics h \<and> gh_audit h' = gh_audit h
     \<and> gh_tracking h' = gh_tracking h \<and> gh_admissionLimit h' = gh_admissionLimit h"

lemma same_books_refl [simp]: "same_books h h"
  by (simp add: same_books_def)

lemma same_books_trans: "same_books a b \<Longrightarrow> same_books b c \<Longrightarrow> same_books a c"
  by (simp add: same_books_def)

lemma SelectWorkers_inflight: "se_inflight (snd (SelectWorkers sum64 s model prompt l)) = se_inflight s"
  by (simp add: SelectWorkers_def Let_def split: option.split sum.split prod.split)

lemma SelectWorker_inflight: "se_inflight (snd (SelectWorker sum64 s model prompt)) = se_inflight s"
  using SelectWorkers_inflight [of sum64 s model prompt 1]
  by (auto simp: SelectWorker_def split: prod.splits sum.splits list.splits)

lemma waitForCapacity_inflight:
  "se_inflight (snd (waitForCapacity sum64 model prompt c vs le s)) = se_inflight s"
proof (induction vs arbitrary: le s)
  case (Cons v vs)
  obtain r s' where a: "SelectWorker sum64 (s\<lparr>se_holder := v\<rparr>) model prompt = (r, s')" using prod.exhaust by blast
  have "se_inflight s' = se_inflight s" using SelectWorker_inflight [of sum64 "s\<lparr>se_holder := v\<rparr>" model prompt] a by simp
  with a Cons.IH show ?case by (auto split: outcome.splits sum.splits)
qed simp

lemma rankWorkers_books: "same_books h (snd (rankWorkers sum64 model prompt h))"
  using SelectWorkers_inflight [of sum64 "gh_selector h" model prompt "gh_maxAttempts h"]
  by (auto simp: rankWorkers_def same_books_def split: prod.splits)

lemma tryActivate_books: "same_books h (snd (tryActivate sum64 act model h))"
  using waitForCapacity_inflight [of sum64 model "''''" "ac_ctx act" "ac_views act" None "gh_selector h"]
  by (auto simp: tryActivate_def same_books_def split: prod.splits outcome.splits sum.splits)

lemma chat_select_books: "same_books h (snd (chat_select sum64 act model prompt h))"
proof -
  obtain r h1 where r: "rankWorkers sum64 model prompt h = (r, h1)" by fastforce
  obtain t h2 where t: "tryActivate sum64 act model h1 = (t, h2)" by fastforce
  have 1: "same_books h h1" using rankWorkers_books [of h sum64 model prompt] r by simp
  have 2: "same_books h h2" using same_books_trans [OF 1] tryActivate_books [of h1 sum64 act model] t by simp
  have 3: "same_books h (snd (rankWorkers sum64 model prompt h2))" by (rule same_books_trans [OF 2 rankWorkers_books])
  show ?thesis using r t 1 2 3
    by (auto simp: chat_select_def split: sum.splits outcome.splits bool.splits prod.splits)
qed

lemma observeLatency_books [simp]: "same_books h (observeLatency w a b h)"
  by (simp add: observeLatency_def same_books_def)

lemma failover_books: "same_books h h' \<Longrightarrow> same_books h (h'\<lparr>gh_failover := fo\<rparr>)"
  by (simp add: same_books_def)

lemma stream_answer_books: "same_books h (fst (snd (stream_answer et rq r h)))"
proof -
  obtain res out fo e where r: "r = ((res, out), fo, e)" by (metis prod.exhaust)
  have f: "same_books h (h\<lparr>gh_failover := fo\<rparr>)" by (simp add: same_books_def)
  have "same_books h (observeLatency w a b (h\<lparr>gh_failover := fo\<rparr>))" for w a b
    using same_books_trans [OF f observeLatency_books] .
  with f show ?thesis
    by (auto simp: stream_answer_def r Let_def split: outcome.splits prod.splits option.splits)
qed

lemma collect_answer_books: "same_books h (fst (snd (collect_answer mk et rq r h)))"
proof -
  obtain body u finish used err fo e where r: "r = (((body, u, finish), used, err), fo, e)" by (metis prod.exhaust)
  have f: "same_books h (h\<lparr>gh_failover := fo\<rparr>)" by (simp add: same_books_def)
  have "same_books h (observeLatency w a b (h\<lparr>gh_failover := fo\<rparr>))" for w a b
    using same_books_trans [OF f observeLatency_books] .
  with f show ?thesis
    by (auto simp: collect_answer_def r Let_def split: option.splits prod.splits)
qed

section \<open>Admission lemmas\<close>

abbreviation load :: "Handler \<Rightarrow> string \<Rightarrow> int" where
  "load h \<equiv> Inflight_Get (gh_tracker h)"

lemma TryTrack_refused:
  assumes "TryTrack t w l = (None, t')"
  shows "0 < l \<and> l \<le> Inflight_Get t w \<and> Inflight_Get t' = Inflight_Get t"
proof -
  have "Inflight_Get (t(w \<mapsto> 0)) = Inflight_Get t" if "t w = None"
    using that by (simp add: Inflight_Get_def fun_eq_iff)
  with assms show ?thesis
    by (cases "t w") (auto simp: TryTrack_def Track_def counter_def Inflight_Get_def split: if_splits)
qed

lemma TryTrack_admitted:
  assumes "TryTrack t w l = (Some k, t')"
  shows "k = (w, False) \<and> (0 < l \<longrightarrow> Inflight_Get t w < l)
    \<and> Inflight_Get t' = (Inflight_Get t)(w := Inflight_Get t w + 1)"
proof -
  have "Inflight_Get (t(w \<mapsto> n)) = (Inflight_Get t)(w := n)" for n by (simp add: Inflight_Get_def fun_eq_iff)
  with assms show ?thesis
    by (cases "t w") (auto simp: TryTrack_def Track_def Inc_def counter_def Inflight_Get_def split: if_splits)
qed

lemma set_tracker_simps [simp]:
  "gh_tracker (set_tracker t h) = t" "gh_metrics (set_tracker t h) = gh_metrics h"
  "gh_audit (set_tracker t h) = gh_audit h" "gh_tracking (set_tracker t h) = gh_tracking h"
  "gh_admissionLimit (set_tracker t h) = gh_admissionLimit h"
  by (simp_all add: set_tracker_def)

lemma log_metric_simps [simp]:
  "gh_selector (log_metric m h) = gh_selector h" "gh_metrics (log_metric m h) = gh_metrics h @ [m]"
  "gh_audit (log_metric m h) = gh_audit h" "gh_tracking (log_metric m h) = gh_tracking h"
  "gh_admissionLimit (log_metric m h) = gh_admissionLimit h"
  by (simp_all add: log_metric_def)

text \<open>
  The result of an admission: refused, with every counter as it was and full; or granted to the
  first worker with room, which is then tried first, with only its counter moved.
\<close>

definition admission_spec ::
  "Handler \<Rightarrow> SelectedWorker list \<Rightarrow> SelectedWorker list \<Rightarrow> (SelectedWorker list \<times> handle option) option \<times> Handler \<Rightarrow> bool" where
  "admission_spec h before workers r \<longleftrightarrow>
     (case r of
        (None, h') \<Rightarrow> (\<forall>w \<in> set workers. gh_admissionLimit h \<le> load h (sw_ID w)) \<and> load h' = load h
          \<and> gh_metrics h' = gh_metrics h \<and> gh_audit h' = gh_audit h
      | (Some (ordered, k), h') \<Rightarrow>
          (\<exists>pre w post. workers = pre @ w # post \<and> ordered = w # before @ pre @ post \<and> k = Some (sw_ID w, False)
             \<and> (\<forall>x \<in> set pre. gh_admissionLimit h \<le> load h (sw_ID x)) \<and> load h (sw_ID w) < gh_admissionLimit h
             \<and> load h' = (load h)(sw_ID w := load h (sw_ID w) + 1)
             \<and> gh_metrics h' = gh_metrics h @ [MInflight (sw_ID w) (load h (sw_ID w) + 1)] \<and> gh_audit h' = gh_audit h))"

lemma admit_loop_spec:
  assumes "gh_tracking h" and "0 < gh_admissionLimit h"
  shows "admission_spec h before ws (admit_loop before ws h)"
  using assms
proof (induction ws arbitrary: before h)
  case Nil
  show ?case by (simp add: admission_spec_def)
next
  case (Cons w ws)
  obtain k t where tt: "TryTrack (gh_tracker h) (sw_ID w) (gh_admissionLimit h) = (k, t)" by fastforce
  show ?case
  proof (cases k)
    case None
    note r = TryTrack_refused [OF tt [unfolded None]]
    let ?h = "set_tracker t h"
    from Cons.IH [of ?h "before @ [w]"] Cons.prems have IH: "admission_spec ?h (before @ [w]) ws (admit_loop (before @ [w]) ws ?h)"
      by simp
    have e: "admit_loop before (w # ws) h = admit_loop (before @ [w]) ws ?h"
      using Cons.prems tt None by (simp add: tryAdmit_def)
    show ?thesis
    proof (cases "fst (admit_loop (before @ [w]) ws ?h)")
      case None
      with IH r e show ?thesis by (auto simp: admission_spec_def split: prod.splits)
    next
      case (Some x)
      then obtain ordered k' h' where a: "admit_loop (before @ [w]) ws ?h = (Some (ordered, k'), h')"
        by (metis prod.collapse)
      with IH obtain pre v post where "ws = pre @ v # post" "ordered = v # (before @ [w]) @ pre @ post" "k' = Some (sw_ID v, False)"
        "\<forall>x \<in> set pre. gh_admissionLimit h \<le> load h (sw_ID x)" "load h (sw_ID v) < gh_admissionLimit h"
        "load h' = (load h)(sw_ID v := load h (sw_ID v) + 1)"
        "gh_metrics h' = gh_metrics h @ [MInflight (sw_ID v) (load h (sw_ID v) + 1)]" "gh_audit h' = gh_audit h"
        using r by (auto simp: admission_spec_def)
      with r show ?thesis
        unfolding e a admission_spec_def prod.case option.case
        by (intro exI [of _ "w # pre"] exI [of _ v] exI [of _ post]) auto
    qed
  next
    case (Some k')
    have e: "admit_loop before (w # ws) h
        = (Some (w # before @ ws, Some k'), set_inflight_metric (sw_ID w) (set_tracker t h))"
      using Cons.prems tt Some by (simp add: tryAdmit_def)
    from TryTrack_admitted [OF tt [unfolded Some]] Cons.prems show ?thesis
      unfolding e admission_spec_def prod.case option.case
      by (intro exI [of _ "[]"] exI [of _ w] exI [of _ ws]) (simp add: set_inflight_metric_def)
  qed
qed

text \<open>The states a running gateway is in: a positive limit and no negative counter.\<close>

definition handler_ok :: "Handler \<Rightarrow> bool" where
  "handler_ok h \<longleftrightarrow> 0 < gh_admissionLimit h \<and> (\<forall>w. 0 \<le> load h w)"

lemma NewHandler_ok [forge_inv]:
  "\<forall>w. 0 \<le> Inflight_Get (se_inflight sel) w \<Longrightarrow> handler_ok (NewHandler sel tr ob fo l ra n)"
  by (simp add: handler_ok_def NewHandler_def)

lemma same_books_ok: "same_books h h' \<Longrightarrow> handler_ok h \<Longrightarrow> handler_ok h'"
  by (simp add: same_books_def handler_ok_def)

definition decision :: "metric_event \<Rightarrow> bool" where
  "decision m = (case m of MAdmitted _ \<Rightarrow> True | MRejected _ _ \<Rightarrow> True | _ \<Rightarrow> False)"

text \<open>What a request books: its counters are back, one decision is counted and nothing else but gauges.\<close>

definition booked :: "Handler \<Rightarrow> Handler \<Rightarrow> bool" where
  "booked h h' \<longleftrightarrow>
     load h' = load h \<and> gh_audit h' = gh_audit h
     \<and> (\<exists>ms. gh_metrics h' = gh_metrics h @ ms \<and> length (filter decision ms) = 1
          \<and> (\<forall>m \<in> set ms. decision m \<or> (\<exists>w n. m = MInflight w n)))"

lemma release_admission_books:
  assumes "k = Some (w, False)" and "0 < load h w"
  shows "load (release_admission k h) = (load h)(w := load h w - 1)"
    and "gh_audit (release_admission k h) = gh_audit h"
    and "gh_metrics (release_admission k h) = gh_metrics h @ [MInflight w (load h w - 1)]"
proof -
  have d: "Inflight_Get (Dec (gh_tracker h) w) = (load h)(w := load h w - 1)"
    by (rule inflight.release_open [OF assms(2)])
  show "load (release_admission k h) = (load h)(w := load h w - 1)"
    and "gh_audit (release_admission k h) = gh_audit h"
    and "gh_metrics (release_admission k h) = gh_metrics h @ [MInflight w (load h w - 1)]"
    using d by (simp_all add: release_admission_def assms(1) done_handle_def set_inflight_metric_def)
qed

lemma select_failed_booked:
  assumes "select_failed et model err h = (resp, h')"
  shows "booked h h' \<and> http_status resp \<in> {404, 429, 503}"
  using assms
  by (cases err)
    (auto simp: select_failed_def selectErrorStatus_def writeAdmissionRejected_def booked_def decision_def)

lemma admit_then_booked:
  assumes ok: "handler_ok h" and k: "\<And>ws h e. same_books h (fst (snd (k ws h e)))"
  shows "booked h (fst (snd (admit_then et model ranked k h e)))"
proof (cases ranked)
  case (Inl err)
  obtain resp h' where "select_failed et model err h = (resp, h')" by fastforce
  with select_failed_booked [OF this] Inl show ?thesis by (simp add: admit_then_def)
next
  case (Inr workers)
  obtain adm h' where a: "admitFromRanked workers h = (adm, h')" by fastforce
  let ?h2 = "log_metric (MAdmitted model) h'"
  have kb: "same_books ?h2 (fst (snd (k ws ?h2 e)))" for ws by (rule k)
  show ?thesis
  proof (cases adm)
    case None
    have "load h' = load h \<and> gh_metrics h' = gh_metrics h \<and> gh_audit h' = gh_audit h"
      using a None ok admit_loop_spec [of h "[]" workers]
      by (auto simp: admitFromRanked_def admission_spec_def handler_ok_def split: if_splits)
    with a None Inr show ?thesis by (auto simp: admit_then_def booked_def decision_def)
  next
    case (Some x)
    obtain ordered d where x: "x = (ordered, d)" by fastforce
    have res: "fst (snd (admit_then et model ranked k h e)) = release_admission d (fst (snd (k ordered ?h2 e)))"
      using a Some x Inr by (simp add: admit_then_def split: prod.splits)
    show ?thesis
    proof (cases "gh_tracking h")
      case False
      with a Some x have "d = None" "h' = h" by (auto simp: admitFromRanked_def split: if_splits)
      with kb [of ordered] show ?thesis
        unfolding res by (auto simp: booked_def same_books_def release_admission_def decision_def)
    next
      case True
      with a Some x ok admit_loop_spec [of h "[]" workers] have "admission_spec h [] workers (adm, h')"
        by (auto simp: admitFromRanked_def handler_ok_def split: if_splits)
      with Some x obtain i where w: "d = Some (i, False)"
        "load h' = (load h)(i := load h i + 1)"
        "gh_metrics h' = gh_metrics h @ [MInflight i (load h i + 1)]" "gh_audit h' = gh_audit h"
        by (auto simp: admission_spec_def)
      let ?h3 = "fst (snd (k ordered ?h2 e))"
      have l3: "load ?h3 = (load h)(i := load h i + 1)"
        using kb [of ordered] w by (simp add: same_books_def)
      have "0 < load ?h3 i" using l3 ok by (simp add: handler_ok_def add_nonneg_pos)
      from release_admission_books [OF w(1) this] l3 w kb [of ordered] show ?thesis
        unfolding res by (auto simp: booked_def same_books_def decision_def)
    qed
  qed
qed

section \<open>The recorded status\<close>

definition status_recorded :: "response outcome \<times> audit_vars \<Rightarrow> bool" where
  "status_recorded r \<longleftrightarrow> (\<forall>resp. fst r = Ret resp \<longrightarrow> av_status (snd r) = http_status resp)"

lemma stream_answer_status: "status_recorded (fst (stream_answer et rq r h))"
  by (auto simp: stream_answer_def status_recorded_def audit0_def Let_def
      split: prod.splits outcome.splits option.splits)

lemma collect_answer_status:
  "(\<And>a b c. http_status (mk a b c) = 200) \<Longrightarrow> status_recorded (fst (collect_answer mk et rq r h))"
  by (auto simp: collect_answer_def status_recorded_def audit0_def Let_def split: prod.splits option.splits)

lemma chat_dispatch_frame:
  "same_books h (fst (snd (chat_dispatch W wr rq req ws h e)))"
  "status_recorded (fst (chat_dispatch W wr rq req ws h e))"
  by (simp_all add: chat_dispatch_def Let_def stream_answer_books collect_answer_books stream_answer_status
      collect_answer_status)

lemma text_dispatch_frame:
  "same_books h (fst (snd (text_dispatch W wr rq req prompt ws h e)))"
  "status_recorded (fst (text_dispatch W wr rq req prompt ws h e))"
  by (simp_all add: text_dispatch_def Let_def stream_answer_books collect_answer_books stream_answer_status
      collect_answer_status)

lemma admit_then_status:
  assumes "\<And>ws h e. status_recorded (fst (k ws h e))" and "admit_then et model ranked k h e = ((Ret resp, av), h', e')"
  shows "case ranked of
      Inl err \<Rightarrow> av_status av = 200 \<and> av_error av = et err \<and> http_status resp \<in> {404, 429, 503}
    | Inr _ \<Rightarrow> av_status av = http_status resp"
proof (cases ranked)
  case (Inl err)
  obtain r h1 where s: "select_failed et model err h = (r, h1)" by fastforce
  with select_failed_booked [OF s] assms(2) Inl show ?thesis by (auto simp: admit_then_def audit0_def)
next
  case (Inr workers)
  show ?thesis
  proof (cases "fst (admitFromRanked workers h)")
    case None
    with assms(2) Inr show ?thesis
      by (auto simp: admit_then_def audit0_def writeAdmissionRejected_def split: prod.splits)
  next
    case (Some x)
    then obtain ordered d h1 where a: "admitFromRanked workers h = (Some (ordered, d), h1)" by (metis prod.collapse)
    with assms(2) Inr have "fst (k ordered (log_metric (MAdmitted model) h1) e) = (Ret resp, av)"
      by (auto simp: admit_then_def split: prod.splits)
    with assms(1) [of ordered "log_metric (MAdmitted model) h1" e] Inr show ?thesis by (simp add: status_recorded_def)
  qed
qed

lemma booked_after: "same_books h h1 \<Longrightarrow> booked h1 h2 \<Longrightarrow> booked h h2"
  by (auto simp: same_books_def booked_def)

lemma log_simps [simp]:
  "gh_selector (log_audit rq m st av h) = gh_selector h" "gh_metrics (log_audit rq m st av h) = gh_metrics h"
  "gh_selector (log_duration r m st av h) = gh_selector h" "gh_audit (log_duration r m st av h) = gh_audit h"
  "gh_metrics (log_duration r m st av h) = gh_metrics h @ [MDuration r m st (av_status av)]"
  by (simp_all add: log_audit_def log_duration_def)

text \<open>A valid chat request, from its selection on.\<close>

lemma chatCompletions_valid:
  assumes "cr_Model req \<noteq> ''''" and "cr_Messages req \<noteq> []" and "handler_ok h"
    and "chat_select sum64 act (cr_Model req) (route_prompt rq (messagesToPrompt (cr_Messages req))) h = (Ret ranked, h1)"
  obtains resp av h2 e2 where "booked h h2"
    and "admit_then (wd_err_text W) (cr_Model req) ranked (chat_dispatch W wr rq req) h1 e = ((resp, av), h2, e2)"
    and "chatCompletions sum64 W wr act rq (Inr req) h e
      = (resp, log_audit rq (cr_Model req) (cr_Stream req) av
           (log_duration ''chat_completions'' (cr_Model req) (cr_Stream req) av h2), e2)"
proof -
  have b: "same_books h h1"
    using chat_select_books [of h sum64 act "cr_Model req" "route_prompt rq (messagesToPrompt (cr_Messages req))"] assms(4)
    by simp
  obtain resp av h2 e2 where a:
    "admit_then (wd_err_text W) (cr_Model req) ranked (chat_dispatch W wr rq req) h1 e = ((resp, av), h2, e2)"
    by (metis prod.exhaust)
  have "booked h1 h2"
    using admit_then_booked [where k = "chat_dispatch W wr rq req", OF same_books_ok [OF b assms(3)] chat_dispatch_frame(1),
        of "wd_err_text W" "cr_Model req" ranked e] a by simp
  with b have "booked h h2" by (rule booked_after)
  with that [OF this a] a assms show ?thesis by (simp add: chatCompletions_def Let_def)
qed

section \<open>Properties\<close>

text \<open>
  C1. Every request gives back what it took: whatever the workers, the writer and the activation do,
  after either handler returns or panics the in-flight counter of every worker is what it was.
\<close>

theorem inflight_restored:
  assumes "handler_ok h"
  shows "load (fst (snd (chatCompletions sum64 W wr act rq bind h e))) = load h
   \<and> load (fst (snd (completions sum64 W wr rq bind' h e))) = load h"
proof
  show "load (fst (snd (chatCompletions sum64 W wr act rq bind h e))) = load h"
  proof (cases bind)
    case (Inl err)
    then show ?thesis by (simp add: chatCompletions_def)
  next
    case (Inr req)
    let ?sel = "chat_select sum64 act (cr_Model req) (route_prompt rq (messagesToPrompt (cr_Messages req))) h"
    obtain r h1 where sel: "?sel = (r, h1)" by fastforce
    have b: "same_books h h1"
      using chat_select_books [of h sum64 act "cr_Model req" "route_prompt rq (messagesToPrompt (cr_Messages req))"] sel
      by simp
    show ?thesis
    proof (cases "cr_Model req = '''' \<or> cr_Messages req = []")
      case True
      with Inr show ?thesis by (auto simp: chatCompletions_def)
    next
      case False
      show ?thesis
      proof (cases r)
        case Panic
        with Inr False sel b show ?thesis by (simp add: chatCompletions_def Let_def same_books_def)
      next
        case (Ret ranked)
        from False have v: "cr_Model req \<noteq> ''''" "cr_Messages req \<noteq> []" by simp_all
        show ?thesis
          by (rule chatCompletions_valid [OF v assms sel [unfolded Ret], of W wr e]) (simp add: Inr booked_def)
      qed
    qed
  qed
  show "load (fst (snd (completions sum64 W wr rq bind' h e))) = load h"
  proof (cases "\<exists>req prompt. bind' = Inr req \<and> tr_Model req \<noteq> '''' \<and> promptFromCompletions (tr_Prompt req) = Inr prompt
      \<and> prompt \<noteq> ''''")
    case False
    then show ?thesis by (auto simp: completions_def split: sum.split)
  next
    case True
    then obtain req prompt where v: "bind' = Inr req" "tr_Model req \<noteq> ''''"
      "promptFromCompletions (tr_Prompt req) = Inr prompt" "prompt \<noteq> ''''" by blast
    obtain ranked h1 where r: "rankWorkers sum64 (tr_Model req) (route_prompt rq prompt) h = (ranked, h1)" by fastforce
    have b: "same_books h h1" using rankWorkers_books [of h sum64 "tr_Model req" "route_prompt rq prompt"] r by simp
    from admit_then_booked [where k = "text_dispatch W wr rq req prompt", OF same_books_ok [OF b assms] text_dispatch_frame(1),
        of "wd_err_text W" "tr_Model req" ranked e] b v r show ?thesis
      by (auto simp: completions_def booked_def same_books_def Let_def split: prod.splits)
  qed
qed

definition demo_handler :: Handler where
  "demo_handler = NewHandler (demo_selector\<lparr>se_holder := None, se_inflight := [''a'' \<mapsto> 4]\<rparr>) True True None 0 0 0"

definition demo_chat :: chatCompletionRequest where
  "demo_chat =
     \<lparr>cr_Model = ''m'', cr_Messages = [\<lparr>cm_Role = ''user'', cm_Content = ''hi''\<rparr>], cr_Stream = False,
      cr_Temperature = None, cr_TopP = None, cr_MaxTokens = None, cr_MaxCompletionTokens = None, cr_IncludeUsage = None\<rparr>"

definition demo_env :: request_env where
  "demo_env = \<lparr>rq_affinity = '''', rq_id = ''r1'', rq_client = None, rq_completionID = ''c1'', rq_created = 0,
     rq_start = 0, rq_now = 5000000\<rparr>"

definition demo_act :: activation where
  "demo_act = \<lparr>ac_needs = False, ac_error = None, ac_views = [], ac_ctx = None\<rparr>"

lemma demo_handler_ok: "handler_ok demo_handler"
  unfolding demo_handler_def by (rule NewHandler_ok) (simp add: Inflight_Get_def)

theorem inflight_restored_witness:
  "load (fst (snd (chatCompletions (\<lambda>_. 0) demo_world (\<lambda>_. True) demo_act demo_env (Inr demo_chat) demo_handler 0))) ''a'' = 4"
  using inflight_restored [OF demo_handler_ok, of "\<lambda>_. 0" demo_world "\<lambda>_. True" demo_act demo_env "Inr demo_chat" 0 "Inl EOF"]
  by (simp add: demo_handler_def NewHandler_def Inflight_Get_def)

text \<open>
  Admission by rank: a request is refused only when every ranked worker is at the limit, and
  then no counter moves; otherwise it goes to the first ranked worker below the limit, which is put
  first with the others in order behind it, and only that worker's counter grows, by one.
\<close>

theorem admit_first_free:
  assumes "gh_tracking h" and "0 < gh_admissionLimit h" and "workers \<noteq> []"
  shows "case admitFromRanked workers h of
      (None, h') \<Rightarrow> (\<forall>w \<in> set workers. gh_admissionLimit h \<le> load h (sw_ID w)) \<and> load h' = load h
    | (Some (ordered, k), h') \<Rightarrow>
        (\<exists>pre w post. workers = pre @ w # post \<and> ordered = w # pre @ post \<and> k = Some (sw_ID w, False)
           \<and> (\<forall>x \<in> set pre. gh_admissionLimit h \<le> load h (sw_ID x)) \<and> load h (sw_ID w) < gh_admissionLimit h
           \<and> load h' = (load h)(sw_ID w := load h (sw_ID w) + 1))"
proof -
  obtain r h' where a: "admitFromRanked workers h = (r, h')" by fastforce
  with admit_loop_spec [OF assms(1,2), of "[]" workers] assms have "admission_spec h [] workers (r, h')"
    by (simp add: admitFromRanked_def)
  then show ?thesis unfolding a by (auto simp: admission_spec_def split: option.splits)
qed

theorem admit_first_free_witness:
  "fst (admitFromRanked [demo_selected ''a'', demo_selected ''b''] demo_handler)
   = Some ([demo_selected ''b'', demo_selected ''a''], Some (''b'', False))"
  using admit_first_free [of demo_handler "[demo_selected ''a'', demo_selected ''b'']"]
  by (auto simp: demo_handler_def NewHandler_def demo_selected_def Inflight_Get_def Cons_eq_append_conv
      split: option.splits prod.splits)

text \<open>A chat request the handler goes on with: its body was decoded and has a model and messages.\<close>

fun chat_valid :: "goerr + chatCompletionRequest \<Rightarrow> bool" where
  "chat_valid (Inl _) = False"
| "chat_valid (Inr req) \<longleftrightarrow> cr_Model req \<noteq> '''' \<and> cr_Messages req \<noteq> []"

lemma chat_booked:
  assumes "handler_ok h" and "cr_Model req \<noteq> ''''" and "cr_Messages req \<noteq> []"
    and "chat_select sum64 act (cr_Model req) (route_prompt rq (messagesToPrompt (cr_Messages req))) h = (Ret ranked, h1)"
    and "chatCompletions sum64 W wr act rq (Inr req) h e = (Ret resp, h', e')"
  shows "\<exists>ms a. gh_metrics h' = gh_metrics h @ ms
            @ [MDuration ''chat_completions'' (cr_Model req) (cr_Stream req) (au_Status a)]
     \<and> length (filter decision ms) = 1 \<and> (\<forall>m \<in> set ms. decision m \<or> (\<exists>w n. m = MInflight w n))
     \<and> gh_audit h' = gh_audit h @ [a] \<and> au_Model a = cr_Model req
     \<and> (case ranked of
          Inr _ \<Rightarrow> au_Status a = http_status resp
        | Inl err \<Rightarrow> au_Status a = 200 \<and> au_Error a = wd_err_text W err \<and> http_status resp \<in> {404, 429, 503})"
proof -
  obtain resp' av h2 e2 where v: "booked h h2"
    "admit_then (wd_err_text W) (cr_Model req) ranked (chat_dispatch W wr rq req) h1 e = ((resp', av), h2, e2)"
    "chatCompletions sum64 W wr act rq (Inr req) h e
      = (resp', log_audit rq (cr_Model req) (cr_Stream req) av
           (log_duration ''chat_completions'' (cr_Model req) (cr_Stream req) av h2), e2)"
    by (rule chatCompletions_valid [OF assms(2,3,1,4), of W wr e]) blast
  with assms(5) have r: "resp' = Ret resp"
    "h' = log_audit rq (cr_Model req) (cr_Stream req) av
       (log_duration ''chat_completions'' (cr_Model req) (cr_Stream req) av h2)" by simp_all
  from admit_then_status [OF chat_dispatch_frame(2) v(2) [unfolded r(1)]] v(1) show ?thesis
    unfolding r(2) by (auto simp: booked_def log_audit_def split: sum.splits)
qed

text \<open>
  C24. What is booked of a chat request that is answered. One whose body cannot be decoded, or has no model or no messages, gets 400
  and leaves no trace: no counter, no duration, no audit record. Every other is booked once: one admission or rejection,
  one duration and one audit record, the latter two with the same status. That status is the one the client got,
  except after a failed selection: then the client gets 404, 429 or 503 and both records say 200.
\<close>

theorem request_accounting:
  assumes "handler_ok h" and "chatCompletions sum64 W wr act rq bind h e = (Ret resp, h', e')"
  shows "if chat_valid bind
     then \<exists>req ranked h1 ms a. bind = Inr req
       \<and> chat_select sum64 act (cr_Model req) (route_prompt rq (messagesToPrompt (cr_Messages req))) h = (Ret ranked, h1)
       \<and> gh_metrics h' = gh_metrics h @ ms @ [MDuration ''chat_completions'' (cr_Model req) (cr_Stream req) (au_Status a)]
       \<and> length (filter decision ms) = 1 \<and> (\<forall>m \<in> set ms. decision m \<or> (\<exists>w n. m = MInflight w n))
       \<and> gh_audit h' = gh_audit h @ [a] \<and> au_Model a = cr_Model req
       \<and> (case ranked of
            Inr _ \<Rightarrow> au_Status a = http_status resp
          | Inl err \<Rightarrow> au_Status a = 200 \<and> au_Error a = wd_err_text W err \<and> http_status resp \<in> {404, 429, 503})
     else http_status resp = 400 \<and> h' = h \<and> e' = e"
proof (cases "chat_valid bind")
  case True
  then obtain req where b: "bind = Inr req" "cr_Model req \<noteq> ''''" "cr_Messages req \<noteq> []" by (cases bind) auto
  obtain r h1 where sel: "chat_select sum64 act (cr_Model req) (route_prompt rq (messagesToPrompt (cr_Messages req))) h = (r, h1)"
    by (metis prod.exhaust)
  then obtain ranked where r: "r = Ret ranked"
    using assms(2) b by (cases r) (auto simp: chatCompletions_def Let_def)
  with chat_booked [OF assms(1) b(2,3) sel [unfolded r] assms(2) [unfolded b(1)]] True b sel show ?thesis by simp
next
  case False
  then show ?thesis using assms(2) by (cases bind) (auto simp: chatCompletions_def bad_request_def split: if_splits)
qed

lemma demo_chat_select:
  "chat_select (\<lambda>_. 0) demo_act (cr_Model demo_chat) prompt demo_handler = (Ret (Inl ErrNoSnapshot), demo_handler)"
  by (simp add: chat_select_def rankWorkers_def SelectWorkers_def tryActivate_def demo_handler_def NewHandler_def demo_act_def)

theorem request_accounting_witness:
  "\<exists>h' e' a. chatCompletions (\<lambda>_. 0) demo_world (\<lambda>_. True) demo_act demo_env (Inr demo_chat) demo_handler 0
     = (Ret (RError 503 '''' ''server_error'' ''no_snapshot''), h', e')
   \<and> gh_audit h' = [a] \<and> length (gh_metrics h') > 1"
proof -
  obtain h' e' where run: "chatCompletions (\<lambda>_. 0) demo_world (\<lambda>_. True) demo_act demo_env (Inr demo_chat) demo_handler 0
     = (Ret (RError 503 '''' ''server_error'' ''no_snapshot''), h', e')"
    using demo_chat_select
    by (simp add: chatCompletions_def Let_def demo_chat_def admit_then_def select_failed_def selectErrorStatus_def
        demo_world_def)
  have "chat_valid (Inr demo_chat)" by (simp add: demo_chat_def)
  with request_accounting [OF demo_handler_ok run] obtain ms a d where
    "gh_audit h' = gh_audit demo_handler @ [a]" "gh_metrics h' = gh_metrics demo_handler @ ms @ [d]" "length (filter decision ms) = 1"
    by auto
  moreover from this(3) have "ms \<noteq> []" by auto
  ultimately show ?thesis using run by (auto simp: demo_handler_def NewHandler_def)
qed

end
