(* ===== verification/Planner.thy ===== *)
theory Planner
  imports Routing
begin

text \<open>
  The planner of \<open>services/planner\<close>: the objective store, the scoring of the workers of each model, the
  policy store over the database and Redis, and the planning tick that numbers policies and hands
  them to the gateway's policy holder. Databases and Redis answer through arguments; the digest of
  the objective is the function \<open>sha8\<close>. Wall-clock times and the decision rows' ids are not kept.
\<close>

section \<open>Objectives\<close>

record Objective =
  ob_ID :: nat
  ob_TargetTTFTMs :: real
  ob_TargetTPOTMs :: real
  ob_MaxCostPerHour :: real
  ob_WeightLoad :: real
  ob_WeightLatency :: real
  ob_WeightCost :: real
  ob_WeightAffinity :: real
  ob_EvalIntervalSec :: int

definition DefaultObjective :: Objective where
  "DefaultObjective =
     \<lparr>ob_ID = 0, ob_TargetTTFTMs = 800, ob_TargetTPOTMs = 50, ob_MaxCostPerHour = 0, ob_WeightLoad = 1 / 2,
      ob_WeightLatency = 1 / 5, ob_WeightCost = 1 / 5, ob_WeightAffinity = 1 / 10, ob_EvalIntervalSec = 45\<rparr>"

text \<open>
  The store: the rows of \<open>planner_objectives\<close> when there is a database, and the objective in use.
  \<open>fresh\<close> is the id the database gives a new row. A failing call of the database is \<open>Some\<close> error.
\<close>

record ObjectiveStore =
  os_rows :: "Objective list option"
  os_cur :: Objective

fun newest_row :: "Objective list \<Rightarrow> Objective option" where
  "newest_row [] = None"
| "newest_row (o1 # os) =
     (case newest_row os of None \<Rightarrow> Some o1 | Some o2 \<Rightarrow> Some (if ob_ID o1 \<ge> ob_ID o2 then o1 else o2))"

definition Objective_Reload ::
  "goerr option \<Rightarrow> goerr option \<Rightarrow> nat \<Rightarrow> ObjectiveStore \<Rightarrow> goerr option \<times> ObjectiveStore" where
  "Objective_Reload readErr createErr fresh s =
     (case os_rows s of
        None \<Rightarrow> (None, s)
      | Some rows \<Rightarrow>
          (case readErr of
             Some e \<Rightarrow> (Some e, s)
           | None \<Rightarrow>
               (case newest_row rows of
                  Some ob \<Rightarrow> (None, s\<lparr>os_cur := ob\<rparr>)
                | None \<Rightarrow>
                    (case createErr of
                       Some e \<Rightarrow> (Some e, s)
                     | None \<Rightarrow>
                         (let ob = DefaultObjective\<lparr>ob_ID := fresh\<rparr> in
                          (None, s\<lparr>os_rows := Some (rows @ [ob]), os_cur := ob\<rparr>))))))"

definition save_objective :: "nat \<Rightarrow> Objective \<Rightarrow> Objective list \<Rightarrow> Objective list \<times> Objective" where
  "save_objective fresh ob rows =
     (if ob_ID ob = 0 then (rows @ [ob\<lparr>ob_ID := fresh\<rparr>], ob\<lparr>ob_ID := fresh\<rparr>)
      else if \<exists>r \<in> set rows. ob_ID r = ob_ID ob then (map (\<lambda>r. if ob_ID r = ob_ID ob then ob else r) rows, ob)
      else (rows @ [ob], ob))"

definition Objective_Upsert ::
  "goerr option \<Rightarrow> goerr option \<Rightarrow> nat \<Rightarrow> Objective \<Rightarrow> ObjectiveStore \<Rightarrow> goerr option \<times> ObjectiveStore" where
  "Objective_Upsert readErr saveErr fresh ob s =
     (case os_rows s of
        None \<Rightarrow> (None, s\<lparr>os_cur := ob\<rparr>)
      | Some rows \<Rightarrow>
          (let ob1 = (if ob_ID ob = 0 \<and> readErr = None then
                        (case newest_row rows of Some r \<Rightarrow> ob\<lparr>ob_ID := ob_ID r\<rparr> | None \<Rightarrow> ob) else ob) in
           case saveErr of
             Some e \<Rightarrow> (Some e, s)
           | None \<Rightarrow>
               (case save_objective fresh ob1 rows of
                  (rows', ob2) \<Rightarrow> (None, s\<lparr>os_rows := Some rows', os_cur := ob2\<rparr>))))"

section \<open>Plans\<close>

record ModelPolicy =
  mp_Weights :: "(string \<times> real) list"
  mp_Affinity :: string
  mp_ConcurrencyTarget :: int
  mp_MaxQueueDepth :: int

record PlannerPolicy =
  pp_Version :: u64
  pp_ObjectiveHash :: string
  pp_WeightLoad :: real
  pp_WeightLatency :: real
  pp_WeightCost :: real
  pp_WeightAffinity :: real
  pp_Models :: "(string \<times> ModelPolicy) list"
  pp_Reason :: string

definition clamp01 :: "real \<Rightarrow> real" where
  "clamp01 v = max 0 (min 1 v)"

definition view_load :: "WorkerView \<Rightarrow> real" where
  "view_load w = real_of_int (wv_QueueDepth w + wv_InFlight w)"

definition max_cost :: "WorkerView list \<Rightarrow> real" where
  "max_cost ws = fold (\<lambda>w m. if wv_CostPerHour w > m then wv_CostPerHour w else m) ws 0"

text \<open>
  Scores are reals. A load of exactly -1, which only a heartbeat with a negative queue depth can report, makes the load
  score \<open>+Inf\<close> in Go and the weights of the plan \<open>NaN\<close>; HOL divides by zero to zero, so the model is faithful for the other loads.
\<close>

definition worker_score :: "Objective \<Rightarrow> real \<Rightarrow> WorkerView \<Rightarrow> real" where
  "worker_score obj maxCost w =
     (let loadScore = 1 / (1 + view_load w);
          costScore = (if maxCost > 0 then 1 - wv_CostPerHour w / maxCost else 1);
          sc = ob_WeightLoad obj * loadScore + ob_WeightCost obj * costScore + ob_WeightLatency obj * 1 in
      if sc < 1 / 100 then 1 / 100 else sc)"

definition scoreWorkers :: "Objective \<Rightarrow> WorkerView list \<Rightarrow> (string \<times> real) list" where
  "scoreWorkers obj ws =
     (let mc = max_cost ws;
          (raw, total) = fold (\<lambda>w (raw, total). (AList.update (wv_ID w) (worker_score obj mc w) raw,
                                                 total + worker_score obj mc w)) ws ([], 0) in
      if total \<le> 0 then fold (\<lambda>w. AList.update (wv_ID w) (1 / real (length ws))) ws []
      else map (\<lambda>(i, sc). (i, sc / total)) raw)"

definition plannable :: "Objective \<Rightarrow> WorkerView \<Rightarrow> bool" where
  "plannable obj w \<longleftrightarrow>
     wv_Healthy w \<and> wv_Ready w \<and> wv_BaseModel w \<noteq> ''''
     \<and> \<not> (ob_MaxCostPerHour obj > 0 \<and> wv_CostPerHour w > ob_MaxCostPerHour obj)"

definition group_model ::
  "WorkerView \<Rightarrow> (string \<times> WorkerView list) list \<Rightarrow> (string \<times> WorkerView list) list" where
  "group_model w al =
     AList.update (wv_BaseModel w) ((case map_of al (wv_BaseModel w) of Some ws \<Rightarrow> ws | None \<Rightarrow> []) @ [w]) al"

definition plan :: "Objective \<Rightarrow> RoutingSnapshot option \<Rightarrow> PlannerPolicy \<times> real \<times> string" where
  "plan obj snap =
     (let wl = clamp01 (ob_WeightLoad obj); wt = clamp01 (ob_WeightLatency obj);
          wc = clamp01 (ob_WeightCost obj); wa = clamp01 (ob_WeightAffinity obj);
          (wl, wt, wc, wa) = (if wl + wt + wc + wa = 0 then (1/2, 1/5, 1/5, 1/10) else (wl, wt, wc, wa));
          p = \<lparr>pp_Version = 0, pp_ObjectiveHash = '''', pp_WeightLoad = wl, pp_WeightLatency = wt, pp_WeightCost = wc,
               pp_WeightAffinity = wa, pp_Models = [], pp_Reason = ''''\<rparr> in
      case snap of
        None \<Rightarrow> (p, 0, ''no workers; emit objective weights only'')
      | Some s \<Rightarrow>
          if rs_Workers s = [] then (p, 0, ''no workers; emit objective weights only'')
          else
            (let byModel = fold group_model (filter (plannable obj) (rs_Workers s)) [];
                 models = map (\<lambda>(m, ws). (m, \<lparr>mp_Weights = scoreWorkers obj ws, mp_Affinity = ''prefix_hash'',
                                              mp_ConcurrencyTarget = 4, mp_MaxQueueDepth = 16\<rparr>)) byModel;
                 score = sum_list (map (\<lambda>(_, mp). sum_list (map snd (mp_Weights mp))) models) in
             (p\<lparr>pp_Models := models\<rparr>, score,
              ''objective latency='' @ fmt_f 2 (ob_WeightLatency obj) @ '' cost='' @ fmt_f 2 (ob_WeightCost obj)
              @ '' load='' @ fmt_f 2 (ob_WeightLoad obj) @ '' models='' @ itoa (int (length models)))))"

definition HashObjective :: "(string \<Rightarrow> string) \<Rightarrow> Objective \<Rightarrow> string" where
  "HashObjective sha8 ob =
     sha8 (join_with ''|'' [fmt_f 0 (ob_TargetTTFTMs ob), fmt_f 0 (ob_TargetTPOTMs ob), fmt_f 2 (ob_MaxCostPerHour ob),
       fmt_f 3 (ob_WeightLoad ob), fmt_f 3 (ob_WeightLatency ob), fmt_f 3 (ob_WeightCost ob), fmt_f 3 (ob_WeightAffinity ob)])"

definition toRoutingPolicy :: "PlannerPolicy \<Rightarrow> RoutingPolicy" where
  "toRoutingPolicy p =
     \<lparr>rp_Version = pp_Version p, rp_WeightLoad = pp_WeightLoad p, rp_WeightLatency = pp_WeightLatency p,
      rp_WeightCost = pp_WeightCost p, rp_WeightAffinity = pp_WeightAffinity p,
      rp_WorkerWeights = map (\<lambda>(m, mp). (m, mp_Weights mp)) (pp_Models p)\<rparr>"

section \<open>The policy store\<close>

text \<open>
  What the store writes to: the decisions table (with its unique version), the policy key and the
  update channel; \<^const>\<open>None\<close> when the planner runs without a database or without Redis.
\<close>

record PolicyStore =
  st_decisions :: "(u64 \<times> string \<times> string \<times> real \<times> string) list option"
  st_live :: "string option option"
  st_updates :: "string list"

record store_faults =
  sf_marshal :: "goerr option"
  sf_create :: "goerr option"
  sf_set :: "goerr option"
  sf_publish :: "goerr option"

definition u64_str :: "u64 \<Rightarrow> string" where
  "u64_str v = nat_digits (unat v)"

definition Policy_Publish ::
  "(PlannerPolicy \<Rightarrow> string) \<Rightarrow> store_faults \<Rightarrow> PlannerPolicy \<Rightarrow> real \<Rightarrow> PolicyStore \<Rightarrow> goerr option \<times> PolicyStore" where
  "Policy_Publish marshal flt p score s =
     (case sf_marshal flt of
        Some e \<Rightarrow> (Some e, s)
      | None \<Rightarrow>
          (case (case st_decisions s of
                   None \<Rightarrow> (None, s)
                 | Some rows \<Rightarrow>
                     (case sf_create flt of
                        Some e \<Rightarrow> (Some e, s)
                      | None \<Rightarrow>
                          if pp_Version p \<in> fst ` set rows then (Some (PlainErr ''duplicate version''), s)
                          else (None, s\<lparr>st_decisions := Some (rows @
                            [(pp_Version p, pp_ObjectiveHash p, marshal p, score, pp_Reason p)])\<rparr>))) of
             (Some e, s1) \<Rightarrow> (Some e, s1)
           | (None, s1) \<Rightarrow>
               (case st_live s1 of
                  None \<Rightarrow> (None, s1)
                | Some _ \<Rightarrow>
                    (case sf_set flt of
                       Some e \<Rightarrow> (Some e, s1)
                     | None \<Rightarrow>
                         (let s2 = s1\<lparr>st_live := Some (Some (marshal p))\<rparr> in
                          case sf_publish flt of
                            Some e \<Rightarrow> (Some e, s2)
                          | None \<Rightarrow> (None, s2\<lparr>st_updates := st_updates s2 @ [u64_str (pp_Version p)]\<rparr>))))))"

definition LoadLive ::
  "(string \<Rightarrow> goerr + PlannerPolicy) \<Rightarrow> goerr option \<Rightarrow> PolicyStore \<Rightarrow> goerr + PlannerPolicy option" where
  "LoadLive unmarshal getErr s =
     (case st_live s of
        None \<Rightarrow> Inr None
      | Some v \<Rightarrow>
          (case getErr of
             Some e \<Rightarrow> Inl e
           | None \<Rightarrow>
               (case v of
                  None \<Rightarrow> Inr None
                | Some raw \<Rightarrow> (case unmarshal raw of Inl e \<Rightarrow> Inl e | Inr p \<Rightarrow> Inr (Some p)))))"

section \<open>The service\<close>

record PlannerService =
  ps_objectives :: ObjectiveStore
  ps_policies :: PolicyStore
  ps_out :: "RoutingPolicy option option"
  ps_version :: u64
  ps_interval :: duration

definition store_out :: "RoutingPolicy \<Rightarrow> RoutingPolicy option option \<Rightarrow> RoutingPolicy option option" where
  "store_out p h = map_option (\<lambda>cur. snd (PolicyHolder_StoreIfNewer cur (Some p))) h"

definition Planner_Start ::
  "(string \<Rightarrow> goerr + PlannerPolicy) \<Rightarrow> goerr option \<Rightarrow> PlannerService \<Rightarrow> PlannerService" where
  "Planner_Start unmarshal getErr s =
     (case LoadLive unmarshal getErr (ps_policies s) of
        Inr (Some live) \<Rightarrow>
          s\<lparr>ps_version := pp_Version live, ps_out := store_out (toRoutingPolicy live) (ps_out s)\<rparr>
      | _ \<Rightarrow> s)"

record tick_env =
  te_readErr :: "goerr option"
  te_createErr :: "goerr option"
  te_fresh :: nat
  te_snap :: "RoutingSnapshot option"
  te_faults :: store_faults

definition planner_tick ::
  "(string \<Rightarrow> string) \<Rightarrow> (PlannerPolicy \<Rightarrow> string) \<Rightarrow> tick_env \<Rightarrow> PlannerService \<Rightarrow> goerr option \<times> PlannerService" where
  "planner_tick sha8 marshal te s =
     (let objs = snd (Objective_Reload (te_readErr te) (te_createErr te) (te_fresh te) (ps_objectives s));
          obj = os_cur objs;
          s1 = s\<lparr>ps_objectives := objs,
                 ps_interval := (if ob_EvalIntervalSec obj > 0 then ob_EvalIntervalSec obj * second else ps_interval s)\<rparr>;
          (p0, score, reason) = plan obj (te_snap te);
          ver = ps_version s1 + 1;
          p = p0\<lparr>pp_Version := ver, pp_ObjectiveHash := HashObjective sha8 obj, pp_Reason := reason\<rparr>;
          s2 = s1\<lparr>ps_version := ver\<rparr> in
      case Policy_Publish marshal (te_faults te) p score (ps_policies s2) of
        (Some e, st) \<Rightarrow> (Some e, s2\<lparr>ps_policies := st\<rparr>)
      | (None, st) \<Rightarrow> (None, s2\<lparr>ps_policies := st, ps_out := store_out (toRoutingPolicy p) (ps_out s2)\<rparr>))"

section \<open>Scores\<close>

lemma worker_score_pos: "1 / 100 \<le> worker_score obj mc w"
  by (simp add: worker_score_def Let_def)

lemma worker_score_gt0 [simp]: "0 < worker_score obj mc w"
  using worker_score_pos [of obj mc w] by linarith

lemma score_fold:
  fixes t :: real
  shows "fold (\<lambda>w (raw, total). (AList.update (wv_ID w) (f w) raw, total + f w)) ws (al, t)
   = (fold (\<lambda>w. AList.update (wv_ID w) (f w)) ws al, t + sum_list (map f ws))"
  by (induction ws arbitrary: al t) (simp_all add: add.assoc)

lemma total_score_pos:
  assumes "ws \<noteq> []"
  shows "0 < sum_list (map (worker_score obj mc) ws)"
proof -
  obtain w ws' where "ws = w # ws'" using assms by (cases ws) auto
  moreover have "0 \<le> sum_list (map (worker_score obj mc) ws')"
    by (rule sum_list_nonneg) (auto simp: less_imp_le)
  ultimately show ?thesis using worker_score_pos [of obj mc w] by simp
qed

lemma scoreWorkers_nonempty:
  assumes "ws \<noteq> []"
  shows "scoreWorkers obj ws = map (\<lambda>(i, sc). (i, sc / sum_list (map (worker_score obj (max_cost ws)) ws)))
           (fold (\<lambda>w. AList.update (wv_ID w) (worker_score obj (max_cost ws) w)) ws [])"
  using total_score_pos [OF assms, of obj "max_cost ws"]
  by (simp add: scoreWorkers_def Let_def score_fold)

lemma sum_update:
  fixes v :: real
  assumes "distinct (map fst al)"
  shows "sum_list (map snd (AList.update k v al))
         = sum_list (map snd al) + v - (case map_of al k of Some x \<Rightarrow> x | None \<Rightarrow> 0)"
  using assms by (induction al) (auto split: option.splits simp: map_of_eq_None_iff)

text \<open>Overwriting a key loses its value: the sum is complete exactly when no key is written twice.\<close>

lemma sum_fold_update:
  fixes f :: "WorkerView \<Rightarrow> real"
  assumes "distinct (map fst al)" and "\<forall>x \<in> snd ` set al. 0 < x" and "\<And>w. 0 < f w"
  shows "let al' = fold (\<lambda>w. AList.update (wv_ID w) (f w)) ws al; t = sum_list (map snd al) + sum_list (map f ws) in
           sum_list (map snd al') \<le> t
         \<and> (sum_list (map snd al') = t \<longleftrightarrow> distinct (map wv_ID ws) \<and> wv_ID ` set ws \<inter> fst ` set al = {})"
  using assms(1,2)
proof (induction ws arbitrary: al)
  case Nil
  show ?case by simp
next
  case (Cons w ws)
  let ?al = "AList.update (wv_ID w) (f w) al"
  have d: "distinct (map fst ?al)" using Cons.prems(1) by (rule distinct_update)
  have pos: "\<forall>x \<in> snd ` set ?al. 0 < x"
  proof
    fix x
    assume "x \<in> snd ` set ?al"
    then obtain k where "map_of ?al k = Some x" using d by (auto simp: map_of_eq_Some_iff)
    then show "0 < x" using Cons.prems assms(3) [of w] by (auto simp: update_conv' split: if_splits dest: map_of_SomeD)
  qed
  have keys: "fst ` set ?al = insert (wv_ID w) (fst ` set al)" by (simp add: dom_update)
  note s = sum_update [OF Cons.prems(1), of "wv_ID w" "f w"]
  show ?case
  proof (cases "map_of al (wv_ID w)")
    case None
    then have n: "wv_ID w \<notin> fst ` set al" by (simp add: map_of_eq_None_iff)
    with Cons.IH [OF d pos] s None keys show ?thesis by (auto simp: Let_def)
  next
    case (Some x)
    then have "0 < x" "wv_ID w \<in> fst ` set al" using Cons.prems(2) by (force dest: map_of_SomeD)+
    with Cons.IH [OF d pos] s Some show ?thesis by (auto simp: Let_def)
  qed
qed

section \<open>Grouping\<close>

lemma group_model_fold:
  "map_of (fold group_model ws al) m
   = (case filter (\<lambda>w. wv_BaseModel w = m) ws of
        [] \<Rightarrow> map_of al m
      | xs \<Rightarrow> Some ((case map_of al m of Some ys \<Rightarrow> ys | None \<Rightarrow> []) @ xs))"
proof (induction ws arbitrary: al)
  case (Cons w ws)
  have "map_of (group_model w al) m
      = (if wv_BaseModel w = m then Some ((case map_of al m of Some ys \<Rightarrow> ys | None \<Rightarrow> []) @ [w]) else map_of al m)"
    by (simp add: group_model_def update_conv')
  with Cons.IH [of "group_model w al"] show ?case by (simp split: list.splits option.splits)
qed simp

lemma group_model_distinct: "distinct (map fst al) \<Longrightarrow> distinct (map fst (fold group_model ws al))"
  by (induction ws arbitrary: al) (auto simp: group_model_def distinct_update)

lemma group_member:
  assumes "(m, xs) \<in> set (fold group_model ws [])"
  shows "xs = filter (\<lambda>w. wv_BaseModel w = m) ws \<and> xs \<noteq> []"
proof -
  have "map_of (fold group_model ws []) m = Some xs"
    using assms group_model_distinct [of "[]" ws] by simp
  then show ?thesis by (auto simp: group_model_fold split: list.splits)
qed

lemma nonneg_member_le:
  fixes x :: real
  shows "x \<in> set xs \<Longrightarrow> \<forall>y \<in> set xs. 0 \<le> y \<Longrightarrow> x \<le> sum_list xs"
proof (induction xs)
  case (Cons z xs)
  then have "0 \<le> sum_list xs" by (intro sum_list_nonneg) auto
  with Cons show ?case by (auto intro: order_trans)
qed simp

lemma snd_update: "snd ` set (AList.update k v al) \<subseteq> insert v (snd ` set al)"
  by (induction al) auto

lemma fst_fold_update: "fst ` set (fold (\<lambda>w. AList.update (wv_ID w) (f w)) ws al) = wv_ID ` set ws \<union> fst ` set al"
  by (induction ws arbitrary: al) (auto simp: dom_update)

lemma plan_Models:
  "(m, mp) \<in> set (pp_Models (fst (plan obj (Some s)))) \<Longrightarrow>
   \<exists>ws. (m, ws) \<in> set (fold group_model (filter (plannable obj) (rs_Workers s)) []) \<and> mp_Weights mp = scoreWorkers obj ws"
  by (auto simp: plan_def Let_def split: if_splits)

text \<open>The weights of one group of workers.\<close>

lemma scoreWorkers_weights:
  assumes "ws \<noteq> []"
  shows "fst ` set (scoreWorkers obj ws) = wv_ID ` set ws"
    and "\<forall>(i, x) \<in> set (scoreWorkers obj ws). 0 < x \<and> x \<le> 1"
    and "sum_list (map snd (scoreWorkers obj ws)) \<le> 1"
    and "sum_list (map snd (scoreWorkers obj ws)) = 1 \<longleftrightarrow> distinct (map wv_ID ws)"
proof -
  let ?f = "worker_score obj (max_cost ws)"
  let ?raw = "fold (\<lambda>w. AList.update (wv_ID w) (?f w)) ws []"
  let ?t = "sum_list (map ?f ws)"
  have t: "0 < ?t" by (rule total_score_pos [OF assms])
  note sw = scoreWorkers_nonempty [OF assms, of obj]
  have sum: "sum_list (map snd (scoreWorkers obj ws)) = sum_list (map snd ?raw) / ?t"
  proof -
    have "sum_list (map (\<lambda>x. snd x / c) al) = sum_list (map snd al) / c" for c :: real and al :: "(string \<times> real) list"
      by (induction al) (simp_all add: add_divide_distrib)
    then show ?thesis by (simp add: sw comp_def split_beta)
  qed
  have raw: "sum_list (map snd ?raw) \<le> ?t \<and> (sum_list (map snd ?raw) = ?t \<longleftrightarrow> distinct (map wv_ID ws))"
    using sum_fold_update [of "[]" ?f ws] by (simp add: Let_def)
  show "fst ` set (scoreWorkers obj ws) = wv_ID ` set ws"
    by (simp add: sw image_image split_beta fst_fold_update)
  show le: "sum_list (map snd (scoreWorkers obj ws)) \<le> 1" using raw t by (simp add: sum)
  show "sum_list (map snd (scoreWorkers obj ws)) = 1 \<longleftrightarrow> distinct (map wv_ID ws)" using raw t
    by (auto simp: sum divide_eq_1_iff)
  have pos: "0 < x" if "x \<in> snd ` set ?raw" for x
  proof -
    have "x \<in> snd ` set (fold (\<lambda>w. AList.update (wv_ID w) (?f w)) xs al) \<Longrightarrow> \<forall>y \<in> snd ` set al. 0 < y \<Longrightarrow> 0 < x" for xs al
    proof (induction xs arbitrary: al)
      case (Cons w xs)
      have "\<forall>y \<in> snd ` set (AList.update (wv_ID w) (?f w) al). 0 < y"
        using Cons.prems(2) snd_update [of "wv_ID w" "?f w" al] by fastforce
      with Cons show ?case by simp
    qed auto
    from this [of ws "[]"] that show ?thesis by simp
  qed
  show "\<forall>(i, x) \<in> set (scoreWorkers obj ws). 0 < x \<and> x \<le> 1"
  proof (clarify, rule conjI)
    fix i x
    assume ix: "(i, x) \<in> set (scoreWorkers obj ws)"
    then obtain b where b: "(i, b) \<in> set ?raw" "x = b / ?t" by (auto simp: sw)
    then have "0 < b" using pos [of b] by force
    with b(2) t show "0 < x" by simp
    have "x \<in> set (map snd (scoreWorkers obj ws))" using ix by force
    moreover have "\<forall>y \<in> set (map snd (scoreWorkers obj ws)). 0 \<le> y" using pos t by (force simp: sw less_imp_le)
    ultimately have "x \<le> sum_list (map snd (scoreWorkers obj ws))" by (rule nonneg_member_le)
    with le show "x \<le> 1" by linarith
  qed
qed

section \<open>Properties\<close>

text \<open>
  C37. The plan is a distribution: its models are served by healthy, ready and affordable workers
  only, each model's weights cover exactly those workers and are positive and at most 1, and they
  sum to 1 exactly when no worker id occurs twice in the group; otherwise they sum to less.
\<close>

theorem planner_weights:
  assumes "(m, mp) \<in> set (pp_Models (fst (plan obj (Some s))))"
  shows "let ws = filter (\<lambda>w. plannable obj w \<and> wv_BaseModel w = m) (rs_Workers s); wts = mp_Weights mp in
     ws \<noteq> [] \<and> fst ` set wts = wv_ID ` set ws \<and> (\<forall>(i, x) \<in> set wts. 0 < x \<and> x \<le> 1)
   \<and> sum_list (map snd wts) \<le> 1 \<and> (sum_list (map snd wts) = 1 \<longleftrightarrow> distinct (map wv_ID ws))"
proof -
  obtain ws where ws: "(m, ws) \<in> set (fold group_model (filter (plannable obj) (rs_Workers s)) [])"
    "mp_Weights mp = scoreWorkers obj ws" using plan_Models [OF assms] by blast
  from group_member [OF ws(1)] have g: "ws = filter (\<lambda>w. plannable obj w \<and> wv_BaseModel w = m) (rs_Workers s)" "ws \<noteq> []"
    by (auto simp: conj_commute)
  from scoreWorkers_weights [OF g(2), of obj] g show ?thesis unfolding ws(2) by (auto simp: Let_def)
qed

text \<open>
  A better worker never weighs less: with non-negative objective weights, a worker that is no
  more loaded and no more expensive than another of its group gets at least the other's weight.
\<close>

theorem planner_monotone:
  assumes "w1 \<in> set ws" and "w2 \<in> set ws" and "distinct (map wv_ID ws)"
    and "0 \<le> view_load w1" and "view_load w1 \<le> view_load w2" and "wv_CostPerHour w1 \<le> wv_CostPerHour w2"
    and "0 \<le> ob_WeightLoad obj" and "0 \<le> ob_WeightCost obj"
  shows "\<exists>x1 x2. map_of (scoreWorkers obj ws) (wv_ID w1) = Some x1
     \<and> map_of (scoreWorkers obj ws) (wv_ID w2) = Some x2 \<and> x2 \<le> x1"
proof -
  let ?mc = "max_cost ws"
  let ?f = "worker_score obj ?mc"
  let ?t = "sum_list (map ?f ws)"
  have ne: "ws \<noteq> []" using assms(1) by auto
  have "1 / (1 + view_load w2) \<le> 1 / (1 + view_load w1)" using assms(4,5) by (intro divide_left_mono) auto
  then have l: "ob_WeightLoad obj * (1 / (1 + view_load w2)) \<le> ob_WeightLoad obj * (1 / (1 + view_load w1))"
    using assms(7) by (rule mult_left_mono)
  have "(if ?mc > 0 then 1 - wv_CostPerHour w2 / ?mc else 1) \<le> (if ?mc > 0 then 1 - wv_CostPerHour w1 / ?mc else 1)"
    using assms(6) by (simp add: divide_right_mono)
  then have c: "ob_WeightCost obj * (if ?mc > 0 then 1 - wv_CostPerHour w2 / ?mc else 1)
      \<le> ob_WeightCost obj * (if ?mc > 0 then 1 - wv_CostPerHour w1 / ?mc else 1)"
    using assms(8) by (rule mult_left_mono)
  have floor: "(if a < 1 / 100 then 1 / 100 else a) \<le> (if b < 1 / 100 then 1 / 100 else b)" if "a \<le> b" for a b :: real
    using that by auto
  have "?f w2 \<le> ?f w1" unfolding worker_score_def Let_def by (rule floor) (use l c in linarith)
  then have le: "?f w2 / ?t \<le> ?f w1 / ?t" using total_score_pos [OF ne, of obj ?mc] by (simp add: divide_right_mono)
  have look: "map_of (scoreWorkers obj ws) (wv_ID w) = Some (?f w / ?t)" if "w \<in> set ws" for w
  proof -
    have "map_of (fold (\<lambda>w. AList.update (wv_ID w) (?f w)) xs al) (wv_ID w) = Some (?f w)"
      if "w \<in> set xs" "distinct (map wv_ID xs)" for xs al
      using that
    proof (induction xs arbitrary: al rule: rev_induct)
      case (snoc x xs)
      then show ?case by (cases "w = x") (auto simp: update_conv' image_iff)
    qed simp
    with that assms(3) show ?thesis by (simp add: scoreWorkers_nonempty [OF ne] map_of_map)
  qed
  show ?thesis using look [OF assms(1)] look [OF assms(2)] le by blast
qed

definition demo_objective :: Objective where
  "demo_objective = DefaultObjective"

lemma demo_plan_models:
  "(''m'', \<lparr>mp_Weights = scoreWorkers demo_objective demo_views, mp_Affinity = ''prefix_hash'', mp_ConcurrencyTarget = 4,
      mp_MaxQueueDepth = 16\<rparr>)
   \<in> set (pp_Models (fst (plan demo_objective (Some \<lparr>rs_BuiltAt = 0, rs_Epoch = 1, rs_Workers = demo_views\<rparr>))))"
  by (simp add: plan_def Let_def demo_views_def plannable_def demo_objective_def DefaultObjective_def group_model_def)

theorem planner_weights_witness:
  "sum_list (map snd (scoreWorkers demo_objective demo_views)) = 1"
  using planner_weights [OF demo_plan_models]
  by (simp add: Let_def demo_views_def plannable_def demo_objective_def DefaultObjective_def)

definition demo_view :: "string \<Rightarrow> int \<Rightarrow> WorkerView" where
  "demo_view i depth = (hd demo_views)\<lparr>wv_ID := i, wv_QueueDepth := depth\<rparr>"

theorem planner_monotone_witness:
  "\<exists>x1 x2. map_of (scoreWorkers demo_objective [demo_view ''a'' 0, demo_view ''b'' 9]) ''a'' = Some x1
     \<and> map_of (scoreWorkers demo_objective [demo_view ''a'' 0, demo_view ''b'' 9]) ''b'' = Some x2 \<and> x2 \<le> x1"
  using planner_monotone [of "demo_view ''a'' 0" "[demo_view ''a'' 0, demo_view ''b'' 9]" "demo_view ''b'' 9" demo_objective]
  by (simp add: demo_view_def demo_views_def view_load_def demo_objective_def DefaultObjective_def)

section \<open>Versions\<close>

text \<open>The gateway's holder never runs ahead of the counter.\<close>

definition version_ok :: "PlannerService \<Rightarrow> bool" where
  "version_ok s \<longleftrightarrow> (\<forall>p. ps_out s = Some (Some p) \<longrightarrow> rp_Version p \<le> ps_version s)"

definition tick_policy :: "(string \<Rightarrow> string) \<Rightarrow> tick_env \<Rightarrow> PlannerService \<Rightarrow> PlannerPolicy" where
  "tick_policy sha8 te s =
     (let obj = os_cur (snd (Objective_Reload (te_readErr te) (te_createErr te) (te_fresh te) (ps_objectives s))) in
      (fst (plan obj (te_snap te)))\<lparr>pp_Version := ps_version s + 1, pp_ObjectiveHash := HashObjective sha8 obj,
         pp_Reason := snd (snd (plan obj (te_snap te)))\<rparr>)"

definition tick_score :: "tick_env \<Rightarrow> PlannerService \<Rightarrow> real" where
  "tick_score te s =
     fst (snd (plan (os_cur (snd (Objective_Reload (te_readErr te) (te_createErr te) (te_fresh te) (ps_objectives s))))
       (te_snap te)))"

lemma planner_tick_cases:
  assumes "Policy_Publish marshal (te_faults te) (tick_policy sha8 te s) (tick_score te s) (ps_policies s) = (r, st)"
  shows "\<exists>s'. planner_tick sha8 marshal te s = (r, s') \<and> ps_version s' = ps_version s + 1 \<and> ps_policies s' = st
     \<and> ps_out s' = (if r = None then store_out (toRoutingPolicy (tick_policy sha8 te s)) (ps_out s) else ps_out s)"
  using assms
  by (cases r) (simp_all add: planner_tick_def tick_policy_def tick_score_def Let_def split_beta)

text \<open>
  Every planning tick takes the next version, whether or not it can publish, and while the
  counter does not wrap, a tick that publishes makes its plan the gateway's policy, with that
  version; a tick that fails leaves the gateway's policy alone. The holder never runs ahead.
\<close>

theorem planner_tick_publishes:
  assumes "version_ok s" and "ps_version s \<noteq> - 1" and "planner_tick sha8 marshal te s = (r, s')"
  shows "version_ok s' \<and> ps_version s' = ps_version s + 1
   \<and> (if r = None then ps_out s' = map_option (\<lambda>_. Some (toRoutingPolicy (tick_policy sha8 te s))) (ps_out s)
      else ps_out s' = ps_out s)"
proof -
  obtain r' st where pub: "Policy_Publish marshal (te_faults te) (tick_policy sha8 te s) (tick_score te s) (ps_policies s) = (r', st)"
    by fastforce
  from planner_tick_cases [OF pub] assms(3) have t: "r' = r" "ps_version s' = ps_version s + 1"
    "ps_out s' = (if r = None then store_out (toRoutingPolicy (tick_policy sha8 te s)) (ps_out s) else ps_out s)"
    by auto
  have lt: "ps_version s < ps_version s + 1"
    by (rule epoch_suc [OF assms(2)])
  have v: "rp_Version (toRoutingPolicy (tick_policy sha8 te s)) = ps_version s + 1"
    by (simp add: toRoutingPolicy_def tick_policy_def Let_def)
  have "\<not> ps_version s + 1 \<le> rp_Version p" if "ps_out s = Some (Some p)" for p
    using assms(1) that lt by (auto simp: version_ok_def)
  then have "store_out (toRoutingPolicy (tick_policy sha8 te s)) (ps_out s)
      = map_option (\<lambda>_. Some (toRoutingPolicy (tick_policy sha8 te s))) (ps_out s)"
    by (cases "ps_out s") (auto simp: store_out_def PolicyHolder_StoreIfNewer_def v split: option.splits)
  with t v lt assms(1) show ?thesis by (auto simp: version_ok_def)
qed

definition demo_service :: "(u64 \<times> string \<times> string \<times> real \<times> string) list \<Rightarrow> PlannerService" where
  "demo_service rows =
     \<lparr>ps_objectives = \<lparr>os_rows = None, os_cur = DefaultObjective\<rparr>,
      ps_policies = \<lparr>st_decisions = Some rows, st_live = Some None, st_updates = []\<rparr>,
      ps_out = Some None, ps_version = 0, ps_interval = 45 * second\<rparr>"

definition no_faults :: store_faults where
  "no_faults = \<lparr>sf_marshal = None, sf_create = None, sf_set = None, sf_publish = None\<rparr>"

definition demo_tick_env :: tick_env where
  "demo_tick_env = \<lparr>te_readErr = None, te_createErr = None, te_fresh = 1, te_snap = None, te_faults = no_faults\<rparr>"

theorem planner_tick_publishes_witness:
  "version_ok (snd (planner_tick id (\<lambda>_. '''') demo_tick_env (demo_service [])))
   \<and> ps_version (snd (planner_tick id (\<lambda>_. '''') demo_tick_env (demo_service []))) = 1"
proof -
  have "version_ok (demo_service [])" "ps_version (demo_service []) = 0" by (simp_all add: demo_service_def version_ok_def)
  with planner_tick_publishes [of "demo_service []" id "\<lambda>_. ''''" demo_tick_env] show ?thesis
    by (cases "planner_tick id (\<lambda>_. '''') demo_tick_env (demo_service [])") auto
qed

text \<open>A run of ticks: the \<open>k\<close>-th one happens in the environment \<open>te k\<close>.\<close>

primrec planner_run ::
  "(string \<Rightarrow> string) \<Rightarrow> (PlannerPolicy \<Rightarrow> string) \<Rightarrow> (nat \<Rightarrow> tick_env) \<Rightarrow> PlannerService \<Rightarrow> nat \<Rightarrow> PlannerService" where
  "planner_run sha8 marshal te s 0 = s"
| "planner_run sha8 marshal te s (Suc k) = snd (planner_tick sha8 marshal (te k) (planner_run sha8 marshal te s k))"

lemma tick_policy_version [simp]: "pp_Version (tick_policy sha8 te s) = ps_version s + 1"
  by (simp add: tick_policy_def Let_def)

lemma stale_run:
  assumes "st_decisions (ps_policies s) = Some rows" and "fst ` set rows = {v. 1 \<le> unat v \<and> unat v \<le> n}"
    and "ps_version s = 0" and "n < 2 ^ 64 - 1" and "\<forall>k. te_faults (te k) = no_faults" and "k \<le> n"
  shows "ps_version (planner_run sha8 marshal te s k) = of_nat k
    \<and> ps_policies (planner_run sha8 marshal te s k) = ps_policies s \<and> ps_out (planner_run sha8 marshal te s k) = ps_out s"
  using assms(6)
proof (induction k)
  case (Suc k)
  let ?s = "planner_run sha8 marshal te s k"
  from Suc have IH: "ps_version ?s = of_nat k" "ps_policies ?s = ps_policies s" "ps_out ?s = ps_out s" by simp_all
  have "unat (of_nat (Suc k) :: u64) = Suc k" using Suc.prems assms(4) by (simp add: unat_of_nat del: of_nat_Suc)
  then have "(of_nat (Suc k) :: u64) \<in> fst ` set rows" using Suc.prems assms(2) by simp
  then have "Policy_Publish marshal (te_faults (te k)) (tick_policy sha8 (te k) ?s) (tick_score (te k) ?s) (ps_policies ?s)
      = (Some (PlainErr ''duplicate version''), ps_policies s)"
    using assms(1,5) IH by (simp add: Policy_Publish_def no_faults_def add.commute)
  from planner_tick_cases [OF this] IH show ?case by (auto simp: add.commute)
qed (simp add: assms(3))

text \<open>
  A planner that restarts without its Redis key is stuck and then recovers: with \<open>n\<close> decisions in
  the table and the counter back at 0, the next \<open>n\<close> ticks all fail on the unique version and leave
  the gateway's policy alone, and tick \<open>n + 1\<close> publishes.
\<close>

theorem planner_restart_recovers:
  assumes "st_decisions (ps_policies s) = Some rows" and "fst ` set rows = {v. 1 \<le> unat v \<and> unat v \<le> n}"
    and "ps_version s = 0" and "n < 2 ^ 64 - 1" and "\<forall>k. te_faults (te k) = no_faults"
  shows "(\<forall>k < n. fst (planner_tick sha8 marshal (te k) (planner_run sha8 marshal te s k)) \<noteq> None
            \<and> ps_out (planner_run sha8 marshal te s (Suc k)) = ps_out s)
   \<and> fst (planner_tick sha8 marshal (te n) (planner_run sha8 marshal te s n)) = None"
proof (intro conjI allI impI)
  note run = stale_run [OF assms]
  fix k
  assume k: "k < n"
  let ?s = "planner_run sha8 marshal te s k"
  have u: "unat (of_nat (Suc k) :: u64) = Suc k" using k assms(4) by (simp add: unat_of_nat del: of_nat_Suc)
  have "Policy_Publish marshal (te_faults (te k)) (tick_policy sha8 (te k) ?s) (tick_score (te k) ?s) (ps_policies ?s)
      = (Some (PlainErr ''duplicate version''), ps_policies s)"
    using assms(1,2,5) run [of k sha8 marshal] k u by (simp add: Policy_Publish_def no_faults_def add.commute)
  from planner_tick_cases [OF this] show "fst (planner_tick sha8 marshal (te k) ?s) \<noteq> None" by auto
  show "ps_out (planner_run sha8 marshal te s (Suc k)) = ps_out s" using run [of "Suc k" sha8 marshal] k by simp
next
  let ?s = "planner_run sha8 marshal te s n"
  have u: "unat (of_nat (Suc n) :: u64) = Suc n" using assms(4) by (simp add: unat_of_nat del: of_nat_Suc)
  then have "(of_nat (Suc n) :: u64) \<notin> fst ` set rows" using assms(2) by simp
  then have "fst (Policy_Publish marshal (te_faults (te n)) (tick_policy sha8 (te n) ?s) (tick_score (te n) ?s) (ps_policies ?s))
      = None"
    using assms(1,5) stale_run [OF assms order_refl, of sha8 marshal]
    by (auto simp: Policy_Publish_def no_faults_def add.commute Let_def split: option.splits)
  then obtain st where "Policy_Publish marshal (te_faults (te n)) (tick_policy sha8 (te n) ?s) (tick_score (te n) ?s) (ps_policies ?s)
      = (None, st)" by (metis prod.collapse)
  from planner_tick_cases [OF this] show "fst (planner_tick sha8 marshal (te n) ?s) = None" by auto
qed

theorem planner_restart_recovers_witness:
  "fst (planner_tick id (\<lambda>_. '''') demo_tick_env (demo_service [(1, '''', '''', 0, '''')])) \<noteq> None
   \<and> fst (planner_tick id (\<lambda>_. '''') demo_tick_env
        (planner_run id (\<lambda>_. '''') (\<lambda>_. demo_tick_env) (demo_service [(1, '''', '''', 0, '''')]) 1)) = None"
proof -
  have "fst ` set [(1 :: u64, '''', '''', 0 :: real, '''')] = {v. 1 \<le> unat v \<and> unat v \<le> 1}"
    by (auto simp: word_unat_eq_iff)
  from planner_restart_recovers [of "demo_service [(1, '''', '''', 0, '''')]" _ 1 "\<lambda>_. demo_tick_env" id "\<lambda>_. ''''", OF _ this]
  show ?thesis by (simp add: demo_service_def demo_tick_env_def)
qed

end
