(* ===== verification/Fleet_Provision.thy ===== *)
theory Fleet_Provision
  imports Routing
begin

text \<open>
  The provisioners of \<open>services/fleet\<close>: the model identity workers are created for, the interface
  \<open>Provisioner\<close> (\<open>provisioner.go\<close>) as a locale, the provisioner that starts worker processes on this
  machine (\<open>local_process.go\<close>), the one that rents pods (\<open>runpod_provisioner.go\<close>) and its REST client
  (\<open>runpod_client.go\<close>). The operating system and the REST service answer through parameters: the ports
  that are free, the binaries on the path, the process started; the HTTP exchange and the JSON
  decoders. Log lines and creation times are not kept.
\<close>

section \<open>Model identities\<close>

record FleetModel =
  fm_BaseModel :: string
  fm_Adapter :: string

definition fleet_key :: "FleetModel \<Rightarrow> string" where
  "fleet_key m = (if fm_Adapter m = '''' then fm_BaseModel m else fm_BaseModel m @ ''#'' @ fm_Adapter m)"

definition sanitizeID :: "string \<Rightarrow> string" where
  "sanitizeID s =
     (let s1 = replace_byte (CHR ''/'') (CHR ''-'') s;
          s2 = replace_byte (CHR '':'') (CHR ''-'') s1;
          s3 = replace_byte (CHR ''#'') (CHR ''-'') s2 in
      if length s3 > 40 then take 40 s3 else s3)"

text \<open>
  \<open>%q\<close> of \<open>fmt\<close>, on ASCII and on printable runes beyond it: quotes and backslashes are escaped, the
  control characters written as Go writes them.
\<close>

definition hex_digit :: "nat \<Rightarrow> char" where
  "hex_digit n = (if n < 10 then char_of (48 + n) else char_of (87 + n))"

definition quote_char :: "char \<Rightarrow> string" where
  "quote_char ch =
     (let n = of_char ch :: nat in
      if n = 34 then [CHR 0x5C, CHR 0x22] else if n = 92 then [CHR 0x5C, CHR 0x5C]
      else if n = 7 then [CHR 0x5C, CHR ''a''] else if n = 8 then [CHR 0x5C, CHR ''b'']
      else if n = 12 then [CHR 0x5C, CHR ''f''] else if n = 10 then [CHR 0x5C, CHR ''n'']
      else if n = 13 then [CHR 0x5C, CHR ''r''] else if n = 9 then [CHR 0x5C, CHR ''t'']
      else if n = 11 then [CHR 0x5C, CHR ''v'']
      else if n < 32 \<or> n = 127 then [CHR 0x5C, CHR ''x'', hex_digit (n div 16), hex_digit (n mod 16)]
      else [ch])"

definition go_quote :: "string \<Rightarrow> string" where
  "go_quote s = [CHR 0x22] @ concat (map quote_char s) @ [CHR 0x22]"

section \<open>Local processes\<close>

record LocalProcessConfig =
  lc_Binary :: string
  lc_EnvFile :: string
  lc_BaseGRPCPort :: int
  lc_ControlPlane :: string
  lc_RedisURL :: string
  lc_DBURL :: string
  lc_OllamaURL :: string
  lc_TrackOnly :: bool

text \<open>A tracked process; \<open>pr_pid\<close> is \<^const>\<open>None\<close> for one that is only tracked.\<close>

record localProc =
  pr_pid :: "int option"
  pr_model :: FleetModel
  pr_port :: int

datatype callback = CB_ready string FleetModel | CB_gone string

text \<open>
  The provisioner, the process table of the machine (\<open>lp_procs\<close>, the environment each process was
  started with) and the callbacks made so far.
\<close>

record LocalProcess =
  lp_cfg :: LocalProcessConfig
  lp_next :: nat
  lp_active :: "(string \<times> localProc) list"
  lp_onReady :: bool
  lp_onGone :: bool
  lp_procs :: "(int \<times> string list) list"
  lp_calls :: "callback list"

record os_env =
  oe_getenv :: "string \<Rightarrow> string"
  oe_stat :: "string \<Rightarrow> bool"
  oe_free :: "int \<Rightarrow> bool"
  oe_LookPath :: "string \<Rightarrow> goerr + string"
  oe_Abs :: "string \<Rightarrow> goerr + string"
  oe_Environ :: "string list"
  oe_Start :: "string \<Rightarrow> string list \<Rightarrow> goerr + int"

definition NewLocalProcessWithConfig :: "os_env \<Rightarrow> LocalProcessConfig \<Rightarrow> LocalProcess" where
  "NewLocalProcessWithConfig os cfg =
     (let cfg1 = (if lc_BaseGRPCPort cfg \<le> 0 then cfg\<lparr>lc_BaseGRPCPort := 50100\<rparr> else cfg);
          cfg2 = (if lc_Binary cfg1 = '''' then
                    (let b = oe_getenv os ''FORGE_WORKER_BINARY'' in
                     if b \<noteq> '''' then cfg1\<lparr>lc_Binary := b\<rparr>
                     else if oe_stat os ''bin/forge-worker'' then cfg1\<lparr>lc_Binary := ''bin/forge-worker''\<rparr>
                     else cfg1\<lparr>lc_Binary := ''forge-worker''\<rparr>) else cfg1);
          cfg3 = (if lc_OllamaURL cfg2 = '''' then cfg2\<lparr>lc_OllamaURL := ''http://127.0.0.1:11434''\<rparr> else cfg2) in
      \<lparr>lp_cfg = cfg3, lp_next = 0, lp_active = [], lp_onReady = False, lp_onGone = False, lp_procs = [], lp_calls = []\<rparr>)"

definition NewLocalProcess :: "os_env \<Rightarrow> LocalProcess" where
  "NewLocalProcess os =
     NewLocalProcessWithConfig os
       \<lparr>lc_Binary = '''', lc_EnvFile = '''', lc_BaseGRPCPort = 0, lc_ControlPlane = '''', lc_RedisURL = '''',
        lc_DBURL = '''', lc_OllamaURL = '''', lc_TrackOnly = False\<rparr>"

text \<open>The loop of \<open>freePortNear\<close>: \<open>n\<close> ports are left to try from \<open>p\<close> on.\<close>

fun free_port_loop :: "(int \<Rightarrow> bool) \<Rightarrow> nat \<Rightarrow> int \<Rightarrow> int option" where
  "free_port_loop free 0 p = None"
| "free_port_loop free (Suc n) p = (if free p then Some p else free_port_loop free n (p + 1))"

definition freePortNear :: "(int \<Rightarrow> bool) \<Rightarrow> int \<Rightarrow> goerr + int" where
  "freePortNear free start =
     (case free_port_loop free 200 start of
        Some p \<Rightarrow> Inr p
      | None \<Rightarrow> Inl (PlainErr (''no free port near '' @ itoa start)))"

definition local_id :: "FleetModel \<Rightarrow> nat \<Rightarrow> string" where
  "local_id m n = ''local-'' @ sanitizeID (fleet_key m) @ ''-'' @ itoa (int n)"

definition worker_env :: "LocalProcessConfig \<Rightarrow> string list \<Rightarrow> string \<Rightarrow> FleetModel \<Rightarrow> int \<Rightarrow> string list" where
  "worker_env cfg environ wid m port =
     environ
     @ [''FORGE_WORKER_ID='' @ wid,
        ''FORGE_WORKER_ENDPOINT=127.0.0.1:'' @ itoa port,
        ''FORGE_WORKER_GRPC_ADDR=:'' @ itoa port,
        ''FORGE_METRICS_ADDR=:'' @ itoa (port + 1000),
        ''FORGE_WORKER_RUNTIME=RUNTIME_KIND_OLLAMA'',
        ''FORGE_WORKER_MODEL_BASE='' @ fm_BaseModel m,
        ''FORGE_WORKER_MODEL_CONTEXT=32768'',
        ''FORGE_WORKER_COST_PER_HOUR=0'',
        ''FORGE_WORKER_COST_CLASS=free'',
        ''FORGE_OLLAMA_URL='' @ lc_OllamaURL cfg,
        ''FORGE_OTLP_ENDPOINT='']
     @ (if lc_ControlPlane cfg \<noteq> '''' then [''FORGE_CONTROLPLANE_GRPC='' @ lc_ControlPlane cfg] else [])
     @ (if lc_RedisURL cfg \<noteq> '''' then [''FORGE_REDIS_URL='' @ lc_RedisURL cfg] else [])
     @ (if lc_DBURL cfg \<noteq> '''' then [''FORGE_DB_URL='' @ lc_DBURL cfg] else [])
     @ (if lc_EnvFile cfg \<noteq> '''' then [''FORGE_ENV_FILE='' @ lc_EnvFile cfg] else [])"

definition call_ready :: "string \<Rightarrow> FleetModel \<Rightarrow> LocalProcess \<Rightarrow> LocalProcess" where
  "call_ready wid m p = (if lp_onReady p then p\<lparr>lp_calls := lp_calls p @ [CB_ready wid m]\<rparr> else p)"

definition call_gone :: "string \<Rightarrow> LocalProcess \<Rightarrow> LocalProcess" where
  "call_gone wid p = (if lp_onGone p then p\<lparr>lp_calls := lp_calls p @ [CB_gone wid]\<rparr> else p)"

text \<open>\<open>exec.LookPath\<close> with the absolute path of the binary as fallback.\<close>

definition worker_binary :: "(goerr \<Rightarrow> string) \<Rightarrow> os_env \<Rightarrow> string \<Rightarrow> goerr + string" where
  "worker_binary err_text os b =
     (case oe_LookPath os b of
        Inr bin \<Rightarrow> Inr bin
      | Inl err \<Rightarrow>
          (case oe_Abs os b of
             Inl _ \<Rightarrow> Inl (PlainErr (''local provisioner: worker binary '' @ go_quote b @ '': '' @ err_text err))
           | Inr full \<Rightarrow> Inr full))"

definition Local_Provision ::
  "(goerr \<Rightarrow> string) \<Rightarrow> os_env \<Rightarrow> FleetModel \<Rightarrow> LocalProcess \<Rightarrow> (goerr + string) \<times> LocalProcess" where
  "Local_Provision err_text os m p =
     (let p1 = p\<lparr>lp_next := Suc (lp_next p)\<rparr>;
          wid = local_id m (lp_next p1);
          cfg = lp_cfg p in
      if lc_TrackOnly cfg then
        (Inr wid, call_ready wid m
           (p1\<lparr>lp_active := AList.update wid \<lparr>pr_pid = None, pr_model = m, pr_port = 0\<rparr> (lp_active p1)\<rparr>))
      else
        (case freePortNear (oe_free os) (lc_BaseGRPCPort cfg) of
           Inl e \<Rightarrow> (Inl e, p1)
         | Inr port \<Rightarrow>
             (case worker_binary err_text os (lc_Binary cfg) of
                Inl e \<Rightarrow> (Inl e, p1)
              | Inr bin \<Rightarrow>
                  (let env = worker_env cfg (oe_Environ os) wid m port in
                   case oe_Start os bin env of
                     Inl e \<Rightarrow> (Inl (PlainErr (''local provisioner start: '' @ err_text e)), p1)
                   | Inr pid \<Rightarrow>
                       (Inr wid, call_ready wid m
                          (p1\<lparr>lp_active := AList.update wid \<lparr>pr_pid = Some pid, pr_model = m, pr_port = port\<rparr> (lp_active p1),
                              lp_procs := AList.update pid env (lp_procs p1)\<rparr>))))))"

text \<open>
  \<open>Retire\<close>: the process is cancelled, signalled and, when it does not leave within five seconds,
  killed, so it is gone from the process table when \<open>Retire\<close> returns. \<open>local_exit\<close> is the goroutine
  that waits for the process, when it exits by itself.
\<close>

definition Local_Retire :: "string \<Rightarrow> LocalProcess \<Rightarrow> goerr option \<times> LocalProcess" where
  "Local_Retire w p =
     (case map_of (lp_active p) w of
        None \<Rightarrow> (None, p)
      | Some proc \<Rightarrow>
          (let p1 = p\<lparr>lp_active := AList.delete w (lp_active p)\<rparr>;
               p2 = (case pr_pid proc of
                       None \<Rightarrow> p1
                     | Some pid \<Rightarrow> p1\<lparr>lp_procs := AList.delete pid (lp_procs p1)\<rparr>) in
           (None, call_gone w p2)))"

definition local_exit :: "string \<Rightarrow> int \<Rightarrow> LocalProcess \<Rightarrow> LocalProcess" where
  "local_exit w pid p =
     call_gone w (p\<lparr>lp_active := AList.delete w (lp_active p), lp_procs := AList.delete pid (lp_procs p)\<rparr>)"

definition Local_Active :: "LocalProcess \<Rightarrow> (string \<times> FleetModel) list" where
  "Local_Active p = map (\<lambda>(k, v). (k, pr_model v)) (lp_active p)"

section \<open>The REST client\<close>

record http_req =
  hq_Method :: string
  hq_URL :: string
  hq_Header :: "(string \<times> string) list"
  hq_Body :: string

record runPodCreateRequest =
  rq_Name :: string
  rq_ImageName :: string
  rq_GpuTypeIds :: "string list"
  rq_GpuCount :: int
  rq_CloudType :: string
  rq_ContainerDiskInGb :: int
  rq_VolumeInGb :: int
  rq_VolumeMountPath :: string
  rq_Ports :: "string list"
  rq_Env :: "(string \<times> string) list"
  rq_DockerStartCmd :: "string list"
  rq_SupportPublicIp :: bool

record RunPodPod =
  po_ID :: string
  po_Name :: string
  po_DesiredStatus :: string

record RunPodClient =
  rc_apiKey :: string
  rc_base :: string

text \<open>
  The REST service, with its state \<open>'r\<close>: \<open>re_do\<close> answers a request with a transport error or a status
  and a body. \<open>re_pod\<close> and \<open>re_wrap\<close> decode a body as a pod and as the object with just its id.
\<close>

record 'r rest_env =
  re_getenv :: "string \<Rightarrow> string"
  re_badURL :: "string \<Rightarrow> goerr option"
  re_marshal :: "runPodCreateRequest \<Rightarrow> goerr + string"
  re_pod :: "string \<Rightarrow> goerr + RunPodPod"
  re_wrap :: "string \<Rightarrow> goerr + string"
  re_text :: "goerr \<Rightarrow> string"
  re_do :: "http_req \<Rightarrow> 'r \<Rightarrow> (goerr + int \<times> string) \<times> 'r"

definition runpodREST :: string where
  "runpodREST = ''https://rest.runpod.io/v1''"

definition NewRunPodClient :: "(string \<Rightarrow> string) \<Rightarrow> string \<Rightarrow> RunPodClient" where
  "NewRunPodClient getenv apiKey =
     (let k1 = (if apiKey = '''' then getenv ''FORGE_RUNPOD_API_KEY'' else apiKey);
          k2 = (if k1 = '''' then getenv ''RUNPOD_API_KEY'' else k1) in
      \<lparr>rc_apiKey = k2, rc_base = runpodREST\<rparr>)"

definition truncate_str :: "string \<Rightarrow> nat \<Rightarrow> string" where
  "truncate_str s n = (if length s \<le> n then s else take n s @ map char_of [226, 128, 166 :: nat])"

abbreviation body_limit :: nat where
  "body_limit \<equiv> 1048576"

definition bearer :: "RunPodClient \<Rightarrow> string \<times> string" where
  "bearer c = (''Authorization'', ''Bearer '' @ rc_apiKey c)"

definition create_defaults :: "runPodCreateRequest \<Rightarrow> runPodCreateRequest" where
  "create_defaults req =
     (let r1 = (if rq_GpuCount req \<le> 0 then req\<lparr>rq_GpuCount := 1\<rparr> else req);
          r2 = (if rq_ContainerDiskInGb r1 \<le> 0 then r1\<lparr>rq_ContainerDiskInGb := 40\<rparr> else r1) in
      if rq_VolumeInGb r2 < 0 then r2\<lparr>rq_VolumeInGb := 0\<rparr> else r2)"

definition decode_pod :: "'r rest_env \<Rightarrow> string \<Rightarrow> goerr + RunPodPod" where
  "decode_pod re raw =
     (case re_pod re raw of
        Inr pod \<Rightarrow> Inr pod
      | Inl err \<Rightarrow>
          (case re_wrap re raw of
             Inr i \<Rightarrow>
               if i = '''' then
                 Inl (PlainErr (''runpod create pod: decode: '' @ re_text re err @ '' body='' @ truncate_str raw 400))
               else Inr \<lparr>po_ID = i, po_Name = '''', po_DesiredStatus = ''''\<rparr>
           | Inl _ \<Rightarrow>
               Inl (PlainErr (''runpod create pod: decode: '' @ re_text re err @ '' body='' @ truncate_str raw 400))))"

definition CreatePod ::
  "'r rest_env \<Rightarrow> RunPodClient \<Rightarrow> runPodCreateRequest \<Rightarrow> 'r \<Rightarrow> (goerr + RunPodPod) \<times> 'r" where
  "CreatePod re c req r =
     (if rc_apiKey c = '''' then (Inl (PlainErr ''runpod: missing API key (FORGE_RUNPOD_API_KEY)''), r)
      else
        (case re_marshal re (create_defaults req) of
           Inl e \<Rightarrow> (Inl e, r)
         | Inr body \<Rightarrow>
             (case re_badURL re (rc_base c @ ''/pods'') of
                Some e \<Rightarrow> (Inl e, r)
              | None \<Rightarrow>
                  (case re_do re \<lparr>hq_Method = ''POST'', hq_URL = rc_base c @ ''/pods'',
                                  hq_Header = [bearer c, (''Content-Type'', ''application/json'')], hq_Body = body\<rparr> r of
                     (Inl e, r') \<Rightarrow> (Inl e, r')
                   | (Inr (status, full), r') \<Rightarrow>
                       let raw = take body_limit full in
                       if status \<ge> 300 then
                         (Inl (PlainErr (''runpod create pod: status '' @ itoa status @ '': '' @ trim_space raw)), r')
                       else
                         (case decode_pod re raw of
                            Inl e \<Rightarrow> (Inl e, r')
                          | Inr pod \<Rightarrow>
                              if po_ID pod = '''' then
                                (Inl (PlainErr (''runpod create pod: empty id body='' @ truncate_str raw 400)), r')
                              else (Inr pod, r'))))))"

definition GetPod :: "'r rest_env \<Rightarrow> RunPodClient \<Rightarrow> string \<Rightarrow> 'r \<Rightarrow> (goerr + RunPodPod) \<times> 'r" where
  "GetPod re c i r =
     (case re_badURL re (rc_base c @ ''/pods/'' @ i) of
        Some e \<Rightarrow> (Inl e, r)
      | None \<Rightarrow>
          (case re_do re \<lparr>hq_Method = ''GET'', hq_URL = rc_base c @ ''/pods/'' @ i, hq_Header = [bearer c], hq_Body = ''''\<rparr> r of
             (Inl e, r') \<Rightarrow> (Inl e, r')
           | (Inr (status, full), r') \<Rightarrow>
               let raw = take body_limit full in
               if status \<ge> 300 then
                 (Inl (PlainErr (''runpod get pod: status '' @ itoa status @ '': '' @ trim_space raw)), r')
               else (re_pod re raw, r')))"

definition DeletePod :: "'r rest_env \<Rightarrow> RunPodClient \<Rightarrow> string \<Rightarrow> 'r \<Rightarrow> goerr option \<times> 'r" where
  "DeletePod re c i r =
     (if rc_apiKey c = '''' then (Some (PlainErr ''runpod: missing API key''), r)
      else
        (case re_badURL re (rc_base c @ ''/pods/'' @ i) of
           Some e \<Rightarrow> (Some e, r)
         | None \<Rightarrow>
             (case re_do re \<lparr>hq_Method = ''DELETE'', hq_URL = rc_base c @ ''/pods/'' @ i, hq_Header = [bearer c], hq_Body = ''''\<rparr> r of
                (Inl e, r') \<Rightarrow> (Some e, r')
              | (Inr (status, raw), r') \<Rightarrow>
                  if status \<ge> 300 then
                    (Some (PlainErr (''runpod delete pod: status '' @ itoa status @ '': '' @ trim_space (take 4096 raw))), r')
                  else (None, r'))))"

definition podAction :: "'r rest_env \<Rightarrow> RunPodClient \<Rightarrow> string \<Rightarrow> string \<Rightarrow> 'r \<Rightarrow> goerr option \<times> 'r" where
  "podAction re c i action r =
     (case re_badURL re (rc_base c @ ''/pods/'' @ i @ ''/'' @ action) of
        Some e \<Rightarrow> (Some e, r)
      | None \<Rightarrow>
          (case re_do re \<lparr>hq_Method = ''POST'', hq_URL = rc_base c @ ''/pods/'' @ i @ ''/'' @ action,
                          hq_Header = [bearer c], hq_Body = ''''\<rparr> r of
             (Inl e, r') \<Rightarrow> (Some e, r')
           | (Inr (status, raw), r') \<Rightarrow>
               if status \<ge> 300 then
                 (Some (PlainErr (''runpod '' @ action @ '' pod: status '' @ itoa status @ '': '' @ trim_space (take 4096 raw))), r')
               else (None, r')))"

definition StopPod :: "'r rest_env \<Rightarrow> RunPodClient \<Rightarrow> string \<Rightarrow> 'r \<Rightarrow> goerr option \<times> 'r" where
  "StopPod re c i r = podAction re c i ''stop'' r"

definition ProxyURL :: "string \<Rightarrow> int \<Rightarrow> string" where
  "ProxyURL podID port = ''https://'' @ podID @ ''-'' @ itoa port @ ''.proxy.runpod.net''"

section \<open>Rented pods\<close>

record RunPodProvisionerConfig =
  rp_Enabled :: bool
  rp_DryRun :: bool
  rp_APIKey :: string
  rp_GPUTypeID :: string
  rp_Image :: string
  rp_CloudType :: string
  rp_ContainerDisk :: int
  rp_VolumeDisk :: int
  rp_HFToken :: string
  rp_VLLMModel :: string
  rp_VLLMPort :: int
  rp_ControlPlane :: string
  rp_RedisURL :: string

record runpodRecord =
  rr_PodID :: string
  rr_Model :: FleetModel
  rr_ProxyURL :: string

record 'r RunPodProvisioner =
  rpp_cfg :: RunPodProvisionerConfig
  rpp_client :: RunPodClient
  rpp_pods :: "(string \<times> runpodRecord) list"
  rpp_remote :: 'r

definition first_env :: "(string \<Rightarrow> string) \<Rightarrow> string \<Rightarrow> string \<Rightarrow> string \<Rightarrow> string" where
  "first_env getenv v a b =
     (if v = '''' then (let x = getenv a in if x = '''' then getenv b else x) else v)"

definition runpod_defaults :: "(string \<Rightarrow> string) \<Rightarrow> RunPodProvisionerConfig \<Rightarrow> RunPodProvisionerConfig" where
  "runpod_defaults getenv cfg =
     cfg\<lparr>rp_GPUTypeID := (if rp_GPUTypeID cfg = '''' then ''NVIDIA GeForce RTX 4090'' else rp_GPUTypeID cfg),
         rp_Image := (if rp_Image cfg = '''' then ''vllm/vllm-openai:latest'' else rp_Image cfg),
         rp_CloudType := (if rp_CloudType cfg = '''' then ''COMMUNITY'' else rp_CloudType cfg),
         rp_ContainerDisk := (if rp_ContainerDisk cfg \<le> 0 then 50 else rp_ContainerDisk cfg),
         rp_VLLMPort := (if rp_VLLMPort cfg \<le> 0 then 8000 else rp_VLLMPort cfg),
         rp_APIKey := first_env getenv (rp_APIKey cfg) ''FORGE_RUNPOD_API_KEY'' ''RUNPOD_API_KEY'',
         rp_HFToken := first_env getenv (rp_HFToken cfg) ''FORGE_HF_TOKEN'' ''HF_TOKEN''\<rparr>"

definition NewRunPodProvisioner :: "(string \<Rightarrow> string) \<Rightarrow> RunPodProvisionerConfig \<Rightarrow> 'r \<Rightarrow> 'r RunPodProvisioner" where
  "NewRunPodProvisioner getenv cfg r =
     (let cfg' = runpod_defaults getenv cfg in
      \<lparr>rpp_cfg = cfg', rpp_client = NewRunPodClient getenv (rp_APIKey cfg'), rpp_pods = [], rpp_remote = r\<rparr>)"

definition vllm_script :: "string \<Rightarrow> int \<Rightarrow> string" where
  "vllm_script model port =
     ''set -euo pipefail'' @ [CHR 0x0A] @ ''export HF_HOME=/workspace/hf'' @ [CHR 0x0A]
     @ ''mkdir -p /workspace/hf'' @ [CHR 0x0A]
     @ ''python3 -m vllm.entrypoints.openai.api_server '' @ [CHR 0x5C, CHR 0x0A]
     @ ''  --model '' @ go_quote model @ '' '' @ [CHR 0x5C, CHR 0x0A]
     @ ''  --host 0.0.0.0 '' @ [CHR 0x5C, CHR 0x0A]
     @ ''  --port '' @ itoa port @ '' '' @ [CHR 0x5C, CHR 0x0A]
     @ ''  --max-model-len 8192 '' @ [CHR 0x5C, CHR 0x0A]
     @ ''  --dtype auto'' @ [CHR 0x0A]"

definition pod_request :: "RunPodProvisionerConfig \<Rightarrow> int \<Rightarrow> FleetModel \<Rightarrow> string \<Rightarrow> runPodCreateRequest" where
  "pod_request cfg now m model =
     \<lparr>rq_Name = ''forge-'' @ sanitizeID (fleet_key m) @ ''-'' @ itoa ((now div second) mod 100000),
      rq_ImageName = rp_Image cfg, rq_GpuTypeIds = [rp_GPUTypeID cfg], rq_GpuCount = 1,
      rq_CloudType = rp_CloudType cfg, rq_ContainerDiskInGb = rp_ContainerDisk cfg,
      rq_VolumeInGb = rp_VolumeDisk cfg, rq_VolumeMountPath = ''/workspace'',
      rq_Ports = [itoa (rp_VLLMPort cfg) @ ''/http'', ''22/tcp''],
      rq_Env = [(''HF_TOKEN'', rp_HFToken cfg), (''HUGGING_FACE_HUB_TOKEN'', rp_HFToken cfg),
                (''FORGE_MODEL'', model), (''FORGE_VLLM_PORT'', itoa (rp_VLLMPort cfg)),
                (''FORGE_CONTROLPLANE_GRPC'', rp_ControlPlane cfg), (''FORGE_REDIS_URL'', rp_RedisURL cfg)],
      rq_DockerStartCmd = [''bash'', ''-lc'', vllm_script model (rp_VLLMPort cfg)],
      rq_SupportPublicIp = False\<rparr>"

text \<open>\<open>now\<close> is the wall clock in nanoseconds since 1970.\<close>

definition RunPod_Provision ::
  "'r rest_env \<Rightarrow> int \<Rightarrow> FleetModel \<Rightarrow> 'r RunPodProvisioner \<Rightarrow> (goerr + string) \<times> 'r RunPodProvisioner" where
  "RunPod_Provision re now m p =
     (let cfg = rpp_cfg p;
          model = (if rp_VLLMModel cfg \<noteq> '''' then rp_VLLMModel cfg else fm_BaseModel m) in
      if \<not> rp_Enabled cfg then
        (Inl (PlainErr ''runpod provisioner disabled (set FORGE_FLEET_RUNPOD_ENABLED=true)''), p)
      else if model = '''' then (Inl (PlainErr ''runpod: empty model identity''), p)
      else if rp_DryRun cfg then
        (let wid = ''runpod-dryrun-'' @ sanitizeID (fleet_key m) @ ''-'' @ itoa now in
         (Inr wid, p\<lparr>rpp_pods := AList.update wid \<lparr>rr_PodID = ''dryrun'', rr_Model = m, rr_ProxyURL = ''''\<rparr> (rpp_pods p)\<rparr>))
      else
        (case CreatePod re (rpp_client p) (pod_request cfg now m model) (rpp_remote p) of
           (Inl e, r) \<Rightarrow> (Inl e, p\<lparr>rpp_remote := r\<rparr>)
         | (Inr pod, r) \<Rightarrow>
             (let wid = ''runpod-'' @ po_ID pod in
              (Inr wid,
               p\<lparr>rpp_remote := r,
                 rpp_pods := AList.update wid
                   \<lparr>rr_PodID = po_ID pod, rr_Model = m, rr_ProxyURL = ProxyURL (po_ID pod) (rp_VLLMPort cfg)\<rparr>
                   (rpp_pods p)\<rparr>))))"

definition RunPod_Retire ::
  "'r rest_env \<Rightarrow> string \<Rightarrow> 'r RunPodProvisioner \<Rightarrow> goerr option \<times> 'r RunPodProvisioner" where
  "RunPod_Retire re w p =
     (case map_of (rpp_pods p) w of
        None \<Rightarrow>
          (if has_prefix w ''runpod-'' then
             (let i = trim_prefix w ''runpod-'' in
              if i \<noteq> '''' \<and> i \<noteq> ''dryrun'' \<and> \<not> rp_DryRun (rpp_cfg p) then
                (case DeletePod re (rpp_client p) i (rpp_remote p) of (e, r) \<Rightarrow> (e, p\<lparr>rpp_remote := r\<rparr>))
              else (None, p))
           else (None, p))
      | Some rec \<Rightarrow>
          (let p1 = p\<lparr>rpp_pods := AList.delete w (rpp_pods p)\<rparr> in
           if rr_PodID rec = '''' \<or> rr_PodID rec = ''dryrun'' \<or> rp_DryRun (rpp_cfg p) then (None, p1)
           else
             (case DeletePod re (rpp_client p1) (rr_PodID rec) (rpp_remote p1) of
                (e, r) \<Rightarrow> (e, p1\<lparr>rpp_remote := r\<rparr>))))"

definition RunPod_Pod :: "string \<Rightarrow> 'r RunPodProvisioner \<Rightarrow> runpodRecord option" where
  "RunPod_Pod w p = map_of (rpp_pods p) w"

section \<open>Names and ports\<close>

lemma fleet_key_join: "fleet_key m = join_model (fm_BaseModel m) (fm_Adapter m)"
  by (simp add: fleet_key_def join_model_def)

lemma dec_value_snoc: "dec_value (s @ [c]) = dec_value s * 10 + (of_char c - 48)"
  by (simp add: dec_value_def)

lemma dec_value_nat_digits [simp]: "dec_value (nat_digits n) = n"
proof (induction n rule: nat_digits.induct)
  case (1 n)
  show ?case
  proof (cases "n < 10")
    case True
    then show ?thesis by (subst nat_digits.simps) (simp add: dec_value_def)
  next
    case False
    have "n mod 10 < 10" by simp
    then have "(48 + n mod 10) mod 256 = 48 + n mod 10" by simp
    then show ?thesis using 1 False
      by (subst nat_digits.simps) (simp add: dec_value_snoc)
  qed
qed

lemma nat_digits_no_dash: "CHR ''-'' \<notin> set (nat_digits n)"
proof (induction n rule: nat_digits.induct)
  case (1 n)
  have digit: "CHR ''-'' \<noteq> char_of (48 + k)" if "k < 10" for k :: nat
  proof
    assume "CHR ''-'' = char_of (48 + k)"
    then have "of_char (CHR ''-'') = (of_char (char_of (48 + k) :: char) :: nat)" by simp
    with that show False by simp
  qed
  have "n mod 10 < 10" by simp
  with 1 digit show ?case by (subst nat_digits.simps) auto
qed

lemma itoa_inject: "itoa (int n) = itoa (int k) \<longleftrightarrow> n = k"
  by (metis dec_value_nat_digits itoa_def nat_int of_nat_less_0_iff)

lemma dash_suffix_inject:
  assumes "a @ ''-'' @ s = b @ ''-'' @ t" and "CHR ''-'' \<notin> set s" and "CHR ''-'' \<notin> set t"
  shows "s = t"
proof -
  have "takeWhile (\<lambda>c. c \<noteq> CHR ''-'') (rev (x @ ''-'' @ y)) = rev y" if "CHR ''-'' \<notin> set y" for x y :: string
    using that by (simp, subst takeWhile_append2) auto
  then have "rev s = rev t" using assms by metis
  then show ?thesis by simp
qed

lemma local_id_number: "local_id m n = local_id m' n' \<Longrightarrow> n = n'"
  using dash_suffix_inject [of "''local-'' @ sanitizeID (fleet_key m)" "itoa (int n)"
      "''local-'' @ sanitizeID (fleet_key m')" "itoa (int n')"]
  by (simp add: local_id_def itoa_def nat_digits_no_dash) (metis itoa_def itoa_inject nat_int of_nat_less_0_iff)

lemma free_port_loop_range:
  "free_port_loop free n p = Some q \<Longrightarrow> p \<le> q \<and> q < p + int n \<and> free q \<and> (\<forall>r. p \<le> r \<and> r < q \<longrightarrow> \<not> free r)"
proof (induction n arbitrary: p)
  case (Suc n)
  show ?case
  proof (cases "free p")
    case True
    with Suc.prems show ?thesis by auto
  next
    case False
    with Suc.prems have "free_port_loop free n (p + 1) = Some q" by simp
    from Suc.IH [OF this] have ih: "p + 1 \<le> q" "q < p + 1 + int n" "free q" "\<And>r. p + 1 \<le> r \<Longrightarrow> r < q \<Longrightarrow> \<not> free r"
      by auto
    have "\<not> free r" if "p \<le> r" "r < q" for r using ih(4) [of r] that False by (cases "r = p") auto
    with ih show ?thesis by auto
  qed
qed simp

lemma free_port_loop_None: "free_port_loop free n p = None \<longleftrightarrow> (\<forall>r. p \<le> r \<and> r < p + int n \<longrightarrow> \<not> free r)"
proof (induction n arbitrary: p)
  case (Suc n)
  show ?case
  proof (cases "free p")
    case True
    then show ?thesis by auto
  next
    case False
    have "(p \<le> r \<and> r < p + int (Suc n)) \<longleftrightarrow> (r = p \<or> (p + 1 \<le> r \<and> r < p + 1 + int n))" for r by auto
    with False Suc.IH [of "p + 1"] show ?thesis by auto
  qed
qed auto

section \<open>The interface\<close>

text \<open>
  \<open>Provisioner\<close>: the worker ids a provisioner tracks. A failed \<open>Provision\<close> tracks nothing new, a
  successful one exactly the id it returns; \<open>Retire\<close> forgets its worker whatever it answers. A
  provisioner with fresh ids also never hands out an id twice.
\<close>

locale provisioner =
  fixes provision :: "'x \<Rightarrow> FleetModel \<Rightarrow> 'p \<Rightarrow> (goerr + string) \<times> 'p"
    and retire :: "'x \<Rightarrow> string \<Rightarrow> 'p \<Rightarrow> goerr option \<times> 'p"
    and tracked :: "'p \<Rightarrow> (string \<rightharpoonup> FleetModel)"
  assumes provision_ok: "provision x m p = (Inr w, p') \<Longrightarrow> tracked p' = (tracked p)(w \<mapsto> m)"
    and provision_err: "provision x m p = (Inl e, p') \<Longrightarrow> tracked p' = tracked p"
    and retire_forgets: "tracked (snd (retire x w p)) = (tracked p)(w := None)"
begin

lemma provision_then_retire:
  assumes "provision x m p = (Inr w, p')" and "tracked p w = None"
  shows "tracked (snd (retire y w p')) = tracked p"
  using provision_ok [OF assms(1)] assms(2) by (auto simp: retire_forgets fun_eq_iff)

end

locale fresh_provisioner = provisioner +
  fixes issued :: "'b \<Rightarrow> string set"
  assumes provision_fresh: "provision x m p = (Inr w, p') \<Longrightarrow> w \<notin> issued p \<and> insert w (issued p) \<subseteq> issued p'"
    and provision_keeps: "issued p \<subseteq> issued (snd (provision x m p))"
    and retire_keeps: "issued p \<subseteq> issued (snd (retire x w p))"
    and issued_named: "w \<in> issued p \<Longrightarrow> \<not> has_prefix w ''provisioning-''"
begin

fun provision_all :: "('a \<times> FleetModel) list \<Rightarrow> 'b \<Rightarrow> string list \<times> 'b" where
  "provision_all [] p = ([], p)"
| "provision_all ((x, m) # ms) p =
     (case provision x m p of
        (Inl _, p') \<Rightarrow> provision_all ms p'
      | (Inr w, p') \<Rightarrow> (case provision_all ms p' of (ws, p'') \<Rightarrow> (w # ws, p'')))"

lemma provision_all_fresh:
  "set (fst (provision_all ms p)) \<inter> issued p = {} \<and> distinct (fst (provision_all ms p))"
proof (induction ms p rule: provision_all.induct)
  case (2 x m ms p)
  obtain r p' where r: "provision x m p = (r, p')" by fastforce
  have keep: "issued p \<subseteq> issued p'" using provision_keeps [of p x m] r by simp
  show ?case
  proof (cases r)
    case (Inl e)
    with 2 r keep show ?thesis by auto
  next
    case (Inr w)
    with provision_fresh [of x m p w p'] r have w: "w \<notin> issued p" "w \<in> issued p'" by auto
    with 2 r Inr keep show ?thesis by (auto split: prod.splits)
  qed
qed simp

end

definition local_tracked :: "LocalProcess \<Rightarrow> (string \<rightharpoonup> FleetModel)" where
  "local_tracked p w = map_option pr_model (map_of (lp_active p) w)"

definition local_issued :: "LocalProcess \<Rightarrow> string set" where
  "local_issued p = {w. \<exists>m n. n \<le> lp_next p \<and> w = local_id m n}"

definition runpod_tracked :: "'r RunPodProvisioner \<Rightarrow> (string \<rightharpoonup> FleetModel)" where
  "runpod_tracked p w = map_option rr_Model (map_of (rpp_pods p) w)"

lemma call_ready_simps [simp]:
  "lp_active (call_ready w m p) = lp_active p" "lp_next (call_ready w m p) = lp_next p"
  "lp_procs (call_ready w m p) = lp_procs p" "lp_cfg (call_ready w m p) = lp_cfg p"
  by (simp_all add: call_ready_def)

lemma call_gone_simps [simp]:
  "lp_active (call_gone w p) = lp_active p" "lp_next (call_gone w p) = lp_next p"
  "lp_procs (call_gone w p) = lp_procs p" "lp_cfg (call_gone w p) = lp_cfg p"
  by (simp_all add: call_gone_def)

lemma Local_Provision_cases:
  obtains
    (failed) e where "Local_Provision et os m p = (Inl e, p\<lparr>lp_next := Suc (lp_next p)\<rparr>)"
  | (track) p' where "lc_TrackOnly (lp_cfg p)"
      "Local_Provision et os m p = (Inr (local_id m (Suc (lp_next p))), p')"
      "lp_active p' = AList.update (local_id m (Suc (lp_next p))) \<lparr>pr_pid = None, pr_model = m, pr_port = 0\<rparr> (lp_active p)"
      "lp_next p' = Suc (lp_next p)" "lp_procs p' = lp_procs p" "lp_cfg p' = lp_cfg p"
  | (started) p' pid port bin where "\<not> lc_TrackOnly (lp_cfg p)"
      "freePortNear (oe_free os) (lc_BaseGRPCPort (lp_cfg p)) = Inr port"
      "oe_Start os bin (worker_env (lp_cfg p) (oe_Environ os) (local_id m (Suc (lp_next p))) m port) = Inr pid"
      "Local_Provision et os m p = (Inr (local_id m (Suc (lp_next p))), p')"
      "lp_active p' = AList.update (local_id m (Suc (lp_next p)))
         \<lparr>pr_pid = Some pid, pr_model = m, pr_port = port\<rparr> (lp_active p)"
      "lp_procs p' = AList.update pid
         (worker_env (lp_cfg p) (oe_Environ os) (local_id m (Suc (lp_next p))) m port) (lp_procs p)"
      "lp_next p' = Suc (lp_next p)" "lp_cfg p' = lp_cfg p"
proof -
  note d = Local_Provision_def Let_def
  show thesis
  proof (cases "lc_TrackOnly (lp_cfg p)")
    case True
    show thesis by (rule track [of "snd (Local_Provision et os m p)", OF True]) (simp_all add: d True)
  next
    case nt: False
    show thesis
    proof (cases "freePortNear (oe_free os) (lc_BaseGRPCPort (lp_cfg p))")
      case (Inl e)
      show thesis by (rule failed) (simp add: d nt Inl)
    next
      case port: (Inr port)
      show thesis
      proof (cases "worker_binary et os (lc_Binary (lp_cfg p))")
        case (Inl e)
        show thesis by (rule failed) (simp add: d nt port Inl)
      next
        case bin: (Inr bin)
        show thesis
        proof (cases "oe_Start os bin (worker_env (lp_cfg p) (oe_Environ os) (local_id m (Suc (lp_next p))) m port)")
          case (Inl e)
          show thesis by (rule failed) (simp add: d nt port bin Inl)
        next
          case (Inr pid)
          show thesis by (rule started [of port bin pid "snd (Local_Provision et os m p)", OF nt port Inr])
              (simp_all add: d nt port bin Inr)
        qed
      qed
    qed
  qed
qed

interpretation local_prov: fresh_provisioner
  "\<lambda>(et, os). Local_Provision et os" "\<lambda>_. Local_Retire" local_tracked local_issued
proof (unfold_locales, goal_cases)
  case (1 x m p w p')
  obtain et os where x: "x = (et, os)" by fastforce
  from 1 show ?case unfolding x
    by (cases rule: Local_Provision_cases [of et os m p])
      (auto simp: local_tracked_def update_conv fun_eq_iff)
next
  case (2 x m p e p')
  obtain et os where x: "x = (et, os)" by fastforce
  from 2 show ?case unfolding x
    by (cases rule: Local_Provision_cases [of et os m p]) (auto simp: local_tracked_def fun_eq_iff)
next
  case (3 x w p)
  show ?case
    by (auto simp: Local_Retire_def local_tracked_def Let_def delete_conv fun_eq_iff split: option.splits)
next
  case (4 x m p w p')
  obtain et os where x: "x = (et, os)" by fastforce
  from 4 have "w = local_id m (Suc (lp_next p)) \<and> lp_next p' = Suc (lp_next p)" unfolding x
    by (cases rule: Local_Provision_cases [of et os m p]) auto
  moreover have "local_id m (Suc (lp_next p)) \<noteq> local_id m' n" if "n \<le> lp_next p" for m' n
    using local_id_number [of m "Suc (lp_next p)" m' n] that by auto
  ultimately show ?case unfolding local_issued_def by (auto intro: le_SucI)
next
  case (5 p x m)
  obtain et os where x: "x = (et, os)" by fastforce
  have "lp_next (snd (Local_Provision et os m p)) = Suc (lp_next p)"
    by (cases rule: Local_Provision_cases [of et os m p]) auto
  then show ?case unfolding x local_issued_def by (auto intro: le_SucI)
next
  case (6 p x w)
  have "lp_next (snd (Local_Retire w p)) = lp_next p"
    by (auto simp: Local_Retire_def Let_def split: option.splits)
  then show ?case by (simp add: local_issued_def)
next
  case (7 w p)
  then show ?case by (auto simp: local_issued_def local_id_def has_prefix_def)
qed

interpretation runpod_prov: provisioner
  "\<lambda>(re, now). RunPod_Provision re now" "\<lambda>(re, now). RunPod_Retire re" runpod_tracked
proof (unfold_locales, goal_cases)
  case (1 x m p w p')
  then show ?case
    by (auto simp: RunPod_Provision_def runpod_tracked_def Let_def update_conv fun_eq_iff
        split: prod.splits if_splits sum.splits)
next
  case (2 x m p e p')
  then show ?case
    by (auto simp: RunPod_Provision_def runpod_tracked_def Let_def fun_eq_iff
        split: prod.splits if_splits sum.splits)
next
  case (3 x w p)
  show ?case
    by (auto simp: RunPod_Retire_def runpod_tracked_def Let_def delete_conv fun_eq_iff split: prod.splits option.splits)
qed

section \<open>Runs of the local provisioner\<close>

datatype local_op = LProvision os_env FleetModel | LRetire string | LExit string

text \<open>One operation; \<open>LExit w\<close> is the exit of the process of \<open>w\<close>, if it has one.\<close>

fun local_step :: "(goerr \<Rightarrow> string) \<Rightarrow> local_op \<Rightarrow> LocalProcess \<Rightarrow> LocalProcess" where
  "local_step et (LProvision os m) p = snd (Local_Provision et os m p)"
| "local_step et (LRetire w) p = snd (Local_Retire w p)"
| "local_step et (LExit w) p =
     (case map_of (lp_active p) w of
        Some proc \<Rightarrow> (case pr_pid proc of Some pid \<Rightarrow> local_exit w pid p | None \<Rightarrow> p)
      | None \<Rightarrow> p)"

text \<open>What the operating system promises: a new process has the id of no running one.\<close>

fun fresh_pids :: "(goerr \<Rightarrow> string) \<Rightarrow> local_op list \<Rightarrow> LocalProcess \<Rightarrow> bool" where
  "fresh_pids et [] p \<longleftrightarrow> True"
| "fresh_pids et (op # ops) p \<longleftrightarrow>
     (case op of
        LProvision os m \<Rightarrow> (\<forall>bin env pid. oe_Start os bin env = Inr pid \<longrightarrow> map_of (lp_procs p) pid = None)
      | _ \<Rightarrow> True) \<and> fresh_pids et ops (local_step et op p)"

definition runs_as :: "LocalProcess \<Rightarrow> string \<Rightarrow> localProc \<Rightarrow> string list \<Rightarrow> bool" where
  "runs_as p w proc env \<longleftrightarrow>
     ''FORGE_WORKER_ID='' @ w \<in> set env
     \<and> ''FORGE_WORKER_MODEL_BASE='' @ fm_BaseModel (pr_model proc) \<in> set env
     \<and> ''FORGE_WORKER_ENDPOINT=127.0.0.1:'' @ itoa (pr_port proc) \<in> set env
     \<and> lc_BaseGRPCPort (lp_cfg p) \<le> pr_port proc \<and> pr_port proc < lc_BaseGRPCPort (lp_cfg p) + 200"

definition local_ok :: "LocalProcess \<Rightarrow> bool" where
  "local_ok p \<longleftrightarrow>
     (\<forall>w proc. map_of (lp_active p) w = Some proc \<longrightarrow> w \<in> local_issued p)
     \<and> (\<forall>w proc pid. map_of (lp_active p) w = Some proc \<and> pr_pid proc = Some pid \<longrightarrow>
          (\<exists>env. map_of (lp_procs p) pid = Some env \<and> runs_as p w proc env))
     \<and> (\<forall>w w' proc proc' pid. map_of (lp_active p) w = Some proc \<and> map_of (lp_active p) w' = Some proc'
          \<and> pr_pid proc = Some pid \<and> pr_pid proc' = Some pid \<longrightarrow> w = w')
     \<and> (\<forall>pid env. map_of (lp_procs p) pid = Some env \<longrightarrow>
          (\<exists>w proc. map_of (lp_active p) w = Some proc \<and> pr_pid proc = Some pid))"

lemma local_okD:
  assumes "local_ok p"
  shows "map_of (lp_active p) w = Some proc \<Longrightarrow> w \<in> local_issued p"
    and "map_of (lp_active p) w = Some proc \<Longrightarrow> pr_pid proc = Some pid \<Longrightarrow>
           \<exists>env. map_of (lp_procs p) pid = Some env \<and> runs_as p w proc env"
    and "map_of (lp_active p) w = Some proc \<Longrightarrow> map_of (lp_active p) w' = Some proc' \<Longrightarrow>
           pr_pid proc = Some pid \<Longrightarrow> pr_pid proc' = Some pid \<Longrightarrow> w = w'"
    and "map_of (lp_procs p) pid = Some env \<Longrightarrow>
           \<exists>w proc. map_of (lp_active p) w = Some proc \<and> pr_pid proc = Some pid"
  using assms unfolding local_ok_def by blast+

lemma local_ok_drop:
  assumes ok: "local_ok p"
    and active: "map_of (lp_active q) = (map_of (lp_active p))(w := None)"
    and procs: "map_of (lp_procs q) = (case map_option pr_pid (map_of (lp_active p) w) of
                  Some (Some pid) \<Rightarrow> (map_of (lp_procs p))(pid := None) | _ \<Rightarrow> map_of (lp_procs p))"
    and same: "lp_next q = lp_next p" "lp_cfg q = lp_cfg p"
  shows "local_ok q"
  unfolding local_ok_def
proof (intro conjI allI impI, goal_cases)
  case (1 v proc)
  then show ?case using local_okD(1) [OF ok, of v proc] same by (auto simp: active local_issued_def split: if_splits)
next
  case (2 v proc pid)
  then have v: "v \<noteq> w" "map_of (lp_active p) v = Some proc" "pr_pid proc = Some pid" by (auto simp: active split: if_splits)
  with local_okD(2) [OF ok] obtain env where env: "map_of (lp_procs p) pid = Some env" "runs_as p v proc env" by blast
  have "map_of (lp_procs q) pid = Some env"
    using v env(1) local_okD(3) [OF ok v(2), of w _ pid]
    by (auto simp: procs split: option.splits)
  with env(2) same show ?case by (auto simp: runs_as_def)
next
  case (3 v v' proc proc' pid)
  then show ?case using local_okD(3) [OF ok, of v proc v' proc' pid] by (auto simp: active split: if_splits)
next
  case (4 pid env)
  then have "map_of (lp_procs p) pid = Some env"
    and "map_option pr_pid (map_of (lp_active p) w) \<noteq> Some (Some pid)"
    by (auto simp: procs split: option.splits if_splits)
  moreover from this(1) obtain v proc where "map_of (lp_active p) v = Some proc" "pr_pid proc = Some pid"
    using local_okD(4) [OF ok] by blast
  ultimately show ?case by (auto simp: active intro!: exI [of _ v])
qed

lemma local_issued_mono: "lp_next p \<le> lp_next q \<Longrightarrow> local_issued p \<subseteq> local_issued q"
  by (auto simp: local_issued_def intro: order_trans)

lemma local_id_fresh: "local_ok p \<Longrightarrow> map_of (lp_active p) (local_id m (Suc (lp_next p))) = None"
  using local_okD(1) [of p "local_id m (Suc (lp_next p))"] local_id_number [of m "Suc (lp_next p)"]
  by (cases "map_of (lp_active p) (local_id m (Suc (lp_next p)))") (fastforce simp: local_issued_def)+

lemma local_ok_add:
  assumes ok: "local_ok p" and new: "map_of (lp_active p) w = None" and issued: "w \<in> local_issued q"
    and active: "map_of (lp_active q) = (map_of (lp_active p))(w \<mapsto> proc)"
    and procs: "case pr_pid proc of None \<Rightarrow> map_of (lp_procs q) = map_of (lp_procs p)
                | Some pid \<Rightarrow> map_of (lp_procs p) pid = None
                    \<and> (\<exists>env. map_of (lp_procs q) = (map_of (lp_procs p))(pid \<mapsto> env) \<and> runs_as p w proc env)"
    and same: "lp_next p \<le> lp_next q" "lp_cfg q = lp_cfg p"
  shows "local_ok q"
  unfolding local_ok_def
proof (intro conjI allI impI, goal_cases)
  case (1 v proc1)
  then show ?case using local_okD(1) [OF ok, of v proc1] local_issued_mono [OF same(1)] issued
    by (auto simp: active split: if_splits)
next
  case (2 v proc1 pid)
  then show ?case
  proof (cases "v = w")
    case True
    with 2 procs same(2) show ?thesis by (auto simp: active runs_as_def)
  next
    case False
    with 2 have "map_of (lp_active p) v = Some proc1" "pr_pid proc1 = Some pid" by (auto simp: active)
    with local_okD(2) [OF ok] obtain env where "map_of (lp_procs p) pid = Some env" "runs_as p v proc1 env" by blast
    with procs same(2) show ?thesis by (auto simp: runs_as_def split: option.splits)
  qed
next
  case (3 v v' proc1 proc2 pid)
  have old: "map_of (lp_procs p) pid \<noteq> None" if "map_of (lp_active p) u = Some r" "pr_pid r = Some pid" for u r
    using local_okD(2) [OF ok that] by auto
  show ?case using 3 old procs local_okD(3) [OF ok, of v proc1 v' proc2 pid]
    by (auto simp: active split: if_splits option.splits)
next
  case (4 pid env)
  show ?case
  proof (cases "pr_pid proc = Some pid")
    case True
    then show ?thesis by (auto simp: active)
  next
    case False
    with 4 procs have "map_of (lp_procs p) pid = Some env" by (auto split: option.splits if_splits)
    then obtain u r where "map_of (lp_active p) u = Some r" "pr_pid r = Some pid" using local_okD(4) [OF ok] by blast
    with new show ?thesis by (auto simp: active intro!: exI [of _ u])
  qed
qed

lemma worker_env_runs_as:
  assumes "freePortNear free (lc_BaseGRPCPort (lp_cfg p)) = Inr port"
  shows "runs_as p w \<lparr>pr_pid = pid, pr_model = m, pr_port = port\<rparr> (worker_env (lp_cfg p) environ w m port)"
proof -
  from assms have "free_port_loop free 200 (lc_BaseGRPCPort (lp_cfg p)) = Some port"
    by (simp add: freePortNear_def split: option.splits)
  from free_port_loop_range [OF this] show ?thesis by (simp add: runs_as_def worker_env_def)
qed

lemma Local_Provision_ok:
  assumes ok: "local_ok p"
    and fresh: "\<forall>bin env pid. oe_Start os bin env = Inr pid \<longrightarrow> map_of (lp_procs p) pid = None"
  shows "local_ok (snd (Local_Provision et os m p))"
proof (cases rule: Local_Provision_cases [of et os m p])
  case (failed e)
  with ok show ?thesis by (auto simp: local_ok_def runs_as_def local_issued_def) (metis le_SucI)
next
  case (track p')
  have "local_ok p'"
    by (rule local_ok_add [OF ok local_id_fresh [OF ok], of m _ "\<lparr>pr_pid = None, pr_model = m, pr_port = 0\<rparr>"])
      (use track in \<open>auto simp: local_issued_def update_conv\<close>)
  with track show ?thesis by simp
next
  case (started p' pid port bin)
  have "local_ok p'"
    by (rule local_ok_add [OF ok local_id_fresh [OF ok], of m _ "\<lparr>pr_pid = Some pid, pr_model = m, pr_port = port\<rparr>"])
      (use started fresh worker_env_runs_as [OF started(2)] in
        \<open>auto simp: local_issued_def update_conv intro!: exI [of _ "worker_env _ _ _ _ _"]\<close>)
  with started show ?thesis by simp
qed

lemma Local_Retire_ok: "local_ok p \<Longrightarrow> local_ok (snd (Local_Retire w p))"
  by (erule local_ok_drop [of p _ w])
    (auto simp: Local_Retire_def Let_def delete_conv fun_eq_iff split: option.splits)

lemma local_exit_ok:
  "local_ok p \<Longrightarrow> map_of (lp_active p) w = Some proc \<Longrightarrow> pr_pid proc = Some pid \<Longrightarrow> local_ok (local_exit w pid p)"
  by (erule local_ok_drop [of p _ w]) (auto simp: local_exit_def delete_conv fun_eq_iff)

lemma local_run_ok: "fresh_pids et ops p \<Longrightarrow> local_ok p \<Longrightarrow> local_ok (fold (local_step et) ops p)"
proof (induction ops arbitrary: p)
  case (Cons op ops)
  have "local_ok (local_step et op p)"
    using Cons.prems
    by (cases op) (auto simp: Local_Provision_ok Local_Retire_ok local_exit_ok split: option.splits)
  with Cons show ?case by simp
qed simp

lemma New_ok: "local_ok (NewLocalProcessWithConfig os cfg)"
  by (simp add: NewLocalProcessWithConfig_def local_ok_def Let_def)

section \<open>Properties\<close>

text \<open>
  No orphans and no phantoms: after any sequence of provisions, retirements and process exits, with
  process ids that are not reused while the process runs, every tracked worker with a process has
  exactly that process running, started with its own worker id, model and endpoint, on a port within the
  200 ports from the configured base; and every process the provisioner started that still runs belongs
  to exactly one tracked worker.
\<close>

theorem local_workers_running:
  assumes "fresh_pids et ops (NewLocalProcessWithConfig os cfg)"
    and "q = fold (local_step et) ops (NewLocalProcessWithConfig os cfg)"
  shows "(\<forall>w proc pid. map_of (lp_active q) w = Some proc \<and> pr_pid proc = Some pid \<longrightarrow>
            (\<exists>env. map_of (lp_procs q) pid = Some env \<and> runs_as q w proc env))
         \<and> (\<forall>pid env. map_of (lp_procs q) pid = Some env \<longrightarrow>
            (\<exists>!w. \<exists>proc. map_of (lp_active q) w = Some proc \<and> pr_pid proc = Some pid))"
proof -
  have ok: "local_ok q" using local_run_ok [OF assms(1) New_ok] assms(2) by simp
  have "\<exists>!w. \<exists>proc. map_of (lp_active q) w = Some proc \<and> pr_pid proc = Some pid"
    if "map_of (lp_procs q) pid = Some env" for pid env
    using local_okD(4) [OF ok that] local_okD(3) [OF ok] by metis
  then show ?thesis using local_okD(2) [OF ok] by blast
qed

definition demo_os :: "int \<Rightarrow> os_env" where
  "demo_os pid =
     \<lparr>oe_getenv = \<lambda>_. '''', oe_stat = \<lambda>_. False, oe_free = \<lambda>p. 50103 \<le> p, oe_LookPath = Inr, oe_Abs = Inr,
      oe_Environ = [''PATH=/bin''], oe_Start = \<lambda>_ _. Inr pid\<rparr>"

definition demo_cfg :: LocalProcessConfig where
  "demo_cfg =
     \<lparr>lc_Binary = ''w'', lc_EnvFile = '''', lc_BaseGRPCPort = 0, lc_ControlPlane = '''', lc_RedisURL = '''',
      lc_DBURL = '''', lc_OllamaURL = '''', lc_TrackOnly = False\<rparr>"

definition demo_ops :: "local_op list" where
  "demo_ops =
     [LProvision (demo_os 7) \<lparr>fm_BaseModel = ''m'', fm_Adapter = ''''\<rparr>,
      LProvision (demo_os 8) \<lparr>fm_BaseModel = ''m'', fm_Adapter = ''a''\<rparr>,
      LRetire ''local-m-1'']"

lemma demo_fresh:
  "(\<forall>bin env pid. oe_Start (demo_os k) bin env = Inr pid \<longrightarrow> map_of al pid = None) \<longleftrightarrow> map_of al k = None"
  by (simp add: demo_os_def)

lemma demo_port: "freePortNear (oe_free (demo_os k)) 50100 = Inr 50103"
proof -
  have "free_port_loop (oe_free (demo_os k)) (Suc (Suc (Suc (Suc n)))) 50100 = Some 50103" for n
    by (simp only: free_port_loop.simps) (simp add: demo_os_def)
  from this [of 196] show ?thesis by (simp add: freePortNear_def)
qed

lemma demo_provision:
  assumes "\<not> lc_TrackOnly (lp_cfg p)" and "lc_BaseGRPCPort (lp_cfg p) = 50100"
  shows "Local_Provision et (demo_os k) m p =
     (let w = local_id m (Suc (lp_next p)) in
      (Inr w, call_ready w m
         (p\<lparr>lp_next := Suc (lp_next p),
            lp_active := AList.update w \<lparr>pr_pid = Some k, pr_model = m, pr_port = 50103\<rparr> (lp_active p),
            lp_procs := AList.update k (worker_env (lp_cfg p) [''PATH=/bin''] w m 50103) (lp_procs p)\<rparr>)))"
  using assms demo_port [of k]
  by (simp add: Local_Provision_def Let_def worker_binary_def) (simp add: demo_os_def)

lemma demo_start: "\<not> lc_TrackOnly (lp_cfg (NewLocalProcessWithConfig (demo_os 0) demo_cfg))"
  "lc_BaseGRPCPort (lp_cfg (NewLocalProcessWithConfig (demo_os 0) demo_cfg)) = 50100"
  "lp_procs (NewLocalProcessWithConfig (demo_os 0) demo_cfg) = []"
  "lp_active (NewLocalProcessWithConfig (demo_os 0) demo_cfg) = []"
  "lp_next (NewLocalProcessWithConfig (demo_os 0) demo_cfg) = 0"
  by (simp_all add: NewLocalProcessWithConfig_def demo_cfg_def Let_def)

theorem local_workers_running_witness:
  "let q = fold (local_step (\<lambda>_. '''')) demo_ops (NewLocalProcessWithConfig (demo_os 0) demo_cfg) in
   map_of (lp_procs q) 8 \<noteq> None \<and> map_of (lp_procs q) 7 = None
   \<and> (\<exists>!w. \<exists>proc. map_of (lp_active q) w = Some proc \<and> pr_pid proc = Some 8)"
proof -
  let ?p = "NewLocalProcessWithConfig (demo_os 0) demo_cfg"
  let ?q = "fold (local_step (\<lambda>_. '''')) demo_ops ?p"
  note eval = demo_ops_def demo_provision demo_start demo_fresh Let_def
  have start: "oe_Start (demo_os k) bin env = Inr k" for k bin env by (simp add: demo_os_def)
  have fresh: "fresh_pids (\<lambda>_. '''') demo_ops ?p" by (simp add: eval start)
  have id: "local_id \<lparr>fm_BaseModel = ''m'', fm_Adapter = ''''\<rparr> (Suc 0) = ''local-m-1''"
    by (simp add: local_id_def fleet_key_def sanitizeID_def replace_byte_def Let_def itoa_def nat_digits.simps char_of_def bit_0)
  have other: "local_id \<lparr>fm_BaseModel = ''m'', fm_Adapter = ''a''\<rparr> (Suc (Suc 0)) \<noteq> ''local-m-1''"
    using local_id_number [of _ 2 _ 1] by (metis id Suc_1 One_nat_def n_not_Suc_n)
  have 8: "map_of (lp_procs ?q) 8 \<noteq> None" and 7: "map_of (lp_procs ?q) 7 = None"
    using other by (simp_all add: eval id Local_Retire_def update_conv delete_conv)
  from 8 obtain env where "map_of (lp_procs ?q) 8 = Some env" by blast
  with local_workers_running [OF fresh refl] 8 7 show ?thesis unfolding Let_def by blast
qed

text \<open>
  Retiring a rented pod: a worker id handed out by a provision that was not a dry run names its pod;
  \<open>Retire\<close> sends the DELETE for that pod, forgets the record whatever the service answers, and returns
  the service's error; and retiring the same worker again, with the record gone, sends the same DELETE
  once more, so a failed retirement can be repeated.
\<close>

theorem runpod_retire_retries:
  assumes "RunPod_Provision re now m p = (Inr w, p')" and "\<not> rp_DryRun (rpp_cfg p)" and "w \<noteq> ''runpod-dryrun''"
  shows "\<exists>pod. pod \<noteq> '''' \<and> w = ''runpod-'' @ pod
     \<and> (case RunPod_Retire re w p' of
          (e, q) \<Rightarrow>
            (e, rpp_remote q) = DeletePod re (rpp_client p) pod (rpp_remote p')
            \<and> RunPod_Pod w q = None
            \<and> (case RunPod_Retire re w q of
                 (e2, q2) \<Rightarrow> (e2, rpp_remote q2) = DeletePod re (rpp_client p) pod (rpp_remote q)))"
proof -
  from assms(1,2) obtain pod r where c: "CreatePod re (rpp_client p) (pod_request (rpp_cfg p) now m
        (if rp_VLLMModel (rpp_cfg p) \<noteq> '''' then rp_VLLMModel (rpp_cfg p) else fm_BaseModel m)) (rpp_remote p) = (Inr pod, r)"
    and w: "w = ''runpod-'' @ po_ID pod"
    and p': "p' = p\<lparr>rpp_remote := r, rpp_pods := AList.update w
        \<lparr>rr_PodID = po_ID pod, rr_Model = m, rr_ProxyURL = ProxyURL (po_ID pod) (rp_VLLMPort (rpp_cfg p))\<rparr> (rpp_pods p)\<rparr>"
    by (auto simp: RunPod_Provision_def Let_def split: if_splits prod.splits sum.splits)
  have ne: "po_ID pod \<noteq> ''''"
    using c by (auto simp: CreatePod_def Let_def split: if_splits option.splits sum.splits prod.splits)
  have nd: "po_ID pod \<noteq> ''dryrun''" using assms(3) w by auto
  obtain e r2 where d: "DeletePod re (rpp_client p) (po_ID pod) r = (e, r2)" by fastforce
  have 1: "RunPod_Retire re w p' = (e, p'\<lparr>rpp_pods := AList.delete w (rpp_pods p'), rpp_remote := r2\<rparr>)"
    using ne nd d assms(2) by (simp add: RunPod_Retire_def p' update_conv Let_def)
  have name: "has_prefix w ''runpod-''" "trim_prefix w ''runpod-'' = po_ID pod"
    unfolding w by (rule has_prefix_append, rule trim_prefix_append)
  have 2: "RunPod_Retire re w (p'\<lparr>rpp_pods := AList.delete w (rpp_pods p'), rpp_remote := r2\<rparr>)
      = (case DeletePod re (rpp_client p) (po_ID pod) r2 of
           (e, r) \<Rightarrow> (e, p'\<lparr>rpp_pods := AList.delete w (rpp_pods p'), rpp_remote := r\<rparr>))"
    using ne nd assms(2) by (simp add: RunPod_Retire_def p' delete_conv name Let_def split: prod.splits)
  show ?thesis
    using ne w d 1 2 by (intro exI [of _ "po_ID pod"]) (simp add: RunPod_Pod_def delete_conv p' split: prod.splits)
qed

definition demo_rest :: "nat rest_env" where
  "demo_rest =
     \<lparr>re_getenv = \<lambda>_. '''', re_badURL = \<lambda>_. None, re_marshal = \<lambda>_. Inr ''{}'',
      re_pod = \<lambda>_. Inr \<lparr>po_ID = ''p1'', po_Name = '''', po_DesiredStatus = ''''\<rparr>, re_wrap = \<lambda>_. Inr '''',
      re_text = \<lambda>_. '''',
      re_do = \<lambda>q n. (if hq_Method q = ''POST'' then Inr (200, ''p1'') else if n = 0 then Inr (500, ''busy'') else Inr (204, ''''), Suc n)\<rparr>"

definition demo_pods :: "nat RunPodProvisioner" where
  "demo_pods =
     \<lparr>rpp_cfg = \<lparr>rp_Enabled = True, rp_DryRun = False, rp_APIKey = ''k'', rp_GPUTypeID = ''g'', rp_Image = ''i'', rp_CloudType = '''',
        rp_ContainerDisk = 50, rp_VolumeDisk = 0, rp_HFToken = '''', rp_VLLMModel = '''', rp_VLLMPort = 1, rp_ControlPlane = '''',
        rp_RedisURL = ''''\<rparr>,
      rpp_client = \<lparr>rc_apiKey = ''k'', rc_base = ''b''\<rparr>, rpp_pods = [], rpp_remote = 0\<rparr>"

theorem runpod_retire_retries_witness:
  "\<exists>w p' pod. RunPod_Provision demo_rest 0 \<lparr>fm_BaseModel = ''m'', fm_Adapter = ''''\<rparr> demo_pods = (Inr w, p')
     \<and> w = ''runpod-'' @ pod
     \<and> (case RunPod_Retire demo_rest w p' of (e, q) \<Rightarrow> RunPod_Pod w q = None)"
proof -
  have create: "CreatePod demo_rest (rpp_client demo_pods) req r = (Inr \<lparr>po_ID = ''p1'', po_Name = '''', po_DesiredStatus = ''''\<rparr>, Suc r)" for req r
    by (simp add: CreatePod_def decode_pod_def demo_rest_def demo_pods_def)
  have dry: "\<not> rp_DryRun (rpp_cfg demo_pods)" and enabled: "rp_Enabled (rpp_cfg demo_pods)"
    and model: "rp_VLLMModel (rpp_cfg demo_pods) = ''''"
    by (simp_all add: demo_pods_def)
  have "fst (RunPod_Provision demo_rest 0 \<lparr>fm_BaseModel = ''m'', fm_Adapter = ''''\<rparr> demo_pods) = Inr ''runpod-p1''"
    by (simp add: RunPod_Provision_def Let_def create dry enabled model)
  then obtain p' where p': "RunPod_Provision demo_rest 0 \<lparr>fm_BaseModel = ''m'', fm_Adapter = ''''\<rparr> demo_pods = (Inr ''runpod-p1'', p')"
    by (metis prod.collapse)
  have ne: "''runpod-p1'' \<noteq> ''runpod-dryrun''" by simp
  show ?thesis using runpod_retire_retries [OF p' dry ne] p' by (auto split: prod.splits)
qed

end
