(* ===== verification/Fleet.thy ===== *)
theory Fleet
  imports Fleet_Provision
begin

text \<open>
  The fleet manager of \<open>services/fleet\<close>: the scaling policies (\<open>policy.go\<close>), the hysteresis that damps
  scaling (\<open>hysteresis.go\<close>) and the control loop with its tracked workers (\<open>loop.go\<close>). The provisioner is a
  pair of operations on a state of its own, as the interface of \<open>Fleet_Provision\<close> has them. A goroutine
  that waits for a new worker is an entry of \<open>mg_waiters\<close>; the interleavings of these goroutines with
  the loop and with activations are the step relation of \<open>Fleet_Interleaving\<close>. Metrics and logs are not
  kept; the commands sent to Redis are.
\<close>

section \<open>Policies\<close>

record ScalingPolicy =
  sp_BaseModel :: string
  sp_Adapter :: string
  sp_MinReplicas :: int
  sp_MaxReplicas :: int
  sp_TargetConcurrency :: int
  sp_ScaleUpUtilization :: real
  sp_ScaleDownDelaySeconds :: int
  sp_StabilizationWindowSeconds :: int

abbreviation policy_model :: "ScalingPolicy \<Rightarrow> FleetModel" where
  "policy_model p \<equiv> \<lparr>fm_BaseModel = sp_BaseModel p, fm_Adapter = sp_Adapter p\<rparr>"

definition DefaultPolicy :: "FleetModel \<Rightarrow> ScalingPolicy" where
  "DefaultPolicy m =
     \<lparr>sp_BaseModel = fm_BaseModel m, sp_Adapter = fm_Adapter m, sp_MinReplicas = 0, sp_MaxReplicas = 3,
      sp_TargetConcurrency = 16, sp_ScaleUpUtilization = 7 / 10, sp_ScaleDownDelaySeconds = 900,
      sp_StabilizationWindowSeconds = 60\<rparr>"

text \<open>The cache; \<open>pc_rows\<close> is the table, \<^const>\<open>None\<close> without a database.\<close>

record PolicyCache =
  pc_rows :: "ScalingPolicy list option"
  pc_by :: "string \<rightharpoonup> ScalingPolicy"

definition NewPolicyCache :: "ScalingPolicy list option \<Rightarrow> PolicyCache" where
  "NewPolicyCache rows = \<lparr>pc_rows = rows, pc_by = Map.empty\<rparr>"

definition Policy_Get :: "PolicyCache \<Rightarrow> FleetModel \<Rightarrow> ScalingPolicy" where
  "Policy_Get c m = (case pc_by c (fleet_key m) of Some p \<Rightarrow> p | None \<Rightarrow> DefaultPolicy m)"

definition Policy_Reload :: "goerr option \<Rightarrow> PolicyCache \<Rightarrow> goerr option \<times> PolicyCache" where
  "Policy_Reload err c =
     (case pc_rows c of
        None \<Rightarrow> (None, c)
      | Some rows \<Rightarrow>
          (case err of
             Some e \<Rightarrow> (Some e, c)
           | None \<Rightarrow> (None, c\<lparr>pc_by := fold (\<lambda>r m. m(fleet_key (policy_model r) \<mapsto> r)) rows Map.empty\<rparr>)))"

text \<open>\<open>save\<close> is the database's find-or-create: the row as it is stored, and the table after it.\<close>

definition Policy_Upsert ::
  "(ScalingPolicy \<Rightarrow> ScalingPolicy list \<Rightarrow> goerr + ScalingPolicy \<times> ScalingPolicy list) \<Rightarrow> ScalingPolicy \<Rightarrow>
     PolicyCache \<Rightarrow> goerr option \<times> PolicyCache" where
  "Policy_Upsert save p c =
     (case pc_rows c of
        None \<Rightarrow> (None, c\<lparr>pc_by := (pc_by c)(fleet_key (policy_model p) \<mapsto> p)\<rparr>)
      | Some rows \<Rightarrow>
          (case save p rows of
             Inl e \<Rightarrow> (Some e, c)
           | Inr (p', rows') \<Rightarrow>
               (None, c\<lparr>pc_rows := Some rows', pc_by := (pc_by c)(fleet_key (policy_model p') \<mapsto> p')\<rparr>)))"

section \<open>Hysteresis\<close>

record hysteresisState =
  hs_samples :: "(int \<times> int) list"
  hs_lastAction :: gotime
  hs_pending :: bool

record Hysteresis =
  hy_by :: "string \<rightharpoonup> hysteresisState"
  hy_step :: int

definition NewHysteresis :: Hysteresis where
  "NewHysteresis = \<lparr>hy_by = Map.empty, hy_step = 1\<rparr>"

definition hyst_get :: "Hysteresis \<Rightarrow> string \<Rightarrow> hysteresisState" where
  "hyst_get h key =
     (case hy_by h key of Some st \<Rightarrow> st | None \<Rightarrow> \<lparr>hs_samples = [], hs_lastAction = None, hs_pending = False\<rparr>)"

definition hyst_window :: "ScalingPolicy \<Rightarrow> duration" where
  "hyst_window policy =
     (let w = sp_StabilizationWindowSeconds policy * second in if w \<le> 0 then 60 * second else w)"

definition hyst_cooldown :: "ScalingPolicy \<Rightarrow> duration" where
  "hyst_cooldown policy =
     (if sp_ScaleDownDelaySeconds policy < 0 then 900 * second else sp_ScaleDownDelaySeconds policy * second)"

definition hyst_decide :: "int \<Rightarrow> int \<Rightarrow> int \<Rightarrow> ScalingPolicy \<Rightarrow> int \<Rightarrow> hysteresisState \<Rightarrow> int \<times> hysteresisState" where
  "hyst_decide step desired current policy now st =
     (if hs_pending st then (current, st)
      else
        (let maxD = fold (\<lambda>(_, d) m. if d > m then d else m) (hs_samples st) desired;
             minD = fold (\<lambda>(_, d) m. if d < m then d else m) (hs_samples st) desired;
             acted = st\<lparr>hs_pending := True, hs_lastAction := Some now\<rparr> in
         if desired > current then
           (if current + step > maxD then maxD else current + step, acted)
         else if desired < current
                 \<and> (hyst_cooldown policy = 0 \<or> time_sub (Some now) (hs_lastAction st) \<ge> hyst_cooldown policy) then
           (if current - step < minD then minD else current - step, acted)
         else (current, st)))"

definition Hysteresis_Apply :: "string \<Rightarrow> int \<Rightarrow> int \<Rightarrow> ScalingPolicy \<Rightarrow> int \<Rightarrow> Hysteresis \<Rightarrow> int \<times> Hysteresis" where
  "Hysteresis_Apply key desired current policy now h =
     (let st = hyst_get h key;
          cut = now - hyst_window policy;
          st1 = st\<lparr>hs_samples := filter (\<lambda>(t, _). t > cut) (hs_samples st @ [(now, desired)])\<rparr>;
          (out, st2) = hyst_decide (hy_step h) desired current policy now st1 in
      (out, h\<lparr>hy_by := (hy_by h)(key \<mapsto> st2)\<rparr>))"

definition ClearPending :: "string \<Rightarrow> Hysteresis \<Rightarrow> Hysteresis" where
  "ClearPending key h =
     (case hy_by h key of
        None \<Rightarrow> h
      | Some st \<Rightarrow> h\<lparr>hy_by := (hy_by h)(key \<mapsto> st\<lparr>hs_pending := False\<rparr>)\<rparr>)"

section \<open>The manager\<close>

datatype WorkerState = StateProvisioning | StateReady | StateDraining | StateRetired

record trackedWorker =
  tw_ID :: string
  tw_Model :: FleetModel
  tw_State :: WorkerState
  tw_InFlight :: int

record 'p Manager =
  mg_policies :: PolicyCache
  mg_prov :: 'p
  mg_lifecycle :: bool
  mg_hyst :: Hysteresis
  mg_workers :: "(string \<times> trackedWorker) list"
  mg_desired :: "string \<rightharpoonup> int"
  mg_redis :: "(string \<times> string) list option"
  mg_waiters :: "(string \<times> FleetModel) list"

definition NewManager :: "PolicyCache \<Rightarrow> 'p \<Rightarrow> bool \<Rightarrow> bool \<Rightarrow> 'p Manager" where
  "NewManager policies prov lifecycle rdb =
     \<lparr>mg_policies = policies, mg_prov = prov, mg_lifecycle = lifecycle, mg_hyst = NewHysteresis, mg_workers = [],
      mg_desired = Map.empty, mg_redis = (if rdb then Some [] else None), mg_waiters = []\<rparr>"

definition rdb_Set :: "string \<Rightarrow> string \<Rightarrow> 'p Manager \<Rightarrow> 'p Manager" where
  "rdb_Set k v m = m\<lparr>mg_redis := map_option (\<lambda>cs. cs @ [(k, v)]) (mg_redis m)\<rparr>"

text \<open>The guarded writes \<open>if w := m.workers[wid]; w != nil\<close>.\<close>

definition upd_worker :: "string \<Rightarrow> (trackedWorker \<Rightarrow> trackedWorker) \<Rightarrow> (string \<times> trackedWorker) list \<Rightarrow>
    (string \<times> trackedWorker) list" where
  "upd_worker w f ws = (case map_of ws w of None \<Rightarrow> ws | Some t \<Rightarrow> AList.update w (f t) ws)"

definition set_state :: "string \<Rightarrow> WorkerState \<Rightarrow> 'p Manager \<Rightarrow> 'p Manager" where
  "set_state w st m = m\<lparr>mg_workers := upd_worker w (\<lambda>t. t\<lparr>tw_State := st\<rparr>) (mg_workers m)\<rparr>"

definition SetInFlight :: "string \<Rightarrow> int \<Rightarrow> 'p Manager \<Rightarrow> 'p Manager" where
  "SetInFlight w n m = m\<lparr>mg_workers := upd_worker w (\<lambda>t. t\<lparr>tw_InFlight := n\<rparr>) (mg_workers m)\<rparr>"

subsection \<open>Counting\<close>

definition snap_views :: "RoutingSnapshot option \<Rightarrow> WorkerView list" where
  "snap_views snap = (case snap of None \<Rightarrow> [] | Some s \<Rightarrow> rs_Workers s)"

definition serves :: "FleetModel \<Rightarrow> WorkerView \<Rightarrow> bool" where
  "serves md w \<longleftrightarrow> wv_BaseModel w = fm_BaseModel md \<and> wv_Adapter w = fm_Adapter md"

definition ready_ids :: "RoutingSnapshot option \<Rightarrow> FleetModel \<Rightarrow> (string \<times> trackedWorker) list \<Rightarrow> string list" where
  "ready_ids snap md ws =
     map wv_ID (filter (\<lambda>w. serves md w \<and> wv_Healthy w \<and> wv_Ready w) (snap_views snap))
     @ map (tw_ID \<circ> snd) (filter (\<lambda>(_, t). fleet_key (tw_Model t) = fleet_key md \<and> tw_State t = StateReady) ws)"

definition readyCount :: "RoutingSnapshot option \<Rightarrow> FleetModel \<Rightarrow> 'p Manager \<Rightarrow> int" where
  "readyCount snap md m = int (length (remdups (ready_ids snap md (mg_workers m))))"

definition provisioningCount :: "FleetModel \<Rightarrow> 'p Manager \<Rightarrow> int" where
  "provisioningCount md m =
     int (length (filter (\<lambda>(_, t). fleet_key (tw_Model t) = fleet_key md \<and> tw_State t = StateProvisioning) (mg_workers m)))"

definition sumActive :: "RoutingSnapshot option \<Rightarrow> FleetModel \<Rightarrow> int" where
  "sumActive snap md =
     sum_list (map snd (fold (\<lambda>w. AList.update (wv_ID w) (wv_QueueDepth w + wv_InFlight w))
       (filter (serves md) (snap_views snap)) []))"

definition Fleet_Desired :: "FleetModel \<Rightarrow> 'p Manager \<Rightarrow> int" where
  "Fleet_Desired md m = (case mg_desired m (fleet_key md) of Some d \<Rightarrow> d | None \<Rightarrow> 0)"

subsection \<open>Arithmetic\<close>

definition ceilDiv :: "int \<Rightarrow> int \<Rightarrow> int" where
  "ceilDiv a b = (if b \<le> 0 then 0 else if a \<le> 0 then 0 else (a + b - 1) div b)"

definition clamp :: "int \<Rightarrow> int \<Rightarrow> int \<Rightarrow> int" where
  "clamp v lo hi = (if v < lo then lo else if hi > 0 \<and> v > hi then hi else v)"

text \<open>The replicas \<open>reconcile\<close> asks the hysteresis for.\<close>

definition wanted :: "ScalingPolicy \<Rightarrow> int \<Rightarrow> int \<Rightarrow> int" where
  "wanted policy ready active =
     (let target = (if sp_TargetConcurrency policy \<le> 0 then 16 else sp_TargetConcurrency policy);
          raw = ceilDiv active target;
          raw1 = (if active > 0
                     \<and> real_of_int active / real_of_int (target * (if ready > 1 then ready else 1)) < sp_ScaleUpUtilization policy
                     \<and> raw \<le> ready then ready else raw) in
      clamp raw1 (sp_MinReplicas policy) (sp_MaxReplicas policy))"

subsection \<open>Scaling up\<close>

type_synonym 'p provision_fn = "FleetModel \<Rightarrow> 'p \<Rightarrow> (goerr + string) \<times> 'p"
type_synonym 'p retire_fn = "string \<Rightarrow> 'p \<Rightarrow> goerr option \<times> 'p"

definition placeholder :: "FleetModel \<Rightarrow> string" where
  "placeholder md = ''provisioning-'' @ fleet_key md"

definition new_worker :: "string \<Rightarrow> FleetModel \<Rightarrow> trackedWorker" where
  "new_worker w md = \<lparr>tw_ID = w, tw_Model = md, tw_State = StateProvisioning, tw_InFlight = 0\<rparr>"

definition scale_begin :: "FleetModel \<Rightarrow> 'p Manager \<Rightarrow> 'p Manager" where
  "scale_begin md m = m\<lparr>mg_workers := AList.update (placeholder md) (new_worker (placeholder md) md) (mg_workers m)\<rparr>"

definition scale_call :: "'p provision_fn \<Rightarrow> FleetModel \<Rightarrow> 'p Manager \<Rightarrow> (goerr + string) \<times> 'p Manager" where
  "scale_call prov md m = (case prov md (mg_prov m) of (r, p) \<Rightarrow> (r, m\<lparr>mg_prov := p\<rparr>))"

text \<open>The section after \<open>Provision\<close>: the placeholder goes, a new worker is tracked.\<close>

definition scale_end :: "FleetModel \<Rightarrow> goerr + string \<Rightarrow> 'p Manager \<Rightarrow> 'p Manager" where
  "scale_end md r m =
     (let ws = AList.delete (placeholder md) (mg_workers m) in
      case r of
        Inl _ \<Rightarrow> m\<lparr>mg_workers := ws\<rparr>
      | Inr w \<Rightarrow> m\<lparr>mg_workers := AList.update w (new_worker w md) ws\<rparr>)"

definition scaleUp :: "'p provision_fn \<Rightarrow> FleetModel \<Rightarrow> 'p Manager \<Rightarrow> goerr option \<times> 'p Manager" where
  "scaleUp prov md m =
     (case scale_call prov md (scale_begin md m) of
        (Inl e, m1) \<Rightarrow> (Some e, scale_end md (Inl e) m1)
      | (Inr w, m1) \<Rightarrow>
          (let m2 = scale_end md (Inr w) m1;
               m3 = m2\<lparr>mg_hyst := ClearPending (fleet_key md) (mg_hyst m2)\<rparr> in
           if mg_lifecycle m3 then (None, m3\<lparr>mg_waiters := mg_waiters m3 @ [(w, md)]\<rparr>)
           else (None, set_state w StateReady m3)))"

text \<open>
  The goroutine of \<open>scaleUp\<close> when \<open>WaitReady\<close> returns: on success the callback set by \<open>SetLifecycle\<close> and
  then the goroutine itself mark the worker ready; on an error the worker is retired.
\<close>

definition OnWorkerReady :: "string \<Rightarrow> 'p Manager \<Rightarrow> 'p Manager" where
  "OnWorkerReady w m = set_state w StateReady m"

definition wait_done :: "'p retire_fn \<Rightarrow> goerr option \<Rightarrow> string \<times> FleetModel \<Rightarrow> 'p Manager \<Rightarrow> 'p Manager" where
  "wait_done ret res wt m =
     (let m0 = m\<lparr>mg_waiters := remove1 wt (mg_waiters m)\<rparr> in
      case res of
        None \<Rightarrow> set_state (fst wt) StateReady (OnWorkerReady (fst wt) m0)
      | Some _ \<Rightarrow> set_state (fst wt) StateRetired (m0\<lparr>mg_prov := snd (ret (fst wt) (mg_prov m0))\<rparr>))"

subsection \<open>Scaling down\<close>

definition drain_pick :: "FleetModel \<Rightarrow> (string \<times> trackedWorker) list \<Rightarrow> trackedWorker option" where
  "drain_pick md ws =
     fold (\<lambda>(_, w) pick.
        if fleet_key (tw_Model w) = fleet_key md \<and> tw_State w = StateReady then
          (case pick of None \<Rightarrow> Some w | Some p \<Rightarrow> if tw_InFlight w < tw_InFlight p then Some w else pick)
        else pick) ws None"

text \<open>
  What the drain loop meets: the clock at each round, the in-flight counts reported before it, and
  whether the context ends while it sleeps.
\<close>

record drain_env =
  de_start :: int
  de_now :: "nat \<Rightarrow> int"
  de_reports :: "nat \<Rightarrow> (string \<times> int) list"
  de_ctx :: "nat \<Rightarrow> goerr option"

text \<open>\<^const>\<open>None\<close> is out of fuel; \<open>Some None\<close> is the end of the loop, \<open>Some (Some e)\<close> the early return.\<close>

fun drain_wait :: "drain_env \<Rightarrow> string \<Rightarrow> nat \<Rightarrow> nat \<Rightarrow> 'p Manager \<Rightarrow> goerr option option \<times> 'p Manager" where
  "drain_wait de w 0 k m = (None, m)"
| "drain_wait de w (Suc fuel) k m =
     (if \<not> de_now de k < de_start de + 120 * second then (Some None, m)
      else
        (let m1 = fold (\<lambda>(i, n). SetInFlight i n) (de_reports de k) m;
             inflight = (case map_of (mg_workers m1) w of Some t \<Rightarrow> tw_InFlight t | None \<Rightarrow> 0) in
         if inflight \<le> 0 then (Some None, m1)
         else
           (case de_ctx de k of
              Some e \<Rightarrow> (Some (Some e), m1)
            | None \<Rightarrow> drain_wait de w fuel (Suc k) m1)))"

definition drain_rounds :: nat where "drain_rounds = 601"

definition drainOne :: "'p retire_fn \<Rightarrow> drain_env \<Rightarrow> FleetModel \<Rightarrow> 'p Manager \<Rightarrow> goerr option \<times> 'p Manager" where
  "drainOne ret de md m =
     (case drain_pick md (mg_workers m) of
        None \<Rightarrow> (None, m\<lparr>mg_hyst := ClearPending (fleet_key md) (mg_hyst m)\<rparr>)
      | Some pick \<Rightarrow>
          (let w = tw_ID pick;
               m1 = rdb_Set (''fleet:state:'' @ w) ''draining'' (set_state w StateDraining m) in
           case drain_wait de w drain_rounds 0 m1 of
             (Some (Some e), m2) \<Rightarrow> (Some e, m2)
           | (_, m2) \<Rightarrow>
               (let m3 = m2\<lparr>mg_prov := snd (ret w (mg_prov m2))\<rparr>;
                    m4 = set_state w StateRetired m3 in
                (None, m4\<lparr>mg_hyst := ClearPending (fleet_key md) (mg_hyst m4)\<rparr>))))"

subsection \<open>The control loop\<close>

record fleet_env =
  fe_snap_ready :: "RoutingSnapshot option"
  fe_snap_active :: "RoutingSnapshot option"
  fe_now :: int
  fe_drain :: drain_env

definition reconcile ::
  "'p provision_fn \<Rightarrow> 'p retire_fn \<Rightarrow> fleet_env \<Rightarrow> FleetModel \<Rightarrow> 'p Manager \<Rightarrow> goerr option \<times> 'p Manager" where
  "reconcile prov ret fe md m =
     (let policy = Policy_Get (mg_policies m) md;
          ready = readyCount (fe_snap_ready fe) md m;
          active = sumActive (fe_snap_active fe) md;
          (desired, hyst) = Hysteresis_Apply (fleet_key md) (wanted policy ready active) ready policy (fe_now fe) (mg_hyst m);
          m1 = m\<lparr>mg_hyst := hyst, mg_desired := (mg_desired m)(fleet_key md \<mapsto> desired)\<rparr>;
          m2 = rdb_Set (''fleet:desired:'' @ fleet_key md) (itoa desired) m1;
          effective = ready + provisioningCount md m2 in
      if desired > effective then scaleUp prov md m2
      else if desired < ready then drainOne ret (fe_drain fe) md m2
      else (None, m2\<lparr>mg_hyst := ClearPending (fleet_key md) (mg_hyst m2)\<rparr>))"

definition discoverModels :: "RoutingSnapshot option \<Rightarrow> 'p Manager \<Rightarrow> FleetModel list" where
  "discoverModels snap m =
     (let seen1 = fold (\<lambda>w s. if wv_BaseModel w = '''' then s
                     else let i = \<lparr>fm_BaseModel = wv_BaseModel w, fm_Adapter = wv_Adapter w\<rparr> in AList.update (fleet_key i) i s)
                   (snap_views snap) [];
          seen2 = fold (\<lambda>(_, t) s. if tw_State t \<noteq> StateRetired then AList.update (fleet_key (tw_Model t)) (tw_Model t) s else s)
                   (mg_workers m) seen1 in
      map snd seen2)"

text \<open>\<open>env\<close> gives what each reconciled model meets; an error is logged and the next model follows.\<close>

definition ReconcileAll ::
  "'p provision_fn \<Rightarrow> 'p retire_fn \<Rightarrow> (FleetModel \<Rightarrow> fleet_env) \<Rightarrow> goerr option \<Rightarrow> RoutingSnapshot option \<Rightarrow> 'p Manager \<Rightarrow> 'p Manager" where
  "ReconcileAll prov ret env reloadErr snap m =
     (let m1 = m\<lparr>mg_policies := snd (Policy_Reload reloadErr (mg_policies m))\<rparr> in
      fold (\<lambda>md m. snd (reconcile prov ret (env md) md m)) (discoverModels snap m1) m1)"

subsection \<open>Activation by the gateway\<close>

definition NeedsActivation :: "RoutingSnapshot option \<Rightarrow> string \<Rightarrow> 'p Manager \<Rightarrow> bool" where
  "NeedsActivation snap baseModel m =
     (let md = \<lparr>fm_BaseModel = baseModel, fm_Adapter = ''''\<rparr> in
      if sp_MinReplicas (Policy_Get (mg_policies m) md) > 0 then False
      else readyCount snap md m = 0)"

definition Activate :: "'p provision_fn \<Rightarrow> RoutingSnapshot option \<Rightarrow> string \<Rightarrow> 'p Manager \<Rightarrow> goerr option \<times> 'p Manager" where
  "Activate prov snap baseModel m =
     (let md = \<lparr>fm_BaseModel = baseModel, fm_Adapter = ''''\<rparr> in
      if readyCount snap md m > 0 then (None, m) else scaleUp prov md m)"

section \<open>Arithmetic facts\<close>

lemma div_le_iff_less_mult:
  fixes x b n :: int
  assumes "0 < b"
  shows "x div b \<le> n \<longleftrightarrow> x < (n + 1) * b"
proof
  assume "x div b \<le> n"
  then have "b * (x div b) \<le> b * n" using assms by simp
  moreover have "x mod b < b" and "x = b * (x div b) + x mod b" using assms by simp_all
  ultimately have "x < b * n + b" by linarith
  then show "x < (n + 1) * b" by (simp add: algebra_simps)
next
  assume less: "x < (n + 1) * b"
  show "x div b \<le> n"
  proof (rule ccontr)
    assume "\<not> x div b \<le> n"
    then have "b * (n + 1) \<le> b * (x div b)" using assms by simp
    moreover have "0 \<le> x mod b" and "x = b * (x div b) + x mod b" using assms by simp_all
    ultimately have "b * (n + 1) \<le> x" by linarith
    then show False using less by (simp add: algebra_simps)
  qed
qed

text \<open>\<open>ceilDiv\<close> is the least count of replicas of capacity \<open>b\<close> that covers \<open>a\<close>.\<close>

lemma ceilDiv_le_iff:
  assumes "0 < b" and "0 \<le> n"
  shows "ceilDiv a b \<le> n \<longleftrightarrow> a \<le> n * b"
proof (cases "a \<le> 0")
  case True
  have "a \<le> n * b" using True assms by (meson mult_nonneg_nonneg order_trans less_imp_le)
  with True assms show ?thesis by (simp add: ceilDiv_def)
next
  case False
  have "a + b - 1 < (n + 1) * b \<longleftrightarrow> a \<le> n * b" unfolding distrib_right mult_1_left by linarith
  with False show ?thesis using assms by (simp add: ceilDiv_def div_le_iff_less_mult)
qed

lemma ceilDiv_nonneg: "0 \<le> ceilDiv a b"
  by (auto simp: ceilDiv_def pos_imp_zdiv_nonneg_iff)

lemma clamp_bounds:
  assumes "0 \<le> lo" and "lo \<le> hi"
  shows "lo \<le> clamp v lo hi" and "0 < hi \<Longrightarrow> clamp v lo hi \<le> hi"
  using assms by (auto simp: clamp_def)

section \<open>The window has no effect\<close>

text \<open>The damping without the samples: one step at a time, one action at a time, a cooldown on the way down.\<close>

definition damped :: "int \<Rightarrow> int \<Rightarrow> ScalingPolicy \<Rightarrow> int \<Rightarrow> gotime \<times> bool \<Rightarrow> int \<times> gotime \<times> bool" where
  "damped desired current policy now s =
     (case s of (la, pending) \<Rightarrow>
        if pending then (current, la, pending)
        else if desired > current then (current + 1, Some now, True)
        else if desired < current
                \<and> (hyst_cooldown policy = 0 \<or> time_sub (Some now) la \<ge> hyst_cooldown policy)
        then (current - 1, Some now, True)
        else (current, la, pending))"

definition hyst_flags :: "Hysteresis \<Rightarrow> string \<Rightarrow> gotime \<times> bool" where
  "hyst_flags h key = (hs_lastAction (hyst_get h key), hs_pending (hyst_get h key))"

datatype hyst_op = HApply string int int ScalingPolicy int | HClear string

fun hyst_run :: "hyst_op list \<Rightarrow> Hysteresis \<Rightarrow> int list" where
  "hyst_run [] h = []"
| "hyst_run (HApply key d c p now # ops) h =
     (case Hysteresis_Apply key d c p now h of (out, h') \<Rightarrow> out # hyst_run ops h')"
| "hyst_run (HClear key # ops) h = hyst_run ops (ClearPending key h)"

fun damped_run :: "hyst_op list \<Rightarrow> (string \<Rightarrow> gotime \<times> bool) \<Rightarrow> int list" where
  "damped_run [] s = []"
| "damped_run (HApply key d c p now # ops) s =
     (case damped d c p now (s key) of (out, f) \<Rightarrow> out # damped_run ops (s(key := f)))"
| "damped_run (HClear key # ops) s = damped_run ops (s(key := (fst (s key), False)))"

lemma fold_max_ge: "z \<le> fold (\<lambda>(_ :: int, d) m. if d > m then d else m) xs (z :: int)"
proof (induction xs arbitrary: z)
  case (Cons x xs)
  have "z \<le> (if snd x > z then snd x else z)" by simp
  also have "\<dots> \<le> fold (\<lambda>(_, d) m. if d > m then d else m) xs (if snd x > z then snd x else z)" by (rule Cons.IH)
  finally show ?case by (cases x) (simp split: if_splits)
qed simp

lemma fold_min_le: "fold (\<lambda>(_ :: int, d) m. if d < m then d else m) xs (z :: int) \<le> z"
proof (induction xs arbitrary: z)
  case (Cons x xs)
  have "fold (\<lambda>(_, d) m. if d < m then d else m) xs (if snd x < z then snd x else z) \<le> (if snd x < z then snd x else z)"
    by (rule Cons.IH)
  also have "\<dots> \<le> z" by simp
  finally show ?case by (cases x) (simp split: if_splits)
qed simp

lemma hyst_decide_damped:
  "case hyst_decide 1 d c p now st of
     (out, st') \<Rightarrow> (out, hs_lastAction st', hs_pending st') = damped d c p now (hs_lastAction st, hs_pending st)"
  using fold_max_ge [of d "hs_samples st"] fold_min_le [of "hs_samples st" d]
  by (auto simp: hyst_decide_def damped_def Let_def)

lemma hyst_get_upd: "hyst_get (h\<lparr>hy_by := (hy_by h)(key \<mapsto> st)\<rparr>) k = (if k = key then st else hyst_get h k)"
  by (simp add: hyst_get_def)

lemma Hysteresis_Apply_damped:
  assumes "hy_step h = 1"
  obtains h' where "Hysteresis_Apply key d c p now h = (fst (damped d c p now (hyst_flags h key)), h')"
    and "hyst_flags h' = (hyst_flags h)(key := snd (damped d c p now (hyst_flags h key)))" and "hy_step h' = 1"
proof -
  let ?st = "(hyst_get h key)\<lparr>hs_samples := filter (\<lambda>(t, _). t > now - hyst_window p) (hs_samples (hyst_get h key) @ [(now, d)])\<rparr>"
  obtain out st2 where r: "hyst_decide 1 d c p now ?st = (out, st2)" by fastforce
  with hyst_decide_damped [of d c p now ?st]
  have f: "(out, hs_lastAction st2, hs_pending st2) = damped d c p now (hyst_flags h key)"
    by (simp add: hyst_flags_def)
  show thesis
  proof (rule that [of "h\<lparr>hy_by := (hy_by h)(key \<mapsto> st2)\<rparr>"])
    show "Hysteresis_Apply key d c p now h = (fst (damped d c p now (hyst_flags h key)), h\<lparr>hy_by := (hy_by h)(key \<mapsto> st2)\<rparr>)"
      using r f by (simp add: Hysteresis_Apply_def Let_def assms flip: f)
    show "hyst_flags (h\<lparr>hy_by := (hy_by h)(key \<mapsto> st2)\<rparr>) = (hyst_flags h)(key := snd (damped d c p now (hyst_flags h key)))"
      by (simp add: fun_eq_iff hyst_flags_def hyst_get_upd flip: f [unfolded hyst_flags_def])
  qed (simp add: assms)
qed

lemma ClearPending_flags:
  "hyst_flags (ClearPending key h) = (hyst_flags h)(key := (fst (hyst_flags h key), False))"
  "hy_step (ClearPending key h) = hy_step h"
  by (auto simp: ClearPending_def hyst_flags_def hyst_get_def fun_eq_iff split: option.splits)

lemma hyst_run_damped: "hy_step h = 1 \<Longrightarrow> hyst_run ops h = damped_run ops (hyst_flags h)"
proof (induction ops arbitrary: h)
  case (Cons op ops)
  show ?case
  proof (cases op)
    case (HApply key d c p now)
    obtain h' where "Hysteresis_Apply key d c p now h = (fst (damped d c p now (hyst_flags h key)), h')"
      and "hyst_flags h' = (hyst_flags h)(key := snd (damped d c p now (hyst_flags h key)))" and "hy_step h' = 1"
      using Hysteresis_Apply_damped [OF Cons.prems] by blast
    with Cons.IH [of h'] HApply show ?thesis by (simp add: split_beta del: fun_upd_apply)
  next
    case (HClear key)
    with Cons.IH [of "ClearPending key h"] Cons.prems show ?thesis by (simp add: ClearPending_flags del: fun_upd_apply)
  qed
qed simp

text \<open>
  The stabilization window changes nothing: for every sequence of \<open>Apply\<close> and \<open>ClearPending\<close> calls on a
  new hysteresis, the replica counts it answers are those of the damping that keeps no samples at all,
  only the last action and the pending flag of each model: one step towards the desired count while no
  action is pending, and down only after the cooldown.
\<close>

theorem hysteresis_window_irrelevant:
  "hyst_run ops NewHysteresis = damped_run ops (\<lambda>_. (None, False))"
proof -
  have "hyst_flags NewHysteresis = (\<lambda>_. (None, False))"
    by (simp add: fun_eq_iff hyst_flags_def hyst_get_def NewHysteresis_def)
  then show ?thesis using hyst_run_damped [of NewHysteresis ops] by (simp add: NewHysteresis_def)
qed

section \<open>The wanted count\<close>

abbreviation concurrency_target :: "ScalingPolicy \<Rightarrow> int" where
  "concurrency_target p \<equiv> (if sp_TargetConcurrency p \<le> 0 then 16 else sp_TargetConcurrency p)"

definition needed :: "ScalingPolicy \<Rightarrow> int \<Rightarrow> int" where
  "needed p active = clamp (ceilDiv active (concurrency_target p)) (sp_MinReplicas p) (sp_MaxReplicas p)"

definition policy_ok :: "ScalingPolicy \<Rightarrow> bool" where
  "policy_ok p \<longleftrightarrow> 0 \<le> sp_MinReplicas p \<and> sp_MinReplicas p \<le> sp_MaxReplicas p \<and> 0 < sp_MaxReplicas p"

lemma wanted_up: "ready \<le> needed p active \<Longrightarrow> policy_ok p \<Longrightarrow> wanted p ready active = needed p active"
  by (auto simp: wanted_def needed_def clamp_def policy_ok_def Let_def)

definition under_utilized :: "ScalingPolicy \<Rightarrow> int \<Rightarrow> int \<Rightarrow> bool" where
  "under_utilized p ready active \<longleftrightarrow>
     real_of_int active / real_of_int (concurrency_target p * max ready 1) < sp_ScaleUpUtilization p"

lemma wanted_eq:
  "wanted p ready active =
     (if 0 < active \<and> under_utilized p ready active \<and> active \<le> ready * concurrency_target p \<and> 0 \<le> ready
      then clamp ready (sp_MinReplicas p) (sp_MaxReplicas p) else needed p active)"
  if "0 \<le> ready"
proof -
  have "(if ready > 1 then ready else 1) = max ready 1" by simp
  moreover have "ceilDiv active (concurrency_target p) \<le> ready \<longleftrightarrow> active \<le> ready * concurrency_target p"
    using ceilDiv_le_iff [of "concurrency_target p" ready active] that by auto
  ultimately show ?thesis
    unfolding wanted_def needed_def under_utilized_def Let_def using that by auto
qed

text \<open>
  The replica count the loop aims at, for a policy with bounds \<open>0 \<le> min \<le> max\<close>: it lies within the
  bounds; it covers the load whenever the largest fleet could; without load it is the minimum; and
  while there is load, the utilization test holds the fleet at its size exactly when the fleet is
  underused, so only a fleet at or above the scale-up utilization is ever made smaller.
\<close>

theorem wanted_replicas:
  assumes "policy_ok p" and "0 \<le> ready"
  shows "sp_MinReplicas p \<le> wanted p ready active \<and> wanted p ready active \<le> sp_MaxReplicas p
    \<and> (active \<le> sp_MaxReplicas p * concurrency_target p \<longrightarrow> active \<le> wanted p ready active * concurrency_target p)
    \<and> (active \<le> 0 \<longrightarrow> wanted p ready active = sp_MinReplicas p)
    \<and> (0 < active \<and> sp_MinReplicas p \<le> ready \<and> ready \<le> sp_MaxReplicas p \<and> wanted p ready active < ready \<longrightarrow>
         \<not> under_utilized p ready active)"
proof -
  let ?t = "concurrency_target p" and ?lo = "sp_MinReplicas p" and ?hi = "sp_MaxReplicas p" and ?w = "wanted p ready active"
  have b: "0 \<le> ?lo" "?lo \<le> ?hi" "0 < ?hi" and t: "0 < ?t" using assms(1) by (auto simp: policy_ok_def)
  have bounds: "?lo \<le> ?w" "?w \<le> ?hi"
    using clamp_bounds [OF b(1,2)] b(3) by (auto simp: wanted_def Let_def)
  have cover: "active \<le> ?w * ?t" if small: "active \<le> ?hi * ?t"
  proof -
    have "ceilDiv active ?t \<le> ?hi" using ceilDiv_le_iff [OF t, of ?hi active] b small by simp
    then have "ceilDiv active ?t \<le> ?w" unfolding wanted_def Let_def clamp_def using b by auto
    then show ?thesis using ceilDiv_le_iff [OF t, of ?w active] bounds b by linarith
  qed
  have idle: "?w = ?lo" if "active \<le> 0"
    using that b by (auto simp: wanted_def Let_def ceilDiv_def clamp_def)
  have down: "\<not> under_utilized p ready active" if "0 < active" "?lo \<le> ready" "ready \<le> ?hi" "?w < ready"
  proof
    assume u: "under_utilized p ready active"
    have "?w = clamp ready ?lo ?hi \<or> \<not> active \<le> ready * ?t" using wanted_eq [OF assms(2), of p active] u that(1) assms(2) by auto
    moreover have "clamp ready ?lo ?hi = ready" using that by (simp add: clamp_def)
    ultimately have "\<not> active \<le> ready * ?t" using that(4) by auto
    then have "ready < ceilDiv active ?t" using ceilDiv_le_iff [OF t assms(2), of active] by simp
    then have "ready \<le> needed p active" using that by (auto simp: needed_def clamp_def)
    then show False using wanted_up [OF _ assms(1)] that(4) by auto
  qed
  show ?thesis using bounds cover idle down by blast
qed

definition demo_policy :: ScalingPolicy where
  "demo_policy = (DefaultPolicy \<lparr>fm_BaseModel = ''m'', fm_Adapter = ''''\<rparr>)\<lparr>sp_MaxReplicas := 5\<rparr>"

theorem wanted_replicas_witness:
  "wanted demo_policy 4 48 = 3 \<and> \<not> under_utilized demo_policy 4 48 \<and> wanted demo_policy 4 1 = 4"
proof -
  have ok: "policy_ok demo_policy" by (simp add: policy_ok_def demo_policy_def DefaultPolicy_def)
  have 1: "wanted demo_policy 4 48 = 3" "wanted demo_policy 4 1 = 4"
    by (simp_all add: wanted_def demo_policy_def DefaultPolicy_def ceilDiv_def clamp_def)
  with wanted_replicas [OF ok, of 4 48] show ?thesis by (simp add: demo_policy_def DefaultPolicy_def)
qed

section \<open>Convergence\<close>

definition tracked_in :: "WorkerState \<Rightarrow> FleetModel \<Rightarrow> (string \<times> trackedWorker) list \<Rightarrow> string set" where
  "tracked_in st md ws =
     {k. \<exists>t. (k, t) \<in> set ws \<and> fleet_key (tw_Model t) = fleet_key md \<and> tw_State t = st}"

definition snap_ready :: "RoutingSnapshot option \<Rightarrow> FleetModel \<Rightarrow> string set" where
  "snap_ready snap md = {wv_ID v |v. v \<in> set (snap_views snap) \<and> serves md v \<and> wv_Healthy v \<and> wv_Ready v}"

text \<open>Between two operations: keys are the ids and were issued by the provisioner.\<close>

definition mgr_ok :: "('p \<Rightarrow> string set) \<Rightarrow> 'p Manager \<Rightarrow> bool" where
  "mgr_ok issued m \<longleftrightarrow>
     distinct (map fst (mg_workers m))
     \<and> (\<forall>k t. (k, t) \<in> set (mg_workers m) \<longrightarrow> tw_ID t = k \<and> k \<in> issued (mg_prov m))"

lemma readyCount_card:
  assumes "mgr_ok issued m"
  shows "readyCount snap md m = int (card (snap_ready snap md \<union> tracked_in StateReady md (mg_workers m)))"
proof -
  let ?R = "\<lambda>(_, t). fleet_key (tw_Model t) = fleet_key md \<and> tw_State t = StateReady"
  have ids: "tw_ID t = k" if "(k, t) \<in> set (mg_workers m)" for k t using assms that by (auto simp: mgr_ok_def)
  have "(tw_ID \<circ> snd) ` set (filter ?R (mg_workers m)) = tracked_in StateReady md (mg_workers m)"
    unfolding tracked_in_def by (auto simp: image_iff ids) (metis ids)
  moreover have "wv_ID ` set (filter (\<lambda>w. serves md w \<and> wv_Healthy w \<and> wv_Ready w) (snap_views snap)) = snap_ready snap md"
    by (auto simp: snap_ready_def)
  ultimately have "set (ready_ids snap md (mg_workers m)) = snap_ready snap md \<union> tracked_in StateReady md (mg_workers m)"
    unfolding ready_ids_def set_append set_map by simp
  then show ?thesis by (simp add: readyCount_def length_remdups_card_conv)
qed

lemma provisioningCount_card:
  assumes "mgr_ok issued m"
  shows "provisioningCount md m = int (card (tracked_in StateProvisioning md (mg_workers m)))"
proof -
  let ?f = "filter (\<lambda>(_, t). fleet_key (tw_Model t) = fleet_key md \<and> tw_State t = StateProvisioning) (mg_workers m)"
  have "distinct (map fst ?f)" using assms by (simp add: mgr_ok_def distinct_map_filter)
  moreover have "set (map fst ?f) = tracked_in StateProvisioning md (mg_workers m)"
    unfolding tracked_in_def set_map by (auto simp: image_iff)
  ultimately have "card (tracked_in StateProvisioning md (mg_workers m)) = length (map fst ?f)"
    using distinct_card by metis
  then show ?thesis unfolding provisioningCount_def by simp
qed

lemma update_fresh: "k \<notin> set (map fst al) \<Longrightarrow> AList.update k v al = al @ [(k, v)]"
  by (induction al) auto

lemma delete_fresh: "k \<notin> set (map fst al) \<Longrightarrow> AList.delete k al = al"
  by (induction al) (auto simp: AList.delete_eq)

lemma delete_last: "k \<notin> set (map fst al) \<Longrightarrow> AList.delete k (al @ [(k, v)]) = al"
  by (induction al) (auto simp: AList.delete_eq)

lemma has_prefix_placeholder: "has_prefix (placeholder md) ''provisioning-''"
  unfolding placeholder_def by (rule has_prefix_append)

text \<open>The result of a scale-up whose worker id is new.\<close>

lemma scaleUp_fresh:
  assumes prov: "prov md (mg_prov m) = (Inr w, p')" and lc: "mg_lifecycle m"
    and new: "w \<notin> set (map fst (mg_workers m))" and free: "placeholder md \<notin> set (map fst (mg_workers m))"
    and ne: "w \<noteq> placeholder md"
  shows "scaleUp prov md m =
    (None, m\<lparr>mg_prov := p', mg_workers := mg_workers m @ [(w, new_worker w md)],
             mg_hyst := ClearPending (fleet_key md) (mg_hyst m), mg_waiters := mg_waiters m @ [(w, md)]\<rparr>)"
  using assms
  by (simp add: scaleUp_def scale_call_def scale_begin_def scale_end_def Let_def update_fresh delete_last)

lemma set_state_last:
  assumes "w \<notin> set (map fst al)"
  shows "upd_worker w f (al @ [(w, t)]) = al @ [(w, f t)]"
proof -
  have "AList.update w v (al @ [(w, t)]) = al @ [(w, v)]" for v using assms by (induction al) auto
  moreover have "map_of (al @ [(w, t)]) w = Some t"
    using assms by (simp add: map_of_eq_None_iff [THEN iffD2] map_add_def)
  ultimately show ?thesis by (simp add: upd_worker_def)
qed

text \<open>
  One round of the loop for a model whose new workers come up: a reconciliation, then the goroutines
  that wait for workers finish, each with a ready worker.
\<close>

definition fleet_round ::
  "'p provision_fn \<Rightarrow> 'p retire_fn \<Rightarrow> fleet_env \<Rightarrow> FleetModel \<Rightarrow> 'p Manager \<Rightarrow> goerr option \<times> 'p Manager" where
  "fleet_round prov ret fe md m =
     (case reconcile prov ret fe md m of
        (e, m1) \<Rightarrow> (e, fold (wait_done ret None) (mg_waiters m1) m1))"

definition settled :: "('p \<Rightarrow> string set) \<Rightarrow> string set \<Rightarrow> FleetModel \<Rightarrow> 'p Manager \<Rightarrow> bool" where
  "settled issued ext md m \<longleftrightarrow>
     mgr_ok issued m \<and> mg_lifecycle m \<and> mg_waiters m = [] \<and> hy_step (mg_hyst m) = 1
     \<and> tracked_in StateProvisioning md (mg_workers m) = {}
     \<and> \<not> snd (hyst_flags (mg_hyst m) (fleet_key md))
     \<and> finite ext \<and> ext \<inter> tracked_in StateReady md (mg_workers m) = {}"

definition fleet_size :: "string set \<Rightarrow> FleetModel \<Rightarrow> 'p Manager \<Rightarrow> int" where
  "fleet_size ext md m = int (card ext) + int (card (tracked_in StateReady md (mg_workers m)))"

lemma finite_tracked [simp]: "finite (tracked_in st md ws)"
proof -
  have "tracked_in st md ws \<subseteq> fst ` set ws" by (force simp: tracked_in_def)
  then show ?thesis by (rule finite_subset) simp
qed

text \<open>What a round needs of the snapshot: the external workers, and otherwise only tracked ready ones.\<close>

definition sees :: "fleet_env \<Rightarrow> string set \<Rightarrow> int \<Rightarrow> FleetModel \<Rightarrow> 'p Manager \<Rightarrow> bool" where
  "sees fe ext active md m \<longleftrightarrow>
     sumActive (fe_snap_active fe) md = active
     \<and> ext \<subseteq> snap_ready (fe_snap_ready fe) md
     \<and> snap_ready (fe_snap_ready fe) md \<subseteq> ext \<union> tracked_in StateReady md (mg_workers m)"

lemma readyCount_sees:
  assumes "settled issued ext md m" and "sees fe ext active md m"
  shows "readyCount (fe_snap_ready fe) md m = fleet_size ext md m"
proof -
  have ok: "mgr_ok issued m" and fin: "finite ext" "ext \<inter> tracked_in StateReady md (mg_workers m) = {}"
    using assms(1) by (auto simp: settled_def)
  have "snap_ready (fe_snap_ready fe) md \<union> tracked_in StateReady md (mg_workers m) = ext \<union> tracked_in StateReady md (mg_workers m)"
    using assms(2) by (auto simp: sees_def)
  then show ?thesis using readyCount_card [OF ok, of "fe_snap_ready fe" md] fin by (simp add: fleet_size_def card_Un_disjoint)
qed

lemma rdb_Set_simps [simp]:
  "mg_workers (rdb_Set k v m) = mg_workers m" "mg_prov (rdb_Set k v m) = mg_prov m"
  "mg_hyst (rdb_Set k v m) = mg_hyst m" "mg_waiters (rdb_Set k v m) = mg_waiters m"
  "mg_lifecycle (rdb_Set k v m) = mg_lifecycle m" "mg_policies (rdb_Set k v m) = mg_policies m"
  "mg_desired (rdb_Set k v m) = mg_desired m"
  by (simp_all add: rdb_Set_def)

text \<open>What \<open>reconcile\<close> has done when it chooses its branch.\<close>

definition booked :: "FleetModel \<Rightarrow> int \<Rightarrow> Hysteresis \<Rightarrow> 'p Manager \<Rightarrow> 'p Manager" where
  "booked md d h m =
     rdb_Set (''fleet:desired:'' @ fleet_key md) (itoa d)
       (m\<lparr>mg_hyst := h, mg_desired := (mg_desired m)(fleet_key md \<mapsto> d)\<rparr>)"

lemma booked_simps [simp]:
  "mg_workers (booked md d h m) = mg_workers m" "mg_prov (booked md d h m) = mg_prov m"
  "mg_hyst (booked md d h m) = h" "mg_waiters (booked md d h m) = mg_waiters m"
  "mg_lifecycle (booked md d h m) = mg_lifecycle m" "mg_policies (booked md d h m) = mg_policies m"
  by (simp_all add: booked_def)

lemma reconcile_booked:
  assumes "Hysteresis_Apply (fleet_key md)
      (wanted (Policy_Get (mg_policies m) md) (readyCount (fe_snap_ready fe) md m) (sumActive (fe_snap_active fe) md))
      (readyCount (fe_snap_ready fe) md m) (Policy_Get (mg_policies m) md) (fe_now fe) (mg_hyst m) = (d, h)"
  shows "reconcile prov ret fe md m =
    (if d > readyCount (fe_snap_ready fe) md m + provisioningCount md m then scaleUp prov md (booked md d h m)
     else if d < readyCount (fe_snap_ready fe) md m then drainOne ret (fe_drain fe) md (booked md d h m)
     else (None, (booked md d h m)\<lparr>mg_hyst := ClearPending (fleet_key md) h\<rparr>))"
proof -
  have "provisioningCount md (booked md d h m) = provisioningCount md m" by (simp add: provisioningCount_def)
  then show ?thesis
    unfolding reconcile_def Let_def assms prod.case booked_def [symmetric] booked_simps(3) by simp
qed

lemma tracked_in_snoc:
  "tracked_in st md (ws @ [(k, t)]) =
     tracked_in st md ws \<union> (if fleet_key (tw_Model t) = fleet_key md \<and> tw_State t = st then {k} else {})"
  by (auto simp: tracked_in_def)

lemma settled_hyst:
  assumes "settled issued ext md m" and "hy_step h = 1" and "\<not> snd (hyst_flags h (fleet_key md))"
  shows "settled issued ext md ((booked md d h' m)\<lparr>mg_hyst := h\<rparr>)"
  using assms by (auto simp: settled_def mgr_ok_def)

context fresh_provisioner
begin

lemma new_worker_unknown:
  assumes "mgr_ok issued m" and "provision x md (mg_prov m) = (Inr w, p')"
  shows "w \<notin> set (map fst (mg_workers m))" and "placeholder md \<notin> set (map fst (mg_workers m))" and "w \<noteq> placeholder md"
proof -
  have keys: "k \<in> issued (mg_prov m)" if "k \<in> set (map fst (mg_workers m))" for k
    using assms(1) that by (auto simp: mgr_ok_def)
  show "w \<notin> set (map fst (mg_workers m))" using provision_fresh [OF assms(2)] keys by blast
  show "placeholder md \<notin> set (map fst (mg_workers m))"
    using keys issued_named has_prefix_placeholder by blast
  show "w \<noteq> placeholder md" using provision_fresh [OF assms(2)] issued_named has_prefix_placeholder by blast
qed

text \<open>A fleet below the size it needs grows by one ready worker in a round.\<close>

lemma round_grows:
  assumes st: "settled issued ext md m" and sees: "sees fe ext active md m"
    and pol: "policy_ok (Policy_Get (mg_policies m) md)"
    and prov: "provision x md (mg_prov m) = (Inr w, p')" and ext: "w \<notin> ext"
    and less: "fleet_size ext md m < needed (Policy_Get (mg_policies m) md) active"
  obtains m' where "fleet_round (provision x) ret fe md m = (None, m')" and "settled issued ext md m'"
    and "fleet_size ext md m' = fleet_size ext md m + 1" and "mg_policies m' = mg_policies m"
    and "mg_prov m' = p'"
proof -
  let ?r = "fleet_size ext md m" and ?P = "Policy_Get (mg_policies m) md"
  note s = st [unfolded settled_def]
  have ready: "readyCount (fe_snap_ready fe) md m = ?r" using readyCount_sees [OF st sees] .
  have want: "wanted ?P ?r active = needed ?P active" using wanted_up [OF _ pol] less by simp
  have none: "provisioningCount md m = 0" using provisioningCount_card [of issued m md] s by simp
  obtain la where fl: "hyst_flags (mg_hyst m) (fleet_key md) = (la, False)"
    using s by (metis prod.collapse)
  have dm: "damped (needed ?P active) ?r ?P (fe_now fe) (la, False) = (?r + 1, Some (fe_now fe), True)"
    using less by (simp add: damped_def)
  obtain h where app: "Hysteresis_Apply (fleet_key md) (needed ?P active) ?r ?P (fe_now fe) (mg_hyst m) = (?r + 1, h)"
    and step: "hy_step h = 1"
    using Hysteresis_Apply_damped [of "mg_hyst m" "fleet_key md" "needed ?P active" ?r ?P "fe_now fe"] s fl dm
    by (metis fst_conv)
  let ?m = "booked md (?r + 1) h m"
  let ?m3 = "?m\<lparr>mg_prov := p', mg_workers := mg_workers m @ [(w, new_worker w md)],
             mg_hyst := ClearPending (fleet_key md) h, mg_waiters := [(w, md)]\<rparr>"
  have ok: "mgr_ok issued m" using s by simp
  note nw = new_worker_unknown [OF ok prov]
  have "reconcile (provision x) ret fe md m = scaleUp (provision x) md ?m"
    using reconcile_booked [of md m fe "?r + 1" h] app ready want none sees by (simp add: sees_def)
  also have "\<dots> = (None, ?m3)"
    using scaleUp_fresh [of "provision x" md ?m w p'] nw prov s by simp
  finally have rec: "reconcile (provision x) ret fe md m = (None, ?m3)" .
  let ?t = "(new_worker w md)\<lparr>tw_State := StateReady\<rparr>"
  let ?m4 = "?m\<lparr>mg_prov := p', mg_workers := mg_workers m @ [(w, ?t)],
             mg_hyst := ClearPending (fleet_key md) h, mg_waiters := []\<rparr>"
  have "fleet_round (provision x) ret fe md m = (None, wait_done ret None (w, md) ?m3)"
    by (simp add: fleet_round_def rec)
  also have "wait_done ret None (w, md) ?m3 = ?m4"
    using nw(1) by (simp add: wait_done_def OnWorkerReady_def set_state_def set_state_last)
  finally have round: "fleet_round (provision x) ret fe md m = (None, ?m4)" .
  have ready': "tracked_in StateReady md (mg_workers m @ [(w, ?t)]) = insert w (tracked_in StateReady md (mg_workers m))"
    by (simp add: tracked_in_snoc new_worker_def)
  have notin: "w \<notin> tracked_in StateReady md (mg_workers m)" using nw(1) by (force simp: tracked_in_def)
  have "mgr_ok issued ?m4"
    using ok nw(1) provision_fresh [OF prov] by (auto simp: mgr_ok_def new_worker_def)
  moreover have "tracked_in StateProvisioning md (mg_workers m @ [(w, ?t)]) = {}"
    using s by (simp add: tracked_in_snoc)
  ultimately have "settled issued ext md ?m4"
    using s step ext by (auto simp: settled_def ready' ClearPending_flags)
  moreover have "fleet_size ext md ?m4 = ?r + 1" using notin by (simp add: fleet_size_def ready')
  ultimately show thesis using that [OF round] by simp
qed

text \<open>A fleet of the size it needs stays as it is.\<close>

lemma round_stays:
  assumes st: "settled issued ext md m" and sees: "sees fe ext active md m"
    and pol: "policy_ok (Policy_Get (mg_policies m) md)"
    and eq: "fleet_size ext md m = needed (Policy_Get (mg_policies m) md) active"
  obtains m' where "fleet_round prov ret fe md m = (None, m')" and "settled issued ext md m'"
    and "mg_workers m' = mg_workers m" and "mg_policies m' = mg_policies m" and "mg_prov m' = mg_prov m"
proof -
  let ?r = "fleet_size ext md m" and ?P = "Policy_Get (mg_policies m) md"
  note s = st [unfolded settled_def]
  have ready: "readyCount (fe_snap_ready fe) md m = ?r" using readyCount_sees [OF st sees] .
  have want: "wanted ?P ?r active = ?r" using wanted_up [OF _ pol] eq by simp
  have none: "provisioningCount md m = 0" using provisioningCount_card [of issued m md] s by simp
  obtain la where fl: "hyst_flags (mg_hyst m) (fleet_key md) = (la, False)"
    using s by (metis prod.collapse)
  have dm: "damped ?r ?r ?P (fe_now fe) (la, False) = (?r, la, False)" by (simp add: damped_def)
  obtain h where app: "Hysteresis_Apply (fleet_key md) ?r ?r ?P (fe_now fe) (mg_hyst m) = (?r, h)"
    and step: "hy_step h = 1"
    using Hysteresis_Apply_damped [of "mg_hyst m" "fleet_key md" ?r ?r ?P "fe_now fe"] s fl dm
    by (metis fst_conv)
  let ?m = "(booked md ?r h m)\<lparr>mg_hyst := ClearPending (fleet_key md) h\<rparr>"
  have "reconcile prov ret fe md m = (None, ?m)"
    using reconcile_booked [of md m fe ?r h] app ready want none sees by (simp add: sees_def)
  then have "fleet_round prov ret fe md m = (None, ?m)" using s by (simp add: fleet_round_def)
  moreover have "settled issued ext md ?m"
    by (rule settled_hyst [OF st]) (simp_all add: step ClearPending_flags)
  ultimately show thesis using that by simp
qed

end

text \<open>
  Rounds with the local provisioner: the machine and the snapshots each round meets, and what the
  convergence below needs of them.
\<close>

fun fleet_rounds :: "(goerr \<Rightarrow> string) \<Rightarrow> FleetModel \<Rightarrow> (os_env \<times> fleet_env) list \<Rightarrow> LocalProcess Manager \<Rightarrow> LocalProcess Manager" where
  "fleet_rounds et md [] m = m"
| "fleet_rounds et md ((os, fe) # xs) m =
     fleet_rounds et md xs (snd (fleet_round (Local_Provision et os) Local_Retire fe md m))"

fun rounds_ok :: "(goerr \<Rightarrow> string) \<Rightarrow> FleetModel \<Rightarrow> string set \<Rightarrow> int \<Rightarrow> (os_env \<times> fleet_env) list \<Rightarrow> LocalProcess Manager \<Rightarrow> bool" where
  "rounds_ok et md ext active [] m \<longleftrightarrow> True"
| "rounds_ok et md ext active ((os, fe) # xs) m \<longleftrightarrow>
     sees fe ext active md m \<and> \<not> isl (fst (Local_Provision et os md (mg_prov m)))
     \<and> rounds_ok et md ext active xs (snd (fleet_round (Local_Provision et os) Local_Retire fe md m))"

lemma local_round:
  assumes st: "settled local_issued ext md m" and sees: "sees fe ext active md m"
    and pol: "policy_ok (Policy_Get (mg_policies m) md)" and ok: "\<not> isl (fst (Local_Provision et os md (mg_prov m)))"
    and ext: "\<And>w. w \<in> ext \<Longrightarrow> \<not> has_prefix w ''local-''"
    and le: "fleet_size ext md m \<le> needed (Policy_Get (mg_policies m) md) active"
  obtains m' where "fleet_round (Local_Provision et os) Local_Retire fe md m = (None, m')"
    and "settled local_issued ext md m'" and "mg_policies m' = mg_policies m"
    and "fleet_size ext md m' = min (needed (Policy_Get (mg_policies m) md) active) (fleet_size ext md m + 1)"
proof (cases "fleet_size ext md m = needed (Policy_Get (mg_policies m) md) active")
  case True
  from local_prov.round_stays [OF st sees pol True, of "Local_Provision et os" Local_Retire]
  obtain m' where m': "fleet_round (Local_Provision et os) Local_Retire fe md m = (None, m')" "settled local_issued ext md m'"
    "mg_workers m' = mg_workers m" "mg_policies m' = mg_policies m" by blast
  then have "fleet_size ext md m' = fleet_size ext md m" by (simp add: fleet_size_def)
  with that m' True show thesis by simp
next
  case False
  with le have less: "fleet_size ext md m < needed (Policy_Get (mg_policies m) md) active" by simp
  obtain w p' where p: "(\<lambda>(et, os). Local_Provision et os) (et, os) md (mg_prov m) = (Inr w, p')"
    using ok by (cases "Local_Provision et os md (mg_prov m)") (auto simp: isl_def split: sum.splits, metis sum.exhaust)
  then have "w = local_id md (Suc (lp_next (mg_prov m)))"
    by (cases rule: Local_Provision_cases [of et os md "mg_prov m"]) auto
  then have "has_prefix w ''local-''" unfolding local_id_def by (simp add: has_prefix_def)
  with ext have "w \<notin> ext" by blast
  from local_prov.round_grows [OF st sees pol p this less, of Local_Retire]
  obtain m' where "fleet_round (Local_Provision et os) Local_Retire fe md m = (None, m')" "settled local_issued ext md m'"
    "fleet_size ext md m' = fleet_size ext md m + 1" "mg_policies m' = mg_policies m" by auto
  with that less show thesis by simp
qed

lemma fleet_rounds_size:
  "settled local_issued ext md m \<Longrightarrow> policy_ok (Policy_Get (mg_policies m) md) \<Longrightarrow>
   (\<And>w. w \<in> ext \<Longrightarrow> \<not> has_prefix w ''local-'') \<Longrightarrow>
   fleet_size ext md m \<le> needed (Policy_Get (mg_policies m) md) active \<Longrightarrow> rounds_ok et md ext active xs m \<Longrightarrow>
   settled local_issued ext md (fleet_rounds et md xs m)
   \<and> fleet_size ext md (fleet_rounds et md xs m)
      = min (needed (Policy_Get (mg_policies m) md) active) (fleet_size ext md m + int (length xs))"
proof (induction xs arbitrary: m)
  case (Cons x xs)
  obtain os fe where x: "x = (os, fe)" by fastforce
  with Cons.prems(5) have "sees fe ext active md m" "\<not> isl (fst (Local_Provision et os md (mg_prov m)))" by auto
  from local_round [OF Cons.prems(1) this(1) Cons.prems(2) this(2) Cons.prems(3,4)]
  obtain m' where m': "fleet_round (Local_Provision et os) Local_Retire fe md m = (None, m')"
    "settled local_issued ext md m'" "mg_policies m' = mg_policies m"
    "fleet_size ext md m' = min (needed (Policy_Get (mg_policies m) md) active) (fleet_size ext md m + 1)"
    by blast
  with Cons.IH [of m'] Cons.prems x show ?case by simp
qed simp

text \<open>
  C9. The fleet reaches the size it needs: under a constant load, with a policy of bounds
  \<open>0 \<le> min \<le> max\<close>, local provisions that succeed, workers that come up, and snapshots that show the
  external workers and otherwise only workers of this fleet, a fleet that is not above the size it
  needs has after \<open>k\<close> rounds grown by \<open>k\<close> ready workers, up to the size it needs, and stays there.
\<close>

theorem fleet_converges:
  assumes "settled local_issued ext md m" and "policy_ok (Policy_Get (mg_policies m) md)"
    and "\<And>w. w \<in> ext \<Longrightarrow> \<not> has_prefix w ''local-''"
    and "fleet_size ext md m \<le> needed (Policy_Get (mg_policies m) md) active"
    and "rounds_ok et md ext active xs m"
    and "sees fe ext active md (fleet_rounds et md xs m)"
  shows "readyCount (fe_snap_ready fe) md (fleet_rounds et md xs m)
    = min (needed (Policy_Get (mg_policies m) md) active) (fleet_size ext md m + int (length xs))"
  using fleet_rounds_size [OF assms(1-5)] readyCount_sees [OF _ assms(6)] by auto

section \<open>Activation\<close>

text \<open>Repeated activations of a model that has no ready worker yet.\<close>

fun activations :: "(goerr \<Rightarrow> string) \<Rightarrow> RoutingSnapshot option \<Rightarrow> string \<Rightarrow> os_env list \<Rightarrow> LocalProcess Manager \<Rightarrow> LocalProcess Manager" where
  "activations et snap base [] m = m"
| "activations et snap base (os # oss) m =
     activations et snap base oss (snd (Activate (Local_Provision et os) snap base m))"

lemma activate_grows:
  assumes ok: "mgr_ok local_issued m" and lc: "mg_lifecycle m"
    and cold: "readyCount snap \<lparr>fm_BaseModel = base, fm_Adapter = ''''\<rparr> m = 0"
    and succ: "\<not> isl (fst (Local_Provision et os \<lparr>fm_BaseModel = base, fm_Adapter = ''''\<rparr> (mg_prov m)))"
  obtains m' where "snd (Activate (Local_Provision et os) snap base m) = m'" and "mgr_ok local_issued m'" and "mg_lifecycle m'"
    and "readyCount snap \<lparr>fm_BaseModel = base, fm_Adapter = ''''\<rparr> m' = 0"
    and "provisioningCount \<lparr>fm_BaseModel = base, fm_Adapter = ''''\<rparr> m' = provisioningCount \<lparr>fm_BaseModel = base, fm_Adapter = ''''\<rparr> m + 1"
    and "mg_prov m' = snd (Local_Provision et os \<lparr>fm_BaseModel = base, fm_Adapter = ''''\<rparr> (mg_prov m))"
    and "mg_policies m' = mg_policies m"
proof -
  let ?md = "\<lparr>fm_BaseModel = base, fm_Adapter = ''''\<rparr>"
  obtain w p' where p: "(\<lambda>(et, os). Local_Provision et os) (et, os) ?md (mg_prov m) = (Inr w, p')"
    using succ by (cases "Local_Provision et os ?md (mg_prov m)") (auto simp: isl_def split: sum.splits, metis sum.exhaust)
  note nw = local_prov.new_worker_unknown [OF ok p]
  let ?m = "m\<lparr>mg_prov := p', mg_workers := mg_workers m @ [(w, new_worker w ?md)],
             mg_hyst := ClearPending (fleet_key ?md) (mg_hyst m), mg_waiters := mg_waiters m @ [(w, ?md)]\<rparr>"
  have act: "snd (Activate (Local_Provision et os) snap base m) = ?m"
    using cold scaleUp_fresh [of "Local_Provision et os" ?md m w p', OF _ lc nw] p by (simp add: Activate_def Let_def)
  have ok': "mgr_ok local_issued ?m"
    using ok nw(1) local_prov.provision_fresh [OF p] by (auto simp: mgr_ok_def new_worker_def)
  have "ready_ids snap ?md (mg_workers ?m) = ready_ids snap ?md (mg_workers m)"
    by (simp add: ready_ids_def new_worker_def)
  then have "readyCount snap ?md ?m = 0" using cold by (simp add: readyCount_def)
  moreover have "provisioningCount ?md ?m = provisioningCount ?md m + 1"
    by (simp add: provisioningCount_def new_worker_def)
  ultimately show thesis using that [OF act ok'] lc p by simp
qed

text \<open>A machine on which every provision succeeds.\<close>

definition os_serves :: "os_env \<Rightarrow> bool" where
  "os_serves os \<longleftrightarrow> (\<forall>p. oe_free os p) \<and> (\<forall>b. \<not> isl (oe_LookPath os b)) \<and> (\<forall>b e. \<not> isl (oe_Start os b e))"

lemma os_serves_provision:
  assumes "os_serves os"
  shows "\<not> isl (fst (Local_Provision et os md p))"
proof (cases "lc_TrackOnly (lp_cfg p)")
  case True
  then show ?thesis by (simp add: Local_Provision_def Let_def)
next
  case False
  have "free_port_loop (oe_free os) (Suc n) b = Some b" for n b using assms by (simp add: os_serves_def)
  from this [of 199] have port: "freePortNear (oe_free os) b = Inr b" for b by (simp add: freePortNear_def)
  have "\<not> isl (oe_LookPath os (lc_Binary (lp_cfg p)))" using assms by (simp add: os_serves_def)
  then obtain bin where "oe_LookPath os (lc_Binary (lp_cfg p)) = Inr bin"
    by (cases "oe_LookPath os (lc_Binary (lp_cfg p))") auto
  then have bin: "worker_binary et os (lc_Binary (lp_cfg p)) = Inr bin" by (simp add: worker_binary_def)
  obtain pid where "oe_Start os bin (worker_env (lp_cfg p) (oe_Environ os) (local_id md (Suc (lp_next p))) md (lc_BaseGRPCPort (lp_cfg p))) = Inr pid"
    using assms by (metis os_serves_def isl_def sum.exhaust)
  with False bin show ?thesis by (simp add: Local_Provision_def Let_def port)
qed

lemma activations_grow:
  "mgr_ok local_issued m \<Longrightarrow> mg_lifecycle m \<Longrightarrow> readyCount snap \<lparr>fm_BaseModel = base, fm_Adapter = ''''\<rparr> m = 0 \<Longrightarrow>
   list_all os_serves oss \<Longrightarrow>
   (let m' = activations et snap base oss m; md = \<lparr>fm_BaseModel = base, fm_Adapter = ''''\<rparr> in
    readyCount snap md m' = 0 \<and> mg_policies m' = mg_policies m
    \<and> provisioningCount md m' = provisioningCount md m + int (length oss))"
proof (induction oss arbitrary: m)
  case (Cons os oss)
  from Cons.prems have "os_serves os" by simp
  from activate_grows [OF Cons.prems(1-3) os_serves_provision [OF this]] obtain m' where
    "snd (Activate (Local_Provision et os) snap base m) = m'" "mgr_ok local_issued m'" "mg_lifecycle m'"
    "readyCount snap \<lparr>fm_BaseModel = base, fm_Adapter = ''''\<rparr> m' = 0" "mg_policies m' = mg_policies m"
    "provisioningCount \<lparr>fm_BaseModel = base, fm_Adapter = ''''\<rparr> m' = provisioningCount \<lparr>fm_BaseModel = base, fm_Adapter = ''''\<rparr> m + 1"
    by blast
  with Cons.IH [of m'] Cons.prems(4) show ?case by (simp add: Let_def)
qed (simp add: Let_def)

text \<open>
  Activation is not bounded: as long as no worker of the model is ready, every \<open>Activate\<close> provisions
  one more worker. For any policy with no minimum, whatever its maximum, and any model name, known or
  not, \<open>n\<close> activations before the first worker is up leave \<open>n\<close> workers being provisioned, and the
  manager still asks for another one.
\<close>

theorem activation_unbounded:
  assumes "list_all os_serves oss" and "readyCount snap \<lparr>fm_BaseModel = base, fm_Adapter = ''''\<rparr> (NewManager policies p True rdb) = 0"
    and "sp_MinReplicas (Policy_Get policies \<lparr>fm_BaseModel = base, fm_Adapter = ''''\<rparr>) = 0"
    and "m = activations et snap base oss (NewManager policies p True rdb)"
  shows "provisioningCount \<lparr>fm_BaseModel = base, fm_Adapter = ''''\<rparr> m = int (length oss) \<and> NeedsActivation snap base m"
proof -
  let ?m = "NewManager policies p True rdb"
  have "mgr_ok local_issued ?m" "mg_lifecycle ?m" "mg_policies ?m = policies"
    "provisioningCount \<lparr>fm_BaseModel = base, fm_Adapter = ''''\<rparr> ?m = 0"
    by (simp_all add: NewManager_def mgr_ok_def provisioningCount_def)
  with activations_grow [OF this(1,2) assms(2,1), of et] assms(3,4) show ?thesis
    by (simp add: Let_def NeedsActivation_def)
qed

definition open_os :: os_env where
  "open_os = (demo_os 9)\<lparr>oe_free := \<lambda>_. True\<rparr>"

lemma open_os_serves: "os_serves open_os"
  by (simp add: os_serves_def open_os_def demo_os_def)

abbreviation demo_model :: FleetModel where
  "demo_model \<equiv> \<lparr>fm_BaseModel = ''m'', fm_Adapter = ''''\<rparr>"

definition demo_manager :: "LocalProcess Manager" where
  "demo_manager = NewManager (NewPolicyCache None) (NewLocalProcessWithConfig open_os demo_cfg) True False"

theorem activation_unbounded_witness:
  "sp_MaxReplicas (Policy_Get (NewPolicyCache None) demo_model) = 3
   \<and> provisioningCount demo_model (activations (\<lambda>_. '''') None ''m'' (replicate 5 open_os) demo_manager) = 5"
proof -
  have os: "list_all os_serves (replicate 5 open_os)" using open_os_serves by (simp add: list_all_iff)
  have cold: "readyCount None demo_model (NewManager (NewPolicyCache None) (NewLocalProcessWithConfig open_os demo_cfg) True False) = 0"
    by (simp add: readyCount_def ready_ids_def snap_views_def NewManager_def)
  have pol: "Policy_Get (NewPolicyCache None) demo_model = DefaultPolicy demo_model"
    by (simp add: Policy_Get_def NewPolicyCache_def)
  with activation_unbounded [OF os cold _ refl, of "\<lambda>_. ''''"] show ?thesis
    by (simp add: demo_manager_def DefaultPolicy_def)
qed

text \<open>The convergence on a concrete fleet: 40 requests queued on a worker that is not ready yet, three workers needed.\<close>

definition busy_snap :: "RoutingSnapshot option" where
  "busy_snap = Some \<lparr>rs_BuiltAt = 0, rs_Epoch = 1, rs_Workers =
     [\<lparr>wv_ID = ''x'', wv_Endpoint = '''', wv_BaseModel = ''m'', wv_Adapter = '''', wv_Healthy = True, wv_Ready = False,
       wv_QueueDepth = 40, wv_InFlight = 0, wv_MaxContext = 0, wv_CostPerHour = 0, wv_CostClass = '''', wv_Runtime = '''',
       wv_VRAMGB = 0, wv_GPU = '''', wv_Capabilities = []\<rparr>]\<rparr>"

definition busy_env :: fleet_env where
  "busy_env = \<lparr>fe_snap_ready = busy_snap, fe_snap_active = busy_snap, fe_now = 0,
     fe_drain = \<lparr>de_start = 0, de_now = \<lambda>_. 0, de_reports = \<lambda>_. [], de_ctx = \<lambda>_. None\<rparr>\<rparr>"

lemma busy_sees: "sees busy_env {} 40 demo_model m"
  by (simp add: sees_def busy_env_def busy_snap_def sumActive_def snap_views_def snap_ready_def serves_def)

lemma busy_rounds_ok: "rounds_ok et demo_model {} 40 (replicate n (open_os, busy_env)) m"
  by (induction n arbitrary: m) (simp_all add: busy_sees os_serves_provision [OF open_os_serves])

theorem fleet_converges_witness:
  "readyCount busy_snap demo_model (fleet_rounds (\<lambda>_. '''') demo_model (replicate 7 (open_os, busy_env)) demo_manager) = 3"
proof -
  have st: "settled local_issued {} demo_model demo_manager"
    by (simp add: settled_def demo_manager_def NewManager_def mgr_ok_def tracked_in_def hyst_flags_def hyst_get_def NewHysteresis_def)
  have p: "Policy_Get (mg_policies demo_manager) demo_model = DefaultPolicy demo_model"
    by (simp add: demo_manager_def NewManager_def Policy_Get_def NewPolicyCache_def)
  have pol: "policy_ok (Policy_Get (mg_policies demo_manager) demo_model)"
    unfolding p by (simp add: policy_ok_def DefaultPolicy_def)
  have need: "needed (Policy_Get (mg_policies demo_manager) demo_model) 40 = 3"
    unfolding p by (simp add: needed_def DefaultPolicy_def ceilDiv_def clamp_def)
  have size: "fleet_size {} demo_model demo_manager = 0"
    by (simp add: fleet_size_def demo_manager_def NewManager_def tracked_in_def)
  have "readyCount (fe_snap_ready busy_env) demo_model
      (fleet_rounds (\<lambda>_. '''') demo_model (replicate 7 (open_os, busy_env)) demo_manager) = min 3 (0 + int 7)"
    using fleet_converges [OF st pol _ _ busy_rounds_ok busy_sees, of "\<lambda>_. ''''" 7] need size by simp
  then show ?thesis by (simp add: busy_env_def)
qed

section \<open>Draining\<close>

definition state_of :: "'p Manager \<Rightarrow> string \<Rightarrow> WorkerState option" where
  "state_of m w = map_option tw_State (map_of (mg_workers m) w)"

lemma map_of_upd_worker: "map_of (upd_worker w f ws) = (map_of ws)(w := map_option f (map_of ws w))"
  by (auto simp: upd_worker_def update_conv fun_eq_iff split: option.splits)

lemma state_of_set_state:
  "state_of (set_state w st m) v = (if v = w \<and> state_of m w \<noteq> None then Some st else state_of m v)"
  by (auto simp: state_of_def set_state_def map_of_upd_worker)

lemma state_of_SetInFlight [simp]: "state_of (SetInFlight w n m) = state_of m"
  by (auto simp: state_of_def SetInFlight_def map_of_upd_worker fun_eq_iff option.map_comp comp_def)

lemma state_of_reports [simp]: "state_of (fold (\<lambda>(i, n). SetInFlight i n) rs m) = state_of m"
  by (induction rs arbitrary: m) auto

lemma prov_reports [simp]: "mg_prov (fold (\<lambda>(i, n). SetInFlight i n) rs m) = mg_prov m"
  by (induction rs arbitrary: m) (auto simp: SetInFlight_def)

lemma state_of_workers: "mg_workers m = mg_workers m' \<Longrightarrow> state_of m = state_of m'"
  by (simp add: state_of_def fun_eq_iff)

lemma prov_set_state [simp]: "mg_prov (set_state w st m) = mg_prov m"
  by (simp add: set_state_def)

lemma drain_wait_keeps:
  "state_of (snd (drain_wait de w fuel k m)) = state_of m \<and> mg_prov (snd (drain_wait de w fuel k m)) = mg_prov m
   \<and> (\<forall>e. fst (drain_wait de w fuel k m) = Some (Some e) \<longrightarrow> (\<exists>j. de_ctx de j = Some e))"
proof (induction fuel arbitrary: k m)
  case (Suc fuel)
  then show ?case by (auto simp: Let_def split: option.splits)
qed simp

lemma drain_wait_ends:
  assumes clock: "\<And>j. de_start de + int j * (200 * millisecond) \<le> de_now de j"
  shows "k + fuel = drain_rounds \<Longrightarrow> 0 < fuel \<Longrightarrow> fst (drain_wait de w fuel k m) \<noteq> None"
proof (induction fuel arbitrary: k m)
  case (Suc fuel)
  show ?case
  proof (cases "fuel = 0")
    case True
    with Suc.prems have "k = 600" by (simp add: drain_rounds_def)
    with clock [of 600] show ?thesis by simp
  next
    case False
    with Suc.IH [of "Suc k"] Suc.prems(1) show ?thesis by (auto simp: Let_def split: option.splits)
  qed
qed simp

lemma drain_pick_step:
  "fold (\<lambda>(_, w) pick.
        if fleet_key (tw_Model w) = fleet_key md \<and> tw_State w = StateReady then
          (case pick of None \<Rightarrow> Some w | Some p \<Rightarrow> if tw_InFlight w < tw_InFlight p then Some w else pick)
        else pick) ws acc = Some t \<Longrightarrow>
   ((acc = Some t) \<or> (\<exists>k. (k, t) \<in> set ws \<and> fleet_key (tw_Model t) = fleet_key md \<and> tw_State t = StateReady))
   \<and> (\<forall>a. acc = Some a \<longrightarrow> tw_InFlight t \<le> tw_InFlight a)
   \<and> (\<forall>k u. (k, u) \<in> set ws \<and> fleet_key (tw_Model u) = fleet_key md \<and> tw_State u = StateReady \<longrightarrow> tw_InFlight t \<le> tw_InFlight u)"
proof (induction ws arbitrary: acc)
  case (Cons x ws)
  obtain k u where x: "x = (k, u)" by fastforce
  let ?acc = "if fleet_key (tw_Model u) = fleet_key md \<and> tw_State u = StateReady then
          (case acc of None \<Rightarrow> Some u | Some p \<Rightarrow> if tw_InFlight u < tw_InFlight p then Some u else acc) else acc"
  from Cons.prems x have "fold (\<lambda>(_, w) pick.
        if fleet_key (tw_Model w) = fleet_key md \<and> tw_State w = StateReady then
          (case pick of None \<Rightarrow> Some w | Some p \<Rightarrow> if tw_InFlight w < tw_InFlight p then Some w else pick)
        else pick) ws ?acc = Some t" by simp
  from Cons.IH [OF this] show ?case unfolding x
    by (cases acc) (auto split: if_splits intro: order_trans)
qed simp

lemma drain_pick_least:
  assumes "drain_pick md ws = Some t"
  shows "\<exists>k. (k, t) \<in> set ws" and "fleet_key (tw_Model t) = fleet_key md" and "tw_State t = StateReady"
    and "(k, u) \<in> set ws \<Longrightarrow> fleet_key (tw_Model u) = fleet_key md \<Longrightarrow> tw_State u = StateReady \<Longrightarrow> tw_InFlight t \<le> tw_InFlight u"
  using drain_pick_step [of md ws None t] assms by (auto simp: drain_pick_def)

text \<open>
  Draining: when there is a ready worker of the model, the one with the fewest requests in flight is
  drained. With a clock that moves on by the 200 ms slept in each round, the wait ends within its 601
  rounds; then either the context ended it and the worker stays draining with nothing retired, or the
  worker has been retired at the provisioner once, whatever that answered, and every other worker is
  in the state it was in.
\<close>

theorem drain_retires_one:
  assumes "mgr_ok issued m" and "drain_pick md (mg_workers m) = Some pick"
    and "\<And>j. de_start de + int j * (200 * millisecond) \<le> de_now de j"
    and "drainOne ret de md m = (e, m')"
  shows "state_of m (tw_ID pick) = Some StateReady
    \<and> (\<forall>k u. (k, u) \<in> set (mg_workers m) \<and> fleet_key (tw_Model u) = fleet_key md \<and> tw_State u = StateReady \<longrightarrow>
         tw_InFlight pick \<le> tw_InFlight u)
    \<and> (case e of
         None \<Rightarrow> state_of m' = (state_of m)(tw_ID pick \<mapsto> StateRetired)
           \<and> mg_prov m' = snd (ret (tw_ID pick) (mg_prov m))
       | Some er \<Rightarrow> state_of m' = (state_of m)(tw_ID pick \<mapsto> StateDraining)
           \<and> mg_prov m' = mg_prov m \<and> (\<exists>j. de_ctx de j = Some er))"
proof -
  let ?w = "tw_ID pick"
  let ?m1 = "rdb_Set (''fleet:state:'' @ ?w) ''draining'' (set_state ?w StateDraining m)"
  from drain_pick_least(1) [OF assms(2)] obtain k where "(k, pick) \<in> set (mg_workers m)" by blast
  then have mem: "(?w, pick) \<in> set (mg_workers m)" and dist: "distinct (map fst (mg_workers m))"
    using assms(1) by (auto simp: mgr_ok_def)
  then have look: "map_of (mg_workers m) ?w = Some pick" by simp
  then have ready: "state_of m ?w = Some StateReady" using drain_pick_least(3) [OF assms(2)] by (simp add: state_of_def)
  have s1: "state_of ?m1 = (state_of m)(?w \<mapsto> StateDraining)" and p1: "mg_prov ?m1 = mg_prov m"
    using ready state_of_set_state [of ?w StateDraining m] state_of_workers [of ?m1 "set_state ?w StateDraining m"]
    by (auto simp: fun_eq_iff)
  obtain r m2 where w: "drain_wait de ?w drain_rounds 0 ?m1 = (r, m2)" by fastforce
  have r: "r \<noteq> None" using drain_wait_ends [of de 0 drain_rounds ?w ?m1, OF assms(3)] w by (simp add: drain_rounds_def)
  have keep: "state_of m2 = (state_of m)(?w \<mapsto> StateDraining)" "mg_prov m2 = mg_prov m"
    and ctx: "\<And>er. r = Some (Some er) \<Longrightarrow> \<exists>j. de_ctx de j = Some er"
    using drain_wait_keeps [of de ?w drain_rounds 0 ?m1] w s1 p1 by auto
  have post: "case e of
         None \<Rightarrow> state_of m' = (state_of m)(?w \<mapsto> StateRetired) \<and> mg_prov m' = snd (ret ?w (mg_prov m))
       | Some er \<Rightarrow> state_of m' = (state_of m)(?w \<mapsto> StateDraining) \<and> mg_prov m' = mg_prov m \<and> (\<exists>j. de_ctx de j = Some er)"
  proof (cases "\<exists>er. r = Some (Some er)")
    case True
    then obtain er where er: "r = Some (Some er)" by blast
    then have "(e, m') = (Some er, m2)" using assms(4) w by (simp add: drainOne_def assms(2) Let_def)
    then show ?thesis using keep ctx [OF er] by simp
  next
    case False
    with r have "r = Some None" by auto
    let ?m3 = "m2\<lparr>mg_prov := snd (ret ?w (mg_prov m2))\<rparr>"
    have "e = None" and m': "mg_workers m' = mg_workers (set_state ?w StateRetired ?m3)" and "mg_prov m' = snd (ret ?w (mg_prov m2))"
      using assms(4) w \<open>r = Some None\<close> by (auto simp: drainOne_def assms(2) Let_def)
    moreover have "state_of m' = (state_of m)(?w \<mapsto> StateRetired)"
      using state_of_workers [OF m'] state_of_workers [of ?m3 m2] keep(1) state_of_set_state [of ?w StateRetired ?m3] ready
      by (auto simp: fun_eq_iff)
    ultimately show ?thesis using keep(2) by simp
  qed
  show ?thesis using ready post drain_pick_least(4) [OF assms(2)] by blast
qed

definition demo_drain :: drain_env where
  "demo_drain = \<lparr>de_start = 0, de_now = \<lambda>j. int j * (200 * millisecond), de_reports = \<lambda>_. [], de_ctx = \<lambda>_. None\<rparr>"

definition demo_fleet :: "LocalProcess Manager" where
  "demo_fleet = demo_manager\<lparr>mg_workers :=
     [(''a'', \<lparr>tw_ID = ''a'', tw_Model = demo_model, tw_State = StateReady, tw_InFlight = 2\<rparr>),
      (''b'', \<lparr>tw_ID = ''b'', tw_Model = demo_model, tw_State = StateReady, tw_InFlight = 1\<rparr>)]\<rparr>"

theorem drain_retires_one_witness:
  "\<exists>m'. drainOne Local_Retire demo_drain demo_model demo_fleet = (None, m')
     \<and> state_of m' = (state_of demo_fleet)(''b'' \<mapsto> StateRetired)"
proof -
  let ?b = "\<lparr>tw_ID = ''b'', tw_Model = demo_model, tw_State = StateReady, tw_InFlight = 1\<rparr>"
  have ok: "mgr_ok (\<lambda>_. UNIV) demo_fleet" by (auto simp: mgr_ok_def demo_fleet_def)
  have pick: "drain_pick demo_model (mg_workers demo_fleet) = Some ?b"
    by (simp add: drain_pick_def demo_fleet_def)
  have clock: "de_start demo_drain + int j * (200 * millisecond) \<le> de_now demo_drain j" for j by (simp add: demo_drain_def)
  obtain e m' where r: "drainOne Local_Retire demo_drain demo_model demo_fleet = (e, m')" by fastforce
  have "\<nexists>j er. de_ctx demo_drain j = Some er" by (simp add: demo_drain_def)
  with drain_retires_one [OF ok pick clock r] r show ?thesis by (cases e) auto
qed

end
