(* ===== verification/Fleet_Interleaving.thy ===== *)
theory Fleet_Interleaving
  imports Fleet
begin

text \<open>
  The goroutines of the fleet manager interleaved: the control loop, activations from the gateway and
  the goroutine each scale-up leaves behind share the worker table of \<open>services/fleet/loop.go\<close> and hold its
  mutex only for a section at a time. A state is the manager with the multiset of goroutines that have
  a section left to run; a step runs one section, the very definitions \<open>scaleUp\<close>, \<open>drainOne\<close> and
  \<open>wait_done\<close> are composed of. The guards of \<open>reconcile\<close> with its hysteresis and of \<open>Activate\<close>,
  and the probe that precedes the callback, are dropped, so a scale-up or a drain may start and a worker may become ready
  at any time: every interleaving of the program is one of these, and not the other way round. The relation therefore
  carries invariants over to the program, and no claim that something can happen.
\<close>

datatype thread =
    T_provision FleetModel
  | T_end FleetModel "goerr + string"
  | T_wait string
  | T_ready string
  | T_fail string
  | T_failed string
  | T_drain string
  | T_drained string

type_synonym 'p fleet_sys = "'p Manager \<times> thread multiset"

inductive fleet_step :: "('x \<Rightarrow> 'p provision_fn) \<Rightarrow> ('x \<Rightarrow> 'p retire_fn) \<Rightarrow> 'p fleet_sys \<Rightarrow> 'p fleet_sys \<Rightarrow> bool"
  for prov :: "'x \<Rightarrow> 'p provision_fn" and ret :: "'x \<Rightarrow> 'p retire_fn" where
  Begin: "fleet_step prov ret (m, T) (scale_begin md m, add_mset (T_provision md) T)"
| Provision: "scale_call (prov x) md m = (r, m') \<Longrightarrow>
     fleet_step prov ret (m, add_mset (T_provision md) T) (m', add_mset (T_end md r) T)"
| EndErr: "fleet_step prov ret (m, add_mset (T_end md (Inl e)) T) (scale_end md (Inl e) m, T)"
| EndOk: "fleet_step prov ret (m, add_mset (T_end md (Inr w)) T) (scale_end md (Inr w) m, add_mset (T_wait w) T)"
| Callback: "fleet_step prov ret (m, add_mset (T_wait w) T) (OnWorkerReady w m, add_mset (T_ready w) T)"
| Ready: "fleet_step prov ret (m, add_mset (T_ready w) T) (set_state w StateReady m, T)"
| WaitFails: "fleet_step prov ret (m, add_mset (T_wait w) T) (m, add_mset (T_fail w) T)"
| FailRetire: "fleet_step prov ret (m, add_mset (T_fail w) T)
     (m\<lparr>mg_prov := snd (ret x w (mg_prov m))\<rparr>, add_mset (T_failed w) T)"
| Failed: "fleet_step prov ret (m, add_mset (T_failed w) T) (set_state w StateRetired m, T)"
| Drain: "drain_pick md (mg_workers m) = Some t \<Longrightarrow>
     fleet_step prov ret (m, T) (set_state (tw_ID t) StateDraining m, add_mset (T_drain (tw_ID t)) T)"
| DrainAbort: "fleet_step prov ret (m, add_mset (T_drain w) T) (m, T)"
| DrainRetire: "fleet_step prov ret (m, add_mset (T_drain w) T)
     (m\<lparr>mg_prov := snd (ret x w (mg_prov m))\<rparr>, add_mset (T_drained w) T)"
| Drained: "fleet_step prov ret (m, add_mset (T_drained w) T) (set_state w StateRetired m, T)"
| Report: "fleet_step prov ret (m, T) (SetInFlight w n m, T)"
| Book: "fleet_step prov ret (m, T) (booked md d h m, T)"

section \<open>The sections are the program\<close>

text \<open>A scale-up that is not interrupted runs through \<open>Begin\<close>, \<open>Provision\<close> and \<open>EndOk\<close> or \<open>EndErr\<close>.\<close>

lemma scaleUp_sections:
  assumes "mg_lifecycle m" and "scaleUp (prov x) md m = (e, m')"
  obtains (failed) er where "e = Some er" and "(fleet_step prov ret)\<^sup>*\<^sup>* (m, T) (m', T)"
  | (started) w m1 where "e = None" and "(fleet_step prov ret)\<^sup>*\<^sup>* (m, T) (m1, add_mset (T_wait w) T)"
      and "mg_workers m' = mg_workers m1" and "mg_prov m' = mg_prov m1" and "mg_waiters m' = mg_waiters m @ [(w, md)]"
proof -
  obtain r m1 where r: "scale_call (prov x) md (scale_begin md m) = (r, m1)" by fastforce
  have steps: "(fleet_step prov ret)\<^sup>*\<^sup>* (m, T) (m1, add_mset (T_end md r) T)"
    using fleet_step.Begin [of prov ret m T md] fleet_step.Provision [where prov = prov and x = x and ret = ret and T = T, OF r]
    by (meson rtranclp.rtrancl_into_rtrancl r_into_rtranclp)
  have keep: "mg_lifecycle m1 = mg_lifecycle m" "mg_waiters m1 = mg_waiters m"
    using r by (auto simp: scale_call_def scale_begin_def split: prod.splits)
  show thesis
  proof (cases r)
    case (Inl er)
    with assms(2) r have "e = Some er" "m' = scale_end md (Inl er) m1" by (auto simp: scaleUp_def)
    moreover have "(fleet_step prov ret)\<^sup>*\<^sup>* (m, T) (scale_end md (Inl er) m1, T)"
      using steps Inl by (meson fleet_step.EndErr rtranclp.rtrancl_into_rtrancl)
    ultimately show thesis using failed by simp
  next
    case (Inr w)
    have "(fleet_step prov ret)\<^sup>*\<^sup>* (m, T) (scale_end md (Inr w) m1, add_mset (T_wait w) T)"
      using steps Inr by (meson fleet_step.EndOk rtranclp.rtrancl_into_rtrancl)
    with assms r Inr keep show thesis
      by (intro started [of "scale_end md (Inr w) m1" w]) (auto simp: scaleUp_def scale_end_def Let_def)
  qed
qed

section \<open>The invariant\<close>

abbreviation is_placeholder :: "string \<Rightarrow> bool" where
  "is_placeholder k \<equiv> has_prefix k ''provisioning-''"

definition provisioning_thread :: "thread multiset \<Rightarrow> FleetModel \<Rightarrow> bool" where
  "provisioning_thread T md \<longleftrightarrow> T_provision md \<in># T \<or> (\<exists>r. T_end md r \<in># T)"

definition waiting_thread :: "thread multiset \<Rightarrow> string \<Rightarrow> bool" where
  "waiting_thread T w \<longleftrightarrow> T_wait w \<in># T \<or> T_fail w \<in># T \<or> T_failed w \<in># T"

definition names_ok :: "thread multiset \<Rightarrow> bool" where
  "names_ok T \<longleftrightarrow> (\<forall>md w. T_end md (Inr w) \<in># T \<longrightarrow> \<not> is_placeholder w)"

definition table_ok :: "'p Manager \<Rightarrow> bool" where
  "table_ok m \<longleftrightarrow> (\<forall>k t. map_of (mg_workers m) k = Some t \<longrightarrow> tw_ID t = k)"

definition covered :: "'p Manager \<Rightarrow> thread multiset \<Rightarrow> bool" where
  "covered m T \<longleftrightarrow>
     (\<forall>k. state_of m k \<noteq> None \<and> is_placeholder k \<longrightarrow> (\<exists>md. k = placeholder md \<and> provisioning_thread T md))
     \<and> (\<forall>k. state_of m k = Some StateProvisioning \<and> \<not> is_placeholder k \<longrightarrow> waiting_thread T k)"

definition fleet_inv :: "'p fleet_sys \<Rightarrow> bool" where
  "fleet_inv s \<longleftrightarrow> table_ok (fst s) \<and> names_ok (snd s) \<and> covered (fst s) (snd s)"

lemma fleet_invI: "table_ok m \<Longrightarrow> names_ok T \<Longrightarrow> covered m T \<Longrightarrow> fleet_inv (m, T)"
  by (simp add: fleet_inv_def)

lemma coveredD:
  assumes "covered m T"
  shows "state_of m k \<noteq> None \<Longrightarrow> is_placeholder k \<Longrightarrow> \<exists>md. k = placeholder md \<and> provisioning_thread T md"
    and "state_of m k = Some StateProvisioning \<Longrightarrow> \<not> is_placeholder k \<Longrightarrow> waiting_thread T k"
  using assms by (auto simp: covered_def)

lemma table_ok_set_state [simp]: "table_ok m \<Longrightarrow> table_ok (set_state w st m)"
  by (auto simp: table_ok_def set_state_def map_of_upd_worker split: if_splits)

lemma table_ok_SetInFlight [simp]: "table_ok m \<Longrightarrow> table_ok (SetInFlight w n m)"
  by (auto simp: table_ok_def SetInFlight_def map_of_upd_worker split: if_splits)

text \<open>Marking a worker anything but provisioning, with any change of threads but those it needed.\<close>

lemma covered_set_state:
  assumes "covered m T" and "st \<noteq> StateProvisioning"
    and "\<And>md. provisioning_thread T md \<Longrightarrow> provisioning_thread T' md"
    and "\<And>k. k \<noteq> w \<Longrightarrow> waiting_thread T k \<Longrightarrow> waiting_thread T' k"
  shows "covered (set_state w st m) T'"
  unfolding covered_def
proof (intro conjI allI impI, goal_cases)
  case (1 k)
  then have "state_of m k \<noteq> None" by (auto simp: state_of_set_state split: if_splits)
  with 1 coveredD(1) [OF assms(1)] assms(3) show ?case by blast
next
  case (2 k)
  then have "k \<noteq> w" "state_of m k = Some StateProvisioning"
    using assms(2) by (auto simp: state_of_set_state split: if_splits)
  with 2 coveredD(2) [OF assms(1)] assms(4) show ?case by blast
qed

lemma covered_same:
  assumes "covered m T" and "state_of m' = state_of m"
    and "\<And>md. provisioning_thread T md \<Longrightarrow> provisioning_thread T' md"
    and "\<And>k. waiting_thread T k \<Longrightarrow> waiting_thread T' k"
  shows "covered m' T'"
  using assms unfolding covered_def by metis

lemma state_of_scale_begin:
  "state_of (scale_begin md m) = (state_of m)(placeholder md \<mapsto> StateProvisioning)"
  by (auto simp: state_of_def scale_begin_def new_worker_def update_conv fun_eq_iff)

lemma state_of_scale_end:
  "state_of (scale_end md r m) =
     (case r of Inl _ \<Rightarrow> (state_of m)(placeholder md := None)
      | Inr w \<Rightarrow> (state_of m)(placeholder md := None, w \<mapsto> StateProvisioning))"
  by (auto simp: state_of_def scale_end_def new_worker_def update_conv delete_conv Let_def fun_eq_iff split: sum.splits)

lemma table_ok_scale [simp]:
  "table_ok m \<Longrightarrow> table_ok (scale_begin md m)" "table_ok m \<Longrightarrow> table_ok (scale_end md r m)"
  by (auto simp: table_ok_def scale_begin_def scale_end_def new_worker_def update_conv delete_conv Let_def
      split: if_splits sum.splits)

lemma covered_scale_end:
  assumes cov: "covered m (add_mset (T_end md r) T)" and named: "\<And>w. r = Inr w \<Longrightarrow> \<not> is_placeholder w"
    and T': "T' = (case r of Inl _ \<Rightarrow> T | Inr w \<Rightarrow> add_mset (T_wait w) T)"
  shows "covered (scale_end md r m) T'"
proof -
  have prov: "provisioning_thread T' md'" if "provisioning_thread (add_mset (T_end md r) T) md'" "md' \<noteq> md" for md'
    using that by (auto simp: provisioning_thread_def T' split: sum.splits)
  have wait: "waiting_thread T' k" if "waiting_thread (add_mset (T_end md r) T) k" for k
    using that by (auto simp: waiting_thread_def T' split: sum.splits)
  have st: "state_of (scale_end md r m) k = state_of m k"
    if "k \<noteq> placeholder md" "\<And>w. r = Inr w \<Longrightarrow> k \<noteq> w" for k
    using that by (cases r) (auto simp: state_of_scale_end)
  have gone: "state_of (scale_end md r m) (placeholder md) = None"
    using named has_prefix_placeholder [of md] by (cases r) (auto simp: state_of_scale_end)
  have new: "waiting_thread T' w" if "r = Inr w" for w using that by (simp add: waiting_thread_def T')
  show ?thesis unfolding covered_def
  proof (intro conjI allI impI, goal_cases)
    case (1 k)
    then have k: "k \<noteq> placeholder md" "\<And>w. r = Inr w \<Longrightarrow> k \<noteq> w" using gone named by auto
    with 1 st coveredD(1) [OF cov, of k] obtain md' where md': "k = placeholder md'" "provisioning_thread (add_mset (T_end md r) T) md'"
      by auto
    with k(1) have "md' \<noteq> md" by auto
    with md' prov show ?case by blast
  next
    case (2 k)
    show ?case
    proof (cases "r = Inr k")
      case True
      then show ?thesis by (rule new)
    next
      case False
      with 2 have "k \<noteq> placeholder md" using gone by auto
      then have "state_of (scale_end md r m) k = state_of m k" by (rule st) (use False in auto)
      with 2 coveredD(2) [OF cov, of k] wait show ?thesis by auto
    qed
  qed
qed

lemma thread_simps:
  "provisioning_thread (add_mset t T) md \<longleftrightarrow> t = T_provision md \<or> (\<exists>r. t = T_end md r) \<or> provisioning_thread T md"
  "waiting_thread (add_mset t T) w \<longleftrightarrow> t = T_wait w \<or> t = T_fail w \<or> t = T_failed w \<or> waiting_thread T w"
  "names_ok (add_mset t T) \<longleftrightarrow> (\<forall>md w. t = T_end md (Inr w) \<longrightarrow> \<not> is_placeholder w) \<and> names_ok T"
  by (auto simp: provisioning_thread_def waiting_thread_def names_ok_def)

lemma fleet_inv_set_state:
  assumes "fleet_inv (m, T)" and "st \<noteq> StateProvisioning" and "names_ok T \<Longrightarrow> names_ok T'"
    and "\<And>md. provisioning_thread T md \<Longrightarrow> provisioning_thread T' md"
    and "\<And>k. k \<noteq> w \<Longrightarrow> waiting_thread T k \<Longrightarrow> waiting_thread T' k"
  shows "fleet_inv (set_state w st m, T')"
  using assms(1,3) covered_set_state [of m T st T' w] assms(2,4,5) by (simp add: fleet_inv_def)

lemma fleet_inv_same:
  assumes "fleet_inv (m, T)" and "state_of m' = state_of m" and "table_ok m \<Longrightarrow> table_ok m'"
    and "names_ok T \<Longrightarrow> names_ok T'"
    and "\<And>md. provisioning_thread T md \<Longrightarrow> provisioning_thread T' md"
    and "\<And>k. waiting_thread T k \<Longrightarrow> waiting_thread T' k"
  shows "fleet_inv (m', T')"
  using assms(1,3,4) covered_same [of m T m' T'] assms(2,5,6) by (simp add: fleet_inv_def)

lemma fleet_step_inv:
  assumes named: "\<And>x md p w p'. prov x md p = (Inr w, p') \<Longrightarrow> \<not> is_placeholder w"
  shows "fleet_step prov ret s s' \<Longrightarrow> fleet_inv s \<Longrightarrow> fleet_inv s'"
proof (induction rule: fleet_step.induct)
  case (Begin m T md)
  then have cov: "covered m T" by (simp add: fleet_inv_def)
  have "covered (scale_begin md m) (add_mset (T_provision md) T)"
    unfolding covered_def state_of_scale_begin
    using coveredD [OF cov] has_prefix_placeholder [of md] by (auto simp: thread_simps split: if_splits)
  with Begin show ?case by (simp add: fleet_inv_def thread_simps)
next
  case (Provision x md m r m' T)
  then have m': "mg_workers m' = mg_workers m" by (auto simp: scale_call_def split: prod.splits)
  have name: "\<not> is_placeholder w" if "r = Inr w" for w
    using Provision.hyps named that by (auto simp: scale_call_def split: prod.splits)
  show ?case using Provision.prems
  proof (rule fleet_inv_same)
    show "state_of m' = state_of m" using m' by (rule state_of_workers)
    show "table_ok m'" if "table_ok m" using that m' by (simp add: table_ok_def)
  qed (use name in \<open>auto simp: thread_simps\<close>)
next
  case (EndErr m md e T)
  then have "covered (scale_end md (Inl e) m) T"
    by (intro covered_scale_end [of m md "Inl e" T]) (auto simp: fleet_inv_def)
  with EndErr show ?case by (simp add: fleet_inv_def thread_simps)
next
  case (EndOk m md w T)
  then have "covered (scale_end md (Inr w) m) (add_mset (T_wait w) T)"
    by (intro covered_scale_end [of m md "Inr w" T]) (auto simp: fleet_inv_def thread_simps)
  with EndOk show ?case by (simp add: fleet_inv_def thread_simps)
next
  case (Book m T md d h)
  then show ?case by (rule fleet_inv_same) (simp_all add: state_of_workers [of "booked md d h m" m] table_ok_def)
next
  case (FailRetire m w T x)
  then show ?case
    by (rule fleet_inv_same) (auto simp: state_of_workers [of "m\<lparr>mg_prov := snd (ret x w (mg_prov m))\<rparr>" m] table_ok_def thread_simps)
next
  case (DrainRetire m w T x)
  then show ?case
    by (rule fleet_inv_same) (auto simp: state_of_workers [of "m\<lparr>mg_prov := snd (ret x w (mg_prov m))\<rparr>" m] table_ok_def thread_simps)
next
  case (Callback m w T)
  then show ?case unfolding OnWorkerReady_def
    by (rule fleet_inv_set_state [of m "add_mset (T_wait w) T"]) (auto simp: thread_simps)
next
  case (Ready m w T)
  then show ?case by (rule fleet_inv_set_state [of m "add_mset (T_ready w) T"]) (auto simp: thread_simps)
next
  case (WaitFails m w T)
  then show ?case by (rule fleet_inv_same [of m "add_mset (T_wait w) T"]) (auto simp: thread_simps)
next
  case (Failed m w T)
  then show ?case by (rule fleet_inv_set_state [of m "add_mset (T_failed w) T"]) (auto simp: thread_simps)
next
  case (Drain md m t T)
  from Drain.prems show ?case by (rule fleet_inv_set_state) (auto simp: thread_simps)
next
  case (DrainAbort m w T)
  then show ?case by (rule fleet_inv_same [of m "add_mset (T_drain w) T"]) (auto simp: thread_simps)
next
  case (Drained m w T)
  then show ?case by (rule fleet_inv_set_state [of m "add_mset (T_drained w) T"]) (auto simp: thread_simps)
next
  case (Report m T w n)
  then show ?case by (rule fleet_inv_same [of m T]) (auto simp: fleet_inv_def)
qed

definition reaches :: "('x \<Rightarrow> 'p provision_fn) \<Rightarrow> ('x \<Rightarrow> 'p retire_fn) \<Rightarrow> 'p Manager \<Rightarrow> 'p fleet_sys \<Rightarrow> bool" where
  "reaches prov ret m s \<longleftrightarrow> (fleet_step prov ret)\<^sup>*\<^sup>* (m, {#}) s"

lemma reaches_inv:
  assumes "\<And>x md p w p'. prov x md p = (Inr w, p') \<Longrightarrow> \<not> is_placeholder w"
    and "reaches prov ret (NewManager policies p lc rdb) s"
  shows "fleet_inv s"
proof -
  have "fleet_inv (NewManager policies p lc rdb, {#})"
    by (simp add: fleet_inv_def table_ok_def names_ok_def covered_def NewManager_def state_of_def)
  with assms(2) show ?thesis unfolding reaches_def
    by (induction rule: rtranclp_induct) (auto intro: fleet_step_inv [OF assms(1)])
qed

lemma Local_not_placeholder: "(\<lambda>(et, os). Local_Provision et os) x md p = (Inr w, p') \<Longrightarrow> \<not> is_placeholder w"
  using local_prov.provision_fresh [of x md p w p'] local_prov.issued_named by blast

section \<open>Properties\<close>

text \<open>
  C8. Nothing is left provisioning: in every interleaving of scale-ups, drains, activations and waiting
  goroutines over the local provisioner, from a new manager on, each table entry carries its own id; a
  placeholder is there only while a provision of its model runs; and a worker that is still
  provisioning has a goroutine that will mark it ready or retired. When all goroutines have finished,
  every tracked worker is ready, draining or retired.
\<close>

theorem fleet_no_stuck_provisioning:
  assumes "reaches (\<lambda>(et, os). Local_Provision et os) (\<lambda>_. Local_Retire) (NewManager policies p lc rdb) (m, T)"
  shows "(\<forall>k t. map_of (mg_workers m) k = Some t \<longrightarrow> tw_ID t = k)
    \<and> (\<forall>k. state_of m k \<noteq> None \<and> is_placeholder k \<longrightarrow> (\<exists>md. k = placeholder md \<and> provisioning_thread T md))
    \<and> (\<forall>k. state_of m k = Some StateProvisioning \<and> \<not> is_placeholder k \<longrightarrow> waiting_thread T k)
    \<and> (T = {#} \<longrightarrow> (\<forall>k. state_of m k \<noteq> Some StateProvisioning))"
proof -
  have inv: "table_ok m" "covered m T"
    using reaches_inv [OF Local_not_placeholder assms] by (simp_all add: fleet_inv_def)
  have "state_of m k \<noteq> Some StateProvisioning" if "T = {#}" for k
    using coveredD [OF inv(2), of k] that by (auto simp: provisioning_thread_def waiting_thread_def)
  with inv show ?thesis by (auto simp: table_ok_def covered_def)
qed

theorem fleet_no_stuck_provisioning_witness:
  "\<exists>m T. reaches (\<lambda>(et, os). Local_Provision et os) (\<lambda>_. Local_Retire) demo_manager (m, T)
     \<and> state_of m (placeholder demo_model) = Some StateProvisioning
     \<and> (\<exists>md. placeholder demo_model = placeholder md \<and> provisioning_thread T md)"
proof -
  let ?s = "(scale_begin demo_model demo_manager, {# T_provision demo_model #})"
  have r: "reaches (\<lambda>(et, os). Local_Provision et os) (\<lambda>_ :: (goerr \<Rightarrow> string) \<times> os_env. Local_Retire) demo_manager ?s"
    unfolding reaches_def by (rule r_into_rtranclp, rule fleet_step.Begin)
  have s: "state_of (fst ?s) (placeholder demo_model) = Some StateProvisioning" by (simp add: state_of_scale_begin)
  have "\<exists>md. placeholder demo_model = placeholder md \<and> provisioning_thread (snd ?s) md"
    using fleet_no_stuck_provisioning [OF r [unfolded demo_manager_def]] s has_prefix_placeholder [of demo_model]
    unfolding demo_manager_def by (metis fst_conv option.distinct(1) snd_conv)
  with r s show ?thesis by (metis fst_conv snd_conv)
qed

end
