(* ===== verification/Fleet_Lifecycle.thy ===== *)
theory Fleet_Lifecycle
  imports Fleet Provider Catalog
begin

text \<open>
  Waiting for a new worker (\<open>services/fleet/lifecycle.go\<close>): the readiness probe, the registration of a
  rented pod as a provider with its model map and catalog assignment, and the polling loop around
  them. HTTP exchanges, the JSON decoder, the clock and the verdict of the database on each statement
  are parameters; the tables are explicit state.
\<close>

record LifecycleConfig =
  lf_ReadyTimeout :: duration
  lf_PollInterval :: duration

definition NewLifecycle :: "LifecycleConfig \<Rightarrow> LifecycleConfig" where
  "NewLifecycle cfg =
     (let c1 = (if lf_ReadyTimeout cfg \<le> 0 then cfg\<lparr>lf_ReadyTimeout := 600 * second\<rparr> else cfg) in
      if lf_PollInterval c1 \<le> 0 then c1\<lparr>lf_PollInterval := 5 * second\<rparr> else c1)"

definition Lifecycle_Provision :: "'p provision_fn \<Rightarrow> FleetModel \<Rightarrow> 'p \<Rightarrow> (goerr + string) \<times> 'p" where
  "Lifecycle_Provision inner md p = (case inner md p of (Inl e, p') \<Rightarrow> (Inl e, p') | (Inr w, p') \<Rightarrow> (Inr w, p'))"

definition Lifecycle_Retire :: "'p retire_fn \<Rightarrow> string \<Rightarrow> 'p \<Rightarrow> goerr option \<times> 'p" where
  "Lifecycle_Retire inner w p = inner w p"

section \<open>The probe\<close>

record probe_env =
  pe_badURL :: "string \<Rightarrow> goerr option"
  pe_get :: "string \<Rightarrow> goerr + int \<times> string"
  pe_ids :: "string \<Rightarrow> goerr + string list"

definition httpModelsOK :: "probe_env \<Rightarrow> string \<Rightarrow> string \<Rightarrow> bool \<times> goerr option" where
  "httpModelsOK pe url wantModel =
     (case pe_badURL pe url of
        Some e \<Rightarrow> (False, Some e)
      | None \<Rightarrow>
          (case pe_get pe url of
             Inl e \<Rightarrow> (False, Some e)
           | Inr (status, body) \<Rightarrow>
               if status \<noteq> 200 then (False, Some (PlainErr (''status '' @ itoa status)))
               else
                 (case pe_ids pe (take body_limit body) of
                    Inl e \<Rightarrow> (False, Some e)
                  | Inr ids \<Rightarrow>
                      if wantModel = '''' then (0 < length ids, None)
                      else if \<exists>i \<in> set ids. i = wantModel \<or> contains_str i wantModel then (True, None)
                      else (0 < length ids, None))))"

definition is_pod :: "string \<Rightarrow> bool" where
  "is_pod wid \<longleftrightarrow> has_prefix wid ''runpod-'' \<and> \<not> has_prefix wid ''runpod-dryrun-''"

definition pod_proxy :: "string \<Rightarrow> string" where
  "pod_proxy podID = ''https://'' @ podID @ ''-8000.proxy.runpod.net''"

definition beats :: "string \<Rightarrow> RoutingSnapshot option \<Rightarrow> bool" where
  "beats wid snap \<longleftrightarrow> (\<exists>w \<in> set (snap_views snap). wv_ID w = wid \<and> wv_Healthy w \<and> wv_Ready w)"

text \<open>
  \<open>checkReady\<close>; \<open>holder\<close> is \<^const>\<open>None\<close> for a nil holder, and otherwise the snapshots its two loads find.
\<close>

definition checkReady ::
  "probe_env \<Rightarrow> (RoutingSnapshot option \<times> RoutingSnapshot option) option \<Rightarrow> string \<Rightarrow> FleetModel \<Rightarrow> bool \<times> string \<times> goerr option" where
  "checkReady pe holder wid md =
     (if is_pod wid then
        (let proxy = pod_proxy (trim_prefix wid ''runpod-'') in
         case httpModelsOK pe (proxy @ ''/v1/models'') (fm_BaseModel md) of
           (ok, Some e) \<Rightarrow> (False, proxy, Some e)
         | (ok, None) \<Rightarrow> (ok, proxy, None))
      else if (case holder of Some (s1, _) \<Rightarrow> beats wid s1 | None \<Rightarrow> False) then (True, ''heartbeat'', None)
      else if has_prefix wid ''runpod-dryrun-'' \<or> has_prefix wid ''local-'' then
        (case holder of
           None \<Rightarrow> (True, ''track-only'', None)
         | Some (_, s2) \<Rightarrow>
             if beats wid s2 then (True, ''heartbeat'', None)
             else if has_prefix wid ''local-'' then (False, ''waiting-heartbeat'', None)
             else (True, ''dry-run'', None))
      else (False, '''', None))"

section \<open>Registration\<close>

record fleet_db =
  fd_providers :: "ProviderRow list"
  fd_maps :: "ModelMap list"
  fd_catalog :: catalog_db

definition fleet_call :: "(nat \<Rightarrow> goerr option) \<Rightarrow> fleet_db \<Rightarrow> goerr option \<times> fleet_db" where
  "fleet_call fault db =
     (case db_call fault (fd_catalog db) of (e, c) \<Rightarrow> (e, db\<lparr>fd_catalog := c\<rparr>))"

text \<open>The insert of a provider: a conflict on the id updates the URL and enables the row.\<close>

definition insert_provider :: "ProviderRow \<Rightarrow> ProviderRow list \<Rightarrow> ProviderRow list" where
  "insert_provider p ps =
     (if pv_ID p \<in> pv_ID ` set ps
      then map (\<lambda>r. if pv_ID r = pv_ID p then r\<lparr>pv_BaseURL := pv_BaseURL p, pv_Enabled := pv_Enabled p\<rparr> else r) ps
      else ps @ [p])"

definition map_key :: "ModelMap \<Rightarrow> string \<times> string \<times> string" where
  "map_key m = (mm_ProviderID m, mm_BaseModel m, mm_Adapter m)"

text \<open>
  \<open>Save\<close> of a row with a composite key, as gorm documents it: a row with a zero value in a key field is a plain insert, which
  fails when the key exists; any other row replaces the one with its key or is inserted.
\<close>

definition save_map :: "ModelMap \<Rightarrow> ModelMap list \<Rightarrow> goerr + ModelMap list" where
  "save_map m ms =
     (if mm_ProviderID m = '''' \<or> mm_BaseModel m = '''' \<or> mm_Adapter m = ''''
      then if map_key m \<in> map_key ` set ms then Inl duplicate_key else Inr (ms @ [m])
      else if map_key m \<in> map_key ` set ms then Inr (map (\<lambda>r. if map_key r = map_key m then m else r) ms)
      else Inr (ms @ [m]))"

definition find_model_id :: "string \<Rightarrow> Model list \<Rightarrow> string" where
  "find_model_id name models = (case find (\<lambda>m. md_Name m = name) models of Some m \<Rightarrow> md_ID m | None \<Rightarrow> '''')"

definition ensureCatalogAssignment ::
  "(nat \<Rightarrow> goerr option) \<Rightarrow> (nat \<Rightarrow> string) \<Rightarrow> int \<Rightarrow> FleetModel \<Rightarrow> string \<Rightarrow> catalog_db \<Rightarrow> goerr option \<times> catalog_db" where
  "ensureCatalogAssignment fault ids now md workerID db =
     (if workerID = '''' \<or> fm_BaseModel md = '''' then (None, db)
      else
        (let name = (if fm_Adapter md \<noteq> '''' then fm_BaseModel md @ ''#'' @ fm_Adapter md else fm_BaseModel md);
             assign = (\<lambda>modelID db. UpsertAssignment fault ids now
                         \<lparr>ma_ID = '''', ma_ModelID = modelID, ma_WorkerID = workerID, ma_CreatedAt = Some now\<rparr> db) in
         case ListModels fault db of
           (Inl e, db1) \<Rightarrow> (Some e, db1)
         | (Inr models, db1) \<Rightarrow>
             if find_model_id name models \<noteq> '''' then assign (find_model_id name models) db1
             else
               (case UpsertModel fault ids now
                       \<lparr>md_ID = '''', md_Name = name, md_BaseModel = fm_BaseModel md, md_Adapter = fm_Adapter md,
                        md_CreatedAt = Some now\<rparr> db1 of
                  (Some e, m, db2) \<Rightarrow> (Some e, db2)
                | (None, m, db2) \<Rightarrow>
                    if md_ID m \<noteq> '''' then assign (md_ID m) db2
                    else
                      (case ListModels fault db2 of
                         (Inl _, db3) \<Rightarrow> assign '''' db3
                       | (Inr ms, db3) \<Rightarrow> assign (find_model_id name ms) db3))))"

text \<open>Assigning on the fleet's tables.\<close>

definition assign_fleet ::
  "(nat \<Rightarrow> goerr option) \<Rightarrow> (nat \<Rightarrow> string) \<Rightarrow> int \<Rightarrow> FleetModel \<Rightarrow> string \<Rightarrow> fleet_db \<Rightarrow> goerr option \<times> fleet_db" where
  "assign_fleet fault ids now md w db =
     (case ensureCatalogAssignment fault ids now md w (fd_catalog db) of (e, c) \<Rightarrow> (e, db\<lparr>fd_catalog := c\<rparr>))"

definition pod_provider :: "string \<Rightarrow> string \<Rightarrow> ProviderRow" where
  "pod_provider provID detail =
     \<lparr>pv_ID = provID,
      pv_BaseURL = (if has_suffix detail ''/v1'' then detail else trim_right_byte detail (CHR ''/'') @ ''/v1''),
      pv_APIKeyRef = '''', pv_Enabled = True, pv_CostInPerMTok = 0, pv_CostOutPerMTok = 0, pv_CostPerHour = 39 / 100\<rparr>"

definition pod_map :: "string \<Rightarrow> FleetModel \<Rightarrow> ModelMap" where
  "pod_map provID md =
     \<lparr>mm_ProviderID = provID, mm_BaseModel = fm_BaseModel md, mm_Adapter = fm_Adapter md,
      mm_ProviderModel = fm_BaseModel md, mm_MaxContext = 8192\<rparr>"

definition register_pod ::
  "(nat \<Rightarrow> goerr option) \<Rightarrow> (nat \<Rightarrow> string) \<Rightarrow> int \<Rightarrow> string \<Rightarrow> FleetModel \<Rightarrow> string \<Rightarrow> fleet_db \<Rightarrow> goerr option \<times> fleet_db" where
  "register_pod fault ids now provID md detail db =
     (case fleet_call fault db of
        (Some e, db1) \<Rightarrow> (Some e, db1)
      | (None, db1) \<Rightarrow>
          (let db2 = db1\<lparr>fd_providers := insert_provider (pod_provider provID detail) (fd_providers db1)\<rparr> in
           case fleet_call fault db2 of
             (Some e, db3) \<Rightarrow> (Some e, db3)
           | (None, db3) \<Rightarrow>
               (case save_map (pod_map provID md) (fd_maps db3) of
                  Inl e \<Rightarrow> (Some e, db3)
                | Inr maps \<Rightarrow>
                    assign_fleet fault ids now md (''provider:'' @ provID @ '':'' @ fm_BaseModel md) (db3\<lparr>fd_maps := maps\<rparr>))))"

text \<open>\<open>register\<close>; without a database it does nothing.\<close>

definition register ::
  "(nat \<Rightarrow> goerr option) \<Rightarrow> (nat \<Rightarrow> string) \<Rightarrow> int \<Rightarrow> string \<Rightarrow> FleetModel \<Rightarrow> string \<Rightarrow> fleet_db option \<Rightarrow>
     goerr option \<times> fleet_db option" where
  "register fault ids now wid md detail db =
     (case db of
        None \<Rightarrow> (None, None)
      | Some d \<Rightarrow>
          (case (if is_pod wid
                 then register_pod fault ids now (''runpod-'' @ trim_prefix wid ''runpod-'') md detail d
                 else assign_fleet fault ids now md wid d) of
             (e, d') \<Rightarrow> (e, Some d')))"

section \<open>The polling loop\<close>

text \<open>What each round meets: the clock at the loop test, the context, the probe, and the context while it sleeps.\<close>

record wait_env =
  we_start :: int
  we_now :: "nat \<Rightarrow> int"
  we_ctx :: "nat \<Rightarrow> goerr option"
  we_probe :: "nat \<Rightarrow> probe_env"
  we_holder :: "nat \<Rightarrow> (RoutingSnapshot option \<times> RoutingSnapshot option) option"
  we_sleep :: "nat \<Rightarrow> goerr option"

definition timeout_err :: "string \<Rightarrow> goerr" where
  "timeout_err wid = PlainErr (''fleet/lifecycle: timeout waiting for '' @ wid)"

text \<open>\<^const>\<open>None\<close> is out of fuel. The flag tells whether \<open>onReady\<close> was called.\<close>

fun wait_loop ::
  "(nat \<Rightarrow> goerr option) \<Rightarrow> (nat \<Rightarrow> string) \<Rightarrow> LifecycleConfig \<Rightarrow> wait_env \<Rightarrow> string \<Rightarrow> FleetModel \<Rightarrow> nat \<Rightarrow> nat \<Rightarrow>
     fleet_db option \<Rightarrow> goerr option option \<times> bool \<times> fleet_db option" where
  "wait_loop fault ids cfg we wid md 0 k db = (None, False, db)"
| "wait_loop fault ids cfg we wid md (Suc fuel) k db =
     (if \<not> we_now we k < we_start we + lf_ReadyTimeout cfg then
        (Some (Some (timeout_err wid)), False, db)
      else
        (case we_ctx we k of
           Some e \<Rightarrow> (Some (Some e), False, db)
         | None \<Rightarrow>
             (case checkReady (we_probe we k) (we_holder we k) wid md of
                (ready, detail, _) \<Rightarrow>
                  if ready then
                    (case register fault ids (we_now we k) wid md detail db of
                       (Some e, db') \<Rightarrow> (Some (Some e), False, db')
                     | (None, db') \<Rightarrow> (Some None, True, db'))
                  else
                    (case we_sleep we k of
                       Some e \<Rightarrow> (Some (Some e), False, db)
                     | None \<Rightarrow> wait_loop fault ids cfg we wid md fuel (Suc k) db))))"

definition wait_fuel :: "LifecycleConfig \<Rightarrow> nat" where
  "wait_fuel cfg = Suc (Suc (nat (lf_ReadyTimeout cfg div lf_PollInterval cfg)))"

definition WaitReady ::
  "(nat \<Rightarrow> goerr option) \<Rightarrow> (nat \<Rightarrow> string) \<Rightarrow> LifecycleConfig \<Rightarrow> wait_env \<Rightarrow> string \<Rightarrow> FleetModel \<Rightarrow> fleet_db option \<Rightarrow>
     goerr option option \<times> bool \<times> fleet_db option" where
  "WaitReady fault ids cfg we wid md db = wait_loop fault ids cfg we wid md (wait_fuel cfg) 0 db"

section \<open>The loop ends\<close>

lemma NewLifecycle_pos: "0 < lf_ReadyTimeout (NewLifecycle cfg)" "0 < lf_PollInterval (NewLifecycle cfg)"
  by (auto simp: NewLifecycle_def Let_def)

lemma wait_loop_ends:
  assumes clock: "\<And>j. we_start we + int j * lf_PollInterval cfg \<le> we_now we j"
    and pos: "0 < lf_ReadyTimeout cfg" "0 < lf_PollInterval cfg"
  shows "k + fuel = wait_fuel cfg \<Longrightarrow> 0 < fuel \<Longrightarrow> fst (wait_loop fault ids cfg we wid md fuel k db) \<noteq> None"
proof (induction fuel arbitrary: k)
  case (Suc fuel)
  show ?case
  proof (cases "fuel = 0")
    case True
    let ?n = "lf_ReadyTimeout cfg div lf_PollInterval cfg"
    have "0 \<le> ?n" using pos by (simp add: pos_imp_zdiv_nonneg_iff)
    with Suc.prems(1) True have k: "int k = ?n + 1" by (simp add: wait_fuel_def)
    have "lf_ReadyTimeout cfg \<le> int k * lf_PollInterval cfg"
      using div_le_iff_less_mult [OF pos(2), of "lf_ReadyTimeout cfg" ?n] k by simp
    then have "\<not> we_now we k < we_start we + lf_ReadyTimeout cfg" using clock [of k] by linarith
    then show ?thesis by simp
  next
    case False
    with Suc.IH [of "Suc k"] Suc.prems(1) show ?thesis by (auto split: option.splits prod.splits)
  qed
qed simp

text \<open>A successful end names the round that found the worker ready and registered it.\<close>

lemma wait_loop_ready:
  "wait_loop fault ids cfg we wid md fuel k db = (r, cb, db') \<Longrightarrow>
   (cb \<longleftrightarrow> r = Some None)
   \<and> (r = Some None \<longrightarrow> (\<exists>j detail e. k \<le> j \<and> checkReady (we_probe we j) (we_holder we j) wid md = (True, detail, e)
        \<and> register fault ids (we_now we j) wid md detail db = (None, db')))"
proof (induction fuel arbitrary: k)
  case (Suc fuel)
  show ?case
  proof (cases "wait_loop fault ids cfg we wid md (Suc fuel) k db = wait_loop fault ids cfg we wid md fuel (Suc k) db")
    case True
    with Suc.IH [of "Suc k"] Suc.prems show ?thesis by (metis Suc_leD)
  next
    case False
    with Suc.prems show ?thesis by (auto split: if_splits option.splits prod.splits)
  qed
qed simp

lemma wait_loop_silent:
  assumes "\<And>j. we_ctx we j = None \<and> we_sleep we j = None \<and> \<not> fst (checkReady (we_probe we j) (we_holder we j) wid md)"
  shows "fst (wait_loop fault ids cfg we wid md fuel k db) \<in> {None, Some (Some (timeout_err wid))}
    \<and> snd (wait_loop fault ids cfg we wid md fuel k db) = (False, db)"
proof (induction fuel arbitrary: k)
  case (Suc fuel)
  obtain detail e where "checkReady (we_probe we k) (we_holder we k) wid md = (False, detail, e)"
    using assms [of k] by (metis prod.collapse)
  with Suc.IH [of "Suc k"] assms [of k] show ?case by simp
qed simp

text \<open>
  C40. \<open>WaitReady\<close> always returns: with the defaults of \<open>NewLifecycle\<close> and a clock that moves on by the poll
  interval slept in each round it gives a verdict, and the ready callback is made exactly when that is
  success. Success names a round whose probe found the worker ready and whose registration was
  accepted; a worker that is never found ready, with a context that stays open, is a timeout that
  leaves the database alone.
\<close>

theorem wait_ready_verdict:
  assumes "cfg = NewLifecycle cfg0"
    and "\<And>j. we_start we + int j * lf_PollInterval cfg \<le> we_now we j"
    and "WaitReady fault ids cfg we wid md db = (r, cb, db')"
  shows "r \<noteq> None \<and> (cb \<longleftrightarrow> r = Some None)
    \<and> (cb \<longrightarrow> (\<exists>j detail e. checkReady (we_probe we j) (we_holder we j) wid md = (True, detail, e)
         \<and> register fault ids (we_now we j) wid md detail db = (None, db')))
    \<and> ((\<forall>j. we_ctx we j = None \<and> we_sleep we j = None \<and> \<not> fst (checkReady (we_probe we j) (we_holder we j) wid md)) \<longrightarrow>
         r = Some (Some (timeout_err wid)) \<and> db' = db)"
proof -
  have run: "wait_loop fault ids cfg we wid md (wait_fuel cfg) 0 db = (r, cb, db')"
    using assms(3) by (simp add: WaitReady_def)
  have pos: "0 < lf_ReadyTimeout cfg" "0 < lf_PollInterval cfg" "0 + wait_fuel cfg = wait_fuel cfg" "0 < wait_fuel cfg"
    using NewLifecycle_pos [of cfg0] by (simp_all add: assms(1) wait_fuel_def)
  have "r \<noteq> None"
    using wait_loop_ends [of we cfg 0 "wait_fuel cfg", OF assms(2) pos, where fault = fault and ids = ids and wid = wid and md = md and db = db] run by simp
  then show ?thesis
    using wait_loop_ready [OF run] wait_loop_silent [of we wid md fault ids cfg "wait_fuel cfg" 0 db] run by auto
qed

definition demo_wait :: wait_env where
  "demo_wait = \<lparr>we_start = 0, we_now = \<lambda>j. int j * (5 * second), we_ctx = \<lambda>_. None,
     we_probe = \<lambda>_. \<lparr>pe_badURL = \<lambda>_. None, pe_get = \<lambda>_. Inr (503, ''''), pe_ids = \<lambda>_. Inr []\<rparr>,
     we_holder = \<lambda>_. None, we_sleep = \<lambda>_. None\<rparr>"

theorem wait_ready_verdict_witness:
  "WaitReady accepts (\<lambda>_. ''i'') (NewLifecycle \<lparr>lf_ReadyTimeout = 0, lf_PollInterval = 0\<rparr>) demo_wait ''runpod-x'' demo_model None
     = (Some (Some (timeout_err ''runpod-x'')), False, None)"
proof -
  let ?cfg = "NewLifecycle \<lparr>lf_ReadyTimeout = 0, lf_PollInterval = 0\<rparr>"
  obtain r cb db' where r: "WaitReady accepts (\<lambda>_. ''i'') ?cfg demo_wait ''runpod-x'' demo_model None = (r, cb, db')"
    by (metis prod.exhaust)
  have clock: "we_start demo_wait + int j * lf_PollInterval ?cfg \<le> we_now demo_wait j" for j
    by (simp add: demo_wait_def NewLifecycle_def)
  have "\<not> fst (checkReady (we_probe demo_wait j) (we_holder demo_wait j) ''runpod-x'' demo_model)" for j
    by (simp add: checkReady_def is_pod_def has_prefix_def httpModelsOK_def demo_wait_def Let_def)
  then have "r = Some (Some (timeout_err ''runpod-x'')) \<and> db' = None" and "cb \<longleftrightarrow> r = Some None"
    using wait_ready_verdict [OF refl clock r] by (simp_all add: demo_wait_def)
  with r show ?thesis by simp
qed

section \<open>Registration facts\<close>

lemma distinct_insert_model: "distinct (map md_Name ms) \<Longrightarrow> distinct (map md_Name (insert_model m ms))"
proof -
  assume d: "distinct (map md_Name ms)"
  have "map md_Name (insert_model m ms) = (if md_Name m \<in> md_Name ` set ms then map md_Name ms else map md_Name ms @ [md_Name m])"
    by (auto simp: insert_model_def)
  with d show ?thesis by auto
qed

lemma ensure_name: "(if fm_Adapter md \<noteq> '''' then fm_BaseModel md @ ''#'' @ fm_Adapter md else fm_BaseModel md) = fleet_key md"
  by (simp add: fleet_key_def)

lemma assign_accepts:
  assumes "\<forall>k. ids k \<noteq> ''''"
  shows "\<exists>db'. UpsertAssignment accepts ids now \<lparr>ma_ID = '''', ma_ModelID = i, ma_WorkerID = w, ma_CreatedAt = Some now\<rparr> db = (None, db')
    \<and> ct_models db' = ct_models db \<and> (\<exists>a \<in> set (ct_assigns db'). ma_ModelID a = i \<and> ma_WorkerID a = w)"
  by (auto simp: UpsertAssignment_def newID_def db_call_def insert_assignment_def Let_def)

text \<open>
  The catalog has room for a model: under its name, or its identity under no other name. With every connection working that
  decides whether the model of the worker exists afterwards and the worker is assigned to it.
\<close>

definition has_room :: "FleetModel \<Rightarrow> Model list \<Rightarrow> bool" where
  "has_room md ms \<longleftrightarrow> fleet_key md \<in> md_Name ` set ms
     \<or> \<not> (\<exists>r \<in> set ms. md_BaseModel r = fm_BaseModel md \<and> md_Adapter r = fm_Adapter md)"

lemma ensure_refused:
  assumes "fm_BaseModel md \<noteq> ''''" "w \<noteq> ''''" "\<not> has_room md (ct_models db)"
  shows "\<exists>db'. ensureCatalogAssignment accepts ids now md w db = (Some duplicate_key, db')"
proof -
  let ?ms = "sort_slice (\<lambda>a b. md_Name a < md_Name b) (ct_models db)"
  have none: "find (\<lambda>m. md_Name m = fleet_key md) ?ms = None" using assms(3) by (force simp: has_room_def find_None_iff)
  obtain r where r: "r \<in> set (ct_models db)" "md_BaseModel r = fm_BaseModel md" "md_Adapter r = fm_Adapter md" "md_Name r \<noteq> fleet_key md"
    using assms(3) by (force simp: has_room_def)
  then have "identity_taken \<lparr>md_ID = i, md_Name = fleet_key md, md_BaseModel = fm_BaseModel md, md_Adapter = fm_Adapter md, md_CreatedAt = t\<rparr> (ct_models db)"
    for i t by (auto simp: identity_taken_def)
  with none assms(1,2) show ?thesis
    by (simp add: ensureCatalogAssignment_def ensure_name Let_def ListModels_def db_call_def find_model_id_def UpsertModel_def newID_def)
qed

lemma ensure_assigns:
  assumes ids: "\<forall>k. ids k \<noteq> ''''" and base: "fm_BaseModel md \<noteq> ''''" and w: "w \<noteq> ''''"
    and names: "distinct (map md_Name (ct_models db))" and keys: "\<forall>m \<in> set (ct_models db). md_ID m \<noteq> ''''"
    and room: "has_room md (ct_models db)"
  obtains db' m where "ensureCatalogAssignment accepts ids now md w db = (None, db')"
    and "distinct (map md_Name (ct_models db'))" and "m \<in> set (ct_models db')" and "md_Name m = fleet_key md"
    and "\<exists>a \<in> set (ct_assigns db'). ma_ModelID a = md_ID m \<and> ma_WorkerID a = w"
proof -
  let ?ms = "sort_slice (\<lambda>a b. md_Name a < md_Name b) (ct_models db)"
  let ?db1 = "db\<lparr>ct_calls := Suc (ct_calls db)\<rparr>"
  have lm: "ListModels accepts db = (Inr ?ms, ?db1)" by (simp add: ListModels_def db_call_def)
  show thesis
  proof (cases "find (\<lambda>m. md_Name m = fleet_key md) ?ms")
    case (Some m)
    then have "m \<in> set ?ms" and m2: "md_Name m = fleet_key md" unfolding find_Some_iff using nth_mem by blast+
    then have m: "m \<in> set (ct_models db)" "md_Name m = fleet_key md" by simp_all
    with keys have i: "find_model_id (fleet_key md) ?ms = md_ID m" "md_ID m \<noteq> ''''" using Some by (simp_all add: find_model_id_def)
    obtain db' where "UpsertAssignment accepts ids now \<lparr>ma_ID = '''', ma_ModelID = md_ID m, ma_WorkerID = w, ma_CreatedAt = Some now\<rparr> ?db1 = (None, db')"
      and "ct_models db' = ct_models ?db1" and "\<exists>a \<in> set (ct_assigns db'). ma_ModelID a = md_ID m \<and> ma_WorkerID a = w"
      using assign_accepts [OF ids] by blast
    with that [of db' m] lm i m names base w show thesis
      by (simp add: ensureCatalogAssignment_def ensure_name Let_def)
  next
    case None
    then have none: "fleet_key md \<notin> md_Name ` set (ct_models db)" by (auto simp: find_None_iff)
    let ?m = "\<lparr>md_ID = ids (ct_ids db), md_Name = fleet_key md, md_BaseModel = fm_BaseModel md, md_Adapter = fm_Adapter md, md_CreatedAt = Some now\<rparr>"
    obtain db2 where up: "UpsertModel accepts ids now \<lparr>md_ID = '''', md_Name = fleet_key md, md_BaseModel = fm_BaseModel md,
        md_Adapter = fm_Adapter md, md_CreatedAt = Some now\<rparr> ?db1 = (None, ?m, db2)" and ms: "ct_models db2 = ct_models db @ [?m]"
      using none room by (auto simp: UpsertModel_def newID_def db_call_def insert_model_def identity_taken_def has_room_def Let_def)
    obtain db' where "UpsertAssignment accepts ids now \<lparr>ma_ID = '''', ma_ModelID = md_ID ?m, ma_WorkerID = w, ma_CreatedAt = Some now\<rparr> db2 = (None, db')"
      and "ct_models db' = ct_models db2" and "\<exists>a \<in> set (ct_assigns db'). ma_ModelID a = md_ID ?m \<and> ma_WorkerID a = w"
      using assign_accepts [OF ids] by blast
    with that [of db' ?m] lm None up ms names none base w ids show thesis
      by (simp add: ensureCatalogAssignment_def ensure_name Let_def find_model_id_def)
  qed
qed

lemma resolve_assigned:
  assumes "distinct (map md_Name ms)" and "m \<in> set ms" and "\<exists>a \<in> set as. ma_ModelID a = md_ID m \<and> ma_WorkerID a = w"
  shows "\<exists>i ws. Resolve (Some (snapshot_of ms as t)) (md_Name m) = Some (i, ws) \<and> mi_ID i = md_ID m \<and> w \<in> set ws"
proof -
  have "find (\<lambda>z. md_Name z = md_Name m) (rev ms) = Some m" by (rule find_unique [OF assms(1,2)]) simp
  then have "map_of (ca_ByName (snapshot_of ms as t)) (md_Name m) = Some (identity_of m)"
    by (simp add: snapshot_of_def byName_lookup)
  then show ?thesis using assms(3)
    by (auto simp: Resolve_def snapshot_of_def workersByModel_lookup)
qed

lemma pod_id: "is_pod wid \<Longrightarrow> ''runpod-'' @ trim_prefix wid ''runpod-'' = wid"
  by (auto simp: is_pod_def has_prefix_iff trim_prefix_def)

lemma insert_provider_enabled:
  assumes "pv_Enabled p"
  shows "\<exists>q \<in> set (insert_provider p ps). pv_ID q = pv_ID p \<and> pv_Enabled q \<and> pv_BaseURL q = pv_BaseURL p"
proof (cases "pv_ID p \<in> pv_ID ` set ps")
  case True
  then obtain x where x: "x \<in> set ps" "pv_ID x = pv_ID p" by auto
  then have "x\<lparr>pv_BaseURL := pv_BaseURL p, pv_Enabled := pv_Enabled p\<rparr> \<in> set (insert_provider p ps)"
    using True by (force simp: insert_provider_def)
  with x assms show ?thesis by (intro bexI) auto
next
  case False
  with assms show ?thesis by (auto simp: insert_provider_def)
qed

lemma save_map_mem: "save_map m ms = Inr ms' \<Longrightarrow> m \<in> set ms'"
  by (auto simp: save_map_def split: if_splits)

lemma save_map_keeps: "save_map m ms = Inr ms' \<Longrightarrow> x \<in> set ms \<Longrightarrow> map_key x \<noteq> map_key m \<Longrightarrow> x \<in> set ms'"
  by (auto simp: save_map_def split: if_splits)

definition assigned_id :: "string \<Rightarrow> FleetModel \<Rightarrow> string" where
  "assigned_id wid md = ''provider:'' @ wid @ '':'' @ fm_BaseModel md"

lemma assigned_id_virtual: "assigned_id wid md = virtual_id wid (fm_BaseModel md) (fm_Adapter md) \<longleftrightarrow> fm_Adapter md = ''''"
  by (simp add: assigned_id_def virtual_id_def)

lemma pod_map_saved:
  assumes "is_pod wid" "fm_BaseModel md \<noteq> ''''"
  shows "isl (save_map (pod_map wid md) ms) \<longleftrightarrow> fm_Adapter md = '''' \<and> map_key (pod_map wid md) \<in> map_key ` set ms"
proof -
  have "wid \<noteq> ''''" using assms(1) by (auto simp: is_pod_def has_prefix_def)
  with assms(2) show ?thesis by (simp add: save_map_def pod_map_def)
qed

lemma register_pod_eq:
  assumes "is_pod wid"
  shows "register accepts ids now wid md detail (Some db) =
     (let db3 = db\<lparr>fd_providers := insert_provider (pod_provider wid detail) (fd_providers db),
                   fd_catalog := (fd_catalog db)\<lparr>ct_calls := Suc (Suc (ct_calls (fd_catalog db)))\<rparr>\<rparr> in
      case save_map (pod_map wid md) (fd_maps db) of
        Inl e \<Rightarrow> (Some e, Some db3)
      | Inr maps \<Rightarrow>
          (case ensureCatalogAssignment accepts ids now md (assigned_id wid md) (fd_catalog db3) of
             (e, c) \<Rightarrow> (e, Some (db3\<lparr>fd_maps := maps, fd_catalog := c\<rparr>))))"
  unfolding register_def option.case pod_id [OF assms]
  using assms
  by (simp add: register_pod_def fleet_call_def db_call_def assign_fleet_def Let_def assigned_id_def split: sum.split prod.split)

lemma register_pod_refused:
  assumes "is_pod wid" and base: "fm_BaseModel md \<noteq> ''''"
    and bad: "(fm_Adapter md = '''' \<and> map_key (pod_map wid md) \<in> map_key ` set (fd_maps db)) \<or> \<not> has_room md (ct_models (fd_catalog db))"
    and run: "register accepts ids now wid md detail (Some db) = (e, Some db')"
  shows "e = Some duplicate_key"
proof (cases "save_map (pod_map wid md) (fd_maps db)")
  case (Inl x)
  then have "x = duplicate_key" by (auto simp: save_map_def split: if_splits)
  then show ?thesis using run Inl by (simp add: register_pod_eq [OF assms(1)] Let_def)
next
  case (Inr maps)
  then have "\<not> isl (save_map (pod_map wid md) (fd_maps db))" by simp
  then have "\<not> has_room md (ct_models (fd_catalog db))" using bad pod_map_saved [OF assms(1) base] by blast
  then have room: "\<not> has_room md (ct_models ((fd_catalog db)\<lparr>ct_calls := n\<rparr>))" for n by simp
  have w: "assigned_id wid md \<noteq> ''''" by (simp add: assigned_id_def)
  obtain c where "ensureCatalogAssignment accepts ids now md (assigned_id wid md)
      ((fd_catalog db)\<lparr>ct_calls := Suc (Suc (ct_calls (fd_catalog db)))\<rparr>) = (Some duplicate_key, c)"
    using ensure_refused [OF base w room] by blast
  then show ?thesis using run Inr by (simp add: register_pod_eq [OF assms(1)] Let_def)
qed

lemma register_pod_accepts:
  assumes "is_pod wid" and ids: "\<forall>k. ids k \<noteq> ''''" and base: "fm_BaseModel md \<noteq> ''''"
    and names: "distinct (map md_Name (ct_models (fd_catalog db)))" and keys: "\<forall>m \<in> set (ct_models (fd_catalog db)). md_ID m \<noteq> ''''"
    and maps: "save_map (pod_map wid md) (fd_maps db) = Inr maps" and room: "has_room md (ct_models (fd_catalog db))"
    and run: "register accepts ids now wid md detail (Some db) = (e, Some db')"
  obtains m where "e = None" and "fd_providers db' = insert_provider (pod_provider wid detail) (fd_providers db)"
    and "fd_maps db' = maps" and "distinct (map md_Name (ct_models (fd_catalog db')))"
    and "m \<in> set (ct_models (fd_catalog db'))" and "md_Name m = fleet_key md"
    and "\<exists>a \<in> set (ct_assigns (fd_catalog db')). ma_ModelID a = md_ID m \<and> ma_WorkerID a = assigned_id wid md"
proof -
  let ?c = "fd_catalog db"
  let ?c2 = "?c\<lparr>ct_calls := Suc (Suc (ct_calls ?c))\<rparr>"
  have w: "assigned_id wid md \<noteq> ''''" by (simp add: assigned_id_def)
  have names2: "distinct (map md_Name (ct_models ?c2))" and keys2: "\<forall>m \<in> set (ct_models ?c2). md_ID m \<noteq> ''''"
    and room2: "has_room md (ct_models ?c2)" using names keys room by simp_all
  obtain c m where c: "ensureCatalogAssignment accepts ids now md (assigned_id wid md) ?c2 = (None, c)"
    and m: "distinct (map md_Name (ct_models c))" "m \<in> set (ct_models c)" "md_Name m = fleet_key md"
      "\<exists>a \<in> set (ct_assigns c). ma_ModelID a = md_ID m \<and> ma_WorkerID a = assigned_id wid md"
    using ensure_assigns [OF ids base w names2 keys2 room2] by metis
  have "e = None" and "db' = db\<lparr>fd_providers := insert_provider (pod_provider wid detail) (fd_providers db),
         fd_maps := maps, fd_catalog := c\<rparr>"
    using run maps c by (simp_all add: register_pod_eq [OF assms(1)] Let_def)
  then show thesis using that [of m] m by simp
qed

text \<open>
  C39. A rented pod that is registered can be routed to: with a database that answers every statement, unique
  model names and model ids that are not empty, the registration succeeds unless its rows exist already (the mapping of a
  model without adapter, or the model's identity under another name); when it does, the provider registry's next reload turns the rows into
  a view for exactly the pod's model, with the pod as its endpoint, and the catalog resolves the model's
  name to a list with the worker id the registration assigned. That id is the id of the view exactly
  when the model has no adapter; a pod for an adapter is registered under an id no view has.
\<close>

theorem registered_pod_routes:
  assumes "is_pod wid" and "\<forall>k. ids k \<noteq> ''''" and "fm_BaseModel md \<noteq> ''''"
    and "distinct (map md_Name (ct_models (fd_catalog db)))" and "\<forall>m \<in> set (ct_models (fd_catalog db)). md_ID m \<noteq> ''''"
    and "register accepts ids now wid md detail (Some db) = (e, Some db')"
    and "provider_Reload getenv (Some (Inr (fd_providers db'))) (Inr (fd_maps db')) r = (e2, r')"
  shows "(e = None \<longleftrightarrow> (fm_Adapter md \<noteq> '''' \<or> map_key (pod_map wid md) \<notin> map_key ` set (fd_maps db))
        \<and> has_room md (ct_models (fd_catalog db)))
    \<and> (e = None \<longrightarrow> e2 = None
    \<and> (\<exists>v \<in> set (SnapshotViews r'). wv_ID v = virtual_id wid (fm_BaseModel md) (fm_Adapter md)
         \<and> wv_Endpoint v = ''provider://'' @ wid \<and> wv_BaseModel v = fm_BaseModel md \<and> wv_Adapter v = fm_Adapter md)
    \<and> (\<exists>i ws. Resolve (Some (snapshot_of (ct_models (fd_catalog db')) (ct_assigns (fd_catalog db')) now)) (fleet_key md) = Some (i, ws)
         \<and> assigned_id wid md \<in> set ws)
    \<and> (assigned_id wid md = virtual_id wid (fm_BaseModel md) (fm_Adapter md) \<longleftrightarrow> fm_Adapter md = ''''))"
proof (cases "(fm_Adapter md \<noteq> '''' \<or> map_key (pod_map wid md) \<notin> map_key ` set (fd_maps db)) \<and> has_room md (ct_models (fd_catalog db))")
  case False
  then have "e = Some duplicate_key" using register_pod_refused [OF assms(1,3) _ assms(6)] by blast
  with False show ?thesis by simp
next
  case True
  then have "\<not> isl (save_map (pod_map wid md) (fd_maps db))" and room: "has_room md (ct_models (fd_catalog db))"
    using pod_map_saved [OF assms(1,3)] by blast+
  then obtain new where new: "save_map (pod_map wid md) (fd_maps db) = Inr new" by (metis isl_def sum.exhaust)
  obtain m where e: "e = None" and prov: "fd_providers db' = insert_provider (pod_provider wid detail) (fd_providers db)"
    and maps: "fd_maps db' = new"
    and cat: "distinct (map md_Name (ct_models (fd_catalog db')))" "m \<in> set (ct_models (fd_catalog db'))" "md_Name m = fleet_key md"
      "\<exists>a \<in> set (ct_assigns (fd_catalog db')). ma_ModelID a = md_ID m \<and> ma_WorkerID a = assigned_id wid md"
    using register_pod_accepts [OF assms(1-5) new room assms(6)] by metis
  note loaded = provider_Reload_loaded [OF assms(7)]
  obtain p where p: "p \<in> set (fd_providers db')" "pv_ID p = wid" "pv_Enabled p"
    using insert_provider_enabled [of "pod_provider wid detail" "fd_providers db"] by (auto simp: prov pod_provider_def)
  have mm: "pod_map wid md \<in> set (fd_maps db')" using save_map_mem [OF new] by (simp add: maps)
  let ?v = "virtual_view (virtual_worker (provider_backend getenv (fd_maps db') p) p (pod_map wid md))"
  have "virtual_worker (provider_backend getenv (fd_maps db') p) p (pod_map wid md)
      \<in> set (loaded_workers getenv (fd_maps db') (filter pv_Enabled (fd_providers db')))"
    unfolding loaded_workers_set using p mm by (intro bexI [of _ p] bexI [of _ "pod_map wid md"]) (simp_all add: pod_map_def)
  then have "?v \<in> set (SnapshotViews r')" by (simp add: loaded SnapshotViews_def)
  moreover have "wv_ID ?v = virtual_id wid (fm_BaseModel md) (fm_Adapter md)" "wv_Endpoint ?v = ''provider://'' @ wid"
    "wv_BaseModel ?v = fm_BaseModel md" "wv_Adapter ?v = fm_Adapter md"
    by (simp_all add: virtual_view_def virtual_worker_def pod_map_def p(2))
  moreover have "\<exists>i ws. Resolve (Some (snapshot_of (ct_models (fd_catalog db')) (ct_assigns (fd_catalog db')) now)) (fleet_key md)
      = Some (i, ws) \<and> assigned_id wid md \<in> set ws"
    using resolve_assigned [OF cat(1,2,4)] cat(3) by metis
  ultimately show ?thesis using True e loaded(1) assigned_id_virtual by blast
qed

definition empty_db :: fleet_db where
  "empty_db = \<lparr>fd_providers = [], fd_maps = [], fd_catalog = \<lparr>ct_models = [], ct_assigns = [], ct_calls = 0, ct_ids = 0\<rparr>\<rparr>"

theorem registered_pod_routes_witness:
  "let md = \<lparr>fm_BaseModel = ''m'', fm_Adapter = ''sql''\<rparr>;
       r' = snd (provider_Reload (\<lambda>_. '''')
              (Some (Inr (fd_providers (the (snd (register accepts (\<lambda>_. ''i'') 7 ''runpod-x'' md ''https://x'' (Some empty_db)))))))
              (Inr (fd_maps (the (snd (register accepts (\<lambda>_. ''i'') 7 ''runpod-x'' md ''https://x'' (Some empty_db))))))
              NewRegistry) in
   (\<exists>v \<in> set (SnapshotViews r'). wv_ID v = ''provider:runpod-x:m#sql'') \<and> assigned_id ''runpod-x'' md = ''provider:runpod-x:m''"
proof -
  let ?md = "\<lparr>fm_BaseModel = ''m'', fm_Adapter = ''sql''\<rparr>"
  obtain e d where r: "register accepts (\<lambda>_. ''i'') 7 ''runpod-x'' ?md ''https://x'' (Some empty_db) = (e, Some d)"
    using that unfolding register_def option.case split_beta by blast
  obtain e2 r' where l: "provider_Reload (\<lambda>_. '''') (Some (Inr (fd_providers d))) (Inr (fd_maps d)) NewRegistry = (e2, r')"
    by (metis prod.exhaust)
  have "is_pod ''runpod-x''" by (simp add: is_pod_def has_prefix_def)
  then have "\<exists>v \<in> set (SnapshotViews r'). wv_ID v = virtual_id ''runpod-x'' ''m'' ''sql''"
    using registered_pod_routes [OF _ _ _ _ _ r l] by (auto simp: empty_db_def has_room_def)
  then show ?thesis using r l by (simp add: virtual_id_def assigned_id_def)
qed

end
