(* ===== verification/Worker.thy ===== *)
theory Worker
  imports Adapters Config Routing
begin

text \<open>
  The worker process: what the adapters of \<open>worker/adapters\<close> offer besides generation (construction,
  capabilities, readiness, load metrics), and the command \<open>cmd/forge-worker/main.go\<close> that probes the
  engine, registers with the control plane and keeps the heartbeat current. The engine's answer to a
  \<open>GET\<close>, the clock, the registry behind the RPC and the Redis server are explicit; here the ticks of the process's
  goroutines are taken one after another, in any order; \<open>Worker_Interleaving\<close> has their atomic steps and the shutdown.
\<close>

section \<open>The adapters\<close>

record Capabilities =
  ac_Runtime :: string
  ac_Models :: "AModelInfo list"
  ac_Attributes :: "(string \<times> string) list"

text \<open>
  The answer of the HTTP client to a \<open>GET\<close>: an error, or a status, the body's text, and the names the
  client decoded from it (none when it does not decode the body, as on an error status).
\<close>

datatype get_answer = GetErr string | GetResp int string "string list"

subsection \<open>vLLM\<close>

record vllm_Config =
  vc_BaseURL :: string
  vc_ServedModel :: string
  vc_ForgeModel :: string
  vc_Timeout :: duration

record vllm_Adapter =
  va_baseURL :: string
  va_models :: vllm
  va_timeout :: "duration option"
  va_load :: LoadSnapshot
  va_UpdatedAt :: gotime

definition no_load :: LoadSnapshot where
  "no_load = \<lparr>lo_Running = 0, lo_Waiting = 0, lo_KVCacheUsage = 0, lo_GPUCacheUsage = 0\<rparr>"

definition vllm_New :: "vllm_Config \<Rightarrow> vllm_Adapter" where
  "vllm_New cfg =
     (let url = (if vc_BaseURL cfg = '''' then ''http://127.0.0.1:8000'' else vc_BaseURL cfg) in
      \<lparr>va_baseURL = trim_right_byte url (CHR ''/''),
       va_models = \<lparr>vl_servedModel = vc_ServedModel cfg, vl_forgeModel = vc_ForgeModel cfg\<rparr>,
       va_timeout = (if vc_Timeout cfg > 0 then Some (vc_Timeout cfg) else None),
       va_load = no_load, va_UpdatedAt = None\<rparr>)"

definition vllm_Capabilities :: "get_answer \<Rightarrow> vllm_Adapter \<Rightarrow> goerr + Capabilities" where
  "vllm_Capabilities answer a =
     (case answer of
        GetErr m \<Rightarrow> Inl (PlainErr (''vllm models: '' @ m))
      | GetResp status _ ids \<Rightarrow>
          if status > 399 then Inl (PlainErr (''vllm models: status '' @ itoa status))
          else Inr \<lparr>ac_Runtime = ''vllm'', ac_Models = vllm_models (va_models a) ids, ac_Attributes = []\<rparr>)"

definition vllm_Ready :: "get_answer \<Rightarrow> vllm_Adapter \<Rightarrow> bool" where
  "vllm_Ready answer a = (case answer of GetErr _ \<Rightarrow> False | GetResp status _ _ \<Rightarrow> status = 200)"

definition ScrapeMetrics ::
  "(string \<Rightarrow> real option) \<Rightarrow> get_answer \<Rightarrow> int \<Rightarrow> vllm_Adapter \<Rightarrow> (goerr + LoadSnapshot) \<times> vllm_Adapter" where
  "ScrapeMetrics parseFloat answer now a =
     (case answer of
        GetErr m \<Rightarrow> (Inl (PlainErr m), a)
      | GetResp status body _ \<Rightarrow>
          if status > 399 then (Inl (PlainErr (''vllm metrics: status '' @ itoa status)), a)
          else (let snap = parsePrometheus parseFloat body in
                (Inr snap, a\<lparr>va_load := snap, va_UpdatedAt := Some now\<rparr>)))"

definition LastLoad :: "vllm_Adapter \<Rightarrow> LoadSnapshot \<times> gotime" where
  "LastLoad a = (va_load a, va_UpdatedAt a)"

subsection \<open>Ollama\<close>

record ollama_Config =
  oc_BaseURL :: string
  oc_KeepAlive :: string
  oc_Timeout :: duration

record ollama_Adapter =
  oa_baseURL :: string
  oa_keepAlive :: string
  oa_timeout :: "duration option"

definition ollama_New :: "ollama_Config \<Rightarrow> ollama_Adapter" where
  "ollama_New cfg =
     (let url = (if oc_BaseURL cfg = '''' then ''http://127.0.0.1:11434'' else oc_BaseURL cfg) in
      \<lparr>oa_baseURL = trim_right_byte url (CHR ''/''),
       oa_keepAlive = (if oc_KeepAlive cfg = '''' then ''5m'' else oc_KeepAlive cfg),
       oa_timeout = (if oc_Timeout cfg > 0 then Some (oc_Timeout cfg) else None)\<rparr>)"

definition ollama_Capabilities :: "get_answer \<Rightarrow> ollama_Adapter \<Rightarrow> goerr + Capabilities" where
  "ollama_Capabilities answer a =
     (case answer of
        GetErr m \<Rightarrow> Inl (PlainErr (''ollama tags: '' @ m))
      | GetResp status _ names \<Rightarrow>
          if status > 399 then Inl (PlainErr (''ollama tags: status '' @ itoa status))
          else Inr \<lparr>ac_Runtime = ''ollama'',
                    ac_Models = map (\<lambda>n. \<lparr>mi_Base = n, mi_Adpt = '''', mi_MaxCtx = 0\<rparr>) names, ac_Attributes = []\<rparr>)"

definition ollama_Ready :: "get_answer \<Rightarrow> ollama_Adapter \<Rightarrow> bool" where
  "ollama_Ready answer a = (case answer of GetErr _ \<Rightarrow> False | GetResp status _ _ \<Rightarrow> status = 200)"

definition ollama_HasModel :: "get_answer \<Rightarrow> string \<Rightarrow> ollama_Adapter \<Rightarrow> goerr + bool" where
  "ollama_HasModel answer model a =
     (case ollama_Capabilities answer a of
        Inl e \<Rightarrow> Inl e
      | Inr caps \<Rightarrow> Inr (HasModel (map mi_Base (ac_Models caps)) model))"

section \<open>The command\<close>

datatype RuntimeAdapter = AVllm vllm_Adapter | AOllama ollama_Adapter

definition buildAdapter :: "Koanf \<Rightarrow> goerr + RuntimeAdapter \<times> string" where
  "buildAdapter cfg =
     (let kind = to_upper (k_String cfg ''worker.runtime'') in
      if contains_str kind ''VLLM'' then
        (let served0 = k_String cfg ''vllm.served.model'';
             served = (if served0 = '''' then k_String cfg ''worker.model.base'' else served0) in
         Inr (AVllm (vllm_New \<lparr>vc_BaseURL = k_String cfg ''vllm.url'', vc_ServedModel = served,
                               vc_ForgeModel = k_String cfg ''worker.model.base'', vc_Timeout = 0\<rparr>), ''vllm''))
      else if contains_str kind ''OLLAMA'' \<or> kind = '''' \<or> contains_str kind ''UNSPECIFIED'' then
        Inr (AOllama (ollama_New \<lparr>oc_BaseURL = k_String cfg ''ollama.url'',
                                  oc_KeepAlive = k_String cfg ''ollama.keep.alive'', oc_Timeout = 0\<rparr>), ''ollama'')
      else Inl (PlainErr (''unsupported worker.runtime '' @ k_String cfg ''worker.runtime'')))"

definition adapter_Ready :: "get_answer \<Rightarrow> RuntimeAdapter \<Rightarrow> bool" where
  "adapter_Ready answer a = (case a of AVllm v \<Rightarrow> vllm_Ready answer v | AOllama l \<Rightarrow> ollama_Ready answer l)"

definition adapter_Capabilities :: "get_answer \<Rightarrow> RuntimeAdapter \<Rightarrow> goerr + Capabilities" where
  "adapter_Capabilities answer a =
     (case a of AVllm v \<Rightarrow> vllm_Capabilities answer v | AOllama l \<Rightarrow> ollama_Capabilities answer l)"

subsection \<open>Registration\<close>

text \<open>The enumeration of \<open>proto/registry/v1/registry.proto\<close>; looking up another name gives its zero value.\<close>

definition RuntimeKind_names :: "string list" where
  "RuntimeKind_names =
     [''RUNTIME_KIND_UNSPECIFIED'', ''RUNTIME_KIND_OLLAMA'', ''RUNTIME_KIND_MLX'', ''RUNTIME_KIND_LLAMACPP'',
      ''RUNTIME_KIND_VLLM'', ''RUNTIME_KIND_FORGE'']"

definition RuntimeKind_of :: "string \<Rightarrow> string" where
  "RuntimeKind_of s = (if s \<in> set RuntimeKind_names then s else ''RUNTIME_KIND_UNSPECIFIED'')"

definition register_caps :: "(real \<Rightarrow> string) \<Rightarrow> Koanf \<Rightarrow> (string \<rightharpoonup> string)" where
  "register_caps formatFloat cfg =
     (let caps0 = (case k_StringMap cfg ''worker.capabilities'' of None \<Rightarrow> Map.empty | Some m \<Rightarrow> map_of m);
          costHr = k_Float64 cfg ''worker.cost.per.hour'';
          caps1 = caps0(''cost_per_hour'' \<mapsto> formatFloat costHr);
          class0 = k_String cfg ''worker.cost.class'';
          cls = (if class0 = '''' then (if costHr > 0 then ''paid'' else ''free'') else class0);
          caps2 = caps1(''cost_class'' \<mapsto> cls);
          caps3 = (if caps2 ''runtime'' = None
                   then caps2(''runtime'' \<mapsto> RuntimeLabel (k_String cfg ''worker.runtime'')) else caps2) in
      if caps3 ''max_model_len'' = None
      then caps3(''max_model_len'' \<mapsto> itoa (k_Int cfg ''worker.model.context'')) else caps3)"

definition register_request :: "(real \<Rightarrow> string) \<Rightarrow> Koanf \<Rightarrow> RegisterRequest" where
  "register_request formatFloat cfg =
     \<lparr>rq_WorkerId = k_String cfg ''worker.id'', rq_Endpoint = k_String cfg ''worker.endpoint'',
      rq_RuntimeKind = RuntimeKind_of (k_String cfg ''worker.runtime''),
      rq_Models = [\<lparr>sm_WorkerID = '''', sm_BaseModel = k_String cfg ''worker.model.base'', sm_Adapter = '''',
                    sm_MaxContext = word_of_int (k_Int cfg ''worker.model.context'')\<rparr>],
      rq_Capabilities = register_caps formatFloat cfg\<rparr>"

text \<open>
  What becomes of one attempt: it does not reach the server, or the server runs \<open>Register\<close> at a time, with
  the database's verdict, and the reply arrives or is lost (the call's deadline passes).
\<close>

datatype attempt = Unreached goerr | Served int "string option" bool

definition register_attempt ::
  "((string \<rightharpoonup> string) \<Rightarrow> string + string) \<Rightarrow> RegisterRequest \<Rightarrow> attempt \<Rightarrow> registry_db \<Rightarrow>
     (goerr + RegisterResponse) \<times> registry_db" where
  "register_attempt marshal req att db =
     (case att of
        Unreached e \<Rightarrow> (Inl e, db)
      | Served now refused lost \<Rightarrow>
          (case Register marshal db req now refused of
             (r, db') \<Rightarrow> (if lost then Inl CtxDeadlineExceeded else r, db')))"

text \<open>
  The loop: \<open>n\<close> attempts are left, \<open>world\<close> says what becomes of attempt \<open>i\<close>. \<open>clientErr\<close> is the error of
  \<open>grpc.NewClient\<close>.
\<close>

fun register_loop ::
  "((string \<rightharpoonup> string) \<Rightarrow> string + string) \<Rightarrow> RegisterRequest \<Rightarrow> (nat \<Rightarrow> attempt) \<Rightarrow> nat \<Rightarrow> nat \<Rightarrow> goerr \<Rightarrow>
     registry_db \<Rightarrow> (goerr + RegisterResponse) \<times> registry_db" where
  "register_loop marshal req world 0 i lastErr db = (Inl lastErr, db)"
| "register_loop marshal req world (Suc n) i lastErr db =
     (case register_attempt marshal req (world i) db of
        (Inr resp, db') \<Rightarrow> (Inr resp, db')
      | (Inl e, db') \<Rightarrow> register_loop marshal req world n (Suc i) e db')"

definition registerWithControlPlane ::
  "((string \<rightharpoonup> string) \<Rightarrow> string + string) \<Rightarrow> (real \<Rightarrow> string) \<Rightarrow> goerr option \<Rightarrow> (nat \<Rightarrow> attempt) \<Rightarrow> Koanf \<Rightarrow>
     registry_db \<Rightarrow> (goerr + RegisterResponse) \<times> registry_db" where
  "registerWithControlPlane marshal formatFloat clientErr world cfg db =
     (case clientErr of
        Some e \<Rightarrow> (Inl e, db)
      | None \<Rightarrow> register_loop marshal (register_request formatFloat cfg) world 15 1 (PlainErr '''') db)"

subsection \<open>The process\<close>

text \<open>The conversion \<open>int64(f)\<close> of a float: towards zero.\<close>

definition go_trunc :: "real \<Rightarrow> int" where
  "go_trunc x = (if x \<ge> 0 then \<lfloor>x\<rfloor> else \<lceil>x\<rceil>)"

record worker_proc =
  wp_adapter :: RuntimeAdapter
  wp_hb :: HeartbeatWriter
  wp_readyFixed :: bool
  wp_redis :: redis_store

text \<open>One tick of \<open>refreshReady\<close>; the goroutine ends at once when \<open>FORGE_WORKER_READY\<close> is set.\<close>

definition refreshReady_tick :: "get_answer \<Rightarrow> worker_proc \<Rightarrow> worker_proc" where
  "refreshReady_tick answer s =
     (if wp_readyFixed s then s
      else s\<lparr>wp_hb := SetReady (wp_hb s) (adapter_Ready answer (wp_adapter s))\<rparr>)"

text \<open>One tick of \<open>scrapeVLLMLoad\<close>, which only runs for a vLLM adapter.\<close>

definition scrapeVLLMLoad_tick :: "(string \<Rightarrow> real option) \<Rightarrow> get_answer \<Rightarrow> int \<Rightarrow> worker_proc \<Rightarrow> worker_proc" where
  "scrapeVLLMLoad_tick parseFloat answer now s =
     (case wp_adapter s of
        AOllama _ \<Rightarrow> s
      | AVllm v \<Rightarrow>
          (case ScrapeMetrics parseFloat answer now v of
             (Inl _, v') \<Rightarrow> s\<lparr>wp_adapter := AVllm v'\<rparr>
           | (Inr snap, v') \<Rightarrow>
               s\<lparr>wp_adapter := AVllm v',
                 wp_hb := SetCacheUsage
                   (SetLoad (wp_hb s) (go_trunc (lo_Running snap)) (go_trunc (lo_Waiting snap)))
                   (lo_KVCacheUsage snap) (lo_GPUCacheUsage snap)\<rparr>))"

text \<open>One beat of \<open>HeartbeatWriter.Run\<close> (the first is before its ticker starts); an error is logged.\<close>

definition heartbeat_tick :: "(Heartbeat \<Rightarrow> goerr + string) \<Rightarrow> int \<Rightarrow> goerr option \<Rightarrow> worker_proc \<Rightarrow> worker_proc" where
  "heartbeat_tick encode now refused s =
     s\<lparr>wp_redis := snd (BeatOnce encode (wp_hb s) now refused (wp_redis s))\<rparr>"

text \<open>The ticks of the goroutines, one after another: each begins when the one before has ended.\<close>

datatype worker_event =
    Ev_beat int "goerr option"
  | Ev_probe get_answer
  | Ev_scrape get_answer int

definition worker_step ::
  "(Heartbeat \<Rightarrow> goerr + string) \<Rightarrow> (string \<Rightarrow> real option) \<Rightarrow> worker_event \<Rightarrow> worker_proc \<Rightarrow> worker_proc" where
  "worker_step encode parseFloat ev s =
     (case ev of
        Ev_beat now refused \<Rightarrow> heartbeat_tick encode now refused s
      | Ev_probe answer \<Rightarrow> refreshReady_tick answer s
      | Ev_scrape answer now \<Rightarrow> scrapeVLLMLoad_tick parseFloat answer now s)"

abbreviation worker_run ::
  "(Heartbeat \<Rightarrow> goerr + string) \<Rightarrow> (string \<Rightarrow> real option) \<Rightarrow> worker_event list \<Rightarrow> worker_proc \<Rightarrow> worker_proc" where
  "worker_run encode parseFloat \<equiv> fold (worker_step encode parseFloat)"

text \<open>
  The start of \<open>main\<close> up to the goroutines: the adapter, the first probe, the registration (each failure ends
  the process), the heartbeat writer. \<open>readyEnv\<close> is \<open>os.Getenv("FORGE_WORKER_READY")\<close>, \<open>redisErr\<close> and
  \<open>tracerErr\<close> the errors of the Redis and tracing clients.
\<close>

definition worker_writer :: "Koanf \<Rightarrow> string \<Rightarrow> bool \<Rightarrow> HeartbeatWriter" where
  "worker_writer cfg runtimeLabel ready =
     (let a = k_String cfg ''worker.model.adapter'' in
      NewHeartbeatWriter (k_String cfg ''worker.id'') (k_String cfg ''worker.model.base'')
        (if a \<noteq> '''' then Some a else None) runtimeLabel (k_String cfg ''worker.endpoint'')
        (Duration cfg ''heartbeat.ttl'' (6 * second)) (Duration cfg ''heartbeat.interval'' (2 * second)) ready)"

definition worker_main ::
  "((string \<rightharpoonup> string) \<Rightarrow> string + string) \<Rightarrow> (real \<Rightarrow> string) \<Rightarrow> goerr option \<Rightarrow> (nat \<Rightarrow> attempt) \<Rightarrow>
     get_answer \<Rightarrow> string \<Rightarrow> goerr option \<Rightarrow> goerr option \<Rightarrow> Koanf \<Rightarrow> registry_db \<Rightarrow> redis_store \<Rightarrow>
     (goerr + worker_proc) \<times> registry_db" where
  "worker_main marshal formatFloat clientErr world probe readyEnv redisErr tracerErr cfg db redis =
     (case buildAdapter cfg of
        Inl e \<Rightarrow> (Inl e, db)
      | Inr (a, runtimeLabel) \<Rightarrow>
          (let ready = (if readyEnv \<noteq> '''' then k_Bool cfg ''worker.ready'' else adapter_Ready probe a) in
           case registerWithControlPlane marshal formatFloat clientErr world cfg db of
             (Inl e, db') \<Rightarrow> (Inl e, db')
           | (Inr _, db') \<Rightarrow>
               (case redisErr of
                  Some e \<Rightarrow> (Inl e, db')
                | None \<Rightarrow>
                    (case tracerErr of
                       Some e \<Rightarrow> (Inl e, db')
                     | None \<Rightarrow>
                         (Inr \<lparr>wp_adapter = a, wp_hb = worker_writer cfg runtimeLabel ready,
                               wp_readyFixed = (readyEnv \<noteq> ''''), wp_redis = redis\<rparr>, db')))))"

section \<open>The adapter interface\<close>

text \<open>
  What the process relies on of an engine adapter: a probe that succeeds means that the
  capabilities can be read from the same answer, under the adapter's runtime label.
\<close>

locale runtime_adapter =
  fixes ready :: "get_answer \<Rightarrow> 'a \<Rightarrow> bool"
    and capabilities :: "get_answer \<Rightarrow> 'a \<Rightarrow> goerr + Capabilities"
    and label :: "'a \<Rightarrow> string"
  assumes ready_status: "ready ans a \<longleftrightarrow> (\<exists>body ids. ans = GetResp 200 body ids)"
    and capabilities_ok: "status \<le> 399 \<Longrightarrow> \<exists>c. capabilities (GetResp status body ids) a = Inr c \<and> ac_Runtime c = label a"
    and capabilities_fail: "status > 399 \<Longrightarrow> \<exists>e. capabilities (GetResp status body ids) a = Inl e"
begin

lemma ready_capabilities: "ready ans a \<Longrightarrow> \<exists>c. capabilities ans a = Inr c \<and> ac_Runtime c = label a"
  using ready_status capabilities_ok [of 200] by fastforce

lemma no_answer_not_ready: "\<not> ready (GetErr m) a"
  by (simp add: ready_status)

end

definition adapter_label :: "RuntimeAdapter \<Rightarrow> string" where
  "adapter_label a = (case a of AVllm _ \<Rightarrow> ''vllm'' | AOllama _ \<Rightarrow> ''ollama'')"

interpretation vllm_ad: runtime_adapter vllm_Ready vllm_Capabilities "\<lambda>_. ''vllm''"
  by unfold_locales (auto simp: vllm_Ready_def vllm_Capabilities_def split: get_answer.splits)

interpretation ollama_ad: runtime_adapter ollama_Ready ollama_Capabilities "\<lambda>_. ''ollama''"
  by unfold_locales (auto simp: ollama_Ready_def ollama_Capabilities_def split: get_answer.splits)

interpretation worker_ad: runtime_adapter adapter_Ready adapter_Capabilities adapter_label
proof
  fix ans a
  show "adapter_Ready ans a \<longleftrightarrow> (\<exists>body ids. ans = GetResp 200 body ids)"
    by (cases a) (simp_all add: adapter_Ready_def vllm_ad.ready_status ollama_ad.ready_status)
next
  fix status :: int and body ids a assume "status \<le> 399"
  then show "\<exists>c. adapter_Capabilities (GetResp status body ids) a = Inr c \<and> ac_Runtime c = adapter_label a"
    using vllm_ad.capabilities_ok ollama_ad.capabilities_ok
    by (cases a) (simp_all add: adapter_Capabilities_def adapter_label_def)
next
  fix status :: int and body ids a assume "status > 399"
  then show "\<exists>e. adapter_Capabilities (GetResp status body ids) a = Inl e"
    using vllm_ad.capabilities_fail ollama_ad.capabilities_fail
    by (cases a) (simp_all add: adapter_Capabilities_def)
qed

section \<open>Registration: facts\<close>

text \<open>The row a request asks for.\<close>

definition request_row :: "RegisterRequest \<Rightarrow> string \<Rightarrow> int \<Rightarrow> Worker" where
  "request_row req caps now =
     \<lparr>mw_ID = rq_WorkerId req, mw_Endpoint = rq_Endpoint req, mw_RuntimeKind = rq_RuntimeKind req,
      mw_State = '''', mw_Capabilities = caps,
      mw_Models = map (\<lambda>m. \<lparr>sm_WorkerID = '''', sm_BaseModel = sm_BaseModel m, sm_Adapter = sm_Adapter m,
                            sm_MaxContext = sm_MaxContext m\<rparr>) (rq_Models req),
      mw_RegisteredAt = Some now, mw_UpdatedAt = None\<rparr>"

definition row_shows :: "RegisterRequest \<Rightarrow> string \<Rightarrow> Worker \<Rightarrow> bool" where
  "row_shows req caps v \<longleftrightarrow>
     mw_ID v = rq_WorkerId req \<and> mw_Endpoint v = rq_Endpoint req \<and> mw_RuntimeKind v = rq_RuntimeKind req
   \<and> mw_Capabilities v = caps
   \<and> mw_Models v = map (\<lambda>m. \<lparr>sm_WorkerID = rq_WorkerId req, sm_BaseModel = sm_BaseModel m,
        sm_Adapter = sm_Adapter m, sm_MaxContext = sm_MaxContext m\<rparr>) (rq_Models req)"

text \<open>The rows of the other workers, as the registry lists them.\<close>

definition others :: "string \<Rightarrow> registry_db \<Rightarrow> Worker set" where
  "others i db = {v \<in> set (Repository_List db). mw_ID v \<noteq> i}"

lemma Register_cases:
  assumes "rq_WorkerId req \<noteq> ''''" "rq_Endpoint req \<noteq> ''''" "marshal (rq_Capabilities req) = Inr caps"
  shows "Register marshal db req now refused =
     (case refused of
        None \<Rightarrow> (Inr \<lparr>rr_WorkerId = rq_WorkerId req, rr_RegisteredAt = now\<rparr>,
                 snd (Repository_Upsert db (request_row req caps now) now None))
      | Some e \<Rightarrow> (Inl (StatusErr Internal (''upsert worker: '' @ e)), db))"
  using assms by (simp add: Register_def request_row_def Repository_Upsert_def Let_def split: option.splits)

lemma others_Upsert: "others (mw_ID w) (snd (Repository_Upsert db w now None)) = others (mw_ID w) db"
proof -
  let ?db = "snd (Repository_Upsert db w now None)"
  have models: "filter (\<lambda>m. sm_WorkerID m = i) (db_models ?db) = filter (\<lambda>m. sm_WorkerID m = i) (db_models db)"
    if "i \<noteq> mw_ID w" for i
    using that by (auto simp: Repository_Upsert_def filter_empty_conv intro!: filter_cong)
  have "v \<in> set (Repository_List ?db) \<longleftrightarrow> v \<in> set (Repository_List db)" if "mw_ID v \<noteq> mw_ID w" for v
  proof -
    have "v \<in> set (Repository_List d) \<longleftrightarrow>
        (\<exists>r \<in> set (db_workers d). mw_ID r = mw_ID v
           \<and> v = r\<lparr>mw_Models := filter (\<lambda>m. sm_WorkerID m = mw_ID v) (db_models d)\<rparr>)" for d
      unfolding Repository_List_def by (force simp: image_iff)
    moreover have "r \<in> set (db_workers ?db) \<longleftrightarrow> r \<in> set (db_workers db)" if "mw_ID r = mw_ID v" for r
      using that \<open>mw_ID v \<noteq> mw_ID w\<close> by (simp add: Repository_Upsert_def upsert_worker_row_other)
    ultimately show ?thesis using models [OF that] by auto
  qed
  then show ?thesis by (auto simp: others_def)
qed

lemma Upsert_shows:
  "\<exists>v \<in> set (Repository_List (snd (Repository_Upsert db (request_row req caps now) now None))). row_shows req caps v"
proof -
  let ?w = "request_row req caps now"
  let ?db = "snd (Repository_Upsert db ?w now None)"
  have "mw_ID ?w \<in> mw_ID ` set (db_workers ?db)" by (simp add: Repository_Upsert_def upsert_worker_row_in)
  then have "mw_ID ?w \<in> set (map mw_ID (Repository_List ?db))" by (simp only: Repository_List_IDs set_map)
  then have "mw_ID ?w \<in> mw_ID ` set (Repository_List ?db)" by (simp only: set_map)
  then obtain v where v: "v \<in> set (Repository_List ?db)" "mw_ID v = mw_ID ?w" by (elim imageE) simp
  then have "row_shows req caps v"
    using List_after_Upsert [OF v(1)] by (simp add: row_shows_def request_row_def comp_def)
  then show ?thesis using v(1) by blast
qed

text \<open>What the loop leaves in the registry.\<close>

definition accepted :: "attempt \<Rightarrow> bool" where
  "accepted att \<longleftrightarrow> (\<exists>now lost. att = Served now None lost)"

definition acknowledged :: "attempt \<Rightarrow> bool" where
  "acknowledged att \<longleftrightarrow> (\<exists>now. att = Served now None False)"

lemma register_attempt_effect:
  assumes "rq_WorkerId req \<noteq> ''''" "rq_Endpoint req \<noteq> ''''" "marshal (rq_Capabilities req) = Inr caps"
    and "registry_ok db" "register_attempt marshal req att db = (r, db')"
  shows "registry_ok db' \<and> others (rq_WorkerId req) db' = others (rq_WorkerId req) db
       \<and> (if accepted att then \<exists>v \<in> set (Repository_List db'). row_shows req caps v else db' = db)
       \<and> ((\<exists>resp. r = Inr resp) \<longleftrightarrow> acknowledged att)"
proof (cases "accepted att")
  case True
  then obtain now lost where att: "att = Served now None lost" by (auto simp: accepted_def)
  have db': "db' = snd (Repository_Upsert db (request_row req caps now) now None)"
    and r: "(\<exists>resp. r = Inr resp) \<longleftrightarrow> \<not> lost"
    using assms(5) by (auto simp: register_attempt_def att Register_cases [where marshal = marshal, OF assms(1-3)])
  have i: "mw_ID (request_row req caps now) = rq_WorkerId req" by (simp add: request_row_def)
  show ?thesis
    using True r Upsert_shows [of db req caps now] others_Upsert [of "request_row req caps now" db now]
      Upsert_ok [OF assms(4), of "request_row req caps now" now None]
    by (simp add: db' i acknowledged_def att)
next
  case False
  then show ?thesis
    using assms(4,5) Register_cases [where marshal = marshal and db = db, OF assms(1-3)]
    by (auto simp: register_attempt_def accepted_def acknowledged_def split: attempt.splits option.splits prod.splits if_splits)
qed

abbreviation shown :: "RegisterRequest \<Rightarrow> string \<Rightarrow> registry_db \<Rightarrow> bool" where
  "shown req caps db \<equiv> \<exists>v \<in> set (Repository_List db). row_shows req caps v"

lemma ex_interval_Suc: "(\<exists>j \<in> {i..<i + Suc n}. P j) \<longleftrightarrow> P i \<or> (\<exists>j \<in> {Suc i..<Suc i + n}. P j)"
proof -
  have "{i..<i + Suc n} = insert i {Suc i..<Suc i + n}" by auto
  then show ?thesis by simp
qed

lemma register_loop_effect:
  assumes "rq_WorkerId req \<noteq> ''''" "rq_Endpoint req \<noteq> ''''" "marshal (rq_Capabilities req) = Inr caps"
    and "registry_ok db" "register_loop marshal req world n i err db = (r, db')"
  shows "registry_ok db' \<and> others (rq_WorkerId req) db' = others (rq_WorkerId req) db
       \<and> (shown req caps db \<or> (\<exists>j \<in> {i..<i + n}. accepted (world j)) \<longrightarrow> shown req caps db')
       \<and> ((\<exists>j \<in> {i..<i + n}. accepted (world j)) \<or> db' = db)
       \<and> ((\<exists>resp. r = Inr resp) \<longleftrightarrow> (\<exists>j \<in> {i..<i + n}. acknowledged (world j)))"
  using assms(4,5)
proof (induction n arbitrary: i err db)
  case 0
  then show ?case by auto
next
  case (Suc n)
  obtain r1 db1 where a: "register_attempt marshal req (world i) db = (r1, db1)" by (metis prod.exhaust)
  note eff = register_attempt_effect [where marshal = marshal, OF assms(1-3) Suc.prems(1) a]
  have acc: "acknowledged (world i) \<Longrightarrow> accepted (world i)" by (auto simp: accepted_def acknowledged_def)
  show ?case
  proof (cases r1)
    case (Inr resp)
    then have "r = Inr resp" "db' = db1" using Suc.prems(2) a by simp_all
    then show ?thesis using eff acc unfolding ex_interval_Suc by (metis Inr)
  next
    case (Inl e)
    then have l: "register_loop marshal req world n (Suc i) e db1 = (r, db')" using Suc.prems(2) a by simp
    have "\<not> acknowledged (world i)" using eff Inl by auto
    then show ?thesis using eff Suc.IH [OF _ l] unfolding ex_interval_Suc by metis
  qed
qed

section \<open>The trace: facts\<close>

text \<open>
  What a trace tells the control plane: the verdict of its newest probe, and the values of
  its newest scrape that succeeded.
\<close>

definition probe_verdict :: "get_answer \<Rightarrow> bool" where
  "probe_verdict ans = (case ans of GetErr _ \<Rightarrow> False | GetResp status _ _ \<Rightarrow> status = 200)"

definition scrape_value :: "(string \<Rightarrow> real option) \<Rightarrow> get_answer \<Rightarrow> LoadSnapshot option" where
  "scrape_value parseFloat ans =
     (case ans of GetErr _ \<Rightarrow> None
      | GetResp status body _ \<Rightarrow> if status > 399 then None else Some (parsePrometheus parseFloat body))"

fun newest_probe :: "worker_event list \<Rightarrow> bool option" where
  "newest_probe [] = None"
| "newest_probe (e # es) =
     (case newest_probe es of Some b \<Rightarrow> Some b
      | None \<Rightarrow> (case e of Ev_probe ans \<Rightarrow> Some (probe_verdict ans) | _ \<Rightarrow> None))"

fun newest_scrape :: "(string \<Rightarrow> real option) \<Rightarrow> worker_event list \<Rightarrow> LoadSnapshot option" where
  "newest_scrape pf [] = None"
| "newest_scrape pf (e # es) =
     (case newest_scrape pf es of Some l \<Rightarrow> Some l
      | None \<Rightarrow> (case e of Ev_scrape ans _ \<Rightarrow> scrape_value pf ans | _ \<Rightarrow> None))"

definition is_vllm :: "RuntimeAdapter \<Rightarrow> bool" where
  "is_vllm a = (case a of AVllm _ \<Rightarrow> True | AOllama _ \<Rightarrow> False)"

definition with_load :: "LoadSnapshot option \<Rightarrow> HeartbeatWriter \<Rightarrow> HeartbeatWriter" where
  "with_load l w =
     (case l of None \<Rightarrow> w
      | Some snap \<Rightarrow> SetCacheUsage (SetLoad w (go_trunc (lo_Running snap)) (go_trunc (lo_Waiting snap)))
                       (lo_KVCacheUsage snap) (lo_GPUCacheUsage snap))"

definition with_ready :: "bool option \<Rightarrow> HeartbeatWriter \<Rightarrow> HeartbeatWriter" where
  "with_ready b w = (case b of None \<Rightarrow> w | Some r \<Rightarrow> SetReady w r)"

lemma adapter_Ready_verdict: "adapter_Ready ans a = probe_verdict ans"
  by (simp add: adapter_Ready_def probe_verdict_def vllm_Ready_def ollama_Ready_def split: RuntimeAdapter.splits)

lemmas writer_defs = with_load_def with_ready_def SetReady_def SetLoad_def SetCacheUsage_def

lemma with_commute: "with_load l (with_ready b w) = with_ready b (with_load l w)"
  by (simp add: writer_defs split: option.splits)

lemma with_ready_ready: "with_ready b' (with_ready b w) = with_ready (case b' of None \<Rightarrow> b | Some r \<Rightarrow> Some r) w"
  by (simp add: writer_defs split: option.splits)

lemma with_load_load: "with_load l' (with_load l w) = with_load (case l' of None \<Rightarrow> l | Some r \<Rightarrow> Some r) w"
  by (simp add: writer_defs split: option.splits)

lemma worker_step_hb:
  "wp_hb (worker_step encode pf ev s) =
      with_ready (if wp_readyFixed s then None else newest_probe [ev])
        (with_load (if is_vllm (wp_adapter s) then newest_scrape pf [ev] else None) (wp_hb s))
    \<and> wp_readyFixed (worker_step encode pf ev s) = wp_readyFixed s
    \<and> is_vllm (wp_adapter (worker_step encode pf ev s)) = is_vllm (wp_adapter s)"
  by (cases ev)
    (auto simp: worker_step_def heartbeat_tick_def refreshReady_tick_def scrapeVLLMLoad_tick_def ScrapeMetrics_def
      adapter_Ready_verdict scrape_value_def writer_defs is_vllm_def Let_def
      split: RuntimeAdapter.splits get_answer.splits)

lemma newest_probe_Cons: "newest_probe (e # es) = (case newest_probe es of None \<Rightarrow> newest_probe [e] | Some b \<Rightarrow> Some b)"
  by (auto split: option.splits worker_event.splits)

lemma newest_scrape_Cons: "newest_scrape pf (e # es) = (case newest_scrape pf es of None \<Rightarrow> newest_scrape pf [e] | Some b \<Rightarrow> Some b)"
  by (auto split: option.splits worker_event.splits)

lemma worker_run_hb:
  "wp_hb (worker_run encode pf evs s) =
      with_ready (if wp_readyFixed s then None else newest_probe evs)
        (with_load (if is_vllm (wp_adapter s) then newest_scrape pf evs else None) (wp_hb s))"
proof (induction evs arbitrary: s)
  case Nil
  then show ?case by (simp add: with_ready_def with_load_def)
next
  case (Cons e es)
  note step = worker_step_hb [of encode pf e s]
  have "wp_hb (worker_run encode pf (e # es) s) =
      with_ready (if wp_readyFixed s then None else newest_probe es)
        (with_load (if is_vllm (wp_adapter s) then newest_scrape pf es else None)
          (with_ready (if wp_readyFixed s then None else newest_probe [e])
            (with_load (if is_vllm (wp_adapter s) then newest_scrape pf [e] else None) (wp_hb s))))"
    using Cons.IH [of "worker_step encode pf e s"] step by simp
  then show ?case
    by (cases "wp_readyFixed s"; cases "is_vllm (wp_adapter s)")
      (simp_all only: if_True if_False with_commute with_ready_ready with_load_load option.case
        newest_probe_Cons [of e es] newest_scrape_Cons [of pf e es] simp_thms)
qed

lemma with_hb_fields [simp]:
  "hw_id (with_ready b (with_load l w)) = hw_id w" "hw_ttl (with_ready b (with_load l w)) = hw_ttl w"
  "hw_baseModel (with_ready b (with_load l w)) = hw_baseModel w" "hw_adapter (with_ready b (with_load l w)) = hw_adapter w"
  "hw_runtime (with_ready b (with_load l w)) = hw_runtime w" "hw_addr (with_ready b (with_load l w)) = hw_addr w"
  by (simp_all add: writer_defs split: option.splits)

lemma with_hb_reads:
  "hw_ready (with_ready b (with_load l w)) = (case b of None \<Rightarrow> hw_ready w | Some r \<Rightarrow> r)"
  "hw_inflight (with_ready b (with_load l w)) = (case l of None \<Rightarrow> hw_inflight w | Some x \<Rightarrow> go_trunc (lo_Running x))"
  "hw_queue (with_ready b (with_load l w)) = (case l of None \<Rightarrow> hw_queue w | Some x \<Rightarrow> go_trunc (lo_Waiting x))"
  by (simp_all add: writer_defs split: option.splits)

lemma worker_step_other_keys: "k \<noteq> Key (hw_id (wp_hb s)) \<Longrightarrow> wp_redis (worker_step encode pf ev s) k = wp_redis s k"
  by (auto simp: worker_step_def heartbeat_tick_def refreshReady_tick_def scrapeVLLMLoad_tick_def ScrapeMetrics_def
      BeatOnce_def Let_def
      split: worker_event.splits RuntimeAdapter.splits get_answer.splits sum.splits option.splits)

lemma worker_step_id [simp]: "hw_id (wp_hb (worker_step encode pf ev s)) = hw_id (wp_hb s)"
  by (auto simp: worker_step_def heartbeat_tick_def refreshReady_tick_def scrapeVLLMLoad_tick_def ScrapeMetrics_def
      writer_defs Let_def split: worker_event.splits RuntimeAdapter.splits get_answer.splits)

lemma worker_run_other_keys:
  "k \<noteq> Key (hw_id (wp_hb s)) \<Longrightarrow> wp_redis (worker_run encode pf evs s) k = wp_redis s k"
  by (induction evs arbitrary: s) (simp_all add: worker_step_other_keys)

lemma worker_run_id [simp]: "hw_id (wp_hb (worker_run encode pf evs s)) = hw_id (wp_hb s)"
  by (induction evs arbitrary: s) simp_all

section \<open>Properties\<close>

text \<open>
  C13. Registration is retried until the control plane acknowledges it, at most fifteen times, and is safe to
  retry: whatever attempts were lost before or after the server ran them, the registry keeps one row per worker,
  the other workers' rows are as before, the worker's row shows the configured endpoint, runtime kind and
  its one model as soon as one attempt was accepted, and the registry is untouched when none was. The process
  goes on exactly when one of the fifteen was accepted and its reply arrived.
\<close>

theorem registration_retry_safe:
  assumes "registry_ok db" and "k_String cfg ''worker.id'' \<noteq> ''''" and "k_String cfg ''worker.endpoint'' \<noteq> ''''"
    and "marshal (register_caps formatFloat cfg) = Inr caps"
    and "registerWithControlPlane marshal formatFloat None world cfg db = (r, db')"
  shows "registry_ok db' \<and> others (k_String cfg ''worker.id'') db' = others (k_String cfg ''worker.id'') db
    \<and> ((\<exists>resp. r = Inr resp) \<longleftrightarrow> (\<exists>j \<in> {1..15}. acknowledged (world j)))
    \<and> (if \<exists>j \<in> {1..15}. accepted (world j)
       then shown (register_request formatFloat cfg) caps db' else db' = db)"
proof -
  let ?req = "register_request formatFloat cfg"
  have i: "rq_WorkerId ?req = k_String cfg ''worker.id''" "rq_Endpoint ?req = k_String cfg ''worker.endpoint''"
    "rq_Capabilities ?req = register_caps formatFloat cfg" by (simp_all add: register_request_def)
  have "{1..<1 + 15} = {1..15::nat}" by auto
  then show ?thesis
    using register_loop_effect [of ?req marshal caps db world 15 1 "PlainErr ''''" r db'] assms
    by (auto simp: registerWithControlPlane_def i)
qed

text \<open>
  Ticks that do not overlap: an accepted beat stores, for the configured time to live, the heartbeat with the worker's
  identity, the verdict of the newest probe (the initial one when \<open>FORGE_WORKER_READY\<close> fixes it) and the load of the
  newest scrape that succeeded.
\<close>

lemma sequential_heartbeat:
  assumes "\<forall>hb. \<exists>p. encode hb = Inr p"
  shows "\<exists>hb p. encode hb = Inr p
    \<and> wp_redis (worker_run encode pf (evs @ [Ev_beat now None]) s) (Key (hw_id (wp_hb s)))
        = Some (p, now + hw_ttl (wp_hb s))
    \<and> hb_ID hb = hw_id (wp_hb s) \<and> hb_BaseModel hb = hw_baseModel (wp_hb s) \<and> hb_Addr hb = hw_addr (wp_hb s)
    \<and> hb_Ready hb = (case if wp_readyFixed s then None else newest_probe evs of
                       None \<Rightarrow> hw_ready (wp_hb s) | Some b \<Rightarrow> b)
    \<and> (case if is_vllm (wp_adapter s) then newest_scrape pf evs else None of
         None \<Rightarrow> hb_Inflight hb = hw_inflight (wp_hb s) \<and> hb_QueueDepth hb = hw_queue (wp_hb s)
       | Some l \<Rightarrow> hb_Inflight hb = go_trunc (lo_Running l) \<and> hb_QueueDepth hb = go_trunc (lo_Waiting l))
    \<and> (\<forall>k. k \<noteq> Key (hw_id (wp_hb s)) \<longrightarrow>
         wp_redis (worker_run encode pf (evs @ [Ev_beat now None]) s) k = wp_redis s k)"
proof -
  let ?t = "worker_run encode pf evs s"
  note run = worker_run_hb [of encode pf evs s]
  let ?hb = "hb_snapshot (wp_hb ?t) (now div 1000000)"
  obtain p where p: "encode ?hb = Inr p" using assms by blast
  have beat: "wp_redis (worker_run encode pf (evs @ [Ev_beat now None]) s) (Key (hw_id (wp_hb s)))
      = Some (p, now + hw_ttl (wp_hb s))"
    using run p by (simp add: worker_step_def heartbeat_tick_def BeatOnce_def)
  have keep: "\<forall>k. k \<noteq> Key (hw_id (wp_hb s)) \<longrightarrow>
      wp_redis (worker_run encode pf (evs @ [Ev_beat now None]) s) k = wp_redis s k"
    using worker_run_other_keys by blast
  have fields: "hb_ID ?hb = hw_id (wp_hb s) \<and> hb_BaseModel ?hb = hw_baseModel (wp_hb s) \<and> hb_Addr ?hb = hw_addr (wp_hb s)
      \<and> hb_Ready ?hb = (case if wp_readyFixed s then None else newest_probe evs of None \<Rightarrow> hw_ready (wp_hb s) | Some b \<Rightarrow> b)"
    unfolding hb_snapshot_def run by (simp add: with_hb_reads split: option.splits)
  have load: "case if is_vllm (wp_adapter s) then newest_scrape pf evs else None of
      None \<Rightarrow> hb_Inflight ?hb = hw_inflight (wp_hb s) \<and> hb_QueueDepth ?hb = hw_queue (wp_hb s)
    | Some l \<Rightarrow> hb_Inflight ?hb = go_trunc (lo_Running l) \<and> hb_QueueDepth ?hb = go_trunc (lo_Waiting l)"
    unfolding hb_snapshot_def run by (simp add: with_hb_reads split: option.splits)
  show ?thesis using p beat keep fields load by blast
qed

lemma keyevent_set:
  assumes "i \<noteq> ''''"
  shows "keyevent get decode s (''__keyevent@0__:set'', Key i) = Ret (applySet get decode s i)"
proof -
  have "WorkerIDFromKey (Key i) = Ret (i, True)" using assms WorkerIDFromKey_True by blast
  moreover have "\<not> has_suffix ''__keyevent@0__:set'' '':expired''" "\<not> has_suffix ''__keyevent@0__:set'' '':del''"
    "has_suffix ''__keyevent@0__:set'' '':set''" by (simp_all add: has_suffix_def has_prefix_def)
  ultimately show ?thesis by (simp add: keyevent_def)
qed

lemma worker_main_started:
  assumes "worker_main marshal fmt clientErr world probe readyEnv redisErr tracerErr cfg db redis = (Inr s, db')"
  shows "\<exists>a lbl resp. buildAdapter cfg = Inr (a, lbl)
    \<and> registerWithControlPlane marshal fmt clientErr world cfg db = (Inr resp, db')
    \<and> wp_adapter s = a \<and> wp_redis s = redis
    \<and> wp_hb s = worker_writer cfg lbl (if readyEnv \<noteq> '''' then k_Bool cfg ''worker.ready'' else probe_verdict probe)"
  using assms
  by (auto simp: worker_main_def Let_def adapter_Ready_verdict split: sum.splits option.splits prod.splits)

lemma registered_row:
  assumes "registry_ok db" "k_String cfg ''worker.id'' \<noteq> ''''" "k_String cfg ''worker.endpoint'' \<noteq> ''''"
    and "marshal (register_caps fmt cfg) = Inr caps"
    and "registerWithControlPlane marshal fmt clientErr world cfg db = (Inr resp, db')"
  shows "shown (register_request fmt cfg) caps db'"
proof -
  let ?req = "register_request fmt cfg"
  have i: "rq_WorkerId ?req = k_String cfg ''worker.id''" "rq_Endpoint ?req = k_String cfg ''worker.endpoint''"
    "rq_Capabilities ?req = register_caps fmt cfg" by (simp_all add: register_request_def)
  have l: "register_loop marshal ?req world 15 1 (PlainErr '''') db = (Inr resp, db')"
    using assms(5) by (auto simp: registerWithControlPlane_def split: option.splits)
  have eff: "(\<exists>j \<in> {1..<1 + 15}. accepted (world j)) \<longrightarrow> shown ?req caps db'"
    "\<exists>j \<in> {1..<1 + 15}. acknowledged (world j)"
    using register_loop_effect [where marshal = marshal and caps = caps, OF _ _ _ assms(1) l] assms(2-4)
    by (simp_all add: i)
  then show ?thesis by (metis accepted_def acknowledged_def)
qed

text \<open>The writer and the request agree on who the worker is.\<close>

lemma worker_writer_fields:
  "hw_id (worker_writer cfg l r) = k_String cfg ''worker.id''" "hw_addr (worker_writer cfg l r) = k_String cfg ''worker.endpoint''"
  "hw_ready (worker_writer cfg l r) = r"
  by (simp_all add: worker_writer_def NewHeartbeatWriter_def Let_def)

text \<open>
  C12. From start to route: once \<open>main\<close> is past the registration, its first accepted beat, the key event the health
  service receives while the value lives, and the publisher's next snapshot make the worker a candidate: one of
  the snapshot's views has its id, endpoint and model, is healthy, and is ready as the probe (or the environment)
  said. The view's adapter is empty, also for a worker configured with one.
\<close>

theorem worker_becomes_routable:
  assumes "worker_main marshal fmt None world probe readyEnv None None cfg db redis = (Inr s, db')"
    and "registry_ok db" and "live_ok live"
    and "k_String cfg ''worker.id'' \<noteq> ''''" and "k_String cfg ''worker.endpoint'' \<noteq> ''''"
    and "marshal (register_caps fmt cfg) = Inr caps"
    and "encode (hb_snapshot (wp_hb s) (now div 1000000)) = Inr p"
    and "decode p = Some (hb_snapshot (wp_hb s) (now div 1000000))" and "t < now + hw_ttl (wp_hb s)"
    and "keyevent (store_get t (wp_redis (worker_run encode pf [Ev_beat now None] s))) decode live
           (''__keyevent@0__:set'', Key (k_String cfg ''worker.id'')) = Ret live'"
    and "buildSnapshot parse pub (Inr (Repository_List db')) (Some live') virtual builtAt = (Inr snap, pub')"
  shows "\<exists>v \<in> set (rs_Workers snap). wv_ID v = k_String cfg ''worker.id''
       \<and> wv_Endpoint v = k_String cfg ''worker.endpoint'' \<and> wv_BaseModel v = k_String cfg ''worker.model.base''
       \<and> wv_Adapter v = '''' \<and> wv_Healthy v
       \<and> wv_Ready v = (if readyEnv \<noteq> '''' then k_Bool cfg ''worker.ready'' else probe_verdict probe)"
proof -
  let ?i = "k_String cfg ''worker.id''" and ?hb = "hb_snapshot (wp_hb s) (now div 1000000)"
  obtain a l resp where reg: "registerWithControlPlane marshal fmt None world cfg db = (Inr resp, db')"
    and wr: "wp_hb s = worker_writer cfg l
      (if readyEnv \<noteq> '''' then k_Bool cfg ''worker.ready'' else probe_verdict probe)"
    using worker_main_started [OF assms(1)] by blast
  obtain v where v: "v \<in> set (Repository_List db')" "row_shows (register_request fmt cfg) caps v"
    using registered_row [OF assms(2,4-6) reg] by blast
  have hb: "hb_ID ?hb = ?i" "hb_Addr ?hb = k_String cfg ''worker.endpoint''" "hb_Ready ?hb = hw_ready (wp_hb s)"
    by (simp_all add: hb_snapshot_def wr worker_writer_fields)
  have "wp_redis (worker_run encode pf [Ev_beat now None] s) (Key ?i) = Some (p, now + hw_ttl (wp_hb s))"
    using assms(7) by (simp add: worker_step_def heartbeat_tick_def BeatOnce_def wr worker_writer_fields)
  then have live': "live' = Upsert_hb live ?hb"
    using assms(4,8-10) hb(1) by (simp add: keyevent_set applySet_def store_get_def)
  then have by_id: "fold (\<lambda>hb m. m(hb_ID hb \<mapsto> hb)) (All_hb live') Map.empty ?i = Some ?hb"
    using hbByID_live [OF live_ok_Upsert [OF assms(3), of ?hb]] hb(1) by simp
  let ?view = "worker_view (parse caps (mw_RuntimeKind v)) v (Some ?hb) (k_String cfg ''worker.model.base'') ''''
      (if (word_of_int (k_Int cfg ''worker.model.context'') :: u32) = 0 then cv_MaxContext (parse caps (mw_RuntimeKind v))
       else word_of_int (k_Int cfg ''worker.model.context''))"
  let ?m = "fold (\<lambda>hb m. m(hb_ID hb \<mapsto> hb)) (All_hb live') Map.empty"
  have "?view \<in> set (views_of_worker parse ?m v)"
    using v(2) by (simp add: views_of_worker_def row_shows_def register_request_def by_id Let_def)
  then have "?view \<in> set (concat (map (views_of_worker parse ?m) (Repository_List db')))"
    using v(1) unfolding set_concat set_map by blast
  moreover have "rs_Workers snap = concat (map (views_of_worker parse ?m) (Repository_List db'))
      @ (case virtual of None \<Rightarrow> [] | Some vs \<Rightarrow> vs)" using assms(11) by (auto simp: buildSnapshot_def Let_def)
  ultimately have "?view \<in> set (rs_Workers snap)" by simp
  then show ?thesis
    using v(2) assms(5) hb wr
    by (intro bexI [of _ ?view]) (simp_all add: worker_view_def row_shows_def register_request_def worker_writer_fields)
qed

section \<open>Witnesses\<close>

definition demo_cfg :: Koanf where
  "demo_cfg =
     \<lparr>k_String = go_lookup (map_of [(''worker.id'', ''w1''), (''worker.endpoint'', ''h:1''), (''worker.model.base'', ''m''),
        (''worker.runtime'', ''RUNTIME_KIND_OLLAMA''), (''worker.model.adapter'', ''sql'')]),
      k_Int = (\<lambda>_. 8), k_Float64 = (\<lambda>_. 0), k_Bool = (\<lambda>_. True), k_StringMap = (\<lambda>_. None)\<rparr>"

abbreviation no_workers :: registry_db where
  "no_workers \<equiv> \<lparr>db_workers = [], db_models = []\<rparr>"

lemma demo_cfg_strings:
  "k_String demo_cfg ''worker.id'' = ''w1''" "k_String demo_cfg ''worker.endpoint'' = ''h:1''"
  by (simp_all add: demo_cfg_def go_lookup_def)

theorem registration_retry_safe_witness:
  "\<exists>r db'. registerWithControlPlane (\<lambda>_. Inr ''{}'') (\<lambda>_. ''0'') None
       (\<lambda>j. if j < 3 then Served 5 None True else Served 7 None False) demo_cfg no_workers = (r, db')
    \<and> (\<exists>resp. r = Inr resp) \<and> registry_ok db' \<and> shown (register_request (\<lambda>_. ''0'') demo_cfg) ''{}'' db'"
proof -
  let ?w = "\<lambda>j::nat. if j < 3 then Served 5 None True else Served 7 None False"
  obtain r db' where r: "registerWithControlPlane (\<lambda>_. Inr ''{}'') (\<lambda>_. ''0'') None ?w demo_cfg no_workers = (r, db')"
    by (metis prod.exhaust)
  have "(4::nat) \<in> {1..15}" "acknowledged (?w 4)" "accepted (?w 4)" by (auto simp: acknowledged_def accepted_def)
  then have "\<exists>j \<in> {1..15}. acknowledged (?w j)" "\<exists>j \<in> {1..15}. accepted (?w j)" by blast+
  with registration_retry_safe [OF _ _ _ _ r, of "''{}''"] r show ?thesis
    by (simp add: registry_ok_def demo_cfg_strings)
qed

definition demo_proc :: worker_proc where
  "demo_proc = \<lparr>wp_adapter = AVllm (vllm_New \<lparr>vc_BaseURL = '''', vc_ServedModel = ''m'', vc_ForgeModel = ''m'', vc_Timeout = 0\<rparr>),
     wp_hb = NewHeartbeatWriter ''w1'' ''m'' None ''vllm'' ''h:1'' 0 0 False, wp_readyFixed = False,
     wp_redis = Map.empty\<rparr>"

definition demo_encode :: "Heartbeat \<Rightarrow> goerr + string" where
  "demo_encode hb = Inr (if hb_Ready hb then ''up'' else ''down'')"

theorem worker_becomes_routable_witness:
  "\<exists>s db' live' snap pub'.
     worker_main (\<lambda>_. Inr ''{}'') (\<lambda>_. ''0'') None (\<lambda>_. Served 5 None False) (GetResp 200 '''' []) '''' None None
       demo_cfg no_workers Map.empty = (Inr s, db')
   \<and> buildSnapshot (\<lambda>_ _. undefined) \<lparr>pb_epoch = 0, pb_holder = None\<rparr> (Inr (Repository_List db')) (Some live') None 9 = (Inr snap, pub')
   \<and> (\<exists>v \<in> set (rs_Workers snap). wv_ID v = ''w1'' \<and> wv_Ready v \<and> wv_Adapter v = '''')"
proof -
  let ?main = "worker_main (\<lambda>_. Inr ''{}'') (\<lambda>_. ''0'') None (\<lambda>_. Served 5 None False) (GetResp 200 '''' []) '''' None None
      demo_cfg no_workers Map.empty"
  have b: "\<exists>a l. buildAdapter demo_cfg = Inr (a, l)"
    by (simp add: buildAdapter_def demo_cfg_def go_lookup_def Let_def to_upper_def upper_char_def has_prefix_def)
  obtain r db' where r: "register_loop (\<lambda>_. Inr ''{}'') (register_request (\<lambda>_. ''0'') demo_cfg) (\<lambda>_. Served 5 None False) 15 1
      (PlainErr '''') no_workers = (r, db')" by (metis prod.exhaust)
  have "\<exists>resp. r = Inr resp"
    using register_loop_effect [OF _ _ _ _ r, of "''{}''"] demo_cfg_strings
    by (simp add: register_request_def registry_ok_def acknowledged_def) presburger
  then obtain s where m: "?main = (Inr s, db')"
    using b r by (auto simp: worker_main_def registerWithControlPlane_def Let_def)
  let ?hb = "hb_snapshot (wp_hb s) (5 div 1000000)"
  let ?ev = "keyevent (store_get 6 (wp_redis (worker_run (\<lambda>_. Inr ''x'') (\<lambda>_. None) [Ev_beat 5 None] s)))
      (\<lambda>_. Some ?hb) [] (''__keyevent@0__:set'', Key (k_String demo_cfg ''worker.id''))"
  obtain live' where l: "?ev = Ret live'" by (simp add: keyevent_set demo_cfg_strings)
  obtain snap pub' where n: "buildSnapshot (\<lambda>_ _. undefined) \<lparr>pb_epoch = 0, pb_holder = None\<rparr> (Inr (Repository_List db'))
      (Some live') None 9 = (Inr snap, pub')" by (simp add: buildSnapshot_def Let_def)
  have ttl: "6 < 5 + hw_ttl (wp_hb s)"
    using worker_main_started [OF m]
    by (auto simp: worker_writer_def NewHeartbeatWriter_def Duration_def demo_cfg_def go_lookup_def Let_def)
  have "\<exists>v \<in> set (rs_Workers snap). wv_ID v = ''w1'' \<and> wv_Ready v \<and> wv_Adapter v = ''''"
    using worker_becomes_routable [OF m _ _ _ _ refl refl refl ttl l n]
    by (auto simp: registry_ok_def live_ok_def demo_cfg_strings probe_verdict_def)
  then show ?thesis using m n by blast
qed

end
