(* ===== verification/Worker_Interleaving.thy ===== *)
theory Worker_Interleaving
  imports Worker "HOL-Library.Multiset"
begin

text \<open>
  The goroutines of the worker process step by step (\<open>worker/heartbeat.go\<close>, \<open>cmd/forge-worker/main.go\<close>). \<open>Run\<close>,
  \<open>refreshReady\<close>, \<open>scrapeVLLMLoad\<close> and \<open>main\<close> share the atomic cells of the heartbeat writer and no lock: a beat loads the
  cells one by one, a scrape stores them one by one, and the commands sent to Redis are served or lost at any later
  time, also after \<open>main\<close> has sent its own deletion (the client pools its connections) and after the process has ended.
  An event that its goroutine is not ready for changes nothing, so that every list of events is a schedule.
\<close>

section \<open>State\<close>

text \<open>The atomic cells of \<open>HeartbeatWriter\<close>, in the order \<open>snapshot\<close> loads them.\<close>

datatype cell = C_ready | C_inflight | C_queue | C_kvUsage | C_gpuUsage

definition snapshot_cells :: "cell list" where
  "snapshot_cells = [C_ready, C_inflight, C_queue, C_kvUsage, C_gpuUsage]"

text \<open>The cells \<open>SetLoad\<close> and then \<open>SetCacheUsage\<close> store.\<close>

definition scrape_cells :: "cell list" where
  "scrape_cells = [C_inflight, C_queue, C_kvUsage, C_gpuUsage]"

text \<open>One atomic load or store: a single cell is copied from \<open>src\<close> to \<open>dst\<close>.\<close>

definition copy_cell :: "cell \<Rightarrow> HeartbeatWriter \<Rightarrow> HeartbeatWriter \<Rightarrow> HeartbeatWriter" where
  "copy_cell c src dst =
     (case c of
        C_ready \<Rightarrow> dst\<lparr>hw_ready := hw_ready src\<rparr>
      | C_inflight \<Rightarrow> dst\<lparr>hw_inflight := hw_inflight src\<rparr>
      | C_queue \<Rightarrow> dst\<lparr>hw_queue := hw_queue src\<rparr>
      | C_kvUsage \<Rightarrow> dst\<lparr>hw_kvUsage := hw_kvUsage src\<rparr>
      | C_gpuUsage \<Rightarrow> dst\<lparr>hw_gpuUsage := hw_gpuUsage src\<rparr>)"

text \<open>The writer's constant fields with empty cells: where a goroutine's local values start.\<close>

definition blank :: "HeartbeatWriter \<Rightarrow> HeartbeatWriter" where
  "blank w = w\<lparr>hw_ready := False, hw_inflight := 0, hw_queue := 0, hw_kvUsage := 0, hw_gpuUsage := 0\<rparr>"

text \<open>
  Where each goroutine stands. \<open>Run\<close>: between beats; in \<open>snapshot\<close>, with the cells still to load and the values loaded;
  in the call of \<open>SET\<close>. \<open>refreshReady\<close>: between ticks, or with a verdict to store. \<open>scrapeVLLMLoad\<close>: between ticks, or
  with the cells still to store. \<open>main\<close>: waiting for the signal, in the call of \<open>DEL\<close>, or returned.
\<close>

datatype beat_pc = Beat_idle | Beat_load "cell list" HeartbeatWriter | Beat_sent string
datatype probe_pc = Probe_idle | Probe_got bool
datatype scrape_pc = Scrape_idle | Scrape_store "cell list" HeartbeatWriter
datatype main_pc = Main_wait | Main_delete | Main_returned

datatype redis_cmd = Set_hb string | Del_hb

record worker_sys =
  ws_adapter :: RuntimeAdapter
  ws_hb :: HeartbeatWriter
  ws_readyFixed :: bool
  ws_redis :: redis_store
  ws_beat :: beat_pc
  ws_probe :: probe_pc
  ws_scrape :: scrape_pc
  ws_main :: main_pc
  ws_net :: "redis_cmd list"

text \<open>The process when \<open>main\<close> has started its goroutines.\<close>

definition start_sys :: "worker_proc \<Rightarrow> worker_sys" where
  "start_sys p = \<lparr>ws_adapter = wp_adapter p, ws_hb = wp_hb p, ws_readyFixed = wp_readyFixed p, ws_redis = wp_redis p,
     ws_beat = Beat_idle, ws_probe = Probe_idle, ws_scrape = Scrape_idle, ws_main = Main_wait, ws_net = []\<rparr>"

section \<open>Steps\<close>

subsection \<open>The heartbeat goroutine\<close>

text \<open>
  A beat begins: the first one at the start of \<open>Run\<close>, the others at the ticker, which \<open>select\<close> may take once more
  although the context is done.
\<close>

definition beat_begin :: "worker_sys \<Rightarrow> worker_sys" where
  "beat_begin s = (if ws_beat s = Beat_idle then s\<lparr>ws_beat := Beat_load snapshot_cells (blank (ws_hb s))\<rparr> else s)"

definition beat_load :: "worker_sys \<Rightarrow> worker_sys" where
  "beat_load s =
     (case ws_beat s of
        Beat_load (c # cs) l \<Rightarrow> s\<lparr>ws_beat := Beat_load cs (copy_cell c (ws_hb s) l)\<rparr>
      | _ \<Rightarrow> s)"

definition beat_marshal :: "(Heartbeat \<Rightarrow> goerr + string) \<Rightarrow> int \<Rightarrow> worker_sys \<Rightarrow> worker_sys" where
  "beat_marshal encode now s =
     (case ws_beat s of
        Beat_load [] l \<Rightarrow>
          (case encode (hb_snapshot l (now div 1000000)) of
             Inl _ \<Rightarrow> s\<lparr>ws_beat := Beat_idle\<rparr>
           | Inr payload \<Rightarrow> s\<lparr>ws_beat := Beat_sent payload\<rparr>)
      | _ \<Rightarrow> s)"

text \<open>The client sends the command, and may send it again after an error of the connection; then the call returns.\<close>

definition beat_send :: "worker_sys \<Rightarrow> worker_sys" where
  "beat_send s = (case ws_beat s of Beat_sent p \<Rightarrow> s\<lparr>ws_net := ws_net s @ [Set_hb p]\<rparr> | _ \<Rightarrow> s)"

definition beat_done :: "worker_sys \<Rightarrow> worker_sys" where
  "beat_done s = (case ws_beat s of Beat_sent _ \<Rightarrow> s\<lparr>ws_beat := Beat_idle\<rparr> | _ \<Rightarrow> s)"

subsection \<open>The probe and the scrape\<close>

definition probe_answer :: "get_answer \<Rightarrow> worker_sys \<Rightarrow> worker_sys" where
  "probe_answer answer s =
     (if ws_readyFixed s \<or> ws_probe s \<noteq> Probe_idle then s
      else s\<lparr>ws_probe := Probe_got (adapter_Ready answer (ws_adapter s))\<rparr>)"

definition probe_store :: "worker_sys \<Rightarrow> worker_sys" where
  "probe_store s =
     (case ws_probe s of Probe_idle \<Rightarrow> s | Probe_got r \<Rightarrow> s\<lparr>ws_hb := SetReady (ws_hb s) r, ws_probe := Probe_idle\<rparr>)"

definition scrape_answer :: "(string \<Rightarrow> real option) \<Rightarrow> get_answer \<Rightarrow> int \<Rightarrow> worker_sys \<Rightarrow> worker_sys" where
  "scrape_answer parseFloat answer now s =
     (if ws_scrape s \<noteq> Scrape_idle then s
      else case ws_adapter s of
             AOllama _ \<Rightarrow> s
           | AVllm v \<Rightarrow>
               (case ScrapeMetrics parseFloat answer now v of
                  (Inl _, v') \<Rightarrow> s\<lparr>ws_adapter := AVllm v'\<rparr>
                | (Inr snap, v') \<Rightarrow>
                    s\<lparr>ws_adapter := AVllm v',
                      ws_scrape := Scrape_store scrape_cells
                        (SetCacheUsage
                          (SetLoad (blank (ws_hb s)) (go_trunc (lo_Running snap)) (go_trunc (lo_Waiting snap)))
                          (lo_KVCacheUsage snap) (lo_GPUCacheUsage snap))\<rparr>))"

definition scrape_store :: "worker_sys \<Rightarrow> worker_sys" where
  "scrape_store s =
     (case ws_scrape s of
        Scrape_idle \<Rightarrow> s
      | Scrape_store [] _ \<Rightarrow> s\<lparr>ws_scrape := Scrape_idle\<rparr>
      | Scrape_store (c # cs) l \<Rightarrow> s\<lparr>ws_hb := copy_cell c l (ws_hb s), ws_scrape := Scrape_store cs l\<rparr>)"

subsection \<open>The end of \<open>main\<close> and the server\<close>

definition main_signal :: "worker_sys \<Rightarrow> worker_sys" where
  "main_signal s = (if ws_main s = Main_wait then s\<lparr>ws_main := Main_delete\<rparr> else s)"

definition main_delete :: "worker_sys \<Rightarrow> worker_sys" where
  "main_delete s = (if ws_main s = Main_delete then s\<lparr>ws_net := ws_net s @ [Del_hb]\<rparr> else s)"

definition main_return :: "worker_sys \<Rightarrow> worker_sys" where
  "main_return s = (if ws_main s = Main_delete then s\<lparr>ws_main := Main_returned\<rparr> else s)"

text \<open>The server takes one of the commands on their way, the \<open>i\<close>-th, at time \<open>now\<close>; or it is lost.\<close>

definition serve :: "redis_cmd \<Rightarrow> int \<Rightarrow> HeartbeatWriter \<Rightarrow> redis_store \<Rightarrow> redis_store" where
  "serve cmd now w st =
     (case cmd of Set_hb p \<Rightarrow> st(Key (hw_id w) \<mapsto> (p, now + hw_ttl w)) | Del_hb \<Rightarrow> Delete_hb w st)"

definition net_land :: "nat \<Rightarrow> int \<Rightarrow> worker_sys \<Rightarrow> worker_sys" where
  "net_land i now s =
     (if i < length (ws_net s)
      then s\<lparr>ws_redis := serve (ws_net s ! i) now (ws_hb s) (ws_redis s), ws_net := drop_nth i (ws_net s)\<rparr>
      else s)"

definition net_lose :: "nat \<Rightarrow> worker_sys \<Rightarrow> worker_sys" where
  "net_lose i s = s\<lparr>ws_net := drop_nth i (ws_net s)\<rparr>"

subsection \<open>Schedules\<close>

datatype sys_event =
    Beat_begin | Beat_next | Beat_marshal int | Beat_send | Beat_done
  | Probe_answer get_answer | Probe_store
  | Scrape_answer get_answer int | Scrape_next
  | Main_signal | Main_del | Main_return
  | Net_land nat int | Net_lose nat

text \<open>When \<open>main\<close> has returned the process is gone, and only the server still steps.\<close>

definition sys_step :: "(Heartbeat \<Rightarrow> goerr + string) \<Rightarrow> (string \<Rightarrow> real option) \<Rightarrow> sys_event \<Rightarrow> worker_sys \<Rightarrow> worker_sys" where
  "sys_step encode parseFloat ev s =
     (case ev of
        Net_land i now \<Rightarrow> net_land i now s
      | Net_lose i \<Rightarrow> net_lose i s
      | _ \<Rightarrow>
          if ws_main s = Main_returned then s
          else case ev of
             Beat_begin \<Rightarrow> beat_begin s | Beat_next \<Rightarrow> beat_load s | Beat_marshal now \<Rightarrow> beat_marshal encode now s
           | Beat_send \<Rightarrow> beat_send s | Beat_done \<Rightarrow> beat_done s
           | Probe_answer answer \<Rightarrow> probe_answer answer s | Probe_store \<Rightarrow> probe_store s
           | Scrape_answer answer now \<Rightarrow> scrape_answer parseFloat answer now s | Scrape_next \<Rightarrow> scrape_store s
           | Main_signal \<Rightarrow> main_signal s | Main_del \<Rightarrow> main_delete s | _ \<Rightarrow> main_return s)"

abbreviation sys_run ::
  "(Heartbeat \<Rightarrow> goerr + string) \<Rightarrow> (string \<Rightarrow> real option) \<Rightarrow> sys_event list \<Rightarrow> worker_sys \<Rightarrow> worker_sys" where
  "sys_run encode parseFloat \<equiv> fold (sys_step encode parseFloat)"

lemma sys_step_simps [simp]:
  "sys_step encode pf Beat_begin s = (if ws_main s = Main_returned then s else beat_begin s)"
  "sys_step encode pf Beat_next s = (if ws_main s = Main_returned then s else beat_load s)"
  "sys_step encode pf (Beat_marshal now) s = (if ws_main s = Main_returned then s else beat_marshal encode now s)"
  "sys_step encode pf Beat_send s = (if ws_main s = Main_returned then s else beat_send s)"
  "sys_step encode pf Beat_done s = (if ws_main s = Main_returned then s else beat_done s)"
  "sys_step encode pf (Probe_answer ans) s = (if ws_main s = Main_returned then s else probe_answer ans s)"
  "sys_step encode pf Probe_store s = (if ws_main s = Main_returned then s else probe_store s)"
  "sys_step encode pf (Scrape_answer ans now) s = (if ws_main s = Main_returned then s else scrape_answer pf ans now s)"
  "sys_step encode pf Scrape_next s = (if ws_main s = Main_returned then s else scrape_store s)"
  "sys_step encode pf Main_signal s = (if ws_main s = Main_returned then s else main_signal s)"
  "sys_step encode pf Main_del s = (if ws_main s = Main_returned then s else main_delete s)"
  "sys_step encode pf Main_return s = (if ws_main s = Main_returned then s else main_return s)"
  "sys_step encode pf (Net_land i now) s = net_land i now s"
  "sys_step encode pf (Net_lose i) s = net_lose i s"
  by (simp_all add: sys_step_def)

lemmas sys_step_defs = beat_begin_def beat_load_def beat_marshal_def beat_send_def beat_done_def
  probe_answer_def probe_store_def scrape_answer_def scrape_store_def main_signal_def main_delete_def main_return_def
  net_land_def net_lose_def

section \<open>Ticks that do not overlap\<close>

text \<open>The schedule that runs one tick from its start to its end, with the command served (or lost) before the call returns.\<close>

definition tick_schedule :: "worker_event \<Rightarrow> sys_event list" where
  "tick_schedule ev =
     (case ev of
        Ev_beat now refused \<Rightarrow>
         [Beat_begin, Beat_next, Beat_next, Beat_next, Beat_next, Beat_next, Beat_marshal now, Beat_send,
           if refused = None then Net_land 0 now else Net_lose 0, Beat_done]
      | Ev_probe answer \<Rightarrow> [Probe_answer answer, Probe_store]
      | Ev_scrape answer now \<Rightarrow> [Scrape_answer answer now, Scrape_next, Scrape_next, Scrape_next, Scrape_next, Scrape_next])"

lemma blank_simps [simp]:
  "blank (copy_cell c src dst) = blank dst" "blank (SetReady w r) = blank w" "blank (SetLoad w i q) = blank w"
  "blank (SetCacheUsage w k g) = blank w" "blank (blank w) = blank w"
  by (simp_all add: blank_def copy_cell_def SetReady_def SetLoad_def SetCacheUsage_def split: cell.splits)

lemma blank_fields [simp]: "hw_id (blank w) = hw_id w" "hw_ttl (blank w) = hw_ttl w"
  by (simp_all add: blank_def)

lemma load_all_cells:
  "copy_cell C_gpuUsage w (copy_cell C_kvUsage w (copy_cell C_queue w (copy_cell C_inflight w (copy_cell C_ready w (blank w))))) = w"
  by (simp add: copy_cell_def blank_def)

lemma store_all_cells:
  "copy_cell C_gpuUsage (SetCacheUsage (SetLoad (blank w) i q) k g)
     (copy_cell C_kvUsage (SetCacheUsage (SetLoad (blank w) i q) k g)
       (copy_cell C_queue (SetCacheUsage (SetLoad (blank w) i q) k g)
         (copy_cell C_inflight (SetCacheUsage (SetLoad (blank w) i q) k g) w))) = SetCacheUsage (SetLoad w i q) k g"
  by (simp add: copy_cell_def blank_def SetLoad_def SetCacheUsage_def)

lemma tick_schedule_step: "sys_run encode pf (tick_schedule ev) (start_sys p) = start_sys (worker_step encode pf ev p)"
proof (cases ev)
  case (Ev_beat now refused)
  then show ?thesis
    by (simp add: tick_schedule_def sys_step_defs start_sys_def snapshot_cells_def load_all_cells
        worker_step_def heartbeat_tick_def BeatOnce_def serve_def drop_nth_def split: sum.split option.split)
next
  case (Ev_probe ans)
  then show ?thesis
    by (simp add: tick_schedule_def sys_step_defs start_sys_def worker_step_def refreshReady_tick_def)
next
  case (Ev_scrape ans now)
  show ?thesis
  proof (cases "wp_adapter p")
    case (AVllm v)
    obtain r v' where sm: "ScrapeMetrics pf ans now v = (r, v')" by fastforce
    show ?thesis
      by (cases r) (simp_all add: Ev_scrape AVllm sm tick_schedule_def scrape_answer_def scrape_store_def start_sys_def
          scrape_cells_def store_all_cells worker_step_def scrapeVLLMLoad_tick_def)
  qed (simp add: Ev_scrape tick_schedule_def scrape_answer_def scrape_store_def start_sys_def worker_step_def
      scrapeVLLMLoad_tick_def)
qed

lemma sequential_schedule:
  "sys_run encode pf (concat (map tick_schedule evs)) (start_sys p) = start_sys (worker_run encode pf evs p)"
  by (induction evs arbitrary: p) (simp_all add: tick_schedule_step)

section \<open>What a beat reads\<close>

text \<open>The process after the first \<open>n\<close> events of a schedule.\<close>

definition sys_at ::
  "(Heartbeat \<Rightarrow> goerr + string) \<Rightarrow> (string \<Rightarrow> real option) \<Rightarrow> worker_proc \<Rightarrow> sys_event list \<Rightarrow> nat \<Rightarrow> worker_sys" where
  "sys_at encode pf p evs n = sys_run encode pf (take n evs) (start_sys p)"

lemma sys_at_0 [simp]: "sys_at encode pf p evs 0 = start_sys p"
  by (simp add: sys_at_def)

lemma sys_at_Suc: "n < length evs \<Longrightarrow> sys_at encode pf p evs (Suc n) = sys_step encode pf (evs ! n) (sys_at encode pf p evs n)"
  by (simp add: sys_at_def take_Suc_conv_app_nth)

lemma sys_at_length [simp]: "sys_at encode pf p evs (length evs) = sys_run encode pf evs (start_sys p)"
  by (simp add: sys_at_def)

text \<open>One beat that began with event \<open>m\<close> was still under way after \<open>n\<close> events.\<close>

definition in_beat :: "(nat \<Rightarrow> worker_sys) \<Rightarrow> nat \<Rightarrow> nat \<Rightarrow> bool" where
  "in_beat S m n \<longleftrightarrow> m < n \<and> ws_beat (S m) = Beat_idle \<and> (\<forall>j. m < j \<and> j \<le> n \<longrightarrow> ws_beat (S j) \<noteq> Beat_idle)"

text \<open>The local values \<open>l\<close> of that beat: each cell of the list (newest first) was loaded at a moment of the beat, in order.\<close>

fun loaded :: "(nat \<Rightarrow> worker_sys) \<Rightarrow> nat \<Rightarrow> cell list \<Rightarrow> nat \<Rightarrow> HeartbeatWriter \<Rightarrow> bool" where
  "loaded S m [] n l \<longleftrightarrow> l = blank (ws_hb (S m))"
| "loaded S m (c # cs) n l \<longleftrightarrow> (\<exists>k l'. m < k \<and> k \<le> n \<and> loaded S m cs k l' \<and> l = copy_cell c (ws_hb (S k)) l')"

definition sent :: "(Heartbeat \<Rightarrow> goerr + string) \<Rightarrow> (nat \<Rightarrow> worker_sys) \<Rightarrow> nat \<Rightarrow> string \<Rightarrow> bool" where
  "sent encode S n payload \<longleftrightarrow>
     (\<exists>m l now. in_beat S m n \<and> loaded S m (rev snapshot_cells) n l
        \<and> encode (hb_snapshot l (now div 1000000)) = Inr payload)"

definition beat_inv :: "(Heartbeat \<Rightarrow> goerr + string) \<Rightarrow> (nat \<Rightarrow> worker_sys) \<Rightarrow> nat \<Rightarrow> bool" where
  "beat_inv encode S n \<longleftrightarrow>
     (case ws_beat (S n) of
        Beat_idle \<Rightarrow> True
      | Beat_load cs l \<Rightarrow> \<exists>m before. rev before @ cs = snapshot_cells \<and> in_beat S m n \<and> loaded S m before n l
      | Beat_sent payload \<Rightarrow> sent encode S n payload)"

lemma loaded_mono: "loaded S m cs n l \<Longrightarrow> n \<le> n' \<Longrightarrow> loaded S m cs n' l"
  by (cases cs) (auto intro: le_trans)

lemma in_beat_Suc: "in_beat S m n \<Longrightarrow> ws_beat (S (Suc n)) \<noteq> Beat_idle \<Longrightarrow> in_beat S m (Suc n)"
  by (auto simp: in_beat_def le_Suc_eq)

lemma in_beat_start: "ws_beat (S n) = Beat_idle \<Longrightarrow> ws_beat (S (Suc n)) \<noteq> Beat_idle \<Longrightarrow> in_beat S n (Suc n)"
  by (auto simp: in_beat_def le_Suc_eq)

lemma sys_step_beat:
  fixes ev s encode pf
  defines "s' \<equiv> sys_step encode pf ev s"
  shows "ws_beat s' = Beat_idle \<or> ws_beat s' = ws_beat s
    \<or> ws_beat s = Beat_idle \<and> ws_beat s' = Beat_load snapshot_cells (blank (ws_hb s))
    \<or> (\<exists>c cs l. ws_beat s = Beat_load (c # cs) l \<and> ws_beat s' = Beat_load cs (copy_cell c (ws_hb s) l))
    \<or> (\<exists>l now payload. ws_beat s = Beat_load [] l \<and> encode (hb_snapshot l (now div 1000000)) = Inr payload
         \<and> ws_beat s' = Beat_sent payload)"
  unfolding s'_def
  by (cases ev) (auto simp: sys_step_defs split: beat_pc.splits list.splits sum.splits probe_pc.splits scrape_pc.splits
      RuntimeAdapter.splits prod.splits)

lemma beat_inv_step:
  assumes "beat_inv encode S n" and "S (Suc n) = sys_step encode pf ev (S n)"
  shows "beat_inv encode S (Suc n)"
proof -
  consider (idle) "ws_beat (S (Suc n)) = Beat_idle"
    | (same) "ws_beat (S (Suc n)) = ws_beat (S n)" "ws_beat (S (Suc n)) \<noteq> Beat_idle"
    | (start) "ws_beat (S n) = Beat_idle" "ws_beat (S (Suc n)) = Beat_load snapshot_cells (blank (ws_hb (S n)))"
    | (load) c cs l where "ws_beat (S n) = Beat_load (c # cs) l" "ws_beat (S (Suc n)) = Beat_load cs (copy_cell c (ws_hb (S n)) l)"
    | (send) l now payload where "ws_beat (S n) = Beat_load [] l" "encode (hb_snapshot l (now div 1000000)) = Inr payload"
        "ws_beat (S (Suc n)) = Beat_sent payload"
    using sys_step_beat [of encode pf ev "S n"] unfolding assms(2) by metis
  then show ?thesis
  proof cases
    case idle
    then show ?thesis by (simp add: beat_inv_def)
  next
    case same
    have ib: "in_beat S m n \<Longrightarrow> in_beat S m (Suc n)" for m using in_beat_Suc [of S m n] same(2) by blast
    have ld: "loaded S m cs n l \<Longrightarrow> loaded S m cs (Suc n) l" for m cs l using loaded_mono [of S m cs n l "Suc n"] by simp
    show ?thesis using assms(1) same(1)
      by (cases "ws_beat (S n)") (use ib ld in \<open>auto simp: beat_inv_def sent_def, blast+\<close>)
  next
    case start
    then show ?thesis using in_beat_start [of S n] by (auto simp: beat_inv_def intro: exI [of _ n])
  next
    case load
    with assms(1) obtain m before where b: "rev before @ c # cs = snapshot_cells" "in_beat S m n" "loaded S m before n l"
      by (auto simp: beat_inv_def)
    have "in_beat S m (Suc n)" using in_beat_Suc [OF b(2)] load(2) by simp
    moreover have "loaded S m (c # before) (Suc n) (copy_cell c (ws_hb (S n)) l)"
      using b(2,3) by (auto simp: in_beat_def)
    moreover have "rev (c # before) @ cs = snapshot_cells" using b(1) by simp
    ultimately show ?thesis unfolding beat_inv_def load(2) beat_pc.case by blast
  next
    case send
    with assms(1) obtain m before where b: "rev before = snapshot_cells" "in_beat S m n" "loaded S m before n l"
      by (auto simp: beat_inv_def)
    have "before = rev snapshot_cells" using b(1) by (metis rev_rev_ident)
    then have "sent encode S (Suc n) payload"
      using in_beat_Suc [OF b(2)] send(2,3) loaded_mono [OF b(3), of "Suc n"] unfolding sent_def by auto
    then show ?thesis using send(3) by (simp add: beat_inv_def)
  qed
qed

lemma beat_inv_run: "n \<le> length evs \<Longrightarrow> beat_inv encode (sys_at encode pf p evs) n"
proof (induction n)
  case 0
  show ?case by (simp add: beat_inv_def start_sys_def)
next
  case (Suc n)
  then show ?case using beat_inv_step [of encode "sys_at encode pf p evs" n pf "evs ! n"] sys_at_Suc [of n evs] by simp
qed

section \<open>What the server takes\<close>

text \<open>The command an event makes the server take, and those of a schedule, the newest first.\<close>

definition landing :: "sys_event \<Rightarrow> worker_sys \<Rightarrow> (redis_cmd \<times> int) list" where
  "landing ev s = (case ev of Net_land i now \<Rightarrow> if i < length (ws_net s) then [(ws_net s ! i, now)] else [] | _ \<Rightarrow> [])"

fun landed ::
  "(Heartbeat \<Rightarrow> goerr + string) \<Rightarrow> (string \<Rightarrow> real option) \<Rightarrow> sys_event list \<Rightarrow> worker_sys \<Rightarrow> (redis_cmd \<times> int) list" where
  "landed encode pf [] s = []"
| "landed encode pf (ev # evs) s = landed encode pf evs (sys_step encode pf ev s) @ landing ev s"

definition key_after :: "duration \<Rightarrow> (redis_cmd \<times> int) list \<Rightarrow> (string \<times> int) option \<Rightarrow> (string \<times> int) option" where
  "key_after ttl cmds before =
     (case cmds of
        [] \<Rightarrow> before
      | (Set_hb payload, now) # _ \<Rightarrow> Some (payload, now + ttl)
      | (Del_hb, _) # _ \<Rightarrow> None)"

lemma landed_append: "landed encode pf (xs @ ys) s = landed encode pf ys (sys_run encode pf xs s) @ landed encode pf xs s"
  by (induction xs arbitrary: s) simp_all

lemma sys_step_blank [simp]: "blank (ws_hb (sys_step encode pf ev s)) = blank (ws_hb s)"
  by (cases ev) (auto simp: sys_step_defs split: beat_pc.splits list.splits sum.splits probe_pc.splits scrape_pc.splits
      RuntimeAdapter.splits prod.splits)

lemma sys_run_blank [simp]: "blank (ws_hb (sys_run encode pf evs s)) = blank (ws_hb s)"
  by (induction evs arbitrary: s) simp_all

lemma sys_run_const [simp]:
  "hw_id (ws_hb (sys_run encode pf evs s)) = hw_id (ws_hb s)" "hw_ttl (ws_hb (sys_run encode pf evs s)) = hw_ttl (ws_hb s)"
  using sys_run_blank [of encode pf evs s] by (metis blank_fields(1), metis blank_fields(2))

lemma sys_step_redis:
  "ws_redis (sys_step encode pf ev s) = foldr (\<lambda>(cmd, now). serve cmd now (ws_hb s)) (landing ev s) (ws_redis s)"
  by (cases ev) (auto simp: sys_step_defs landing_def split: beat_pc.splits list.splits sum.splits probe_pc.splits scrape_pc.splits
      RuntimeAdapter.splits prod.splits)

lemma serve_key: "serve cmd now w st (Key (hw_id w)) = key_after (hw_ttl w) [(cmd, now)] before"
  by (simp add: serve_def key_after_def Delete_hb_def split: redis_cmd.splits)

lemma serve_other: "k \<noteq> Key (hw_id w) \<Longrightarrow> serve cmd now w st k = st k"
  by (simp add: serve_def Delete_hb_def split: redis_cmd.splits)

lemma landing_cases: "landing ev s = [] \<or> (\<exists>cmd now. landing ev s = [(cmd, now)] \<and> cmd \<in> set (ws_net s))"
  by (auto simp: landing_def split: sys_event.splits)

lemma key_after_append: "key_after ttl (xs @ ys) before = key_after ttl xs (key_after ttl ys before)"
  by (cases xs) (auto simp: key_after_def split: redis_cmd.splits)

lemma sys_run_redis:
  "ws_redis (sys_run encode pf evs s) (Key (hw_id (ws_hb s)))
     = key_after (hw_ttl (ws_hb s)) (landed encode pf evs s) (ws_redis s (Key (hw_id (ws_hb s))))
   \<and> (\<forall>k. k \<noteq> Key (hw_id (ws_hb s)) \<longrightarrow> ws_redis (sys_run encode pf evs s) k = ws_redis s k)"
proof (induction evs arbitrary: s)
  case Nil
  show ?case by (simp add: key_after_def)
next
  case (Cons ev evs)
  let ?s = "sys_step encode pf ev s"
  have const: "hw_id (ws_hb ?s) = hw_id (ws_hb s)" "hw_ttl (ws_hb ?s) = hw_ttl (ws_hb s)"
    using sys_run_const [of encode pf "[ev]" s] by simp_all
  have "ws_redis ?s (Key (hw_id (ws_hb s))) = key_after (hw_ttl (ws_hb s)) (landing ev s) (ws_redis s (Key (hw_id (ws_hb s))))"
    using landing_cases [of ev s] serve_key [of _ _ "ws_hb s"] by (auto simp: sys_step_redis key_after_def)
  moreover have "\<forall>k. k \<noteq> Key (hw_id (ws_hb s)) \<longrightarrow> ws_redis ?s k = ws_redis s k"
    using landing_cases [of ev s] serve_other [of _ "ws_hb s"] by (auto simp: sys_step_redis)
  ultimately show ?case using Cons.IH [of ?s] by (simp add: const key_after_append)
qed

lemma sys_step_net:
  "cmd \<in> set (ws_net (sys_step encode pf ev s)) \<Longrightarrow> cmd \<in> set (ws_net s)
     \<or> ws_main s \<noteq> Main_returned \<and> (\<exists>payload. cmd = Set_hb payload \<and> ws_beat s = Beat_sent payload)
     \<or> cmd = Del_hb \<and> ws_main s = Main_delete"
  by (cases ev) (use set_drop_nth in \<open>fastforce simp: sys_step_defs split: beat_pc.splits list.splits sum.splits probe_pc.splits
      scrape_pc.splits RuntimeAdapter.splits prod.splits if_splits\<close>)+

lemma main_waits: "Main_signal \<notin> set evs \<Longrightarrow> ws_main s = Main_wait \<Longrightarrow> ws_main (sys_run encode pf evs s) = Main_wait"
proof (induction evs arbitrary: s)
  case (Cons ev evs)
  have "ws_main (sys_step encode pf ev s) = Main_wait"
    using Cons.prems by (cases ev) (auto simp: sys_step_defs split: beat_pc.splits list.splits sum.splits probe_pc.splits
        scrape_pc.splits RuntimeAdapter.splits prod.splits)
  then show ?case using Cons by simp
qed simp

text \<open>Every command on its way or taken was sent by a beat of this schedule, or by \<open>main\<close> after the signal.\<close>

definition cmd_ok :: "(Heartbeat \<Rightarrow> goerr + string) \<Rightarrow> (nat \<Rightarrow> worker_sys) \<Rightarrow> nat \<Rightarrow> redis_cmd \<Rightarrow> bool" where
  "cmd_ok encode S n cmd \<longleftrightarrow>
     (case cmd of
        Set_hb payload \<Rightarrow> \<exists>k \<le> n. sent encode S k payload
      | Del_hb \<Rightarrow> \<exists>k \<le> n. ws_main (S k) = Main_delete)"

lemma cmd_ok_mono: "cmd_ok encode S n cmd \<Longrightarrow> n \<le> n' \<Longrightarrow> cmd_ok encode S n' cmd"
  by (cases cmd) (auto simp: cmd_ok_def intro: le_trans)

lemma net_ok:
  assumes "n \<le> length evs"
  shows "\<forall>cmd \<in> set (ws_net (sys_at encode pf p evs n)) \<union> fst ` set (landed encode pf (take n evs) (start_sys p)).
           cmd_ok encode (sys_at encode pf p evs) n cmd"
  using assms
proof (induction n)
  case 0
  then show ?case by (simp add: start_sys_def)
next
  case (Suc n)
  let ?S = "sys_at encode pf p evs"
  have step: "?S (Suc n) = sys_step encode pf (evs ! n) (?S n)" using sys_at_Suc Suc.prems by simp
  have old: "cmd_ok encode ?S (Suc n) cmd"
    if "cmd \<in> set (ws_net (?S n)) \<union> fst ` set (landed encode pf (take n evs) (start_sys p))" for cmd
    using that Suc cmd_ok_mono [of encode ?S n cmd "Suc n"] by auto
  have inv: "beat_inv encode ?S n" using beat_inv_run [of n evs encode pf p] Suc.prems by simp
  have "cmd_ok encode ?S (Suc n) cmd" if "cmd \<in> set (ws_net (?S (Suc n)))" for cmd
    using sys_step_net [OF that [unfolded step]] old inv
    by (elim disjE conjE exE) (simp, (auto simp: cmd_ok_def beat_inv_def intro: exI [of _ n]))
  moreover have "fst ` set (landed encode pf (take (Suc n) evs) (start_sys p))
      \<subseteq> set (ws_net (?S n)) \<union> fst ` set (landed encode pf (take n evs) (start_sys p))"
    using Suc.prems landing_cases [of "evs ! n" "?S n"]
    by (auto simp: take_Suc_conv_app_nth landed_append sys_at_def)
  ultimately show ?case using old by blast
qed

section \<open>Where the cells come from\<close>

definition probed :: "worker_proc \<Rightarrow> sys_event list \<Rightarrow> bool set" where
  "probed p evs = (if wp_readyFixed p then {} else {b. \<exists>ans. Probe_answer ans \<in> set evs \<and> b = probe_verdict ans})"

definition scraped :: "(string \<Rightarrow> real option) \<Rightarrow> worker_proc \<Rightarrow> sys_event list \<Rightarrow> LoadSnapshot set" where
  "scraped pf p evs =
     (if is_vllm (wp_adapter p) then {l. \<exists>ans now. Scrape_answer ans now \<in> set evs \<and> scrape_value pf ans = Some l} else {})"

text \<open>Every cell holds its first value, or one that a probe or a scrape of the schedule has brought.\<close>

definition cells_from :: "(string \<Rightarrow> real option) \<Rightarrow> worker_proc \<Rightarrow> sys_event list \<Rightarrow> HeartbeatWriter \<Rightarrow> bool" where
  "cells_from pf p evs w \<longleftrightarrow>
     hw_ready w \<in> insert (hw_ready (wp_hb p)) (probed p evs)
   \<and> hw_inflight w \<in> insert (hw_inflight (wp_hb p)) ((\<lambda>l. go_trunc (lo_Running l)) ` scraped pf p evs)
   \<and> hw_queue w \<in> insert (hw_queue (wp_hb p)) ((\<lambda>l. go_trunc (lo_Waiting l)) ` scraped pf p evs)
   \<and> hw_kvUsage w \<in> insert (hw_kvUsage (wp_hb p)) ((\<lambda>l. floatBits (lo_KVCacheUsage l)) ` scraped pf p evs)
   \<and> hw_gpuUsage w \<in> insert (hw_gpuUsage (wp_hb p)) ((\<lambda>l. floatBits (lo_GPUCacheUsage l)) ` scraped pf p evs)"

definition load_of :: "LoadSnapshot \<Rightarrow> HeartbeatWriter \<Rightarrow> bool" where
  "load_of l w \<longleftrightarrow> hw_inflight w = go_trunc (lo_Running l) \<and> hw_queue w = go_trunc (lo_Waiting l)
     \<and> hw_kvUsage w = floatBits (lo_KVCacheUsage l) \<and> hw_gpuUsage w = floatBits (lo_GPUCacheUsage l)"

definition source_inv :: "(string \<Rightarrow> real option) \<Rightarrow> worker_proc \<Rightarrow> sys_event list \<Rightarrow> worker_sys \<Rightarrow> bool" where
  "source_inv pf p evs s \<longleftrightarrow>
     cells_from pf p evs (ws_hb s) \<and> ws_readyFixed s = wp_readyFixed p \<and> is_vllm (ws_adapter s) = is_vllm (wp_adapter p)
   \<and> (case ws_probe s of Probe_idle \<Rightarrow> True | Probe_got r \<Rightarrow> r \<in> probed p evs)
   \<and> (case ws_scrape s of Scrape_idle \<Rightarrow> True
      | Scrape_store cs w \<Rightarrow> C_ready \<notin> set cs \<and> (\<exists>l \<in> scraped pf p evs. load_of l w))"

lemma probed_mono: "set evs \<subseteq> set evs' \<Longrightarrow> probed p evs \<subseteq> probed p evs'"
  by (auto simp: probed_def)

lemma scraped_mono: "set evs \<subseteq> set evs' \<Longrightarrow> scraped pf p evs \<subseteq> scraped pf p evs'"
  by (auto simp: scraped_def)

lemma cells_from_mono: "cells_from pf p evs w \<Longrightarrow> set evs \<subseteq> set evs' \<Longrightarrow> cells_from pf p evs' w"
  using probed_mono [of evs evs' p] scraped_mono [of evs evs' pf p] unfolding cells_from_def by blast

lemma source_inv_mono: "source_inv pf p evs s \<Longrightarrow> set evs \<subseteq> set evs' \<Longrightarrow> source_inv pf p evs' s"
  using cells_from_mono [of pf p evs "ws_hb s" evs'] probed_mono [of evs evs' p] scraped_mono [of evs evs' pf p]
  unfolding source_inv_def by (auto split: probe_pc.splits scrape_pc.splits)

lemma cells_from_store:
  "cells_from pf p evs w \<Longrightarrow> c \<noteq> C_ready \<Longrightarrow> l \<in> scraped pf p evs \<Longrightarrow> load_of l src \<Longrightarrow> cells_from pf p evs (copy_cell c src w)"
  by (cases c) (auto simp: cells_from_def copy_cell_def load_of_def)

lemma ScrapeMetrics_value:
  "ScrapeMetrics pf ans now v = (r, v') \<Longrightarrow> (case r of Inl _ \<Rightarrow> scrape_value pf ans = None | Inr l \<Rightarrow> scrape_value pf ans = Some l)"
  by (auto simp: ScrapeMetrics_def scrape_value_def Let_def split: get_answer.splits if_splits sum.splits)

lemma load_of_Set: "load_of l (SetCacheUsage (SetLoad w (go_trunc (lo_Running l)) (go_trunc (lo_Waiting l)))
    (lo_KVCacheUsage l) (lo_GPUCacheUsage l))"
  by (simp add: load_of_def SetLoad_def SetCacheUsage_def)

lemma source_inv_step:
  assumes "source_inv pf p evs s"
  shows "source_inv pf p (evs @ [ev]) (sys_step encode pf ev s)"
proof -
  let ?evs = "evs @ [ev]"
  have i: "source_inv pf p ?evs s" using source_inv_mono [OF assms, of ?evs] by auto
  show ?thesis
  proof (cases ev)
    case (Probe_answer ans)
    have "adapter_Ready ans (ws_adapter s) \<in> probed p ?evs" if "\<not> wp_readyFixed p"
      using that by (auto simp: probed_def Probe_answer adapter_Ready_verdict)
    then show ?thesis using i by (simp add: Probe_answer probe_answer_def source_inv_def)
  next
    case Probe_store
    then show ?thesis using i
      by (auto simp: probe_store_def source_inv_def cells_from_def SetReady_def split: probe_pc.splits)
  next
    case (Scrape_answer ans now)
    have new: "l \<in> scraped pf p ?evs" if "is_vllm (wp_adapter p)" "scrape_value pf ans = Some l" for l
      using that by (auto simp: scraped_def Scrape_answer)
    show ?thesis
      using i new load_of_Set [of _ "blank (ws_hb s)"] ScrapeMetrics_value [of pf ans now]
      by (fastforce simp: Scrape_answer scrape_answer_def source_inv_def is_vllm_def scrape_cells_def
          split: RuntimeAdapter.splits prod.splits sum.splits)
  next
    case Scrape_next
    then show ?thesis using i cells_from_store [of pf p ?evs "ws_hb s"]
      by (auto simp: scrape_store_def source_inv_def split: scrape_pc.splits list.splits)
  qed (use i in \<open>auto simp: sys_step_defs source_inv_def split: beat_pc.splits list.splits sum.splits\<close>)
qed

lemma source_inv_run: "source_inv pf p evs (sys_run encode pf evs (start_sys p))"
proof (induction evs rule: rev_induct)
  case Nil
  show ?case by (simp add: source_inv_def cells_from_def start_sys_def)
next
  case (snoc ev evs)
  then show ?case using source_inv_step [of pf p evs _ ev encode] by simp
qed

section \<open>Properties\<close>

lemma loaded_snapshot:
  assumes "loaded S m (rev snapshot_cells) n l" and "\<forall>k. blank (ws_hb (S k)) = blank w"
  shows "\<exists>a b c d e. m < a \<and> a \<le> b \<and> b \<le> c \<and> c \<le> d \<and> d \<le> e \<and> e \<le> n
     \<and> l = w\<lparr>hw_ready := hw_ready (ws_hb (S a)), hw_inflight := hw_inflight (ws_hb (S b)), hw_queue := hw_queue (ws_hb (S c)),
              hw_kvUsage := hw_kvUsage (ws_hb (S d)), hw_gpuUsage := hw_gpuUsage (ws_hb (S e))\<rparr>"
proof -
  from assms(1) obtain a b c d e where i: "m < a" "a \<le> b" "b \<le> c" "c \<le> d" "d \<le> e" "e \<le> n"
    and l: "l = copy_cell C_gpuUsage (ws_hb (S e)) (copy_cell C_kvUsage (ws_hb (S d)) (copy_cell C_queue (ws_hb (S c))
      (copy_cell C_inflight (ws_hb (S b)) (copy_cell C_ready (ws_hb (S a)) (blank (ws_hb (S m)))))))"
    by (auto simp: snapshot_cells_def)
  have "blank (ws_hb (S m)) = blank w" using assms(2) by simp
  then have "l = w\<lparr>hw_ready := hw_ready (ws_hb (S a)), hw_inflight := hw_inflight (ws_hb (S b)), hw_queue := hw_queue (ws_hb (S c)),
      hw_kvUsage := hw_kvUsage (ws_hb (S d)), hw_gpuUsage := hw_gpuUsage (ws_hb (S e))\<rparr>"
    unfolding l by (simp add: copy_cell_def blank_def)
  then show ?thesis using i by blast
qed

text \<open>
  C15. The heartbeat under every schedule of the worker's goroutines, with their loads, stores and calls interleaved in any way and
  the commands to Redis served late, lost or repeated. No other key is touched. The key is as the last served command left
  it: a \<open>SET\<close> with its time to live, or gone after the \<open>DEL\<close> of the shutdown, which is only sent after the signal. Every
  heartbeat that was stored is that of one beat: it has the worker's identity, and its fields are what the cells held at five moments
  of that beat, in the order of the loads. And a cell only ever holds its first value or one that an answered
  probe (unless \<open>FORGE_WORKER_READY\<close> fixes it) or a successful scrape of a vLLM engine has brought.
\<close>

theorem heartbeat_any_schedule:
  fixes encode pf p evs
  defines "S \<equiv> sys_at encode pf p evs" and "w \<equiv> wp_hb p" and "took \<equiv> landed encode pf evs (start_sys p)"
  shows "(\<forall>k. k \<noteq> Key (hw_id w) \<longrightarrow> ws_redis (sys_run encode pf evs (start_sys p)) k = wp_redis p k)
    \<and> ws_redis (sys_run encode pf evs (start_sys p)) (Key (hw_id w)) = key_after (hw_ttl w) took (wp_redis p (Key (hw_id w)))
    \<and> (\<forall>t. (Del_hb, t) \<in> set took \<longrightarrow> Main_signal \<in> set evs)
    \<and> (\<forall>payload t. (Set_hb payload, t) \<in> set took \<longrightarrow>
         (\<exists>m a b c d e n now. in_beat S m n \<and> m < a \<and> a \<le> b \<and> b \<le> c \<and> c \<le> d \<and> d \<le> e \<and> e \<le> n \<and> n \<le> length evs
            \<and> encode (hb_snapshot (w\<lparr>hw_ready := hw_ready (ws_hb (S a)), hw_inflight := hw_inflight (ws_hb (S b)),
                 hw_queue := hw_queue (ws_hb (S c)), hw_kvUsage := hw_kvUsage (ws_hb (S d)),
                 hw_gpuUsage := hw_gpuUsage (ws_hb (S e))\<rparr>) (now div 1000000)) = Inr payload))
    \<and> (\<forall>n. cells_from pf p (take n evs) (ws_hb (S n)))"
proof -
  have s0: "ws_hb (start_sys p) = w" "ws_redis (start_sys p) = wp_redis p" by (simp_all add: start_sys_def w_def)
  have ok: "cmd_ok encode S (length evs) cmd" if "(cmd, t) \<in> set took" for cmd t
    using net_ok [of "length evs" evs encode pf p] that by (force simp: took_def S_def)
  have const: "\<forall>k. blank (ws_hb (S k)) = blank w" by (simp add: S_def sys_at_def s0)
  have "Main_signal \<in> set evs" if del: "(Del_hb, t) \<in> set took" for t
  proof -
    obtain k where k: "ws_main (sys_run encode pf (take k evs) (start_sys p)) = Main_delete"
      using ok [OF del] by (auto simp: cmd_ok_def S_def sys_at_def)
    have "ws_main (start_sys p) = Main_wait" by (simp add: start_sys_def)
    with k main_waits [of "take k evs" "start_sys p" encode pf] show ?thesis by (auto dest: in_set_takeD)
  qed
  moreover have "\<exists>m a b c d e n now. in_beat S m n \<and> m < a \<and> a \<le> b \<and> b \<le> c \<and> c \<le> d \<and> d \<le> e \<and> e \<le> n \<and> n \<le> length evs
            \<and> encode (hb_snapshot (w\<lparr>hw_ready := hw_ready (ws_hb (S a)), hw_inflight := hw_inflight (ws_hb (S b)),
                 hw_queue := hw_queue (ws_hb (S c)), hw_kvUsage := hw_kvUsage (ws_hb (S d)),
                 hw_gpuUsage := hw_gpuUsage (ws_hb (S e))\<rparr>) (now div 1000000)) = Inr payload"
    if took: "(Set_hb payload, t) \<in> set took" for payload t
  proof -
    obtain n m l now where n: "n \<le> length evs" "in_beat S m n" "loaded S m (rev snapshot_cells) n l"
      "encode (hb_snapshot l (now div 1000000)) = Inr payload"
      using ok [OF took] by (auto simp: cmd_ok_def sent_def)
    from loaded_snapshot [OF n(3) const] n show ?thesis by blast
  qed
  moreover have "\<forall>n. cells_from pf p (take n evs) (ws_hb (S n))"
    using source_inv_run by (simp add: S_def sys_at_def source_inv_def)
  ultimately show ?thesis
    using sys_run_redis [of encode pf evs "start_sys p"] unfolding s0 took_def by blast
qed






text \<open>
  A beat and a scrape that overlap: the heartbeat has the queue depth of the new scrape beside the
  requests in flight of the one before.
\<close>

theorem torn_heartbeat:
  assumes "wp_adapter p = AVllm v" and "scrape_value pf ans = Some l"
    and "encode (hb_snapshot ((wp_hb p)\<lparr>hw_queue := go_trunc (lo_Waiting l)\<rparr>) (now div 1000000)) = Inr payload"
  shows "ws_beat (sys_run encode pf
      [Beat_begin, Beat_next, Beat_next, Scrape_answer ans t, Scrape_next, Scrape_next, Beat_next, Beat_next, Beat_next,
       Beat_marshal now] (start_sys p)) = Beat_sent payload"
proof -
  obtain r v' where sm: "ScrapeMetrics pf ans t v = (r, v')" by fastforce
  with ScrapeMetrics_value [OF sm] assms(2) have r: "r = Inr l" by (cases r) auto
  show ?thesis
    using assms(3) by (simp add: assms(1) sm r sys_step_defs start_sys_def snapshot_cells_def scrape_cells_def copy_cell_def blank_def
        SetLoad_def SetCacheUsage_def)
qed

definition late_beat :: "sys_event list" where
  "late_beat = [Beat_begin, Beat_next, Beat_next, Beat_next, Beat_next, Beat_next, Beat_marshal 1, Beat_send,
     Main_signal, Main_del, Net_land 1 5, Main_return]"

lemma late_beat_run:
  "sys_run demo_encode (\<lambda>_. None) late_beat (start_sys demo_proc)
   = (start_sys demo_proc)\<lparr>ws_beat := Beat_sent ''down'', ws_main := Main_returned, ws_net := [Set_hb ''down'']\<rparr>"
  by (simp add: late_beat_def sys_step_defs start_sys_def snapshot_cells_def load_all_cells demo_encode_def demo_proc_def
      NewHeartbeatWriter_def hb_snapshot_def serve_def Delete_hb_def drop_nth_def)

theorem heartbeat_any_schedule_witness:
  "ws_redis (sys_run demo_encode (\<lambda>_. None) (late_beat @ [Net_land 0 10]) (start_sys demo_proc)) (Key ''w1'')
     = Some (''down'', 10 + 6 * second)"
proof -
  have i: "hw_id (wp_hb demo_proc) = ''w1''" "hw_ttl (wp_hb demo_proc) = 6 * second"
    by (simp_all add: demo_proc_def NewHeartbeatWriter_def)
  have "landed demo_encode (\<lambda>_. None) (late_beat @ [Net_land 0 10]) (start_sys demo_proc)
      = (Set_hb ''down'', 10) # landed demo_encode (\<lambda>_. None) late_beat (start_sys demo_proc)"
    by (simp add: landed_append late_beat_run landing_def)
  then show ?thesis
    using heartbeat_any_schedule [of demo_proc demo_encode "\<lambda>_. None" "late_beat @ [Net_land 0 10]"]
    by (simp add: i key_after_def)
qed


end
