(* ===== verification/Catalog_Command.thy ===== *)
theory Catalog_Command
  imports Fleet_Lifecycle Fleet
begin

text \<open>
  The operator's command \<open>cmd/forge-catalog/main.go\<close>: listing models and workers, assigning a worker to a
  model, seeding, adding an OpenAI-compatible provider and setting a scaling policy. It works on the tables the
  control plane reads; each statement has its verdict, and \<open>fatal\<close> ends the command with what was done so far.
\<close>

section \<open>Helpers\<close>

text \<open>The command's own \<open>indexByte\<close>: the loop at index \<open>i\<close>, -1 at the end.\<close>

fun cmd_indexByte :: "string \<Rightarrow> char \<Rightarrow> int \<Rightarrow> int" where
  "cmd_indexByte [] b i = -1"
| "cmd_indexByte (c # s) b i = (if c = b then i else cmd_indexByte s b (i + 1))"

definition split_mapping :: "string \<Rightarrow> string \<times> string" where
  "split_mapping m =
     (let i = cmd_indexByte m (CHR ''='') 0 in
      if i \<ge> 0 then (take (nat i) m, drop (nat i + 1) m) else (m, m))"

text \<open>
  \<open>fmt.Sscanf\<close> with \<open>%d\<close>: white space on the line, a sign, and digits whose value fits an \<open>int\<close>; what follows is not
  read. The variable keeps its value when there is no such number.
\<close>

definition Sscanf_d :: "string \<Rightarrow> int \<Rightarrow> int" where
  "Sscanf_d s old =
     (let r = dropWhile (\<lambda>c. c = CHR '' '' \<or> c = CHR 0x09) s;
          neg = (r \<noteq> [] \<and> hd r = CHR ''-'');
          r2 = (if r \<noteq> [] \<and> (hd r = CHR ''-'' \<or> hd r = CHR ''+'') then tl r else r);
          ds = takeWhile is_digit r2;
          v = (if neg then - int (dec_value ds) else int (dec_value ds)) in
      if ds = [] then old else if - (2 ^ 63) \<le> v \<and> v < 2 ^ 63 then v else old)"

text \<open>A slice of strings under \<open>%v\<close>.\<close>

definition fmt_strings :: "string list \<Rightarrow> string" where
  "fmt_strings ws = ''['' @ join_with '' '' ws @ '']''"

section \<open>The subcommands\<close>

definition model_line :: "(string \<Rightarrow> string list) \<Rightarrow> Model \<Rightarrow> string" where
  "model_line byModel m =
     md_Name m @ ''  base='' @ md_BaseModel m @ '' adapter='' @ go_quote (md_Adapter m)
     @ '' workers='' @ fmt_strings (byModel (md_ID m))"

definition cmd_listModels :: "(nat \<Rightarrow> goerr option) \<Rightarrow> catalog_db \<Rightarrow> (goerr + string list) \<times> catalog_db" where
  "cmd_listModels fault db =
     (case ListModels fault db of
        (Inl e, db1) \<Rightarrow> (Inl e, db1)
      | (Inr models, db1) \<Rightarrow>
          (case ListAssignments fault db1 of
             (Inl e, db2) \<Rightarrow> (Inl e, db2)
           | (Inr assigns, db2) \<Rightarrow>
               (let byModel = fold (\<lambda>a s. s(ma_ModelID a := s (ma_ModelID a) @ [ma_WorkerID a])) assigns (\<lambda>_. []) in
                (Inr (map (model_line byModel) models), db2))))"

record worker_row =
  ro_ID :: string
  ro_Endpoint :: string
  ro_Runtime :: string
  ro_State :: string

definition cmd_listWorkers :: "goerr option \<Rightarrow> registry_db \<Rightarrow> goerr + worker_row list" where
  "cmd_listWorkers refused db =
     (case refused of
        Some e \<Rightarrow> Inl e
      | None \<Rightarrow> Inr (map (\<lambda>w. \<lparr>ro_ID = mw_ID w, ro_Endpoint = mw_Endpoint w, ro_Runtime = mw_RuntimeKind w,
                               ro_State = mw_State w\<rparr>) (db_workers db)))"

definition cmd_assign ::
  "(nat \<Rightarrow> goerr option) \<Rightarrow> (nat \<Rightarrow> string) \<Rightarrow> int \<Rightarrow> string \<Rightarrow> string \<Rightarrow> catalog_db \<Rightarrow> goerr option \<times> catalog_db" where
  "cmd_assign fault ids now name workerID db =
     (case ListModels fault db of
        (Inl e, db1) \<Rightarrow> (Some e, db1)
      | (Inr models, db1) \<Rightarrow>
          (let put = (\<lambda>modelID db. UpsertAssignment fault ids now
                        \<lparr>ma_ID = '''', ma_ModelID = modelID, ma_WorkerID = workerID, ma_CreatedAt = Some now\<rparr> db) in
           if find_model_id name models \<noteq> '''' then put (find_model_id name models) db1
           else
             (case UpsertModel fault ids now
                     \<lparr>md_ID = '''', md_Name = name, md_BaseModel = name, md_Adapter = '''', md_CreatedAt = Some now\<rparr> db1 of
                (Some e, m, db2) \<Rightarrow> (Some e, db2)
              | (None, m, db2) \<Rightarrow> put (md_ID m) db2)))"

text \<open>\<open>Save\<close> of a provider replaces the whole row; without an id it is a plain insert.\<close>

definition save_provider :: "ProviderRow \<Rightarrow> ProviderRow list \<Rightarrow> goerr + ProviderRow list" where
  "save_provider p ps =
     (if pv_ID p \<in> pv_ID ` set ps
      then if pv_ID p = '''' then Inl duplicate_key else Inr (map (\<lambda>r. if pv_ID r = pv_ID p then p else r) ps)
      else Inr (ps @ [p]))"

definition cmd_provider :: "string \<Rightarrow> string \<Rightarrow> string \<Rightarrow> ProviderRow" where
  "cmd_provider i baseURL keyRef =
     \<lparr>pv_ID = i, pv_BaseURL = baseURL, pv_APIKeyRef = keyRef, pv_Enabled = True, pv_CostInPerMTok = 0,
      pv_CostOutPerMTok = 0, pv_CostPerHour = 0\<rparr>"

definition cmd_map :: "string \<Rightarrow> string \<Rightarrow> ModelMap" where
  "cmd_map i m =
     \<lparr>mm_ProviderID = i, mm_BaseModel = fst (split_mapping m), mm_Adapter = '''',
      mm_ProviderModel = snd (split_mapping m), mm_MaxContext = 128000\<rparr>"

fun upsert_mappings ::
  "(nat \<Rightarrow> goerr option) \<Rightarrow> (nat \<Rightarrow> string) \<Rightarrow> int \<Rightarrow> string \<Rightarrow> string list \<Rightarrow> fleet_db \<Rightarrow> goerr option \<times> fleet_db" where
  "upsert_mappings fault ids now i [] db = (None, db)"
| "upsert_mappings fault ids now i (m # ms) db =
     (case fleet_call fault db of
        (Some e, db1) \<Rightarrow> (Some e, db1)
      | (None, db1) \<Rightarrow>
          (case save_map (cmd_map i m) (fd_maps db1) of
             Inl e \<Rightarrow> (Some e, db1)
           | Inr maps \<Rightarrow>
               (let db2 = db1\<lparr>fd_maps := maps\<rparr>; base = fst (split_mapping m) in
                case cmd_assign fault ids now base (''provider:'' @ i @ '':'' @ base) (fd_catalog db2) of
                  (Some e, c) \<Rightarrow> (Some e, db2\<lparr>fd_catalog := c\<rparr>)
                | (None, c) \<Rightarrow> upsert_mappings fault ids now i ms (db2\<lparr>fd_catalog := c\<rparr>))))"

definition upsertProvider ::
  "(nat \<Rightarrow> goerr option) \<Rightarrow> (nat \<Rightarrow> string) \<Rightarrow> int \<Rightarrow> string \<Rightarrow> string \<Rightarrow> string \<Rightarrow> string list \<Rightarrow> fleet_db \<Rightarrow>
     goerr option \<times> fleet_db" where
  "upsertProvider fault ids now i baseURL keyRef maps db =
     (case fleet_call fault db of
        (Some e, db1) \<Rightarrow> (Some e, db1)
      | (None, db1) \<Rightarrow>
          (case save_provider (cmd_provider i baseURL keyRef) (fd_providers db1) of
             Inl e \<Rightarrow> (Some e, db1)
           | Inr ps \<Rightarrow> upsert_mappings fault ids now i maps (db1\<lparr>fd_providers := ps\<rparr>)))"

text \<open>\<open>upsertFleet\<close> on the arguments after the subcommand; \<open>main\<close> has checked that there is one.\<close>

definition fleet_policy :: "string \<Rightarrow> string list \<Rightarrow> ScalingPolicy" where
  "fleet_policy base args =
     (let read = (\<lambda>k old. if length args > k then Sscanf_d (args ! k) old else old) in
      (DefaultPolicy \<lparr>fm_BaseModel = base, fm_Adapter = ''''\<rparr>)
        \<lparr>sp_MinReplicas := read 0 0, sp_MaxReplicas := read 1 3, sp_TargetConcurrency := read 2 8\<rparr>)"

definition upsertFleet ::
  "(ScalingPolicy \<Rightarrow> ScalingPolicy list \<Rightarrow> goerr + ScalingPolicy \<times> ScalingPolicy list) \<Rightarrow> string \<Rightarrow> string list \<Rightarrow>
     ScalingPolicy list \<Rightarrow> goerr option \<times> ScalingPolicy list" where
  "upsertFleet save base args rows =
     (case Policy_Upsert save (fleet_policy base args) (NewPolicyCache (Some rows)) of
        (e, c) \<Rightarrow> (e, case pc_rows c of None \<Rightarrow> rows | Some r \<Rightarrow> r))"

section \<open>The command line\<close>

record cmd_state =
  cs_db :: fleet_db
  cs_registry :: registry_db
  cs_policies :: "ScalingPolicy list"

datatype cmd_exit = Exit_ok "string list" | Exit_workers "worker_row list" | Exit_fatal goerr | Exit_usage

definition exit_of :: "goerr option \<Rightarrow> cmd_exit" where
  "exit_of e = (case e of None \<Rightarrow> Exit_ok [] | Some e \<Rightarrow> Exit_fatal e)"

text \<open>
  \<open>main\<close>: \<open>args\<close> is \<open>os.Args\<close> without the program's name, \<open>dbErr\<close> the error of opening the database, \<open>refused\<close> the
  answer to the query of \<open>workers\<close>.
\<close>

definition catalog_main ::
  "(nat \<Rightarrow> goerr option) \<Rightarrow> (nat \<Rightarrow> string) \<Rightarrow> int \<Rightarrow> goerr option \<Rightarrow> goerr option \<Rightarrow>
     (ScalingPolicy \<Rightarrow> ScalingPolicy list \<Rightarrow> goerr + ScalingPolicy \<times> ScalingPolicy list) \<Rightarrow> string list \<Rightarrow> cmd_state \<Rightarrow>
     cmd_exit \<times> cmd_state" where
  "catalog_main fault ids now dbErr refused save args s =
     (case args of
        [] \<Rightarrow> (Exit_usage, s)
      | cmd # rest \<Rightarrow>
          (case dbErr of
             Some e \<Rightarrow> (Exit_fatal e, s)
           | None \<Rightarrow>
               (let db = cs_db s; cat = fd_catalog db; put = (\<lambda>c. s\<lparr>cs_db := db\<lparr>fd_catalog := c\<rparr>\<rparr>) in
                if cmd = ''models'' then
                  (case cmd_listModels fault cat of
                     (Inl e, c) \<Rightarrow> (Exit_fatal e, put c) | (Inr lines, c) \<Rightarrow> (Exit_ok lines, put c))
                else if cmd = ''assign'' then
                  (if length rest < 2 then (Exit_fatal (PlainErr ''usage: forge-catalog assign <model-name> <worker-id>''), s)
                   else (case cmd_assign fault ids now (rest ! 0) (rest ! 1) cat of (e, c) \<Rightarrow> (exit_of e, put c)))
                else if cmd = ''seed'' then
                  (case SeedFromWorkers fault ids now (db_models (cs_registry s)) cat of
                     (n, Some e, c) \<Rightarrow> (Exit_fatal e, put c)
                   | (n, None, c) \<Rightarrow> (Exit_ok [''seeded '' @ itoa (int n) @ '' models from workers''], put c))
                else if cmd = ''provider-upsert'' then
                  (if length rest < 3 then
                     (Exit_fatal (PlainErr ''usage: forge-catalog provider-upsert <id> <base-url> <api-key-ref> [model=provider_model]...''), s)
                   else (case upsertProvider fault ids now (rest ! 0) (rest ! 1) (rest ! 2) (drop 3 rest) db of
                           (e, d) \<Rightarrow> (exit_of e, s\<lparr>cs_db := d\<rparr>)))
                else if cmd = ''fleet-policy'' then
                  (if length rest < 1 then
                     (Exit_fatal (PlainErr ''usage: forge-catalog fleet-policy <base-model> [min] [max] [target-concurrency]''), s)
                   else (case upsertFleet save (hd rest) (tl rest) (cs_policies s) of
                           (e, rows) \<Rightarrow> (exit_of e, s\<lparr>cs_policies := rows\<rparr>)))
                else if cmd = ''workers'' then
                  (case cmd_listWorkers refused (cs_registry s) of Inl e \<Rightarrow> (Exit_fatal e, s) | Inr ws \<Rightarrow> (Exit_workers ws, s))
                else (Exit_usage, s))))"

section \<open>Facts\<close>

lemma cmd_indexByte_shift: "cmd_indexByte s b i = (case index_byte s b of None \<Rightarrow> -1 | Some n \<Rightarrow> i + int n)"
  by (induction s arbitrary: i) (auto split: option.splits simp del: index_byte_None)

lemma split_mapping_eq: "CHR ''='' \<notin> set b \<Longrightarrow> split_mapping (b @ ''='' @ p) = (b, p)"
  by (simp add: split_mapping_def cmd_indexByte_shift Let_def nat_add_distrib)

lemma split_mapping_plain: "CHR ''='' \<notin> set b \<Longrightarrow> split_mapping b = (b, b)"
proof -
  assume "CHR ''='' \<notin> set b"
  then have "index_byte b (CHR ''='') = None" by simp
  then show ?thesis by (simp add: split_mapping_def cmd_indexByte_shift del: index_byte_None)
qed

text \<open>The catalog's tables as the operations keep them, and that a worker is assigned to a model's name.\<close>

definition catalog_sound :: "catalog_db \<Rightarrow> bool" where
  "catalog_sound c \<longleftrightarrow> distinct (map md_Name (ct_models c))
     \<and> (\<forall>m \<in> set (ct_models c). md_ID m \<noteq> '''' \<and> md_Name m = join_model (md_BaseModel m) (md_Adapter m))"

definition assigned_to :: "catalog_db \<Rightarrow> string \<Rightarrow> string \<Rightarrow> bool" where
  "assigned_to c name w \<longleftrightarrow>
     (\<exists>m \<in> set (ct_models c). md_Name m = name \<and> (\<exists>a \<in> set (ct_assigns c). ma_ModelID a = md_ID m \<and> ma_WorkerID a = w))"

lemma assigned_mono:
  "set (ct_models c) \<subseteq> set (ct_models c') \<Longrightarrow> set (ct_assigns c) \<subseteq> set (ct_assigns c') \<Longrightarrow>
     assigned_to c n w \<Longrightarrow> assigned_to c' n w"
  unfolding assigned_to_def by blast

lemma insert_assignment_mono: "set as \<subseteq> set (insert_assignment a as)"
  by (auto simp: insert_assignment_def)

lemma put_accepts:
  assumes "\<forall>k. ids k \<noteq> ''''"
  obtains c' where "UpsertAssignment accepts ids now \<lparr>ma_ID = '''', ma_ModelID = i, ma_WorkerID = w, ma_CreatedAt = Some now\<rparr> c = (None, c')"
    and "ct_models c' = ct_models c" and "set (ct_assigns c) \<subseteq> set (ct_assigns c')"
    and "\<exists>a \<in> set (ct_assigns c'). ma_ModelID a = i \<and> ma_WorkerID a = w"
proof -
  let ?a = "\<lparr>ma_ID = ids (ct_ids c), ma_ModelID = i, ma_WorkerID = w, ma_CreatedAt = Some now\<rparr>"
  let ?c = "c\<lparr>ct_ids := Suc (ct_ids c), ct_calls := Suc (ct_calls c), ct_assigns := insert_assignment ?a (ct_assigns c)\<rparr>"
  have "UpsertAssignment accepts ids now \<lparr>ma_ID = '''', ma_ModelID = i, ma_WorkerID = w, ma_CreatedAt = Some now\<rparr> c = (None, ?c)"
    by (simp add: UpsertAssignment_def newID_def db_call_def Let_def)
  moreover have "\<exists>a \<in> set (insert_assignment ?a (ct_assigns c)). ma_ModelID a = i \<and> ma_WorkerID a = w"
    by (auto simp: insert_assignment_def)
  ultimately show thesis using that [of ?c] insert_assignment_mono [of "ct_assigns c" ?a] by simp
qed

lemma cmd_assign_effect:
  assumes ids: "\<forall>k. ids k \<noteq> ''''" and sound: "catalog_sound c"
  obtains c' where "cmd_assign accepts ids now name w c = (None, c')" and "catalog_sound c'"
    and "assigned_to c' name w" and "\<And>n v. assigned_to c n v \<Longrightarrow> assigned_to c' n v"
proof -
  let ?ms = "sort_slice (\<lambda>a b. md_Name a < md_Name b) (ct_models c)"
  let ?c1 = "c\<lparr>ct_calls := Suc (ct_calls c)\<rparr>"
  have lm: "ListModels accepts c = (Inr ?ms, ?c1)" by (simp add: ListModels_def db_call_def)
  show thesis
  proof (cases "find (\<lambda>m. md_Name m = name) ?ms")
    case (Some m)
    then have "m \<in> set ?ms" and n: "md_Name m = name" unfolding find_Some_iff using nth_mem by blast+
    then have m: "m \<in> set (ct_models c)" by simp
    with sound have i: "find_model_id name ?ms = md_ID m" "md_ID m \<noteq> ''''"
      using Some by (simp_all add: find_model_id_def catalog_sound_def)
    obtain c' where c': "UpsertAssignment accepts ids now \<lparr>ma_ID = '''', ma_ModelID = md_ID m, ma_WorkerID = w, ma_CreatedAt = Some now\<rparr> ?c1 = (None, c')"
      "ct_models c' = ct_models ?c1" "set (ct_assigns ?c1) \<subseteq> set (ct_assigns c')" "\<exists>a \<in> set (ct_assigns c'). ma_ModelID a = md_ID m \<and> ma_WorkerID a = w"
      by (rule put_accepts [OF ids])
    show thesis
    proof (rule that [of c'])
      show "cmd_assign accepts ids now name w c = (None, c')" using lm i c'(1) by (simp add: cmd_assign_def Let_def)
      show "assigned_to c' name w" using c'(2,4) m n by (auto simp: assigned_to_def)
      show "assigned_to c' n v" if "assigned_to c n v" for n v
        by (rule assigned_mono [OF _ _ that]) (use c'(2,3) in simp_all)
    qed (use c'(2) sound in \<open>simp add: catalog_sound_def\<close>)
  next
    case None
    then have none: "name \<notin> md_Name ` set (ct_models c)" by (auto simp: find_None_iff)
    let ?m = "\<lparr>md_ID = ids (ct_ids c), md_Name = name, md_BaseModel = name, md_Adapter = '''', md_CreatedAt = Some now\<rparr>"
    let ?c2 = "c\<lparr>ct_ids := Suc (ct_ids c), ct_calls := Suc (Suc (ct_calls c)), ct_models := ct_models c @ [?m]\<rparr>"
    have up: "UpsertModel accepts ids now \<lparr>md_ID = '''', md_Name = name, md_BaseModel = name, md_Adapter = '''',
        md_CreatedAt = Some now\<rparr> ?c1 = (None, ?m, ?c2)"
      using none sound
      by (auto simp: UpsertModel_def newID_def db_call_def insert_model_def identity_taken_def catalog_sound_def join_model_def Let_def)
    obtain c' where c': "UpsertAssignment accepts ids now \<lparr>ma_ID = '''', ma_ModelID = md_ID ?m, ma_WorkerID = w, ma_CreatedAt = Some now\<rparr> ?c2 = (None, c')"
      "ct_models c' = ct_models ?c2" "set (ct_assigns ?c2) \<subseteq> set (ct_assigns c')" "\<exists>a \<in> set (ct_assigns c'). ma_ModelID a = md_ID ?m \<and> ma_WorkerID a = w"
      by (rule put_accepts [OF ids])
    show thesis
    proof (rule that [of c'])
      show "cmd_assign accepts ids now name w c = (None, c')"
        using lm None up c'(1) by (simp add: cmd_assign_def find_model_id_def Let_def)
      show "assigned_to c' name w" using c'(2,4) by (auto simp: assigned_to_def)
      show "assigned_to c' n v" if "assigned_to c n v" for n v
        by (rule assigned_mono [OF _ _ that]) (use c'(2,3) in auto)
    qed (use c'(2) none ids sound in \<open>auto simp: catalog_sound_def join_model_def\<close>)
  qed
qed

abbreviation map_base :: "string \<Rightarrow> string" where
  "map_base m \<equiv> fst (split_mapping m)"

lemma cmd_map_key: "map_key (cmd_map i m) = (i, map_base m, '''')"
  by (simp add: map_key_def cmd_map_def)

lemma cmd_map_saved:
  "save_map (cmd_map i m) ms =
     (if (i, map_base m, '''') \<in> map_key ` set ms then Inl duplicate_key else Inr (ms @ [cmd_map i m]))"
  by (simp add: save_map_def cmd_map_key) (simp add: cmd_map_def)

text \<open>The mappings of a command line that the table can take: none of them there, and no base model twice.\<close>

definition fresh_mappings :: "string \<Rightarrow> string list \<Rightarrow> ModelMap list \<Rightarrow> bool" where
  "fresh_mappings i maps ms \<longleftrightarrow> distinct (map map_base maps) \<and> (\<forall>m \<in> set maps. (i, map_base m, '''') \<notin> map_key ` set ms)"

lemma fresh_mappings_Cons:
  "fresh_mappings i (m # maps) ms \<longleftrightarrow> (i, map_base m, '''') \<notin> map_key ` set ms \<and> fresh_mappings i maps (ms @ [cmd_map i m])"
proof -
  have "map_base m \<notin> map_base ` set maps \<longleftrightarrow> (\<forall>x \<in> set maps. map_base x \<noteq> map_base m)" by (simp add: image_iff) metis
  then show ?thesis by (auto simp: fresh_mappings_def cmd_map_key simp del: image_iff)
qed

lemma assigned_to_calls [simp]: "assigned_to (c\<lparr>ct_calls := k\<rparr>) n v = assigned_to c n v"
  by (simp add: assigned_to_def)

lemma upsert_mappings_effect:
  assumes ids: "\<forall>k. ids k \<noteq> ''''"
  shows "catalog_sound (fd_catalog db) \<Longrightarrow>
     \<exists>db'. upsert_mappings accepts ids now i maps db = (if fresh_mappings i maps (fd_maps db) then None else Some duplicate_key, db')
       \<and> fd_providers db' = fd_providers db \<and> catalog_sound (fd_catalog db')
       \<and> (\<forall>n v. assigned_to (fd_catalog db) n v \<longrightarrow> assigned_to (fd_catalog db') n v)
       \<and> (fresh_mappings i maps (fd_maps db) \<longrightarrow> fd_maps db' = fd_maps db @ map (cmd_map i) maps
            \<and> (\<forall>m \<in> set maps. assigned_to (fd_catalog db') (map_base m) (''provider:'' @ i @ '':'' @ map_base m)))"
proof (induction maps arbitrary: db)
  case (Cons m ms)
  let ?c1 = "(fd_catalog db)\<lparr>ct_calls := Suc (ct_calls (fd_catalog db))\<rparr>"
  have sound: "catalog_sound ?c1" using Cons.prems by (simp add: catalog_sound_def)
  show ?case
  proof (cases "(i, map_base m, '''') \<in> map_key ` set (fd_maps db)")
    case True
    then have "\<not> fresh_mappings i (m # ms) (fd_maps db)" by (simp add: fresh_mappings_Cons)
    with True sound show ?thesis by (simp add: fleet_call_def db_call_def cmd_map_saved)
  next
    case False
    obtain c where c: "cmd_assign accepts ids now (map_base m) (''provider:'' @ i @ '':'' @ map_base m) ?c1 = (None, c)"
      "catalog_sound c" "assigned_to c (map_base m) (''provider:'' @ i @ '':'' @ map_base m)"
      "\<And>n v. assigned_to ?c1 n v \<Longrightarrow> assigned_to c n v" using cmd_assign_effect [OF ids sound] by blast
    let ?db = "db\<lparr>fd_maps := fd_maps db @ [cmd_map i m], fd_catalog := c\<rparr>"
    have run: "upsert_mappings accepts ids now i (m # ms) db = upsert_mappings accepts ids now i ms ?db"
      using c(1) False by (simp add: fleet_call_def db_call_def cmd_map_saved Let_def)
    have old: "assigned_to (fd_catalog db) n v \<Longrightarrow> assigned_to c n v" for n v
      using c(4) [of n v] by simp
    have fr: "fresh_mappings i (m # ms) (fd_maps db) = fresh_mappings i ms (fd_maps ?db)"
      using False by (simp add: fresh_mappings_Cons)
    obtain db' where d: "upsert_mappings accepts ids now i ms ?db = (if fresh_mappings i ms (fd_maps ?db) then None else Some duplicate_key, db')"
      "fd_providers db' = fd_providers ?db" "catalog_sound (fd_catalog db')"
      "\<forall>n v. assigned_to (fd_catalog ?db) n v \<longrightarrow> assigned_to (fd_catalog db') n v"
      "fresh_mappings i ms (fd_maps ?db) \<longrightarrow> fd_maps db' = fd_maps ?db @ map (cmd_map i) ms
         \<and> (\<forall>m \<in> set ms. assigned_to (fd_catalog db') (map_base m) (''provider:'' @ i @ '':'' @ map_base m))"
      using Cons.IH [of ?db] c(2) by auto
    then show ?thesis unfolding run fr using old c(3) by (intro exI [of _ db']) auto
  qed
qed (simp add: fresh_mappings_def)

lemma save_provider_mem: "save_provider p ps = Inr ps' \<Longrightarrow> p \<in> set ps'"
  by (auto simp: save_provider_def split: if_splits)

lemma assigned_resolves:
  assumes "catalog_sound c" "assigned_to c n w"
  shows "\<exists>i ws. Resolve (Some (snapshot_of (ct_models c) (ct_assigns c) t)) n = Some (i, ws) \<and> w \<in> set ws"
proof -
  obtain m where m: "m \<in> set (ct_models c)" "md_Name m = n" "\<exists>a \<in> set (ct_assigns c). ma_ModelID a = md_ID m \<and> ma_WorkerID a = w"
    using assms(2) by (auto simp: assigned_to_def)
  then show ?thesis using resolve_assigned [OF _ m(1,3)] assms(1) by (metis catalog_sound_def)
qed

section \<open>Properties\<close>

text \<open>
  C33. A provider added by the command serves its models. With a database that answers every statement the command succeeds
  exactly when none of its mappings is in the table yet and no base model is given twice (and, for the empty id, there is no such
  provider): a mapping is saved with an empty adapter, so a second \<open>provider-upsert\<close> of the same model fails on the key,
  after the provider's row was replaced. When it succeeds, the next reload of the provider registry has, for each mapping \<open>base=model\<close>, a
  virtual worker of that provider for the base model that asks the provider for that model, and the catalog resolves the
  base model's name to a list with that very worker. Assignments made before are kept in any case.
\<close>

theorem provider_upsert_serves:
  assumes "\<forall>k. ids k \<noteq> ''''" and "catalog_sound (fd_catalog db)"
    and "upsertProvider accepts ids now i url keyRef maps db = (e, db')"
    and "provider_Reload getenv (Some (Inr (fd_providers db'))) (Inr (fd_maps db')) r = (e2, r')"
  shows "(e = None \<longleftrightarrow> fresh_mappings i maps (fd_maps db) \<and> (i \<noteq> '''' \<or> '''' \<notin> pv_ID ` set (fd_providers db)))
    \<and> (e \<noteq> None \<longrightarrow> e = Some duplicate_key)
    \<and> (e = None \<longrightarrow> e2 = None \<and> (\<forall>m \<in> set maps. let (base, prov) = split_mapping m in
         (\<exists>w \<in> set (rg_workers r'). vw_ID w = ''provider:'' @ i @ '':'' @ base \<and> vw_BaseModel w = base \<and> vw_Adapter w = ''''
            \<and> vw_ProviderModel w = prov \<and> vw_Endpoint w = ''provider://'' @ i)
         \<and> (\<exists>idn ws. Resolve (Some (snapshot_of (ct_models (fd_catalog db')) (ct_assigns (fd_catalog db')) now)) base = Some (idn, ws)
            \<and> (''provider:'' @ i @ '':'' @ base) \<in> set ws)))
    \<and> (\<forall>n v. assigned_to (fd_catalog db) n v \<longrightarrow> assigned_to (fd_catalog db') n v)"
proof (cases "save_provider (cmd_provider i url keyRef) (fd_providers db)")
  case (Inl x)
  then have "x = duplicate_key" "i = ''''" "'''' \<in> pv_ID ` set (fd_providers db)"
    by (auto simp: save_provider_def cmd_provider_def split: if_splits)
  with Inl assms(3) show ?thesis by (auto simp: upsertProvider_def fleet_call_def db_call_def)
next
  case (Inr ps)
  let ?p = "cmd_provider i url keyRef"
  let ?db = "db\<lparr>fd_catalog := (fd_catalog db)\<lparr>ct_calls := Suc (ct_calls (fd_catalog db))\<rparr>, fd_providers := ps\<rparr>"
  have ok: "i \<noteq> '''' \<or> '''' \<notin> pv_ID ` set (fd_providers db)"
    using Inr by (auto simp: save_provider_def cmd_provider_def split: if_splits)
  have "catalog_sound (fd_catalog ?db)" using assms(2) by (simp add: catalog_sound_def)
  moreover have run: "upsert_mappings accepts ids now i maps ?db = (e, db')"
    using assms(3) Inr by (simp add: upsertProvider_def fleet_call_def db_call_def)
  ultimately have e: "e = (if fresh_mappings i maps (fd_maps db) then None else Some duplicate_key)"
    and eff: "fd_providers db' = ps" "catalog_sound (fd_catalog db')"
      "\<forall>n v. assigned_to (fd_catalog ?db) n v \<longrightarrow> assigned_to (fd_catalog db') n v"
    and new: "fresh_mappings i maps (fd_maps db) \<longrightarrow> fd_maps db' = fd_maps db @ map (cmd_map i) maps
        \<and> (\<forall>m \<in> set maps. assigned_to (fd_catalog db') (map_base m) (''provider:'' @ i @ '':'' @ map_base m))"
    using upsert_mappings_effect [OF assms(1), of ?db now i maps] by auto
  have kept: "\<forall>n v. assigned_to (fd_catalog db) n v \<longrightarrow> assigned_to (fd_catalog db') n v"
    using eff(3) by simp
  note loaded = provider_Reload_loaded [OF assms(4)]
  have p: "?p \<in> set (filter pv_Enabled (fd_providers db'))"
    using save_provider_mem [OF Inr] by (simp add: eff(1) cmd_provider_def)
  have "(\<exists>w \<in> set (rg_workers r'). vw_ID w = ''provider:'' @ i @ '':'' @ base \<and> vw_BaseModel w = base \<and> vw_Adapter w = ''''
        \<and> vw_ProviderModel w = prov \<and> vw_Endpoint w = ''provider://'' @ i)
      \<and> (\<exists>idn ws. Resolve (Some (snapshot_of (ct_models (fd_catalog db')) (ct_assigns (fd_catalog db')) now)) base = Some (idn, ws)
        \<and> (''provider:'' @ i @ '':'' @ base) \<in> set ws)"
    if "e = None" "m \<in> set maps" "split_mapping m = (base, prov)" for m base prov
  proof -
    have "fresh_mappings i maps (fd_maps db)" using e that(1) by (simp split: if_splits)
    then have mm: "cmd_map i m \<in> set (fd_maps db')" and as: "assigned_to (fd_catalog db') base (''provider:'' @ i @ '':'' @ base)"
      using new that(2,3) by force+
    let ?w = "virtual_worker (provider_backend getenv (fd_maps db') ?p) ?p (cmd_map i m)"
    have "?w \<in> set (loaded_workers getenv (fd_maps db') (filter pv_Enabled (fd_providers db')))"
      unfolding loaded_workers_set using p mm
      by (intro bexI [of _ ?p] bexI [of _ "cmd_map i m"]) (simp_all add: cmd_map_def cmd_provider_def)
    then have "?w \<in> set (rg_workers r')" by (simp add: loaded(2))
    moreover have "vw_ID ?w = ''provider:'' @ i @ '':'' @ base \<and> vw_BaseModel ?w = base \<and> vw_Adapter ?w = ''''
        \<and> vw_ProviderModel ?w = prov \<and> vw_Endpoint ?w = ''provider://'' @ i"
      using that(3) by (simp add: virtual_worker_def virtual_id_def cmd_map_def cmd_provider_def)
    ultimately show ?thesis using assigned_resolves [OF eff(2) as] by blast
  qed
  then show ?thesis using e ok kept loaded(1) by (auto split: prod.splits if_splits)
qed

definition demo_db :: fleet_db where
  "demo_db = \<lparr>fd_providers = [], fd_maps = [], fd_catalog = \<lparr>ct_models = [], ct_assigns = [], ct_calls = 0, ct_ids = 0\<rparr>\<rparr>"

text \<open>The command succeeds once and fails when it is repeated.\<close>

theorem provider_upsert_serves_witness:
  "\<exists>db' e2 r' db''. upsertProvider accepts (\<lambda>k. ''i'' @ nat_digits k) 7 ''openai'' ''https://api'' ''env:KEY'' [''m=gpt'', ''n''] demo_db = (None, db')
     \<and> provider_Reload (\<lambda>_. '''') (Some (Inr (fd_providers db'))) (Inr (fd_maps db')) NewRegistry = (e2, r')
     \<and> (\<exists>w \<in> set (rg_workers r'). vw_ID w = ''provider:openai:m'' \<and> vw_ProviderModel w = ''gpt'')
     \<and> upsertProvider accepts (\<lambda>k. ''i'' @ nat_digits k) 8 ''openai'' ''https://api'' ''env:KEY'' [''m=gpt4''] db' = (Some duplicate_key, db'')"
proof -
  let ?ids = "\<lambda>k. ''i'' @ nat_digits k"
  let ?u = "upsertProvider accepts ?ids 7 ''openai'' ''https://api'' ''env:KEY'' [''m=gpt'', ''n''] demo_db"
  obtain e db' where u: "?u = (e, db')" by (metis prod.exhaust)
  obtain e2 r' where l: "provider_Reload (\<lambda>_. '''') (Some (Inr (fd_providers db'))) (Inr (fd_maps db')) NewRegistry = (e2, r')"
    by (metis prod.exhaust)
  have s: "split_mapping ''m=gpt'' = (''m'', ''gpt'')" "split_mapping ''n'' = (''n'', ''n'')" "split_mapping ''m=gpt4'' = (''m'', ''gpt4'')"
    by (simp_all add: split_mapping_def)
  have sound: "catalog_sound (fd_catalog demo_db)" by (simp add: demo_db_def catalog_sound_def)
  note first = provider_upsert_serves [OF _ sound u l]
  have e: "e = None" using first s by (simp add: fresh_mappings_def demo_db_def)
  then have serves: "\<exists>w \<in> set (rg_workers r'). vw_ID w = ''provider:openai:m'' \<and> vw_ProviderModel w = ''gpt''"
    using first s by auto
  have db': "catalog_sound (fd_catalog db') \<and> (''openai'', ''m'', '''') \<in> map_key ` set (fd_maps db')"
  proof -
    have "fresh_mappings ''openai'' [''m=gpt'', ''n''] []" by (simp add: fresh_mappings_def s)
    moreover have "catalog_sound \<lparr>ct_models = [], ct_assigns = [], ct_calls = Suc 0, ct_ids = 0\<rparr>" by (simp add: catalog_sound_def)
    ultimately have "catalog_sound (fd_catalog db') \<and> cmd_map ''openai'' ''m=gpt'' \<in> set (fd_maps db')"
      using u upsert_mappings_effect [of ?ids "demo_db\<lparr>fd_catalog := (fd_catalog demo_db)\<lparr>ct_calls := Suc 0\<rparr>, fd_providers := [cmd_provider ''openai'' ''https://api'' ''env:KEY'']\<rparr>" 7 "''openai''" "[''m=gpt'', ''n'']"]
      by (auto simp: upsertProvider_def fleet_call_def db_call_def demo_db_def save_provider_def)
    moreover have "map_key (cmd_map ''openai'' ''m=gpt'') = (''openai'', ''m'', '''')" by (simp add: cmd_map_key s)
    ultimately show ?thesis by (metis image_eqI)
  qed
  obtain e3 db'' where u2: "upsertProvider accepts ?ids 8 ''openai'' ''https://api'' ''env:KEY'' [''m=gpt4''] db' = (e3, db'')" by (metis prod.exhaust)
  obtain e4 r'' where l2: "provider_Reload (\<lambda>_. '''') (Some (Inr (fd_providers db''))) (Inr (fd_maps db'')) NewRegistry = (e4, r'')"
    by (metis prod.exhaust)
  have "e3 = Some duplicate_key"
    using provider_upsert_serves [OF _ conjunct1 [OF db'] u2 l2] conjunct2 [OF db'] by (auto simp: fresh_mappings_def s)
  then show ?thesis using u l e serves u2 by blast
qed

text \<open>
  \<open>assign\<close> is the control plane's own assignment: for a model without adapter, a name and a worker that are not empty and
  fresh identifiers that are not empty, it does what \<open>ensureCatalogAssignment\<close> of the fleet's lifecycle does, statement
  by statement and also when the database refuses one.
\<close>

theorem assign_is_ensure:
  assumes "\<forall>k. ids k \<noteq> ''''" and "name \<noteq> ''''" and "w \<noteq> ''''"
  shows "cmd_assign fault ids now name w db = ensureCatalogAssignment fault ids now \<lparr>fm_BaseModel = name, fm_Adapter = ''''\<rparr> w db"
proof -
  have "md_ID m \<noteq> ''''" if "UpsertModel fault ids now \<lparr>md_ID = '''', md_Name = n, md_BaseModel = b, md_Adapter = a, md_CreatedAt = t\<rparr> d = (None, m, d')"
    for n b a t d m d'
    using that assms(1) by (auto simp: UpsertModel_def newID_def db_call_def Let_def split: option.splits if_splits)
  then show ?thesis
    using assms(2,3) by (auto simp: cmd_assign_def ensureCatalogAssignment_def Let_def split: sum.splits prod.splits option.splits)
qed

theorem assign_is_ensure_witness:
  "cmd_assign (\<lambda>_. Some EOF) (\<lambda>_. ''i'') 7 ''m'' ''w'' (fd_catalog demo_db)
     = ensureCatalogAssignment (\<lambda>_. Some EOF) (\<lambda>_. ''i'') 7 \<lparr>fm_BaseModel = ''m'', fm_Adapter = ''''\<rparr> ''w'' (fd_catalog demo_db)"
  by (rule assign_is_ensure) simp_all

lemma cmd_assign_again:
  assumes "\<forall>k. ids k \<noteq> ''''" "catalog_sound c" "assigned_to c name w"
  shows "\<exists>c'. cmd_assign accepts ids now name w c = (None, c') \<and> ct_models c' = ct_models c \<and> ct_assigns c' = ct_assigns c"
proof -
  let ?ms = "sort_slice (\<lambda>a b. md_Name a < md_Name b) (ct_models c)"
  obtain m where m: "m \<in> set (ct_models c)" "md_Name m = name"
    and a: "\<exists>a \<in> set (ct_assigns c). ma_ModelID a = md_ID m \<and> ma_WorkerID a = w" using assms(3) by (auto simp: assigned_to_def)
  have "find (\<lambda>z. md_Name z = md_Name m) ?ms = Some m"
    using assms(2) m(1) by (intro find_unique [of md_Name "ct_models c"]) (simp_all add: catalog_sound_def)
  then have i: "find_model_id name ?ms = md_ID m" using m(2) by (simp add: find_model_id_def)
  have "md_ID m \<noteq> ''''" using assms(2) m(1) by (simp add: catalog_sound_def)
  moreover have "insert_assignment \<lparr>ma_ID = j, ma_ModelID = md_ID m, ma_WorkerID = w, ma_CreatedAt = t\<rparr> (ct_assigns c) = ct_assigns c" for j t
    using a by (simp add: insert_assignment_def)
  ultimately show ?thesis
    by (simp add: cmd_assign_def ListModels_def db_call_def UpsertAssignment_def newID_def Let_def i)
qed

text \<open>Assigning the same worker to the same model twice leaves the tables as once.\<close>

theorem assign_idempotent:
  assumes "\<forall>k. ids k \<noteq> ''''" and "catalog_sound c"
    and "cmd_assign accepts ids now name w c = (e1, c1)" and "cmd_assign accepts ids later name w c1 = (e2, c2)"
  shows "e1 = None \<and> e2 = None \<and> ct_models c2 = ct_models c1 \<and> ct_assigns c2 = ct_assigns c1"
proof -
  obtain c' where "cmd_assign accepts ids now name w c = (None, c')" "catalog_sound c'" "assigned_to c' name w"
    using cmd_assign_effect [OF assms(1,2)] by metis
  then have "e1 = None" "catalog_sound c1" "assigned_to c1 name w" using assms(3) by simp_all
  then show ?thesis using cmd_assign_again [OF assms(1), of c1 name w later] assms(4) by auto
qed

theorem assign_idempotent_witness:
  "\<exists>e1 c1 e2 c2. cmd_assign accepts (\<lambda>_. ''i'') 7 ''m'' ''w'' (fd_catalog demo_db) = (e1, c1)
     \<and> cmd_assign accepts (\<lambda>_. ''i'') 9 ''m'' ''w'' c1 = (e2, c2) \<and> ct_assigns c2 = ct_assigns c1"
proof -
  obtain e1 c1 where 1: "cmd_assign accepts (\<lambda>_. ''i'') 7 ''m'' ''w'' (fd_catalog demo_db) = (e1, c1)" by (metis prod.exhaust)
  obtain e2 c2 where 2: "cmd_assign accepts (\<lambda>_. ''i'') 9 ''m'' ''w'' c1 = (e2, c2)" by (metis prod.exhaust)
  have "catalog_sound (fd_catalog demo_db)" by (simp add: demo_db_def catalog_sound_def)
  then have "ct_assigns c2 = ct_assigns c1" using assign_idempotent [OF _ _ 1 2] by simp
  with 1 2 show ?thesis by blast
qed

text \<open>The numbers left out of \<open>fleet-policy\<close> are 0, 3 and 8, and the policy is of the model without adapter.\<close>

lemma fleet_policy_fields:
  "sp_MinReplicas (fleet_policy b []) = 0" "sp_MaxReplicas (fleet_policy b []) = 3" "sp_TargetConcurrency (fleet_policy b []) = 8"
  "sp_BaseModel (fleet_policy b as) = b" "sp_Adapter (fleet_policy b as) = ''''"
  by (simp_all add: fleet_policy_def DefaultPolicy_def Let_def)

end
