(* ===== verification/Control_Plane.thy ===== *)
theory Control_Plane
  imports Worker Fleet_Lifecycle Gateway_Handler Planner
begin

text \<open>
  The control plane's command \<open>cmd/forge-controlplane/main.go\<close>: how the configuration becomes the parameters
  of the components, the choice of the provisioner, the limits and routes of the HTTP server, and the wiring of
  \<open>run\<close>. The second half composes components that meet only there: the gateway with the fleet manager as its
  activator, and the local provisioner with the worker process its environment configures.
\<close>

section \<open>Components from the configuration\<close>

fun firstNonEmpty :: "string list \<Rightarrow> string" where
  "firstNonEmpty [] = ''''"
| "firstNonEmpty (v # vs) = (if v \<noteq> '''' then v else firstNonEmpty vs)"

text \<open>The holders the policy and overlap scorers read are passed as what they hold.\<close>

definition chain_config :: "Koanf \<Rightarrow> RoutingPolicy option \<Rightarrow> CacheSnapshot option \<Rightarrow> ChainConfig" where
  "chain_config k policy overlap =
     \<lparr>cc_WeightLoad = k_Float64 k ''scheduler.weight.load'',
      cc_WeightLatency = k_Float64 k ''scheduler.weight.latency'',
      cc_WeightAffinity = k_Float64 k ''scheduler.weight.affinity'',
      cc_WeightCost = k_Float64 k ''scheduler.weight.cost'',
      cc_WeightPolicy = 15 / 100,
      cc_LatencyRefMs = k_Float64 k ''scheduler.latency.ref.ms'',
      cc_AdmissionLimit = k_Int k ''admission.per.worker.limit'',
      cc_AffinityWindow = k_Int k ''affinity.prefix.window'',
      cc_AffinityBlock = k_Int k ''affinity.block.bytes'',
      cc_Policy = Some policy, cc_Overlap = Some overlap,
      cc_WeightOverlap = 15 / 100\<rparr>"

definition NewSnapshotSelector ::
  "RoutingSnapshot option \<Rightarrow> CatalogSnapshot option \<Rightarrow> tracker \<Rightarrow> LatencyStore \<Rightarrow> Chain \<Rightarrow> int \<Rightarrow> SnapshotSelector" where
  "NewSnapshotSelector holder catalog inflight latency chain admissionLimit =
     \<lparr>se_holder = holder, se_catalog = catalog, se_inflight = inflight, se_latency = latency, se_chain = chain,
      se_admissionLimit = admissionLimit\<rparr>"

definition cp_selector ::
  "Koanf \<Rightarrow> RoutingSnapshot option \<Rightarrow> CatalogSnapshot option \<Rightarrow> RoutingPolicy option \<Rightarrow> CacheSnapshot option \<Rightarrow> SnapshotSelector" where
  "cp_selector k snap cat policy overlap =
     NewSnapshotSelector snap cat NewInflightTracker (NewLatencyStore (Duration k ''scheduler.ewma.tau'' (10 * second)))
       (NewConfiguredChain (chain_config k policy overlap)) (k_Int k ''admission.per.worker.limit'')"

definition cp_breakers :: "Koanf \<Rightarrow> BreakerMap" where
  "cp_breakers k =
     NewBreakerMap \<lparr>MinRequests = word_of_int (k_Int k ''reliability.breaker.min.requests''),
                    FailureRatio = k_Float64 k ''reliability.breaker.failure.ratio'',
                    Timeout = Duration k ''reliability.breaker.timeout'' (5 * second), MaxHalfOpen = 2\<rparr> (Some [])"

definition cp_failover :: "Koanf \<Rightarrow> Failover" where
  "cp_failover k =
     NewFailover
       (Some (NewRetryBudget (k_Float64 k ''reliability.retry.budget.tokens'') (k_Float64 k ''reliability.retry.budget.ratio'')))
       (Some (cp_breakers k)) (Some []) (k_Int k ''reliability.max.attempts'')"

definition cp_handler :: "Koanf \<Rightarrow> SnapshotSelector \<Rightarrow> Handler" where
  "cp_handler k sel =
     NewHandler sel True True (Some (cp_failover k)) (k_Int k ''admission.per.worker.limit'')
       (k_Int k ''admission.retry.after.seconds'') (k_Int k ''reliability.max.attempts'')"

text \<open>The intervals of the health service and of the publisher; \<open>time.NewTicker\<close> panics on one that is not positive.\<close>

definition health_interval :: "duration \<Rightarrow> duration" where
  "health_interval reconcileInterval = (if reconcileInterval \<le> 0 then 3 * second else reconcileInterval)"

definition publish_interval :: "duration \<Rightarrow> duration" where
  "publish_interval interval = (if interval \<le> 0 then 500 * millisecond else interval)"

definition cp_intervals :: "Koanf \<Rightarrow> duration \<times> duration" where
  "cp_intervals k =
     (health_interval (Duration k ''heartbeat.reconcile'' (3 * second)),
      publish_interval (Duration k ''routing.snapshot.interval'' (500 * millisecond)))"

text \<open>\<open>SetProviders\<close>, called by \<open>run\<close>.\<close>

definition SetProviders :: "ProviderRegistry \<Rightarrow> Handler \<Rightarrow> Handler" where
  "SetProviders r h = h\<lparr>gh_providers := Some r\<rparr>"

section \<open>The provisioner\<close>

datatype provisioner_choice = UseRunPod RunPodProvisionerConfig | UseLocal LocalProcessConfig

definition choose_provisioner :: "(string \<Rightarrow> string) \<Rightarrow> Koanf \<Rightarrow> provisioner_choice" where
  "choose_provisioner getenv k =
     (if k_Bool k ''fleet.runpod.enabled'' then
        UseRunPod
          \<lparr>rp_Enabled = True, rp_DryRun = k_Bool k ''fleet.runpod.dry.run'',
           rp_APIKey = firstNonEmpty [k_String k ''runpod.api.key'', getenv ''FORGE_RUNPOD_API_KEY'', getenv ''RUNPOD_API_KEY''],
           rp_GPUTypeID = k_String k ''fleet.runpod.gpu.type'', rp_Image = k_String k ''fleet.runpod.image'',
           rp_CloudType = k_String k ''fleet.runpod.cloud.type'',
           rp_ContainerDisk = k_Int k ''fleet.runpod.container.disk.gb'', rp_VolumeDisk = k_Int k ''fleet.runpod.volume.disk.gb'',
           rp_HFToken = firstNonEmpty [k_String k ''hf.token'', getenv ''FORGE_HF_TOKEN'', getenv ''HF_TOKEN''],
           rp_VLLMModel = k_String k ''fleet.runpod.vllm.model'', rp_VLLMPort = k_Int k ''fleet.runpod.vllm.port'',
           rp_ControlPlane = k_String k ''fleet.runpod.controlplane.grpc'', rp_RedisURL = k_String k ''redis.url''\<rparr>
      else
        UseLocal
          \<lparr>lc_Binary = k_String k ''fleet.local.worker.binary'', lc_EnvFile = getenv ''FORGE_ENV_FILE'',
           lc_BaseGRPCPort = k_Int k ''fleet.local.base.grpc.port'',
           lc_ControlPlane = firstNonEmpty [k_String k ''grpc.public.addr'', ''127.0.0.1:8081''],
           lc_RedisURL = k_String k ''redis.url'', lc_DBURL = k_String k ''db.url'',
           lc_OllamaURL = k_String k ''fleet.local.ollama.url'', lc_TrackOnly = False\<rparr>)"

text \<open>The manager of \<open>main\<close>: with a lifecycle and with Redis.\<close>

definition cp_manager :: "PolicyCache \<Rightarrow> 'p \<Rightarrow> 'p Manager" where
  "cp_manager policies prov = NewManager policies prov True True"

section \<open>The HTTP server\<close>

record GatewayLimits =
  gl_RequestTimeout :: duration
  gl_MaxBodyBytes :: int
  gl_Keys :: KeyStore

text \<open>\<open>answer\<close> is the first query of the key store, made before the server listens; its error is dropped.\<close>

definition http_limits :: "(string \<Rightarrow> string) \<Rightarrow> goerr + APIKey list \<Rightarrow> Koanf \<Rightarrow> GatewayLimits" where
  "http_limits hash answer k =
     (let keys0 = LoadFromEnv hash (NewKeyStore True) (k_String k ''gateway.api.keys'') (k_String k ''gateway.api.key'');
          keys = snd (Reload keys0 answer);
          maxBody0 = k_Int k ''gateway.max.body.bytes'';
          maxBody = (if maxBody0 \<le> 0 then 1048576 else maxBody0) in
      \<lparr>gl_RequestTimeout = Duration k ''gateway.request.timeout'' (300 * second), gl_MaxBodyBytes = maxBody, gl_Keys = keys\<rparr>)"

text \<open>
  \<open>POST /internal/cache/events\<close>: \<open>bound\<close> is the decoded body. The answer is the status, the service, the commands
  for Redis and the message published to the other subscribers.
\<close>

definition cache_events ::
  "(u64 \<Rightarrow> string) \<Rightarrow> string + Event \<Rightarrow> int \<Rightarrow> CacheService \<Rightarrow> int \<times> CacheService \<times> cache_cmd list \<times> Event option" where
  "cache_events hex bound now s =
     (case bound of
        Inl _ \<Rightarrow> (400, s, [], None)
      | Inr ev0 \<Rightarrow>
          (let ev = (if ev_Type ev0 = '''' then ev0\<lparr>ev_Type := ''stored''\<rparr> else ev0) in
           if ev_Type ev = ''stored'' then
             (case Report hex s (ev_WorkerID ev) (ev_BaseModel ev) (ev_Adapter ev) (ev_Tier ev) (ev_Hashes ev) now of
                (s', cmds, msg) \<Rightarrow> (200, s', cmds, Some msg))
           else (200, Apply s ev now, [], None)))"

section \<open>The fleet manager as the gateway's activator\<close>

text \<open>
  What the gateway is promised of its activator: when activation is asked for and succeeds, a worker of the
  model is up or on its way.
\<close>

locale activator =
  fixes needs :: "'s \<Rightarrow> string \<Rightarrow> bool"
    and activate :: "'s \<Rightarrow> string \<Rightarrow> goerr option \<times> 's"
    and coming :: "'s \<Rightarrow> string \<Rightarrow> bool"
  assumes activate_comes: "needs s model \<Longrightarrow> activate s model = (None, s') \<Longrightarrow> coming s' model"
begin

definition attempted :: "'s \<Rightarrow> string \<Rightarrow> goerr option \<times> 's" where
  "attempted s model = (if needs s model then activate s model else (None, s))"

lemma attempted_comes: "needs s model \<Longrightarrow> attempted s model = (None, s') \<Longrightarrow> coming s' model"
  by (simp add: attempted_def activate_comes)

lemma not_needed_keeps: "\<not> needs s model \<Longrightarrow> attempted s model = (None, s)"
  by (simp add: attempted_def)

end

definition noop_needs :: "unit \<Rightarrow> string \<Rightarrow> bool" where "noop_needs s model = False"
definition noop_Activate :: "unit \<Rightarrow> string \<Rightarrow> goerr option \<times> unit" where "noop_Activate s model = (None, s)"

interpretation noop_activator: activator noop_needs noop_Activate "\<lambda>_ _. True"
  by unfold_locales simp

text \<open>The worker table has an entry for the model that is not retired.\<close>

definition tracked_model :: "'p Manager \<Rightarrow> string \<Rightarrow> bool" where
  "tracked_model m model \<longleftrightarrow>
     (\<exists>w t. map_of (mg_workers m) w = Some t \<and> tw_Model t = \<lparr>fm_BaseModel = model, fm_Adapter = ''''\<rparr>
          \<and> (tw_State t = StateProvisioning \<or> tw_State t = StateReady))"

lemma scaleUp_tracks:
  assumes "scaleUp prov \<lparr>fm_BaseModel = model, fm_Adapter = ''''\<rparr> m = (None, m')"
  shows "tracked_model m' model"
proof -
  let ?md = "\<lparr>fm_BaseModel = model, fm_Adapter = ''''\<rparr>"
  obtain w m1 where c: "scale_call prov ?md (scale_begin ?md m) = (Inr w, m1)"
    using assms by (auto simp: scaleUp_def split: sum.splits prod.splits if_splits)
  then have "map_of (mg_workers m') w = Some (new_worker w ?md)
      \<or> map_of (mg_workers m') w = Some ((new_worker w ?md)\<lparr>tw_State := StateReady\<rparr>)"
    using assms by (auto simp: scaleUp_def scale_end_def set_state_def upd_worker_def update_conv Let_def split: if_splits)
  then show ?thesis unfolding tracked_model_def by (force simp: new_worker_def)
qed

interpretation fleet_activator: activator "\<lambda>m model. NeedsActivation snap model m" "\<lambda>m model. Activate prov snap model m" tracked_model
  for snap prov
  by unfold_locales (auto simp: NeedsActivation_def Activate_def Let_def split: if_splits intro: scaleUp_tracks)

text \<open>
  The selection of a chat request with the manager behind it: the activation the handler meets is the manager's
  answer, \<open>views\<close> are the snapshots found while it waits and \<open>ctx\<close> the request context's end.
\<close>

definition fleet_activation ::
  "'p provision_fn \<Rightarrow> RoutingSnapshot option \<Rightarrow> RoutingSnapshot option list \<Rightarrow> goerr option \<Rightarrow> string \<Rightarrow> 'p Manager \<Rightarrow> activation" where
  "fleet_activation prov snap views ctx model m =
     \<lparr>ac_needs = NeedsActivation snap model m, ac_error = fst (Activate prov snap model m), ac_views = views, ac_ctx = ctx\<rparr>"

definition fleet_chat_select ::
  "(string \<Rightarrow> u64) \<Rightarrow> 'p provision_fn \<Rightarrow> RoutingSnapshot option \<Rightarrow> RoutingSnapshot option list \<Rightarrow> goerr option \<Rightarrow> string \<Rightarrow> string \<Rightarrow>
     Handler \<Rightarrow> 'p Manager \<Rightarrow> ((goerr + SelectedWorker list) outcome \<times> Handler) \<times> 'p Manager" where
  "fleet_chat_select sum64 prov snap views ctx model prompt h m =
     (chat_select sum64 (fleet_activation prov snap views ctx model m) model prompt h,
      case rankWorkers sum64 model prompt h of
        (Inr _, _) \<Rightarrow> m
      | (Inl _, _) \<Rightarrow> snd (fleet_activator.attempted snap prov m model))"

section \<open>The environment of a local worker\<close>

text \<open>
  The environment a process sees: entries \<open>name=value\<close>, split at the first \<open>=\<close>, the last of a name winning, as
  \<open>os/exec\<close> passes them on.
\<close>

definition env_entry_of :: "string \<Rightarrow> (string \<times> string) option" where
  "env_entry_of s = map_option (\<lambda>i. (take i s, drop (Suc i) s)) (index_byte s (CHR ''=''))"

definition env_vars :: "string list \<Rightarrow> (string \<times> string) list" where
  "env_vars es = fold (\<lambda>s m. case env_entry_of s of None \<Rightarrow> m | Some (k, v) \<Rightarrow> AList.update k v m) es []"

lemma env_entry_eq: "CHR ''='' \<notin> set k \<Longrightarrow> env_entry_of (k @ ''='' @ v) = Some (k, v)"
  by (simp add: env_entry_of_def)

lemma env_vars_distinct: "distinct (map fst (env_vars es))"
proof -
  have "distinct (map fst m) \<Longrightarrow>
      distinct (map fst (fold (\<lambda>s m. case env_entry_of s of None \<Rightarrow> m | Some (k, v) \<Rightarrow> AList.update k v m) es m))" for m
    by (induction es arbitrary: m) (auto simp: distinct_update split: option.splits)
  then show ?thesis by (simp add: env_vars_def)
qed

abbreviation show_var :: "string \<times> string \<Rightarrow> string" where
  "show_var kv \<equiv> fst kv @ ''='' @ snd kv"

lemma env_vars_pairs:
  assumes "\<forall>kv \<in> set ps. CHR ''='' \<notin> set (fst kv)" "distinct (map fst ps)" "map_of ps k = Some v"
  shows "map_of (env_vars (es @ map show_var ps)) k = Some v"
proof -
  have "map_of (fold (\<lambda>s m. case env_entry_of s of None \<Rightarrow> m | Some (k, v) \<Rightarrow> AList.update k v m) (map show_var ps) m) k
      = (case map_of ps k of Some v \<Rightarrow> Some v | None \<Rightarrow> map_of m k)" for m
    using assms(1,2)
  proof (induction ps arbitrary: m)
    case (Cons kv ps)
    have e: "env_entry_of (show_var kv) = Some (fst kv, snd kv)" using Cons.prems(1) by (intro env_entry_eq) simp
    have "map_of ps (fst kv) = None" using Cons.prems(2) by (simp add: map_of_eq_None_iff)
    with Cons.IH [of "AList.update (fst kv) (snd kv) m"] Cons.prems e show ?case
      by (cases kv) (auto simp: update_conv split: option.splits)
  qed simp
  with assms(3) show ?thesis by (simp add: env_vars_def)
qed

text \<open>The variables the provisioner sets, by name.\<close>

definition worker_vars :: "LocalProcessConfig \<Rightarrow> string \<Rightarrow> FleetModel \<Rightarrow> int \<Rightarrow> (string \<times> string) list" where
  "worker_vars cfg wid m port =
     [(''FORGE_WORKER_ID'', wid), (''FORGE_WORKER_ENDPOINT'', ''127.0.0.1:'' @ itoa port),
      (''FORGE_WORKER_GRPC_ADDR'', '':'' @ itoa port), (''FORGE_METRICS_ADDR'', '':'' @ itoa (port + 1000)),
      (''FORGE_WORKER_RUNTIME'', ''RUNTIME_KIND_OLLAMA''), (''FORGE_WORKER_MODEL_BASE'', fm_BaseModel m),
      (''FORGE_WORKER_MODEL_CONTEXT'', ''32768''), (''FORGE_WORKER_COST_PER_HOUR'', ''0''), (''FORGE_WORKER_COST_CLASS'', ''free''),
      (''FORGE_OLLAMA_URL'', lc_OllamaURL cfg), (''FORGE_OTLP_ENDPOINT'', '''')]
     @ filter (\<lambda>kv. snd kv \<noteq> '''')
         [(''FORGE_CONTROLPLANE_GRPC'', lc_ControlPlane cfg), (''FORGE_REDIS_URL'', lc_RedisURL cfg),
          (''FORGE_DB_URL'', lc_DBURL cfg), (''FORGE_ENV_FILE'', lc_EnvFile cfg)]"

lemma worker_env_vars: "worker_env cfg environ wid m port = environ @ map show_var (worker_vars cfg wid m port)"
  by (simp add: worker_env_def worker_vars_def)

lemma worker_vars_names:
  "distinct (map fst (worker_vars cfg wid m port))" "\<forall>kv \<in> set (worker_vars cfg wid m port). CHR ''='' \<notin> set (fst kv)"
  by (auto simp: worker_vars_def)

lemma worker_vars_values:
  "map_of (worker_vars cfg wid m port) ''FORGE_WORKER_ID'' = Some wid"
  "map_of (worker_vars cfg wid m port) ''FORGE_WORKER_ENDPOINT'' = Some (''127.0.0.1:'' @ itoa port)"
  "map_of (worker_vars cfg wid m port) ''FORGE_WORKER_RUNTIME'' = Some ''RUNTIME_KIND_OLLAMA''"
  "map_of (worker_vars cfg wid m port) ''FORGE_WORKER_MODEL_BASE'' = Some (fm_BaseModel m)"
  by (simp_all add: worker_vars_def map_add_def split: option.splits)

lemma forge_layer_lookup:
  assumes "distinct (map fst (forge_layer lib vars))" "map_of vars n = Some v" "has_prefix n ''FORGE_''" "normalizeKey lib n = key"
  shows "map_of (forge_layer lib vars) key = Some v"
proof -
  have "(n, v) \<in> set vars" using assms(2) by (rule map_of_SomeD)
  then have "(key, v) \<in> set (forge_layer lib vars)" using assms(3,4) by (force simp: env_layer_def)
  then show ?thesis using assms(1) by simp
qed

definition identity_keys :: "(string \<times> string) list" where
  "identity_keys = [(''FORGE_WORKER_ID'', ''worker.id''), (''FORGE_WORKER_ENDPOINT'', ''worker.endpoint''),
     (''FORGE_WORKER_RUNTIME'', ''worker.runtime''), (''FORGE_WORKER_MODEL_BASE'', ''worker.model.base'')]"

text \<open>Names and their keys, evaluated; for ASCII names the lower case does not depend on the tables of Unicode.\<close>

definition reads_as :: "string \<Rightarrow> string \<Rightarrow> bool" where
  "reads_as n key \<longleftrightarrow> ascii n \<and> replace_byte (CHR ''_'') (CHR ''.'') (to_lower (trim_prefix n ''FORGE_'')) = key"

lemma reads_as_key: "reads_as n key \<Longrightarrow> normalizeKey lib n = key"
  by (simp add: reads_as_def normalizeKey_of_ascii)

lemma identity_keys_reads: "list_all (\<lambda>(n, key). has_prefix n ''FORGE_'' \<and> reads_as n key) identity_keys"
  by code_simp

lemma identity_keys_names: "list_all (\<lambda>(n, key). has_prefix n ''FORGE_'' \<and> normalizeKey lib n = key) identity_keys"
  using identity_keys_reads by (auto simp: list_all_iff intro: reads_as_key)

text \<open>The worker's configuration holds what the provisioner put into its environment.\<close>

lemma worker_config_reads:
  assumes lib: "koanf_layers lib (env_vars (worker_env lcfg environ wid md port)) dotenv"
    and ok: "clear (forge_layer lib (env_vars (worker_env lcfg environ wid md port))) key"
    and n: "(n, key) \<in> set identity_keys" and v: "map_of (worker_vars lcfg wid md port) n = Some v"
  shows "k_String (Load lib getenv exists WorkerDefaults) key = v"
proof (rule Load_env_wins [OF lib ok])
  have "map_of (env_vars (worker_env lcfg environ wid md port)) n = Some v"
    unfolding worker_env_vars using worker_vars_names v by (intro env_vars_pairs)
  moreover have "has_prefix n ''FORGE_''" "normalizeKey lib n = key" using n identity_keys_names [of lib] by (auto simp: list_all_iff)
  ultimately show "map_of (forge_layer lib (env_vars (worker_env lcfg environ wid md port))) key = Some v"
    using ok by (intro forge_layer_lookup) (simp_all add: clear_def)
qed

definition identity_of_worker :: "Koanf \<Rightarrow> string \<times> string \<times> string \<times> string" where
  "identity_of_worker cfg =
     (k_String cfg ''worker.id'', k_String cfg ''worker.endpoint'', k_String cfg ''worker.runtime'', k_String cfg ''worker.model.base'')"

lemma worker_config_identity:
  assumes lib: "koanf_layers lib (env_vars (worker_env lcfg environ wid md port)) dotenv"
    and ok: "\<forall>(n, key) \<in> set identity_keys. clear (forge_layer lib (env_vars (worker_env lcfg environ wid md port))) key"
  shows "identity_of_worker (Load lib getenv exists WorkerDefaults)
     = (wid, ''127.0.0.1:'' @ itoa port, ''RUNTIME_KIND_OLLAMA'', fm_BaseModel md)"
proof -
  have "k_String (Load lib getenv exists WorkerDefaults) key = v"
    if "(n, key) \<in> set identity_keys" "map_of (worker_vars lcfg wid md port) n = Some v" for n key v
    using worker_config_reads [OF lib] ok that by blast
  from this [OF _ worker_vars_values(1)] this [OF _ worker_vars_values(2)] this [OF _ worker_vars_values(3)]
    this [OF _ worker_vars_values(4)]
  show ?thesis by (simp add: identity_of_worker_def identity_keys_def)
qed

lemma Local_Provision_starts:
  assumes "Local_Provision et os md p = (Inr wid, p')" "\<not> lc_TrackOnly (lp_cfg p)"
  shows "\<exists>port pid. map_of (lp_procs p') pid = Some (worker_env (lp_cfg p) (oe_Environ os) wid md port)
     \<and> map_of (lp_active p') wid = Some \<lparr>pr_pid = Some pid, pr_model = md, pr_port = port\<rparr>"
  using assms by (auto simp: Local_Provision_def Let_def call_ready_def update_conv split: sum.splits if_splits)

section \<open>Properties\<close>

text \<open>
  C14. The worker a local provisioner starts is the worker it announced: its process has an environment from which the
  worker command, through the layers of the configuration, registers under the id the provisioner returned, with the
  endpoint of its port, the model that was asked for and the Ollama engine, whatever the control plane's own environment
  and the env file say, as long as no other variable stands for one of these keys or a path above or below it. The
  adapter of the model is not passed on.
\<close>

theorem provisioned_worker_registers:
  assumes "Local_Provision et os md p = (Inr wid, p')" and "\<not> lc_TrackOnly (lp_cfg p)"
  shows "\<exists>pid env port. map_of (lp_procs p') pid = Some env
    \<and> (\<forall>lib dotenv getenv exists fmt req.
         koanf_layers lib (env_vars env) dotenv \<and> (\<forall>(n, key) \<in> set identity_keys. clear (forge_layer lib (env_vars env)) key)
         \<and> req = register_request fmt (Load lib getenv exists WorkerDefaults) \<longrightarrow>
         rq_WorkerId req = wid \<and> rq_Endpoint req = ''127.0.0.1:'' @ itoa port \<and> rq_RuntimeKind req = ''RUNTIME_KIND_OLLAMA''
         \<and> map (\<lambda>m. (sm_BaseModel m, sm_Adapter m)) (rq_Models req) = [(fm_BaseModel md, '''')])"
proof -
  obtain port pid where pid: "map_of (lp_procs p') pid = Some (worker_env (lp_cfg p) (oe_Environ os) wid md port)"
    using Local_Provision_starts [OF assms] by blast
  let ?env = "worker_env (lp_cfg p) (oe_Environ os) wid md port"
  have kind: "RuntimeKind_of ''RUNTIME_KIND_OLLAMA'' = ''RUNTIME_KIND_OLLAMA''"
    by (simp add: RuntimeKind_of_def RuntimeKind_names_def)
  have "rq_WorkerId req = wid \<and> rq_Endpoint req = ''127.0.0.1:'' @ itoa port \<and> rq_RuntimeKind req = ''RUNTIME_KIND_OLLAMA''
      \<and> map (\<lambda>m. (sm_BaseModel m, sm_Adapter m)) (rq_Models req) = [(fm_BaseModel md, '''')]"
    if "koanf_layers lib (env_vars ?env) dotenv" "\<forall>(n, key) \<in> set identity_keys. clear (forge_layer lib (env_vars ?env)) key"
      "req = register_request fmt (Load lib getenv exists WorkerDefaults)" for lib dotenv getenv exists fmt req
    using worker_config_identity [OF that(1,2), of getenv exists]
    by (simp add: that(3) register_request_def identity_of_worker_def kind)
  with pid show ?thesis by blast
qed

text \<open>
  C11. Scale from zero, end to end. Take a manager with a lifecycle over the local provisioner, which starts processes and is served
  by its operating system, and a model string that no ready worker serves and whose policy has no minimum (\<open>NeedsActivation\<close>). Then
  a chat request for it whose selection fails leaves the manager with one more worker being provisioned and a process whose environment names exactly
  the string the client sent as its base model: a model nobody knows, or \<open>base#adapter\<close> as a whole. A chat
  request for it whose selection succeeds leaves the manager as it was.
\<close>

theorem cold_request_provisions:
  assumes "mgr_ok local_issued m" and "mg_lifecycle m" and "\<not> lc_TrackOnly (lp_cfg (mg_prov m))" and "os_serves os"
    and "fleet_chat_select sum64 (Local_Provision et os) snap views ctx model prompt h m = (res, m')"
    and "NeedsActivation snap model m"
  shows "if isl (fst (rankWorkers sum64 model prompt h))
         then provisioningCount \<lparr>fm_BaseModel = model, fm_Adapter = ''''\<rparr> m'
                = provisioningCount \<lparr>fm_BaseModel = model, fm_Adapter = ''''\<rparr> m + 1
            \<and> (\<exists>pid env. map_of (lp_procs (mg_prov m')) pid = Some env
                 \<and> map_of (env_vars env) ''FORGE_WORKER_MODEL_BASE'' = Some model)
            \<and> tracked_model m' model
         else m' = m"
proof -
  let ?md = "\<lparr>fm_BaseModel = model, fm_Adapter = ''''\<rparr>"
  obtain r h1 where r: "rankWorkers sum64 model prompt h = (r, h1)" by (metis prod.exhaust)
  have cold: "readyCount snap ?md m = 0" using assms(6) by (simp add: NeedsActivation_def Let_def split: if_splits)
  note succ = os_serves_provision [OF assms(4)]
  obtain w p' where p: "Local_Provision et os ?md (mg_prov m) = (Inr w, p')"
    using succ [of et ?md "mg_prov m"] by (cases "Local_Provision et os ?md (mg_prov m)") (auto simp: isl_def split: sum.splits, metis sum.exhaust)
  obtain m1 where m1: "snd (Activate (Local_Provision et os) snap model m) = m1"
    "provisioningCount ?md m1 = provisioningCount ?md m + 1" "mg_prov m1 = p'"
    using activate_grows [OF assms(1,2) cold succ] p by (metis snd_conv)
  have "\<exists>pid env. map_of (lp_procs p') pid = Some env \<and> map_of (env_vars env) ''FORGE_WORKER_MODEL_BASE'' = Some model"
    using Local_Provision_starts [OF p assms(3)] env_vars_pairs [OF worker_vars_names(2,1) worker_vars_values(4)]
    by (metis (no_types, lifting) worker_env_vars FleetModel.select_convs(1))
  moreover have "tracked_model m1 model"
  proof -
    have "fst (Activate (Local_Provision et os) snap model m) = None"
      using cold p by (simp add: Activate_def scaleUp_def scale_call_def scale_begin_def Let_def)
    then show ?thesis using fleet_activator.activate_comes [OF assms(6)] m1(1) by (metis prod.collapse)
  qed
  moreover have "m' = (if isl r then m1 else m)"
    using assms(5,6) r m1(1) by (auto simp: fleet_chat_select_def fleet_activator.attempted_def split: sum.splits)
  ultimately show ?thesis using r m1 by simp
qed

theorem cold_request_provisions_witness:
  "\<exists>m'. snd (fleet_chat_select (\<lambda>_. 0) (Local_Provision (\<lambda>_. '''') open_os) None [] None ''no/such#thing'' ''hi'' demo_handler demo_manager) = m'
     \<and> provisioningCount \<lparr>fm_BaseModel = ''no/such#thing'', fm_Adapter = ''''\<rparr> m' = 1
     \<and> (\<exists>pid env. map_of (lp_procs (mg_prov m')) pid = Some env
          \<and> map_of (env_vars env) ''FORGE_WORKER_MODEL_BASE'' = Some ''no/such#thing'')"
proof -
  let ?model = "''no/such#thing''" and ?prov = "Local_Provision (\<lambda>_. '''') open_os"
  obtain res m' where s: "fleet_chat_select (\<lambda>_. 0) ?prov None [] None ?model ''hi'' demo_handler demo_manager = (res, m')"
    by (metis prod.exhaust)
  have ok: "mgr_ok local_issued demo_manager" "mg_lifecycle demo_manager" "\<not> lc_TrackOnly (lp_cfg (mg_prov demo_manager))"
    by (simp_all add: demo_manager_def NewManager_def mgr_ok_def NewLocalProcessWithConfig_def Fleet_Provision.demo_cfg_def Let_def)
  have n: "NeedsActivation None ?model demo_manager"
    by (simp add: NeedsActivation_def Policy_Get_def demo_manager_def NewManager_def NewPolicyCache_def DefaultPolicy_def
        readyCount_def ready_ids_def snap_views_def)
  have z: "provisioningCount md demo_manager = 0" for md by (simp add: provisioningCount_def demo_manager_def NewManager_def)
  have "isl (fst (rankWorkers (\<lambda>_. 0) ?model ''hi'' demo_handler))"
    by (simp add: rankWorkers_def SelectWorkers_def demo_handler_def NewHandler_def)
  then show ?thesis using cold_request_provisions [OF ok open_os_serves s n] s by (simp add: z)
qed

lemma env_vars_fresh:
  assumes "\<forall>kv \<in> set ps. CHR ''='' \<notin> set (fst kv)" "distinct (map fst ps)"
  shows "env_vars (map show_var ps) = ps"
proof -
  have upd: "k \<notin> fst ` set m \<Longrightarrow> AList.update k v m = m @ [(k, v)]" for k v and m :: "(string \<times> string) list"
    by (induction m) auto
  have "fold (\<lambda>s m. case env_entry_of s of None \<Rightarrow> m | Some (k, v) \<Rightarrow> AList.update k v m) (map show_var ps) m = m @ ps"
    if "fst ` set m \<inter> fst ` set ps = {}" for m
    using that assms
  proof (induction ps arbitrary: m)
    case (Cons kv ps)
    have "env_entry_of (show_var kv) = Some (fst kv, snd kv)" using Cons.prems(2) by (intro env_entry_eq) simp
    with Cons.IH [of "m @ [kv]"] Cons.prems upd [of "fst kv" m "snd kv"] show ?case by (cases kv) auto
  qed simp
  from this [of "[]"] show ?thesis by (simp add: env_vars_def)
qed

lemma demo_provisioner:
  "lp_cfg (mg_prov demo_manager) = \<lparr>lc_Binary = ''w'', lc_EnvFile = '''', lc_BaseGRPCPort = 50100, lc_ControlPlane = '''', lc_RedisURL = '''',
     lc_DBURL = '''', lc_OllamaURL = ''http://127.0.0.1:11434'', lc_TrackOnly = False\<rparr>" "lp_procs (mg_prov demo_manager) = []"
  by (simp_all add: demo_manager_def NewManager_def NewLocalProcessWithConfig_def Fleet_Provision.demo_cfg_def Let_def)

lemma worker_vars_read:
  "reads_as ''FORGE_WORKER_ID'' ''worker.id''" "reads_as ''FORGE_WORKER_ENDPOINT'' ''worker.endpoint''"
  "reads_as ''FORGE_WORKER_GRPC_ADDR'' ''worker.grpc.addr''" "reads_as ''FORGE_METRICS_ADDR'' ''metrics.addr''"
  "reads_as ''FORGE_WORKER_RUNTIME'' ''worker.runtime''" "reads_as ''FORGE_WORKER_MODEL_BASE'' ''worker.model.base''"
  "reads_as ''FORGE_WORKER_MODEL_CONTEXT'' ''worker.model.context''" "reads_as ''FORGE_WORKER_COST_PER_HOUR'' ''worker.cost.per.hour''"
  "reads_as ''FORGE_WORKER_COST_CLASS'' ''worker.cost.class''" "reads_as ''FORGE_OLLAMA_URL'' ''ollama.url''"
  "reads_as ''FORGE_OTLP_ENDPOINT'' ''otlp.endpoint''"
  by code_simp+

lemmas worker_var_keys = worker_vars_read [THEN reads_as_key]

lemma demo_vars_clear:
  "\<forall>(n, key) \<in> set identity_keys. clear (forge_layer lib (worker_vars (lp_cfg (mg_prov demo_manager)) wid md port)) key"
  by (simp add: demo_provisioner worker_vars_def env_layer_def has_prefix_def worker_var_keys identity_keys_def clear_def above_def)

theorem provisioned_worker_registers_witness:
  "\<exists>wid p' pid env. Local_Provision (\<lambda>_. '''') (open_os\<lparr>oe_Environ := []\<rparr>) \<lparr>fm_BaseModel = ''m'', fm_Adapter = ''sql''\<rparr> (mg_prov demo_manager) = (Inr wid, p')
     \<and> map_of (lp_procs p') pid = Some env
     \<and> rq_WorkerId (register_request (\<lambda>_. ''0'') (Load (layered_lib (env_vars env) (\<lambda>_. [])) (\<lambda>_. '''') (\<lambda>_. False) WorkerDefaults)) = wid"
proof -
  let ?md = "\<lparr>fm_BaseModel = ''m'', fm_Adapter = ''sql''\<rparr>" and ?os = "open_os\<lparr>oe_Environ := []\<rparr>"
  let ?p = "mg_prov demo_manager"
  have "os_serves ?os" using open_os_serves by (simp add: os_serves_def)
  then obtain wid p' where p: "Local_Provision (\<lambda>_. '''') ?os ?md ?p = (Inr wid, p')"
    using os_serves_provision [of ?os "\<lambda>_. ''''" ?md ?p]
    by (cases "Local_Provision (\<lambda>_. '''') ?os ?md ?p") (auto simp: isl_def split: sum.splits, metis sum.exhaust)
  have t: "\<not> lc_TrackOnly (lp_cfg ?p)"
    by (simp add: demo_manager_def NewManager_def NewLocalProcessWithConfig_def Fleet_Provision.demo_cfg_def Let_def)
  obtain pid env port where env: "map_of (lp_procs p') pid = Some env" and reg: "\<And>lib dotenv getenv exists fmt.
      koanf_layers lib (env_vars env) dotenv \<Longrightarrow> \<forall>(n, key) \<in> set identity_keys. clear (forge_layer lib (env_vars env)) key \<Longrightarrow>
      rq_WorkerId (register_request fmt (Load lib getenv exists WorkerDefaults)) = wid"
    using provisioned_worker_registers [OF p t] by blast
  have "env = worker_env (lp_cfg ?p) [] wid ?md 50100"
  proof -
    have "freePortNear (oe_free ?os) 50100 = Inr 50100"
      by (simp add: freePortNear_def open_os_def numeral_eq_Suc)
    then show ?thesis using p env t demo_provisioner
      by (auto simp: Local_Provision_def call_ready_def worker_binary_def open_os_def demo_os_def Let_def split: if_splits)
  qed
  then have "env_vars env = worker_vars (lp_cfg ?p) wid ?md 50100"
    by (simp only: worker_env_vars append_Nil env_vars_fresh [OF worker_vars_names(2,1)])
  then have "\<forall>(n, key) \<in> set identity_keys. clear (forge_layer lib (env_vars env)) key" for lib using demo_vars_clear by simp
  then show ?thesis using p env reg [OF layered_lib_layers] by blast
qed

text \<open>
  C32. Whatever numbers the configuration yields (a missing key reads as zero), the components are built with usable
  parameters: the handler admits at least one request per worker and makes at least one attempt, the retry budget
  starts full and refills, the breakers need at least one request, a positive ratio and a positive pause, latencies
  decay, the tickers have positive intervals. The ranking filters on the admission limit exactly when the configured limit is positive, so a limit of zero or
  less makes the handler enforce four per worker while the ranking does not look at the load.
\<close>

theorem wired_components_ok:
  "gh_admissionLimit (cp_handler k sel) > 0 \<and> gh_maxAttempts (cp_handler k sel) > 0 \<and> gh_retryAfterSec (cp_handler k sel) > 0
   \<and> (\<exists>b. Budget (cp_failover k) = Some b \<and> tokens b = maxTokens b \<and> 0 < maxTokens b \<and> 0 < tokenRatio b)
   \<and> Max_attempts (cp_failover k) = gh_maxAttempts (cp_handler k sel)
   \<and> MinRequests (bm_cfg (cp_breakers k)) \<noteq> 0 \<and> 0 < FailureRatio (bm_cfg (cp_breakers k))
   \<and> 0 < Timeout (bm_cfg (cp_breakers k)) \<and> MaxHalfOpen (bm_cfg (cp_breakers k)) = 2
   \<and> 0 < la_tau (se_latency (cp_selector k snap cat policy overlap))
   \<and> 0 < gl_MaxBodyBytes (http_limits hash answer k) \<and> 0 < fst (cp_intervals k) \<and> 0 < snd (cp_intervals k)
   \<and> (if 0 < k_Int k ''admission.per.worker.limit''
      then AdmissionFilter (gh_admissionLimit (cp_handler k sel)) \<in> set (ch_Filters (se_chain (cp_selector k snap cat policy overlap)))
      else gh_admissionLimit (cp_handler k sel) = 4
         \<and> (\<forall>n. AdmissionFilter n \<notin> set (ch_Filters (se_chain (cp_selector k snap cat policy overlap)))))"
proof -
  have "gh_admissionLimit (cp_handler k sel) > 0 \<and> gh_maxAttempts (cp_handler k sel) > 0 \<and> gh_retryAfterSec (cp_handler k sel) > 0"
    "Max_attempts (cp_failover k) = gh_maxAttempts (cp_handler k sel)"
    by (simp_all add: cp_handler_def NewHandler_def cp_failover_def NewFailover_def)
  moreover have "\<exists>b. Budget (cp_failover k) = Some b \<and> tokens b = maxTokens b \<and> 0 < maxTokens b \<and> 0 < tokenRatio b"
    by (simp add: cp_failover_def NewFailover_def NewRetryBudget_def Let_def)
  moreover have "MinRequests (bm_cfg (cp_breakers k)) \<noteq> 0 \<and> 0 < FailureRatio (bm_cfg (cp_breakers k))
      \<and> 0 < Timeout (bm_cfg (cp_breakers k)) \<and> MaxHalfOpen (bm_cfg (cp_breakers k)) = 2"
    by (simp add: cp_breakers_def NewBreakerMap_def Let_def)
  moreover have "0 < la_tau (se_latency (cp_selector k snap cat policy overlap))" "0 < gl_MaxBodyBytes (http_limits hash answer k)"
    "0 < fst (cp_intervals k)" "0 < snd (cp_intervals k)"
    by (simp_all add: cp_intervals_def health_interval_def publish_interval_def cp_selector_def NewSnapshotSelector_def NewLatencyStore_def http_limits_def Let_def)
  moreover have "if 0 < k_Int k ''admission.per.worker.limit''
      then AdmissionFilter (gh_admissionLimit (cp_handler k sel)) \<in> set (ch_Filters (se_chain (cp_selector k snap cat policy overlap)))
      else gh_admissionLimit (cp_handler k sel) = 4
         \<and> (\<forall>n. AdmissionFilter n \<notin> set (ch_Filters (se_chain (cp_selector k snap cat policy overlap))))"
    by (simp add: cp_handler_def NewHandler_def cp_selector_def NewSnapshotSelector_def NewConfiguredChain_def chain_config_def Let_def)
  ultimately show ?thesis by simp
qed

lemma spec_apply_stored_again: "ev_Type ev = ''stored'' \<Longrightarrow> spec_apply ev (spec_apply ev r) = spec_apply ev r"
  by (auto simp: spec_apply_def fun_eq_iff split: if_splits)

text \<open>
  An event posted to one control plane and its other replicas: a \<open>stored\<close> event (also one without a type) is applied
  here, applied again without effect when this process receives its own message, and applied by every replica that
  receives the message; an eviction is applied here only, since no message is published, so a replica keeps the blocks.
\<close>

theorem cache_events_replicas:
  assumes "cache_events hex (Inr ev0) now a = (st, a', cmds, msg)"
    and "ev = (if ev_Type ev0 = '''' then ev0\<lparr>ev_Type := ''stored''\<rparr> else ev0)"
    and "echo = (\<lambda>s. case msg of None \<Rightarrow> s | Some e \<Rightarrow> Apply s e later)"
  shows "st = 200 \<and> holds_block (sv_index a') = spec_apply ev (holds_block (sv_index a))
    \<and> holds_block (sv_index (echo a')) = holds_block (sv_index a')
    \<and> holds_block (sv_index (echo b)) =
        (if ev_Type ev = ''stored'' then spec_apply ev (holds_block (sv_index b)) else holds_block (sv_index b))"
proof (cases "ev_Type ev = ''stored''")
  case True
  have r: "st = 200" "a' = Apply a ev now" "msg = Some ev"
    using assms(1) True unfolding assms(2) by (cases ev0; auto simp: cache_events_def Report_def Let_def split: if_splits)+
  then show ?thesis
    using True by (simp add: assms(3) Apply_def publishSnapshot_def apply_index_refines spec_apply_stored_again)
next
  case False
  then have "st = 200" "a' = Apply a ev now" "msg = None"
    using assms(1) unfolding assms(2) by (auto simp: cache_events_def Let_def split: if_splits)
  then show ?thesis using False by (simp add: assms(3) Apply_def publishSnapshot_def apply_index_refines)
qed

definition demo_event :: Event where
  "demo_event = \<lparr>ev_Type = ''removed'', ev_WorkerID = ''w'', ev_BaseModel = ''m'', ev_Adapter = '''', ev_Tier = '''', ev_Hashes = [7]\<rparr>"

theorem cache_events_replicas_witness:
  "\<exists>st a' cmds msg. cache_events (\<lambda>_. '''') (Inr demo_event) 5 (NewCacheService 0) = (st, a', cmds, msg) \<and> st = 200
     \<and> holds_block (sv_index a') = spec_apply demo_event (holds_block (sv_index (NewCacheService 0)))"
proof -
  obtain st a' cmds msg where r: "cache_events (\<lambda>_. '''') (Inr demo_event) 5 (NewCacheService 0) = (st, a', cmds, msg)"
    by (metis prod.exhaust)
  with cache_events_replicas [OF r refl refl] show ?thesis by (auto simp: demo_event_def)
qed

end
