(* ===== verification/Services.thy ===== *)
theory Services
  imports Control_Plane
begin

text \<open>
  The background loops of the control plane and the process they share. Every service has a \<open>Start\<close> that loads its
  view once and goroutines that refresh it on a ticker or on a message (\<open>catalog/snapshot.go\<close>, \<open>provider/registry.go\<close>,
  the key loop of \<open>serveHTTP\<close>, \<open>fleet/policy.go\<close>): the locale \<open>refresher\<close> is what those four promise, and it is
  interpreted on each of them. The process is the record \<open>control_plane\<close>, one event is one turn of one goroutine, and
  a run is any interleaving of turns, as \<open>run\<close> in \<open>cmd/forge-controlplane/main.go\<close> starts them.
\<close>

section \<open>Refreshed views\<close>

text \<open>The newest good world of a run.\<close>

definition newest_good :: "('w \<Rightarrow> bool) \<Rightarrow> 'w list \<Rightarrow> 'w option" where
  "newest_good good ws = find good (rev ws)"

lemma newest_good_split:
  assumes "newest_good good ws = Some w"
  shows "\<exists>us vs. ws = us @ w # vs \<and> good w \<and> (\<forall>v \<in> set vs. \<not> good v)"
proof -
  obtain i where i: "i < length (rev ws)" "good (rev ws ! i)" "w = rev ws ! i" "\<forall>j < i. \<not> good (rev ws ! j)"
    using assms by (auto simp: newest_good_def find_Some_iff)
  have "rev ws = take i (rev ws) @ w # drop (Suc i) (rev ws)" using i(1,3) by (simp add: id_take_nth_drop)
  then have "ws = rev (drop (Suc i) (rev ws)) @ w # rev (take i (rev ws))"
    by (metis append_Cons append_Nil append_assoc rev.simps(2) rev_append rev_rev_ident)
  moreover have "\<forall>v \<in> set (rev (take i (rev ws))). \<not> good v"
    using i(1,4) by (auto simp: in_set_conv_nth)
  ultimately show ?thesis using i(2,3) by metis
qed

lemma newest_good_none: "newest_good good ws = None \<longleftrightarrow> (\<forall>w \<in> set ws. \<not> good w)"
  by (auto simp: newest_good_def find_None_iff)

text \<open>
  A refresh meets a world (what the database answers). In a good world it succeeds and the view is the
  one that world determines; in a bad one it reports an error and keeps the view.
\<close>

locale refresher =
  fixes refresh :: "'w \<Rightarrow> 'v \<Rightarrow> goerr option \<times> 'v"
    and good :: "'w \<Rightarrow> bool"
    and fresh :: "'w \<Rightarrow> 'v \<Rightarrow> bool"
    and valid :: "'v \<Rightarrow> bool"
  assumes good_fresh: "valid v \<Longrightarrow> good w \<Longrightarrow> \<exists>v'. refresh w v = (None, v') \<and> fresh w v'"
    and bad_keeps: "valid v \<Longrightarrow> \<not> good w \<Longrightarrow> \<exists>e. refresh w v = (Some e, v)"
    and valid_refresh: "valid v \<Longrightarrow> valid (snd (refresh w v))"
begin

definition refreshes :: "'w list \<Rightarrow> 'v \<Rightarrow> 'v" where
  "refreshes ws v = fold (\<lambda>w v. snd (refresh w v)) ws v"

lemma refreshes_valid: "valid v \<Longrightarrow> valid (refreshes ws v)"
  unfolding refreshes_def by (induction ws arbitrary: v) (simp_all add: valid_refresh)

lemma refreshes_bad: "valid v \<Longrightarrow> \<forall>w \<in> set ws. \<not> good w \<Longrightarrow> refreshes ws v = v"
  unfolding refreshes_def by (induction ws) (auto dest!: bad_keeps)

lemma refreshes_newest:
  assumes "valid v" and "good w" and "\<forall>w' \<in> set ws'. \<not> good w'"
  shows "fresh w (refreshes (ws @ w # ws') v)"
proof -
  let ?v = "refreshes ws v"
  have "valid ?v" using assms(1) by (rule refreshes_valid)
  then obtain v' where "refresh w ?v = (None, v')" "fresh w v'" using good_fresh assms(2) by blast
  moreover have "valid v'" using valid_refresh [OF \<open>valid ?v\<close>, of w] calculation(1) by simp
  moreover have "refreshes (ws @ w # ws') v = refreshes ws' (snd (refresh w ?v))" by (simp add: refreshes_def)
  ultimately show ?thesis using refreshes_bad [OF _ assms(3)] by simp
qed

lemma refreshes_cases:
  assumes "valid v"
  shows "case newest_good good ws of None \<Rightarrow> refreshes ws v = v | Some w \<Rightarrow> fresh w (refreshes ws v)"
proof (cases "newest_good good ws")
  case None
  then show ?thesis using refreshes_bad [OF assms] newest_good_none [of good ws] by simp
next
  case (Some w)
  then show ?thesis using newest_good_split [OF Some] refreshes_newest [OF assms] by auto
qed

end

subsection \<open>The catalog\<close>

text \<open>The tables belong to the world: other replicas and the catalog command write them too.\<close>

record catalog_world =
  cw_fault :: "nat \<Rightarrow> goerr option"
  cw_ids :: "nat \<Rightarrow> string"
  cw_now :: int
  cw_servable :: "ServableModel list"
  cw_db :: catalog_db

definition catalog_refresh :: "catalog_world \<Rightarrow> CatalogSnapshot option \<Rightarrow> goerr option \<times> CatalogSnapshot option" where
  "catalog_refresh w h =
     (case Rebuild (cw_fault w) (cw_ids w) (cw_now w) (cw_servable w) (cw_db w) h of (e, _, h') \<Rightarrow> (e, h'))"

definition catalog_good :: "catalog_world \<Rightarrow> bool" where
  "catalog_good w \<longleftrightarrow> fst (catalog_refresh w None) = None"

text \<open>
  \<open>Start\<close> and \<open>subscribe\<close>: the first world is that of the initial rebuild, the others those of the ticks and the
  messages, as the two goroutines come to them.
\<close>

definition catalog_Start :: "catalog_world list \<Rightarrow> CatalogSnapshot option \<Rightarrow> CatalogSnapshot option" where
  "catalog_Start ws h = fold (\<lambda>w h. snd (catalog_refresh w h)) ws h"

interpretation catalog_service: refresher catalog_refresh catalog_good "\<lambda>w h. h = snd (catalog_refresh w None)" "\<lambda>_. True"
  by unfold_locales
    (auto simp: catalog_refresh_def catalog_good_def Rebuild_def split: prod.splits sum.splits)

text \<open>\<open>PublishChanged\<close>: without Redis it does nothing, otherwise the answer of \<open>PUBLISH\<close>; the payload is not read.\<close>

definition PublishChanged :: "(string \<Rightarrow> string) \<Rightarrow> goerr option option \<Rightarrow> string \<Rightarrow> goerr option \<times> (string \<times> string) option" where
  "PublishChanged marshal rdb reason =
     (case rdb of
        None \<Rightarrow> (None, None)
      | Some e \<Rightarrow> (e, Some (''forge:models:changed'', marshal reason)))"

subsection \<open>The provider registry\<close>

type_synonym provider_world = "(goerr + ProviderRow list) \<times> (goerr + ModelMap list)"

definition provider_refresh :: "(string \<Rightarrow> string) \<Rightarrow> provider_world \<Rightarrow> ProviderRegistry \<Rightarrow> goerr option \<times> ProviderRegistry" where
  "provider_refresh getenv w r = provider_Reload getenv (Some (fst w)) (snd w) r"

definition provider_good :: "provider_world \<Rightarrow> bool" where
  "provider_good w \<longleftrightarrow> \<not> isl (fst w) \<and> \<not> isl (snd w)"

definition provider_Start :: "(string \<Rightarrow> string) \<Rightarrow> provider_world list \<Rightarrow> ProviderRegistry \<Rightarrow> ProviderRegistry" where
  "provider_Start getenv ws r = fold (\<lambda>w r. snd (provider_refresh getenv w r)) ws r"

interpretation provider_service:
  refresher "provider_refresh getenv" provider_good "\<lambda>w r. r = snd (provider_refresh getenv w NewRegistry)" "\<lambda>_. True"
  for getenv
  by unfold_locales (auto simp: provider_refresh_def provider_good_def provider_Reload_def Let_def isl_def split: sum.splits)

subsection \<open>The gateway keys\<close>

text \<open>
  The ticker of \<open>serveHTTP\<close>. After a good reload every row is stored under its hash (the last of a hash wins), and every
  other key has an id that starts with \<open>env-\<close>.
\<close>

definition keys_loop :: "(goerr + APIKey list) list \<Rightarrow> KeyStore \<Rightarrow> KeyStore" where
  "keys_loop answers s = fold (\<lambda>a s. snd (Reload s a)) answers s"

definition keys_fresh :: "goerr + APIKey list \<Rightarrow> KeyStore \<Rightarrow> bool" where
  "keys_fresh answer s \<longleftrightarrow>
     (\<forall>h. case find (\<lambda>r. ak_KeyHash r = h) (rev (case answer of Inr rows \<Rightarrow> rows | Inl _ \<Rightarrow> [])) of
            Some r \<Rightarrow> map_of (ks_byHash s) h = Some (row_identity r)
          | None \<Rightarrow> (\<forall>c. map_of (ks_byHash s) h = Some c \<longrightarrow> has_prefix (ci_KeyID c) ''env-''))"

lemma fold_update_find:
  "map_of (fold (\<lambda>r m. AList.update (key r) (val r) m) rows m) h =
     (case find (\<lambda>r. key r = h) (rev rows) of Some r \<Rightarrow> Some (val r) | None \<Rightarrow> map_of m h)"
  by (induction rows rule: rev_induct) (auto simp: update_conv)

interpretation keys_service: refresher "\<lambda>a s. Reload s a" "\<lambda>a. \<not> isl a" keys_fresh ks_hasDB
proof (unfold_locales, goal_cases)
  case (1 s a)
  then obtain rows where a: "a = Inr rows" by (cases a) auto
  let ?env = "filter (\<lambda>(h, c). has_prefix (ci_KeyID c) ''env-'') (ks_byHash s)"
  let ?s = "s\<lparr>ks_byHash := fold (\<lambda>r m. AList.update (ak_KeyHash r) (row_identity r) m) rows ?env\<rparr>"
  have env: "has_prefix (ci_KeyID c) ''env-''" if "map_of ?env h = Some c" for h c
    using map_of_SomeD [OF that] by simp
  have look: "map_of (ks_byHash ?s) h =
      (case find (\<lambda>r. ak_KeyHash r = h) (rev rows) of Some r \<Rightarrow> Some (row_identity r) | None \<Rightarrow> map_of ?env h)" for h
    by (simp add: fold_update_find)
  have "case find (\<lambda>r. ak_KeyHash r = h) (rev rows) of Some r \<Rightarrow> map_of (ks_byHash ?s) h = Some (row_identity r)
      | None \<Rightarrow> \<forall>c. map_of (ks_byHash ?s) h = Some c \<longrightarrow> has_prefix (ci_KeyID c) ''env-''" for h
    unfolding look by (cases "find (\<lambda>r. ak_KeyHash r = h) (rev rows)") (simp_all only: option.simps, blast dest: env)
  then have "keys_fresh a ?s" unfolding keys_fresh_def a sum.simps by blast
  then show ?case using 1(1) by (simp add: a Reload_def)
next
  case (2 s a)
  then show ?case by (cases a) (simp_all add: Reload_def)
next
  case (3 s a)
  then show ?case by (cases a) (simp_all add: Reload_def)
qed

subsection \<open>The scaling policies\<close>

interpretation policy_cache:
  refresher Policy_Reload "\<lambda>err. err = None"
    "\<lambda>_ c. pc_by c = fold (\<lambda>r m. m(fleet_key (policy_model r) \<mapsto> r)) (the (pc_rows c)) Map.empty" "\<lambda>c. pc_rows c \<noteq> None"
  by unfold_locales (auto simp: Policy_Reload_def split: option.splits)

section \<open>The process\<close>

text \<open>What the process calls and cannot see into: JSON, hashes and the environment.\<close>

record cp_libs =
  li_getenv :: "string \<Rightarrow> string"
  li_heartbeat :: "string \<Rightarrow> Heartbeat option"
  li_caps :: "string \<Rightarrow> string \<Rightarrow> CapabilityView"
  li_snapshot :: "RoutingSnapshot \<Rightarrow> goerr + string"
  li_unsnapshot :: "string \<Rightarrow> goerr + RoutingSnapshot"
  li_policy :: "PlannerPolicy \<Rightarrow> string"
  li_unpolicy :: "string \<Rightarrow> goerr + PlannerPolicy"
  li_wire :: "string \<Rightarrow> goerr + policy_wire"
  li_sha8 :: "string \<Rightarrow> string"
  li_event :: "string \<Rightarrow> goerr + Event"

text \<open>
  The state the goroutines share: the live set, the catalog's holder, the provider registry, the publisher with
  the snapshot holder, the planner with the policy holder, the fleet manager, the cache registry and the gateway keys.
  \<open>cp_copies\<close> are the scoring snapshots that a goroutine in \<open>publishSnapshot\<close> has copied from the index and not yet stored.
\<close>

record 'p control_plane =
  cp_live :: live
  cp_catalog :: "CatalogSnapshot option"
  cp_providers :: ProviderRegistry
  cp_publisher :: Publisher
  cp_planner :: PlannerService
  cp_fleet :: "'p Manager"
  cp_cache :: CacheService
  cp_copies :: "CacheSnapshot list"
  cp_keys :: KeyStore

abbreviation cp_snapshot :: "'p control_plane \<Rightarrow> RoutingSnapshot option" where
  "cp_snapshot s \<equiv> pb_holder (cp_publisher s)"

text \<open>
  One turn of one goroutine, with what the outside answers it: \<open>reconcileLoop\<close> and \<open>listenKeyevents\<close>; the catalog's
  ticker or subscription; the provider registry's ticker; the publisher's ticker; \<open>RunSubscriber\<close> and
  \<open>RunPolicySubscriber\<close>; the planner's first read and its loop; the fleet loop; the key ticker; and \<open>tryActivate\<close> of a
  request whose selection failed. The cache registry is used by its ticker, its subscription and the requests to
  \<open>/internal/cache/events\<close> at once, so its turns are smaller: the subscription or a request changes the index, under the index's lock
  (\<open>Cache_msg\<close>, \<open>Cache_post\<close>); any of them copies the index, under the same lock (\<open>Cache_copy\<close>); and stores its copy in the
  holder, without it (\<open>Cache_store\<close>, the one at that position of \<open>cp_copies\<close>).
\<close>

datatype 'p cp_event =
    Health_tick "u64 \<Rightarrow> goerr + string list \<times> u64" "string \<Rightarrow> redis_get"
  | Key_event "string \<Rightarrow> redis_get" "string \<times> string"
  | Catalog_tick catalog_world
  | Provider_tick provider_world
  | Publish_tick "goerr + Worker list" int "goerr option"
  | Snapshot_msg string
  | Policy_msg "goerr + string"
  | Planner_load "goerr option"
  | Planner_tick tick_env
  | Fleet_tick "'p provision_fn" "'p retire_fn" "goerr option" int drain_env
  | Cache_msg string
  | Cache_post Event
  | Cache_copy int
  | Cache_store nat
  | Keys_tick "goerr + APIKey list"
  | Cold_request "'p provision_fn" string

text \<open>
  A scan that never ends blocks its goroutine and changes nothing; a panic in a goroutine ends the process, since
  only the HTTP handlers recover.
\<close>

definition health_turn ::
  "cp_libs \<Rightarrow> (u64 \<Rightarrow> goerr + string list \<times> u64) \<Rightarrow> (string \<Rightarrow> redis_get) \<Rightarrow> live \<Rightarrow> live outcome" where
  "health_turn L scan get live =
     (case reconcileOnce scan get (li_heartbeat L) live of
        None \<Rightarrow> Ret live
      | Some Panic \<Rightarrow> Panic
      | Some (Ret (_, live')) \<Rightarrow> Ret live')"

definition publish_turn ::
  "cp_libs \<Rightarrow> goerr + Worker list \<Rightarrow> int \<Rightarrow> goerr option \<Rightarrow> 'p control_plane \<Rightarrow> Publisher" where
  "publish_turn L listed now refused s =
     fst (snd (Publisher_tick (li_caps L) (li_snapshot L) (cp_publisher s) listed (Some (cp_live s))
       (Some (SnapshotViews (cp_providers s))) now refused))"

text \<open>\<open>Apply\<close> up to its call of \<open>publishSnapshot\<close>, whose two halves follow.\<close>

definition cache_index :: "Event \<Rightarrow> CacheService \<Rightarrow> CacheService" where
  "cache_index ev c = c\<lparr>sv_index := apply_index ev (sv_index c)\<rparr>"

definition cache_msg :: "cp_libs \<Rightarrow> string \<Rightarrow> CacheService \<Rightarrow> CacheService" where
  "cache_msg L payload c = (case li_event L payload of Inl _ \<Rightarrow> c | Inr ev \<Rightarrow> cache_index ev c)"

definition cache_copy :: "int \<Rightarrow> CacheService \<Rightarrow> CacheSnapshot" where
  "cache_copy now c = \<lparr>cs_WorkerBlocks = SnapshotForScoring (sv_index c), cs_BuiltAt = now\<rparr>"

definition cache_store :: "nat \<Rightarrow> 'p control_plane \<Rightarrow> 'p control_plane" where
  "cache_store i s =
     (if i < length (cp_copies s)
      then s\<lparr>cp_cache := (cp_cache s)\<lparr>sv_holder := Some (cp_copies s ! i)\<rparr>, cp_copies := drop_nth i (cp_copies s)\<rparr>
      else s)"

text \<open>
  The fleet loop's \<open>ReconcileAll\<close>, as one turn: the holder is read when it begins (\<open>Fleet_Interleaving\<close> has the steps of the
  manager interleaved with those of its other goroutines).
\<close>

definition fleet_turn ::
  "'p provision_fn \<Rightarrow> 'p retire_fn \<Rightarrow> goerr option \<Rightarrow> int \<Rightarrow> drain_env \<Rightarrow> RoutingSnapshot option \<Rightarrow> 'p Manager \<Rightarrow> 'p Manager" where
  "fleet_turn prov ret err now de snap m =
     ReconcileAll prov ret (\<lambda>_. \<lparr>fe_snap_ready = snap, fe_snap_active = snap, fe_now = now, fe_drain = de\<rparr>) err snap m"

definition cp_step :: "cp_libs \<Rightarrow> 'p cp_event \<Rightarrow> 'p control_plane \<Rightarrow> 'p control_plane outcome" where
  "cp_step L e s =
     (case e of
        Health_tick scan get \<Rightarrow>
          (case health_turn L scan get (cp_live s) of Panic \<Rightarrow> Panic | Ret l \<Rightarrow> Ret (s\<lparr>cp_live := l\<rparr>))
      | Key_event get msg \<Rightarrow>
          (case keyevent get (li_heartbeat L) (cp_live s) msg of Panic \<Rightarrow> Panic | Ret l \<Rightarrow> Ret (s\<lparr>cp_live := l\<rparr>))
      | Catalog_tick w \<Rightarrow> Ret (s\<lparr>cp_catalog := snd (catalog_refresh w (cp_catalog s))\<rparr>)
      | Provider_tick w \<Rightarrow> Ret (s\<lparr>cp_providers := snd (provider_refresh (li_getenv L) w (cp_providers s))\<rparr>)
      | Publish_tick listed now refused \<Rightarrow> Ret (s\<lparr>cp_publisher := publish_turn L listed now refused s\<rparr>)
      | Snapshot_msg payload \<Rightarrow>
          Ret (s\<lparr>cp_publisher := (cp_publisher s)\<lparr>pb_holder := subscriber_msg (li_unsnapshot L) payload (cp_snapshot s)\<rparr>\<rparr>)
      | Policy_msg answer \<Rightarrow>
          Ret (s\<lparr>cp_planner := (cp_planner s)\<lparr>ps_out := map_option (policy_read (li_wire L) answer) (ps_out (cp_planner s))\<rparr>\<rparr>)
      | Planner_load getErr \<Rightarrow> Ret (s\<lparr>cp_planner := Planner_Start (li_unpolicy L) getErr (cp_planner s)\<rparr>)
      | Planner_tick te \<Rightarrow>
          Ret (s\<lparr>cp_planner := snd (planner_tick (li_sha8 L) (li_policy L) (te\<lparr>te_snap := cp_snapshot s\<rparr>) (cp_planner s))\<rparr>)
      | Fleet_tick prov ret err now de \<Rightarrow>
          Ret (s\<lparr>cp_fleet := fleet_turn prov ret err now de (cp_snapshot s) (cp_fleet s)\<rparr>)
      | Cache_msg payload \<Rightarrow> Ret (s\<lparr>cp_cache := cache_msg L payload (cp_cache s)\<rparr>)
      | Cache_post ev \<Rightarrow> Ret (s\<lparr>cp_cache := cache_index ev (cp_cache s)\<rparr>)
      | Cache_copy now \<Rightarrow> Ret (s\<lparr>cp_copies := cp_copies s @ [cache_copy now (cp_cache s)]\<rparr>)
      | Cache_store i \<Rightarrow> Ret (cache_store i s)
      | Keys_tick answer \<Rightarrow> Ret (s\<lparr>cp_keys := snd (Reload (cp_keys s) answer)\<rparr>)
      | Cold_request prov model \<Rightarrow>
          Ret (s\<lparr>cp_fleet := snd (fleet_activator.attempted (cp_snapshot s) prov (cp_fleet s) model)\<rparr>))"

fun cp_run :: "cp_libs \<Rightarrow> 'p cp_event list \<Rightarrow> 'p control_plane \<Rightarrow> 'p control_plane outcome" where
  "cp_run L [] s = Ret s"
| "cp_run L (e # es) s = (case cp_step L e s of Panic \<Rightarrow> Panic | Ret s' \<Rightarrow> cp_run L es s')"

text \<open>
  The process before \<open>run\<close> starts its services. The publisher of a new process counts from zero, whatever epochs
  other processes have reached.
\<close>

definition NewPublisher :: Publisher where
  "NewPublisher = \<lparr>pb_epoch = 0, pb_holder = None\<rparr>"

definition planner_NewService :: "ObjectiveStore \<Rightarrow> PolicyStore \<Rightarrow> PlannerService" where
  "planner_NewService objectives policies =
     \<lparr>ps_objectives = objectives, ps_policies = policies, ps_out = Some None, ps_version = 0, ps_interval = 45 * second\<rparr>"

definition NewObjectiveStore :: "goerr option \<Rightarrow> goerr option \<Rightarrow> nat \<Rightarrow> Objective list option \<Rightarrow> ObjectiveStore" where
  "NewObjectiveStore readErr createErr fresh rows =
     (let s = \<lparr>os_rows = rows, os_cur = DefaultObjective\<rparr> in
      if rows \<noteq> None then snd (Objective_Reload readErr createErr fresh s) else s)"

definition cp_new :: "ObjectiveStore \<Rightarrow> PolicyStore \<Rightarrow> PolicyCache \<Rightarrow> 'p \<Rightarrow> KeyStore \<Rightarrow> int \<Rightarrow> 'p control_plane" where
  "cp_new objectives policies fleet prov keys now =
     \<lparr>cp_live = [], cp_catalog = None, cp_providers = NewRegistry, cp_publisher = NewPublisher,
      cp_planner = planner_NewService objectives policies, cp_fleet = cp_manager fleet prov,
      cp_cache = NewCacheService now, cp_copies = [], cp_keys = keys\<rparr>"

text \<open>\<open>run\<close>: what the calls of \<open>Start\<close> do before they return, in their order; the rest are turns of goroutines.\<close>

record start_env =
  sn_scan :: "u64 \<Rightarrow> goerr + string list \<times> u64"
  sn_get :: "string \<Rightarrow> redis_get"
  sn_catalog :: catalog_world
  sn_planner :: "goerr option"
  sn_providers :: provider_world
  sn_listed :: "goerr + Worker list"
  sn_now :: int
  sn_refused :: "goerr option"

definition cp_start :: "start_env \<Rightarrow> 'p cp_event list" where
  "cp_start w =
     [Health_tick (sn_scan w) (sn_get w), Catalog_tick (sn_catalog w), Planner_load (sn_planner w),
      Provider_tick (sn_providers w), Publish_tick (sn_listed w) (sn_now w) (sn_refused w)]"

lemma cp_run_append:
  "cp_run L (es @ es') s = (case cp_run L es s of Panic \<Rightarrow> Panic | Ret s' \<Rightarrow> cp_run L es' s')"
  by (induction es arbitrary: s) (simp_all split: outcome.splits)

text \<open>
  A relation that every turn of the process keeps holds between the two ends of a run; a view that follows
  its own turns only is the fold of them.
\<close>

lemma cp_run_induct:
  assumes "cp_run L es s = Ret s'" and "R s s"
    and "\<And>e t t'. e \<in> set es \<Longrightarrow> R s t \<Longrightarrow> cp_step L e t = Ret t' \<Longrightarrow> R s t'"
  shows "R s s'"
proof -
  have "R s t \<Longrightarrow> set fs \<subseteq> set es \<Longrightarrow> cp_run L fs t = Ret s' \<Longrightarrow> R s s'" for fs t
    by (induction fs arbitrary: t) (auto split: outcome.splits dest: assms(3))
  then show ?thesis using assms(1,2) by blast
qed

lemma cp_run_view:
  assumes "cp_run L es s = Ret s'"
    and "\<And>e t t'. cp_step L e t = Ret t' \<Longrightarrow> view t' = (case turn e of None \<Rightarrow> view t | Some w \<Rightarrow> f w (view t))"
  shows "view s' = fold f (List.map_filter turn es) (view s)"
  using assms(1)
proof (induction es arbitrary: s)
  case (Cons e es)
  then show ?case using assms(2) by (auto simp: List.map_filter_simps split: outcome.splits option.splits)
qed (simp add: List.map_filter_simps)

lemma cache_store_frame [simp]:
  "cp_live (cache_store i s) = cp_live s" "cp_catalog (cache_store i s) = cp_catalog s" "cp_providers (cache_store i s) = cp_providers s"
  "cp_publisher (cache_store i s) = cp_publisher s" "cp_planner (cache_store i s) = cp_planner s" "cp_fleet (cache_store i s) = cp_fleet s"
  "cp_keys (cache_store i s) = cp_keys s" "sv_index (cp_cache (cache_store i s)) = sv_index (cp_cache s)"
  by (simp_all add: cache_store_def)

section \<open>What a turn can do\<close>

subsection \<open>The health service\<close>

text \<open>Redis matches the pattern of the scan: the keys it returns are keys of workers.\<close>

definition scan_matches :: "(u64 \<Rightarrow> goerr + string list \<times> u64) \<Rightarrow> bool" where
  "scan_matches scan \<longleftrightarrow> (\<forall>c ks n. scan c = Inr (ks, n) \<longrightarrow> (\<forall>k \<in> set ks. \<exists>i. k = Key i))"

lemma Key_neq_panic: "Key i \<noteq> ''worker:heartbeat''"
proof
  assume "Key i = ''worker:heartbeat''"
  then have "length (Key i) = length ''worker:heartbeat''" by (rule arg_cong)
  then show False by (simp add: Key_def keyPrefix_def keySuffix_def)
qed

lemma reconcile_keys_post:
  "(reconcile_keys get decode ks live = Panic \<longrightarrow> ''worker:heartbeat'' \<in> set ks)
   \<and> (live_ok live \<longrightarrow> (\<forall>l. reconcile_keys get decode ks live = Ret (Inr l) \<longrightarrow> live_ok l))"
proof (induction ks arbitrary: live)
  case (Cons k ks)
  show ?case
  proof (cases "k = ''worker:heartbeat''")
    case False
    then have "WorkerIDFromKey k \<noteq> Panic" by (simp add: WorkerIDFromKey_Panic)
    with Cons show ?thesis
      by (auto split: redis_get.splits option.splits if_splits outcome.splits prod.splits bool.splits intro: live_ok_Upsert)
  next
    case True
    then show ?thesis using Cons
      by (auto split: redis_get.splits option.splits if_splits outcome.splits prod.splits bool.splits intro: live_ok_Upsert)
  qed
qed simp

lemma reconcile_scan_post:
  "reconcile_scan scan get decode c live = Some r \<Longrightarrow>
     (scan_matches scan \<longrightarrow> r \<noteq> Panic) \<and> (live_ok live \<longrightarrow> (\<forall>l. r = Ret (Inr l) \<longrightarrow> live_ok l))"
proof (induction rule: reconcile_scan.raw_induct [rotated, consumes 1])
  case (1 f scan get decode c live r)
  show ?case
  proof (cases "scan c")
    case (Inr kn)
    obtain ks n where kn: "kn = (ks, n)" by (cases kn)
    have np: "scan_matches scan \<Longrightarrow> ''worker:heartbeat'' \<notin> set ks"
      using Inr kn Key_neq_panic by (metis scan_matches_def)
    note post = reconcile_keys_post [of get decode ks live]
    show ?thesis
    proof (cases "reconcile_keys get decode ks live")
      case (Ret x)
      show ?thesis
      proof (cases x)
        case (Inr l)
        then have rec: "if n = 0 then r = Ret (Inr l) else f scan get decode n l = Some r"
          using 1(2) \<open>scan c = Inr kn\<close> kn Ret by (auto split: if_splits)
        have keep: "live_ok live \<longrightarrow> live_ok l" using post Ret Inr by blast
        show ?thesis
        proof (cases "n = 0")
          case False
          then have "f scan get decode n l = Some r" using rec by simp
          from 1(1) [OF this] keep show ?thesis by blast
        qed (use rec keep in simp)
      qed (use 1(2) Inr kn Ret in auto)
    qed (use 1(2) Inr kn np post in auto)
  qed (use 1 in auto)
qed

lemma health_turn_no_panic: "scan_matches scan \<Longrightarrow> health_turn L scan get live \<noteq> Panic"
  using reconcile_scan_post [of scan get "li_heartbeat L" 0 "[]"]
  by (auto simp: health_turn_def reconcileOnce_def split: option.splits outcome.splits sum.splits)

lemma health_turn_ok: "live_ok live \<Longrightarrow> health_turn L scan get live = Ret l \<Longrightarrow> live_ok l"
  using reconcile_scan_post [of scan get "li_heartbeat L" 0 "[]"]
  by (auto simp: health_turn_def reconcileOnce_def Replace_def live_ok_def split: option.splits outcome.splits sum.splits)

lemma keyevent_panic: "keyevent get decode s (ch, p) = Panic \<longleftrightarrow> p = ''worker:heartbeat''"
  using WorkerIDFromKey_Panic [of p] by (auto simp: keyevent_def split: outcome.splits)

lemma keyevent_ok: "live_ok s \<Longrightarrow> keyevent get decode s msg = Ret l \<Longrightarrow> live_ok l"
  by (auto simp: keyevent_def applySet_def split: outcome.splits redis_get.splits option.splits prod.splits if_splits
      intro: live_ok_Upsert live_ok_Remove)

lemma cp_step_panic:
  assumes "\<forall>scan get. e = Health_tick scan get \<longrightarrow> scan_matches scan"
  shows "cp_step L e s = Panic \<longleftrightarrow> (\<exists>get ch. e = Key_event get (ch, ''worker:heartbeat''))"
proof (cases e)
  case (Health_tick scan get)
  then show ?thesis using assms health_turn_no_panic [of scan L get "cp_live s"]
    by (auto simp: cp_step_def split: outcome.splits)
next
  case (Key_event get msg)
  then show ?thesis using keyevent_panic [of get "li_heartbeat L" "cp_live s" "fst msg" "snd msg"]
    by (cases msg) (auto simp: cp_step_def split: outcome.splits)
qed (simp_all add: cp_step_def)

subsection \<open>Invariant and order\<close>

text \<open>
  The state is in order when the live set has each heartbeat under its own id, the cache index is consistent in
  both directions, and the scoring snapshot and every copy on its way to the holder are those of a consistent index.
\<close>

definition index_copy :: "CacheSnapshot \<Rightarrow> bool" where
  "index_copy c \<longleftrightarrow> (\<exists>idx. index_ok idx \<and> cs_WorkerBlocks c = ix_byWorker idx)"

definition cp_ok :: "'p control_plane \<Rightarrow> bool" where
  "cp_ok s \<longleftrightarrow> live_ok (cp_live s) \<and> index_ok (sv_index (cp_cache s))
     \<and> (\<exists>c. sv_holder (cp_cache s) = Some c \<and> index_copy c) \<and> list_all index_copy (cp_copies s)"

definition not_older :: "('a \<Rightarrow> u64) \<Rightarrow> 'a option \<Rightarrow> 'a option \<Rightarrow> bool" where
  "not_older ver h h' \<longleftrightarrow> (case h of None \<Rightarrow> True | Some x \<Rightarrow> \<exists>x'. h' = Some x' \<and> ver x \<le> ver x')"

lemma not_older_refl [simp]: "not_older ver h h"
  by (simp add: not_older_def split: option.splits)

lemma not_older_trans: "not_older ver a b \<Longrightarrow> not_older ver b c \<Longrightarrow> not_older ver a c"
  by (auto simp: not_older_def split: option.splits)

lemma snapshot_store_not_older: "not_older rs_Epoch h (snd (SnapshotHolder_StoreIfNewer h x))"
  by (cases x) (auto simp: not_older_def snapshot_holder.store_nil snapshot_holder.store_cases split: option.splits)

lemma policy_store_not_older: "not_older rp_Version h (snd (PolicyHolder_StoreIfNewer h x))"
  by (cases x) (auto simp: not_older_def policy_holder.store_nil policy_holder.store_cases split: option.splits)

lemma list_all_drop_nth: "list_all P xs \<Longrightarrow> list_all P (drop_nth i xs)"
  using set_drop_nth [of i xs] by (auto simp: list_all_iff)

lemma cp_step_ok: "cp_ok s \<Longrightarrow> cp_step L e s = Ret s' \<Longrightarrow> cp_ok s'"
proof (cases e)
  case (Cache_store i)
  then show "cp_ok s \<Longrightarrow> cp_step L e s = Ret s' \<Longrightarrow> cp_ok s'"
    using list_all_drop_nth [of index_copy "cp_copies s" i] by (auto simp: cp_step_def cache_store_def cp_ok_def list_all_length [of _ "cp_copies s"])
next
  case (Cache_copy now)
  then show "cp_ok s \<Longrightarrow> cp_step L e s = Ret s' \<Longrightarrow> cp_ok s'"
    by (auto simp: cp_step_def cp_ok_def cache_copy_def index_copy_def SnapshotForScoring_def)
qed (auto simp: cp_step_def cp_ok_def cache_msg_def cache_index_def apply_index_ok
    split: outcome.splits sum.splits dest: health_turn_ok keyevent_ok)

lemma cp_step_not_older:
  assumes "cp_step L e s = Ret s'"
  shows "not_older rs_Epoch (cp_snapshot s) (cp_snapshot s')"
  using assms snapshot_store_not_older
  by (cases e) (auto simp: cp_step_def publish_turn_def Publisher_tick_def buildSnapshot_def subscriber_msg_def Let_def
      split: outcome.splits sum.splits option.splits)

definition policy_not_older :: "RoutingPolicy option option \<Rightarrow> RoutingPolicy option option \<Rightarrow> bool" where
  "policy_not_older a b \<longleftrightarrow> (case a of None \<Rightarrow> b = None | Some h \<Rightarrow> \<exists>h'. b = Some h' \<and> not_older rp_Version h h')"

lemma policy_not_older_refl [simp]: "policy_not_older a a"
  by (simp add: policy_not_older_def split: option.splits)

lemma policy_not_older_trans: "policy_not_older a b \<Longrightarrow> policy_not_older b c \<Longrightarrow> policy_not_older a c"
  by (auto simp: policy_not_older_def split: option.splits intro: not_older_trans)

lemma store_out_not_older: "policy_not_older a (store_out p a)"
  using policy_store_not_older by (auto simp: policy_not_older_def store_out_def split: option.splits)

lemma policy_read_not_older: "policy_not_older a (map_option (policy_read u answer) a)"
  using policy_store_not_older by (auto simp: policy_not_older_def policy_read_def split: option.splits sum.splits)

lemma planner_tick_not_older: "policy_not_older (ps_out s) (ps_out (snd (planner_tick sha8 m te s)))"
  using store_out_not_older by (auto simp: planner_tick_def Let_def split: prod.splits option.splits)

lemma cp_step_policy_not_older:
  assumes "cp_step L e s = Ret s'"
  shows "policy_not_older (ps_out (cp_planner s)) (ps_out (cp_planner s'))"
  using assms store_out_not_older policy_read_not_older planner_tick_not_older
  by (cases e) (auto simp: cp_step_def Planner_Start_def split: outcome.splits sum.splits option.splits)

text \<open>Every turn keeps the invariant, and no turn replaces a snapshot or a policy by an older one.\<close>

lemma cp_run_ok_order:
  assumes "cp_ok s" and "cp_run L es s = Ret s'"
  shows "cp_ok s' \<and> not_older rs_Epoch (cp_snapshot s) (cp_snapshot s')
    \<and> policy_not_older (ps_out (cp_planner s)) (ps_out (cp_planner s'))"
  using assms(2)
  by (rule cp_run_induct)
    (auto simp: assms(1) intro: cp_step_ok not_older_trans cp_step_not_older policy_not_older_trans cp_step_policy_not_older)

subsection \<open>Views that follow their own turns\<close>

definition catalog_turn :: "'p cp_event \<Rightarrow> catalog_world option" where
  "catalog_turn e = (case e of Catalog_tick w \<Rightarrow> Some w | _ \<Rightarrow> None)"

definition provider_turn :: "'p cp_event \<Rightarrow> provider_world option" where
  "provider_turn e = (case e of Provider_tick w \<Rightarrow> Some w | _ \<Rightarrow> None)"

definition keys_turn :: "'p cp_event \<Rightarrow> (goerr + APIKey list) option" where
  "keys_turn e = (case e of Keys_tick a \<Rightarrow> Some a | _ \<Rightarrow> None)"

lemma cp_run_catalog:
  "cp_run L es s = Ret s' \<Longrightarrow> cp_catalog s' = catalog_Start (List.map_filter catalog_turn es) (cp_catalog s)"
  unfolding catalog_Start_def
  by (rule cp_run_view [where view = cp_catalog and f = "\<lambda>w h. snd (catalog_refresh w h)"])
    (auto simp: cp_step_def catalog_turn_def split: cp_event.splits outcome.splits)

lemma cp_run_providers:
  "cp_run L es s = Ret s' \<Longrightarrow> cp_providers s' = provider_Start (li_getenv L) (List.map_filter provider_turn es) (cp_providers s)"
  unfolding provider_Start_def
  by (rule cp_run_view [where view = cp_providers and f = "\<lambda>w r. snd (provider_refresh (li_getenv L) w r)"])
    (auto simp: cp_step_def provider_turn_def split: cp_event.splits outcome.splits)

lemma cp_run_keys:
  "cp_run L es s = Ret s' \<Longrightarrow> cp_keys s' = keys_loop (List.map_filter keys_turn es) (cp_keys s)"
  unfolding keys_loop_def
  by (rule cp_run_view [where view = cp_keys and f = "\<lambda>a s. snd (Reload s a)"])
    (auto simp: cp_step_def keys_turn_def split: cp_event.splits outcome.splits)

subsection \<open>The publisher\<close>

text \<open>The snapshot a publication builds: the registered workers joined with the live set, and the virtual workers.\<close>

definition cp_join :: "cp_libs \<Rightarrow> Worker list \<Rightarrow> int \<Rightarrow> u64 \<Rightarrow> 'p control_plane \<Rightarrow> RoutingSnapshot" where
  "cp_join L workers now ep s =
     \<lparr>rs_BuiltAt = now, rs_Epoch = ep,
      rs_Workers = concat (map (views_of_worker (li_caps L) (Get_hb (cp_live s))) workers) @ SnapshotViews (cp_providers s)\<rparr>"

lemma publish_turn_eq:
  assumes "live_ok (cp_live s)"
  shows "publish_turn L (Inr workers) now refused s =
     (let p = (cp_publisher s)\<lparr>pb_epoch := pb_epoch (cp_publisher s) + 1\<rparr>; snap = cp_join L workers now (pb_epoch p) s in
      if isl (li_snapshot L snap) \<or> refused \<noteq> None then p
      else p\<lparr>pb_holder := snd (SnapshotHolder_StoreIfNewer (cp_snapshot s) (Some snap))\<rparr>)"
  using assms
  by (auto simp: publish_turn_def Publisher_tick_def buildSnapshot_def cp_join_def hbByID_live Let_def isl_def
      split: sum.splits option.splits)

text \<open>The publications of a run that got a list from the registry: each takes the next epoch.\<close>

definition takes_epoch :: "'p cp_event \<Rightarrow> bool" where
  "takes_epoch e \<longleftrightarrow> (\<exists>workers now refused. e = Publish_tick (Inr workers) now refused)"

definition published :: "'p cp_event list \<Rightarrow> nat" where
  "published es = length (filter takes_epoch es)"

lemma unat_suc: "(w :: u64) < v \<Longrightarrow> unat (w + 1) = unat w + 1"
proof -
  assume "w < v"
  then have "w \<noteq> - 1" using word_n1_ge [of v] by auto
  then have "1 + w \<noteq> 0" by (metis add_eq_0_iff minus_minus)
  then show ?thesis by (simp add: unatSuc add.commute)
qed

lemma peer_stale_step:
  assumes "cp_step L e s = Ret s'" and "cp_ok s" and "\<forall>m. e \<noteq> Snapshot_msg m" and "cp_snapshot s = Some old"
    and "unat (pb_epoch (cp_publisher s)) + published [e] \<le> unat (rs_Epoch old)"
  shows "cp_snapshot s' = Some old \<and> unat (pb_epoch (cp_publisher s')) = unat (pb_epoch (cp_publisher s)) + published [e]"
proof (cases "takes_epoch e")
  case True
  then obtain workers now refused where e: "e = Publish_tick (Inr workers) now refused" by (auto simp: takes_epoch_def)
  have lt: "pb_epoch (cp_publisher s) < rs_Epoch old" using assms(5) True by (simp add: published_def word_less_nat_alt)
  then have "unat (pb_epoch (cp_publisher s) + 1) = unat (pb_epoch (cp_publisher s)) + 1" by (rule unat_suc)
  moreover from this have "pb_epoch (cp_publisher s) + 1 \<le> rs_Epoch old"
    using lt by (simp add: word_le_nat_alt word_less_nat_alt)
  ultimately show ?thesis using assms(1,2,4) True
    by (auto simp: cp_step_def e cp_ok_def publish_turn_eq published_def cp_join_def snapshot_holder.store_cases Let_def)
next
  case False
  then show ?thesis using assms(1,3,4)
    by (cases e) (auto simp: cp_step_def takes_epoch_def published_def publish_turn_def Publisher_tick_def buildSnapshot_def
        split: outcome.splits sum.splits)
qed

lemma peer_stale_run:
  assumes "cp_run L es s = Ret s'" and "cp_ok s" and "\<forall>m. Snapshot_msg m \<notin> set es" and "cp_snapshot s = Some old"
    and "unat (pb_epoch (cp_publisher s)) + published es \<le> unat (rs_Epoch old)"
  shows "cp_snapshot s' = Some old \<and> unat (pb_epoch (cp_publisher s')) = unat (pb_epoch (cp_publisher s)) + published es"
  using assms
proof (induction es arbitrary: s)
  case (Cons e es)
  then obtain s1 where s1: "cp_step L e s = Ret s1" "cp_run L es s1 = Ret s'" by (auto split: outcome.splits)
  have n: "published (e # es) = published [e] + published es" by (simp add: published_def)
  have "cp_snapshot s1 = Some old \<and> unat (pb_epoch (cp_publisher s1)) = unat (pb_epoch (cp_publisher s)) + published [e]"
    using Cons.prems n by (intro peer_stale_step [OF s1(1)]) auto
  with Cons.IH [OF s1(2) cp_step_ok [OF Cons.prems(2) s1(1)]] Cons.prems n show ?case by simp
qed (simp add: published_def)

subsection \<open>Models the fleet tracks\<close>

definition model_keys :: "'p Manager \<Rightarrow> string set" where
  "model_keys m = (\<lambda>(_, t). fleet_key (tw_Model t)) ` set (mg_workers m)"

lemma set_update_sub: "set (AList.update k v al) \<subseteq> insert (k, v) (set al)"
  by (induction al) auto

lemma model_keys_tracked: "model_keys (m\<lparr>mg_workers := AList.update w t ws\<rparr>) \<subseteq> insert (fleet_key (tw_Model t)) (model_keys (m\<lparr>mg_workers := ws\<rparr>))"
  using set_update_sub [of w t ws] by (auto simp: model_keys_def)

lemma model_keys_upd:
  assumes "\<And>t. tw_Model (f t) = tw_Model t"
  shows "model_keys (m\<lparr>mg_workers := upd_worker w f (mg_workers m)\<rparr>) \<subseteq> model_keys m"
proof (cases "map_of (mg_workers m) w")
  case (Some t)
  then have "fleet_key (tw_Model t) \<in> model_keys m" by (force simp: model_keys_def dest: map_of_SomeD)
  then show ?thesis using Some model_keys_tracked [where m = m and w = w and t = "f t" and ws = "mg_workers m"] assms
    by (simp add: upd_worker_def insert_absorb)
qed (simp add: upd_worker_def model_keys_def)

lemma model_keys_set_state: "model_keys (set_state w st m) \<subseteq> model_keys m"
  unfolding set_state_def by (rule model_keys_upd) simp

lemma model_keys_SetInFlight: "model_keys (SetInFlight w n m) \<subseteq> model_keys m"
  unfolding SetInFlight_def by (rule model_keys_upd) simp

lemma model_keys_cong: "mg_workers m = mg_workers m' \<Longrightarrow> model_keys m = model_keys m'"
  by (simp add: model_keys_def)

lemma model_keys_scale_begin: "model_keys (scale_begin md m) \<subseteq> insert (fleet_key md) (model_keys m)"
  using model_keys_tracked [where m = m and w = "placeholder md" and t = "new_worker (placeholder md) md" and ws = "mg_workers m"]
  by (simp add: scale_begin_def new_worker_def)

lemma model_keys_delete: "model_keys (m\<lparr>mg_workers := AList.delete w (mg_workers m)\<rparr>) \<subseteq> model_keys m"
  by (auto simp: model_keys_def AList.delete_eq)

lemma model_keys_scale_end: "model_keys (scale_end md r m) \<subseteq> insert (fleet_key md) (model_keys m)"
proof (cases r)
  case (Inr w)
  then show ?thesis using model_keys_delete [where m = m and w = "placeholder md"]
      model_keys_tracked [where m = m and w = w and t = "new_worker w md" and ws = "AList.delete (placeholder md) (mg_workers m)"]
    by (auto simp: scale_end_def new_worker_def Let_def)
qed (use model_keys_delete [where m = m and w = "placeholder md"] in \<open>auto simp: scale_end_def Let_def\<close>)

lemma model_keys_scaleUp: "model_keys (snd (scaleUp prov md m)) \<subseteq> insert (fleet_key md) (model_keys m)"
proof -
  obtain r m1 where c: "scale_call prov md (scale_begin md m) = (r, m1)" by (metis prod.exhaust)
  then have "mg_workers m1 = mg_workers (scale_begin md m)" by (auto simp: scale_call_def split: prod.splits)
  then have end_: "model_keys (scale_end md x m1) \<subseteq> insert (fleet_key md) (model_keys m)" for x
    using model_keys_scale_end [of md x m1] model_keys_scale_begin [of md m] model_keys_cong [of m1] by blast
  show ?thesis
  proof (cases r)
    case (Inr w)
    let ?m = "(scale_end md (Inr w) m1)\<lparr>mg_hyst := ClearPending (fleet_key md) (mg_hyst (scale_end md (Inr w) m1))\<rparr>"
    have "model_keys ?m = model_keys (scale_end md (Inr w) m1)" by (rule model_keys_cong) simp
    moreover have "model_keys (?m\<lparr>mg_waiters := x\<rparr>) = model_keys ?m" for x by (rule model_keys_cong) simp
    ultimately show ?thesis using end_ [of "Inr w"] model_keys_set_state [of w StateReady ?m] c Inr
      by (auto simp: scaleUp_def Let_def)
  qed (use c end_ in \<open>auto simp: scaleUp_def\<close>)
qed

lemma model_keys_drain_wait: "model_keys (snd (drain_wait de w fuel k m)) \<subseteq> model_keys m"
proof (induction fuel arbitrary: k m)
  case (Suc fuel)
  have reports: "model_keys (fold (\<lambda>(i, n). SetInFlight i n) rs m) \<subseteq> model_keys m" for rs :: "(string \<times> int) list" and m :: "'a Manager"
    by (induction rs arbitrary: m) (use model_keys_SetInFlight in \<open>fastforce+\<close>)
  let ?m = "fold (\<lambda>(i, n). SetInFlight i n) (de_reports de k) m"
  show ?case using Suc.IH [of "Suc k" ?m] reports [of "de_reports de k" m] by (auto simp: Let_def split: option.splits)
qed simp

lemma model_keys_drainOne: "model_keys (snd (drainOne ret de md m)) \<subseteq> model_keys m"
proof (cases "drain_pick md (mg_workers m)")
  case (Some pick)
  let ?w = "tw_ID pick" and ?m1 = "rdb_Set (''fleet:state:'' @ tw_ID pick) ''draining'' (set_state (tw_ID pick) StateDraining m)"
  obtain r m2 where d: "drain_wait de ?w drain_rounds 0 ?m1 = (r, m2)" by (metis prod.exhaust)
  have "model_keys ?m1 = model_keys (set_state ?w StateDraining m)" by (rule model_keys_cong) (simp add: rdb_Set_def)
  then have m2: "model_keys m2 \<subseteq> model_keys m"
    using model_keys_drain_wait [of de ?w drain_rounds 0 ?m1] d model_keys_set_state [of ?w StateDraining m] by auto
  have "model_keys (m2\<lparr>mg_prov := p\<rparr>) = model_keys m2" for p by (rule model_keys_cong) simp
  then have "model_keys (set_state ?w StateRetired (m2\<lparr>mg_prov := p\<rparr>)) \<subseteq> model_keys m" for p
    using model_keys_set_state m2 by blast
  moreover have "model_keys (x\<lparr>mg_hyst := h\<rparr>) = model_keys x" for x :: "'a Manager" and h by (rule model_keys_cong) simp
  ultimately show ?thesis using Some d m2 by (auto simp: drainOne_def Let_def split: option.splits)
qed (simp add: drainOne_def model_keys_def)

text \<open>Reconciling a model tracks workers of no other model; the loop reconciles the models of the snapshot and of the table only.\<close>

lemma model_keys_reconcile: "model_keys (snd (reconcile prov ret fe md m)) \<subseteq> insert (fleet_key md) (model_keys m)"
proof -
  obtain desired hyst where h: "Hysteresis_Apply (fleet_key md) (wanted (Policy_Get (mg_policies m) md) (readyCount (fe_snap_ready fe) md m)
      (sumActive (fe_snap_active fe) md)) (readyCount (fe_snap_ready fe) md m) (Policy_Get (mg_policies m) md) (fe_now fe) (mg_hyst m) = (desired, hyst)"
    by (metis prod.exhaust)
  let ?m2 = "rdb_Set (''fleet:desired:'' @ fleet_key md) (itoa desired)
      (m\<lparr>mg_hyst := hyst, mg_desired := (mg_desired m)(fleet_key md \<mapsto> desired)\<rparr>)"
  have m2: "model_keys ?m2 = model_keys m" by (rule model_keys_cong) (simp add: rdb_Set_def)
  have "model_keys (?m2\<lparr>mg_hyst := x\<rparr>) = model_keys m" for x using m2 by (simp add: model_keys_def)
  then show ?thesis
    using h model_keys_scaleUp [of prov md ?m2] model_keys_drainOne [of ret "fe_drain fe" md ?m2] m2
    by (auto simp: reconcile_def Let_def)
qed

text \<open>A model is unseen by a snapshot when no view of it is for that model.\<close>

definition unseen :: "FleetModel \<Rightarrow> RoutingSnapshot option \<Rightarrow> bool" where
  "unseen md snap \<longleftrightarrow> (\<forall>v \<in> set (snap_views snap). wv_BaseModel v \<noteq> '''' \<longrightarrow>
     fleet_key \<lparr>fm_BaseModel = wv_BaseModel v, fm_Adapter = wv_Adapter v\<rparr> \<noteq> fleet_key md)"

lemma fold_update_vals:
  assumes "\<forall>x \<in> set xs. P x \<longrightarrow> fleet_key (val x) \<noteq> k" "\<forall>y \<in> set al. fleet_key (snd y) \<noteq> k"
  shows "\<forall>y \<in> set (fold (\<lambda>x s. if P x then AList.update (fleet_key (val x)) (val x) s else s) xs al). fleet_key (snd y) \<noteq> k"
  using assms
proof (induction xs arbitrary: al)
  case (Cons x xs)
  have "\<forall>y \<in> set (if P x then AList.update (fleet_key (val x)) (val x) al else al). fleet_key (snd y) \<noteq> k"
  proof (cases "P x")
    case True
    then have "\<forall>y \<in> insert (fleet_key (val x), val x) (set al). fleet_key (snd y) \<noteq> k" using Cons.prems by simp
    then have "\<forall>y \<in> set (AList.update (fleet_key (val x)) (val x) al). fleet_key (snd y) \<noteq> k"
      using set_update_sub [of "fleet_key (val x)" "val x" al] by (meson subsetD)
    then show ?thesis using True by simp
  qed (use Cons.prems(2) in simp)
  with Cons.IH Cons.prems(1) show ?case by simp
qed simp

lemma discover_unseen:
  assumes "unseen md snap" "fleet_key md \<notin> model_keys m" "md' \<in> set (discoverModels snap m)"
  shows "fleet_key md' \<noteq> fleet_key md"
proof -
  let ?val1 = "\<lambda>w :: WorkerView. \<lparr>fm_BaseModel = wv_BaseModel w, fm_Adapter = wv_Adapter w\<rparr>"
  let ?seen1 = "fold (\<lambda>w s. if wv_BaseModel w \<noteq> '''' then AList.update (fleet_key (?val1 w)) (?val1 w) s else s) (snap_views snap) []"
  have 1: "\<forall>y \<in> set ?seen1. fleet_key (snd y) \<noteq> fleet_key md"
    by (rule fold_update_vals) (use assms(1) in \<open>auto simp: unseen_def\<close>)
  have "\<forall>y \<in> set (fold (\<lambda>x s. if tw_State (snd x) \<noteq> StateRetired then AList.update (fleet_key (tw_Model (snd x))) (tw_Model (snd x)) s else s)
      (mg_workers m) ?seen1). fleet_key (snd y) \<noteq> fleet_key md"
    by (rule fold_update_vals [OF _ 1]) (use assms(2) in \<open>force simp: model_keys_def\<close>)
  moreover have "discoverModels snap m = map snd (fold (\<lambda>x s. if tw_State (snd x) \<noteq> StateRetired
      then AList.update (fleet_key (tw_Model (snd x))) (tw_Model (snd x)) s else s) (mg_workers m) ?seen1)"
  proof -
    have "(\<lambda>w s. if wv_BaseModel w = '''' then s else AList.update (fleet_key (?val1 w)) (?val1 w) s)
        = (\<lambda>w s. if wv_BaseModel w \<noteq> '''' then AList.update (fleet_key (?val1 w)) (?val1 w) s else s)" by (intro ext) simp
    then show ?thesis unfolding discoverModels_def Let_def case_prod_beta' by (simp only:)
  qed
  ultimately show ?thesis using assms(3) by auto
qed

lemma model_keys_ReconcileAll:
  assumes "unseen md snap" "fleet_key md \<notin> model_keys m"
  shows "fleet_key md \<notin> model_keys (ReconcileAll prov ret env err snap m)"
proof -
  have "fleet_key md \<notin> model_keys (fold (\<lambda>md m. snd (reconcile prov ret (env md) md m)) mds x)"
    if "\<forall>md' \<in> set mds. fleet_key md' \<noteq> fleet_key md" "fleet_key md \<notin> model_keys x" for mds x
    using that
  proof (induction mds arbitrary: x)
    case (Cons md' mds)
    have "fleet_key md \<notin> model_keys (snd (reconcile prov ret (env md') md' x))"
      using Cons.prems model_keys_reconcile [of prov ret "env md'" md' x] by auto
    with Cons show ?case by simp
  qed simp
  moreover have "model_keys (m\<lparr>mg_policies := p\<rparr>) = model_keys m" for p by (rule model_keys_cong) simp
  ultimately show ?thesis
    using discover_unseen [OF assms(1), of "m\<lparr>mg_policies := snd (Policy_Reload err (mg_policies m))\<rparr>"] assms(2)
    by (auto simp: ReconcileAll_def Let_def)
qed

lemma policy_by_key: "sp_MinReplicas (Policy_Get c md) > 0 \<Longrightarrow> fleet_key md = fleet_key md' \<Longrightarrow> sp_MinReplicas (Policy_Get c md') > 0"
  by (auto simp: Policy_Get_def DefaultPolicy_def split: option.splits)

lemma model_keys_cold_request:
  assumes "sp_MinReplicas (Policy_Get (mg_policies m) md) > 0" "fleet_key md \<notin> model_keys m"
  shows "fleet_key md \<notin> model_keys (snd (fleet_activator.attempted snap prov m model))"
proof (cases "NeedsActivation snap model m")
  case True
  let ?md = "\<lparr>fm_BaseModel = model, fm_Adapter = ''''\<rparr>"
  have "\<not> sp_MinReplicas (Policy_Get (mg_policies m) ?md) > 0" using True by (simp add: NeedsActivation_def Let_def split: if_splits)
  then have "fleet_key ?md \<noteq> fleet_key md" using policy_by_key [OF assms(1), of ?md] by auto
  then show ?thesis using True assms(2) model_keys_scaleUp [of prov ?md m]
    unfolding fleet_activator.attempted_def by (auto simp: Activate_def Let_def)
qed (use assms(2) in \<open>simp add: fleet_activator.attempted_def\<close>)

text \<open>What holds of every state a run passes through.\<close>

definition all_along :: "cp_libs \<Rightarrow> 'p cp_event list \<Rightarrow> 'p control_plane \<Rightarrow> ('p control_plane \<Rightarrow> bool) \<Rightarrow> bool" where
  "all_along L es s P \<longleftrightarrow> (\<forall>n t. cp_run L (take n es) s = Ret t \<longrightarrow> P t)"

lemma all_along_Cons:
  "all_along L (e # es) s P \<longleftrightarrow> P s \<and> (\<forall>s'. cp_step L e s = Ret s' \<longrightarrow> all_along L es s' P)"
proof -
  have "(\<forall>n t. cp_run L (take n (e # es)) s = Ret t \<longrightarrow> P t) \<longleftrightarrow>
      P s \<and> (\<forall>n t. cp_run L (take (Suc n) (e # es)) s = Ret t \<longrightarrow> P t)"
    by (metis (no_types, lifting) cp_run.simps(1) not0_implies_Suc outcome.inject take0)
  then show ?thesis by (auto simp: all_along_def split: outcome.splits)
qed

section \<open>Properties\<close>

text \<open>
  C20. What the process serves is as new as its last good answers. In every interleaving of the goroutines, with any failures,
  the catalog and the provider registry are those of the newest reload that succeeded (the start's when none
  did), exactly as a first load in that world would make them, and the gateway's keys are the rows of the newest good answer
  and keys from the environment. Refreshes of one view cannot disturb another.
\<close>

theorem views_are_newest:
  assumes "cp_run L es s = Ret s'" and "ks_hasDB (cp_keys s)"
  shows "cp_catalog s' =
      (case newest_good catalog_good (List.map_filter catalog_turn es) of
         None \<Rightarrow> cp_catalog s | Some w \<Rightarrow> snd (catalog_refresh w None))
    \<and> cp_providers s' =
      (case newest_good provider_good (List.map_filter provider_turn es) of
         None \<Rightarrow> cp_providers s | Some w \<Rightarrow> snd (provider_refresh (li_getenv L) w NewRegistry))
    \<and> (case newest_good (\<lambda>a. \<not> isl a) (List.map_filter keys_turn es) of
         None \<Rightarrow> cp_keys s' = cp_keys s | Some a \<Rightarrow> keys_fresh a (cp_keys s'))"
  using catalog_service.refreshes_cases [of "List.map_filter catalog_turn es" "cp_catalog s"]
    provider_service.refreshes_cases [of "li_getenv L" "List.map_filter provider_turn es" "cp_providers s"]
    keys_service.refreshes_cases [OF assms(2), of "List.map_filter keys_turn es"]
  unfolding cp_run_catalog [OF assms(1)] cp_run_providers [OF assms(1)] cp_run_keys [OF assms(1)]
    catalog_Start_def provider_Start_def keys_loop_def
    catalog_service.refreshes_def provider_service.refreshes_def keys_service.refreshes_def
  by (auto split: option.splits)

text \<open>
  C17. When a process loses its peers: a replica whose holder has epoch \<open>E\<close> from another publisher and whose own publisher has
  reached only \<open>e\<close> keeps serving that snapshot, whatever happens to the workers, through its next \<open>E - e\<close>
  publications; the first publication after those replaces it by the current join.
\<close>

theorem takeover_serves_stale:
  assumes "cp_run L es s = Ret s'" and "cp_ok s" and "\<forall>m. Snapshot_msg m \<notin> set es" and "cp_snapshot s = Some old"
    and "unat (pb_epoch (cp_publisher s)) + published es \<le> unat (rs_Epoch old)" and "rs_Epoch old \<noteq> - 1"
    and "\<forall>x. \<not> isl (li_snapshot L x)" and "cp_step L (Publish_tick (Inr workers) now None) s' = Ret s''"
  shows "cp_snapshot s' = Some old
    \<and> cp_snapshot s'' =
       (if unat (pb_epoch (cp_publisher s)) + published es < unat (rs_Epoch old) then Some old
        else Some (cp_join L workers now (rs_Epoch old + 1) s'))"
proof -
  let ?e = "pb_epoch (cp_publisher s')"
  have old: "cp_snapshot s' = Some old" and e: "unat ?e = unat (pb_epoch (cp_publisher s)) + published es"
    using peer_stale_run [OF assms(1-5)] by simp_all
  have "cp_ok s'" using cp_run_ok_order [OF assms(2,1)] by blast
  then have next_: "cp_snapshot s'' = (if ?e + 1 \<le> rs_Epoch old then Some old else Some (cp_join L workers now (?e + 1) s'))"
    using assms(7,8) old
    by (auto simp: cp_step_def cp_ok_def publish_turn_eq snapshot_holder.store_cases cp_join_def Let_def)
  have "?e + 1 \<le> rs_Epoch old \<longleftrightarrow> unat ?e < unat (rs_Epoch old)"
  proof (cases "?e < rs_Epoch old")
    case True
    then show ?thesis using unat_suc [OF True] by (simp add: word_le_nat_alt word_less_nat_alt)
  next
    case False
    then have "?e = rs_Epoch old" using e assms(5) by (simp add: word_less_nat_alt word_unat_eq_iff)
    then show ?thesis using epoch_suc [OF assms(6)] by auto
  qed
  moreover have "?e = rs_Epoch old" if "\<not> unat ?e < unat (rs_Epoch old)"
    using that e assms(5) by (simp add: word_unat_eq_iff)
  ultimately show ?thesis using old next_ e by auto
qed

text \<open>
  C19. What ends the process: as long as Redis returns keys that match the pattern of the scan, a run of the background
  goroutines panics exactly when some client of the database sets, deletes or lets expire the key \<open>worker:heartbeat\<close>,
  and then at once; no other answer, failure or interleaving does.
\<close>

theorem control_plane_panics:
  assumes "\<forall>scan get. Health_tick scan get \<in> set es \<longrightarrow> scan_matches scan"
  shows "cp_run L es s = Panic \<longleftrightarrow> (\<exists>get ch. Key_event get (ch, ''worker:heartbeat'') \<in> set es)"
  using assms
proof (induction es arbitrary: s)
  case (Cons e es)
  have "cp_step L e s = Panic \<longleftrightarrow> (\<exists>get ch. e = Key_event get (ch, ''worker:heartbeat''))"
    using Cons.prems by (intro cp_step_panic) auto
  moreover have "cp_run L es t = Panic \<longleftrightarrow> (\<exists>get ch. Key_event get (ch, ''worker:heartbeat'') \<in> set es)" for t
    using Cons.prems by (intro Cons.IH) auto
  ultimately show ?case by (cases "cp_step L e s") (simp_all, metis+)
qed simp

text \<open>
  Where a scoring snapshot comes from: the holder and the copies on their way have, each, the blocks the index had at the
  moment of the run when the copy was taken, or are those of the start.
\<close>

definition copied :: "cp_libs \<Rightarrow> 'p cp_event list \<Rightarrow> 'p control_plane \<Rightarrow> CacheSnapshot \<Rightarrow> bool" where
  "copied L es s c \<longleftrightarrow>
     Some c = sv_holder (cp_cache s) \<or> c \<in> set (cp_copies s)
   \<or> (\<exists>before now after t. es = before @ Cache_copy now # after \<and> cp_run L before s = Ret t \<and> c = cache_copy now (cp_cache t))"

lemma copied_append: "copied L es s c \<Longrightarrow> copied L (es @ [e]) s c"
  unfolding copied_def by (metis append.assoc append_Cons)

lemma cp_run_copied:
  assumes "cp_run L es s = Ret s'"
  shows "\<forall>c. sv_holder (cp_cache s') = Some c \<or> c \<in> set (cp_copies s') \<longrightarrow> copied L es s c"
  using assms
proof (induction es arbitrary: s' rule: rev_induct)
  case Nil
  then show ?case by (auto simp: copied_def)
next
  case (snoc e es)
  then obtain t where t: "cp_run L es s = Ret t" "cp_step L e t = Ret s'" by (auto simp: cp_run_append split: outcome.splits)
  have old: "copied L (es @ [e]) s c" if "sv_holder (cp_cache t) = Some c \<or> c \<in> set (cp_copies t)" for c
    using snoc.IH [OF t(1)] that copied_append by blast
  have new: "copied L (es @ [e]) s (cache_copy now (cp_cache t))" if "e = Cache_copy now" for now
    using that t(1) unfolding copied_def by blast
  have "copied L (es @ [e]) s c" if "c \<in> set (drop_nth i (cp_copies t))" for c i
    using old that set_drop_nth [of i "cp_copies t"] by blast
  with t(2) old new show ?case
    by (cases e) (auto simp: cp_step_def cache_msg_def cache_index_def cache_store_def split: outcome.splits sum.splits if_splits)
qed

text \<open>A publication that no other turn of the registry overlaps is \<open>Apply\<close>, and brings the holder up to the index.\<close>

lemma cache_apply_turns:
  "cp_copies s = [] \<Longrightarrow> cp_run L [Cache_post ev, Cache_copy now, Cache_store 0] s = Ret (s\<lparr>cp_cache := Apply (cp_cache s) ev now\<rparr>)"
  by (simp add: cp_step_def cache_index_def cache_copy_def cache_store_def Apply_def publishSnapshot_def drop_nth_def)

text \<open>
  Publications that overlap: the ticker copies the index, an event changes it and is published, and then the ticker
  stores. The holder has the older blocks, and keeps them until the next publication.
\<close>

theorem cache_snapshot_race:
  assumes "cp_copies s = []"
  shows "\<exists>s'. cp_run L [Cache_copy t1, Cache_post ev, Cache_copy t2, Cache_store 1, Cache_store 0] s = Ret s'
     \<and> sv_index (cp_cache s') = apply_index ev (sv_index (cp_cache s))
     \<and> sv_holder (cp_cache s') = Some \<lparr>cs_WorkerBlocks = SnapshotForScoring (sv_index (cp_cache s)), cs_BuiltAt = t1\<rparr>
     \<and> cp_copies s' = []"
  using assms by (simp add: cp_step_def cache_index_def cache_copy_def cache_store_def drop_nth_def)

text \<open>
  C16. Every run of the background goroutines, in any order of their turns and with any answers, keeps the state in order: the live set has
  each heartbeat under its own id, and the cache index stays consistent in both directions. The routing snapshot
  and the routing policy are never taken back to an older epoch or version. The scoring snapshot has no such order, since
  \<open>publishSnapshot\<close> copies the index and stores the copy in two turns: it has the blocks the index had at some
  moment of the run when a copy was taken (or those of the start), not always the latest, and always those of a consistent index.
\<close>

theorem control_plane_invariant:
  assumes "cp_ok s" and "cp_run L es s = Ret s'"
  shows "cp_ok s' \<and> not_older rs_Epoch (cp_snapshot s) (cp_snapshot s')
    \<and> policy_not_older (ps_out (cp_planner s)) (ps_out (cp_planner s'))
    \<and> (\<exists>c. sv_holder (cp_cache s') = Some c \<and> copied L es s c)"
  using cp_run_ok_order [OF assms] cp_run_copied [OF assms(2)] unfolding cp_ok_def by blast

text \<open>
  The start of the process: when the calls of \<open>Start\<close> have returned and Redis and the registry answered them, the first snapshot is
  already complete. Its epoch is 1, it has for every registered worker with a readable heartbeat a healthy view that is
  ready as the heartbeat says, and a view of every virtual worker of the providers as far as their tables answered; the catalog's
  rebuild was tried too. Requests are served only afterwards.
\<close>

theorem start_serves_complete_view:
  assumes "cp_run L (cp_start w) (cp_new objectives policies fleet prov keys t) = Ret s"
    and "scan_pages (sn_scan w) 0 pages" and "\<forall>k \<in> set (concat pages). readable (sn_get w) k"
    and "sn_listed w = Inr workers" and "sn_refused w = None" and "\<forall>x. \<not> isl (li_snapshot L x)"
  shows "cp_catalog s = snd (catalog_refresh (sn_catalog w) None)
    \<and> (\<exists>snap. cp_snapshot s = Some snap \<and> rs_Epoch snap = 1
        \<and> (\<forall>x \<in> set workers. \<forall>hb. find (\<lambda>h. hb_ID h = mw_ID x)
              (rev (List.map_filter (key_heartbeat (sn_get w) (li_heartbeat L)) (concat pages))) = Some hb \<longrightarrow>
            (\<exists>v \<in> set (rs_Workers snap). wv_ID v = mw_ID x \<and> wv_Healthy v \<and> wv_Ready v = hb_Ready hb))
        \<and> (\<forall>v \<in> set (rg_workers (snd (provider_refresh (li_getenv L) (sn_providers w) NewRegistry))).
             virtual_view v \<in> set (rs_Workers snap)))"
proof -
  let ?hbs = "List.map_filter (key_heartbeat (sn_get w) (li_heartbeat L)) (concat pages)"
  let ?live = "fold (\<lambda>hb s. Upsert_hb s hb) ?hbs []"
  let ?reg = "snd (provider_refresh (li_getenv L) (sn_providers w) NewRegistry)"
  have live: "health_turn L (sn_scan w) (sn_get w) [] = Ret ?live" and ok: "live_ok ?live"
    using reconcile_scan_fold [OF assms(2,3), of "li_heartbeat L" "[]"]
      reconcile_scan_post [of "sn_scan w" "sn_get w" "li_heartbeat L" 0 "[]"]
    by (auto simp: health_turn_def reconcileOnce_def Replace_def live_ok_def)
  have get: "Get_hb ?live i = find (\<lambda>hb. hb_ID hb = i) (rev ?hbs)" for i
    unfolding fold_Upsert_lookup by (simp add: Get_hb_def split: option.split)
  define t0 where "t0 = (cp_new objectives policies fleet prov keys t)
    \<lparr>cp_live := ?live, cp_catalog := snd (catalog_refresh (sn_catalog w) None),
     cp_planner := Planner_Start (li_unpolicy L) (sn_planner w) (planner_NewService objectives policies), cp_providers := ?reg\<rparr>"
  have t0: "cp_live t0 = ?live" "cp_providers t0 = ?reg" "cp_publisher t0 = NewPublisher"
      "cp_catalog t0 = snd (catalog_refresh (sn_catalog w) None)"
    by (simp_all add: t0_def cp_new_def)
  have s: "cp_step L (Publish_tick (Inr workers) (sn_now w) None) t0 = Ret s"
    using assms(1) live by (simp add: cp_start_def cp_step_def assms(4,5) t0_def cp_new_def)
  let ?snap = "cp_join L workers (sn_now w) 1 t0"
  have "cp_snapshot s = Some ?snap" "cp_catalog s = cp_catalog t0"
    using s ok assms(6) by (auto simp: cp_step_def publish_turn_eq t0 NewPublisher_def snapshot_holder.store_cases Let_def)
  moreover have "\<exists>v \<in> set (rs_Workers ?snap). wv_ID v = mw_ID x \<and> wv_Healthy v \<and> wv_Ready v = hb_Ready hb"
    if "x \<in> set workers" "Get_hb ?live (mw_ID x) = Some hb" for x hb
    using that by (cases "mw_Models x") (force simp: cp_join_def t0 views_of_worker_def worker_view_def Let_def)+
  moreover have "\<forall>v \<in> set (rg_workers ?reg). virtual_view v \<in> set (rs_Workers ?snap)"
    by (auto simp: cp_join_def t0 SnapshotViews_def)
  ultimately show ?thesis using t0(4) by (intro conjI exI [of _ ?snap]) (simp_all add: get cp_join_def)
qed

text \<open>
  C18. A minimum that is never met: while a model has a scaling policy with at least one replica as its minimum, and no worker of
  any snapshot serves it, neither the control loop nor any request starts a worker for it, in no interleaving. The
  loop looks only at models that have workers, and a positive minimum tells the gateway that no activation is needed.
\<close>

theorem minimum_never_met:
  assumes "cp_run L es s = Ret s'" and "fleet_key md \<notin> model_keys (cp_fleet s)"
    and "all_along L es s (\<lambda>t. unseen md (cp_snapshot t) \<and> sp_MinReplicas (Policy_Get (mg_policies (cp_fleet t)) md) > 0)"
    and "fm_BaseModel md \<noteq> ''''"
  shows "fleet_key md \<notin> model_keys (cp_fleet s') \<and> readyCount (cp_snapshot s') md (cp_fleet s') = 0
    \<and> provisioningCount md (cp_fleet s') = 0"
proof -
  have keys: "fleet_key md \<notin> model_keys (cp_fleet s')" using assms(1-3)
  proof (induction es arbitrary: s)
    case (Cons e es)
    obtain s1 where s1: "cp_step L e s = Ret s1" "cp_run L es s1 = Ret s'" using Cons.prems(1) by (auto split: outcome.splits)
    have here: "unseen md (cp_snapshot s)" "sp_MinReplicas (Policy_Get (mg_policies (cp_fleet s)) md) > 0"
      using Cons.prems(3) by (simp_all add: all_along_Cons)
    have "fleet_key md \<notin> model_keys (cp_fleet s1)"
      using s1(1) Cons.prems(2) model_keys_ReconcileAll [OF here(1) Cons.prems(2)] model_keys_cold_request [OF here(2) Cons.prems(2)]
      by (cases e) (auto simp: cp_step_def fleet_turn_def split: outcome.splits)
    then show ?case using Cons.IH [OF s1(2)] Cons.prems(3) s1(1) by (simp add: all_along_Cons)
  qed simp
  have "unseen md (cp_snapshot s')" using assms(1,3) unfolding all_along_def by (metis order_refl take_all)
  then have "\<not> serves md v" if "v \<in> set (snap_views (cp_snapshot s'))" for v
    using that assms(4) by (cases md) (auto simp: unseen_def serves_def)
  moreover have untracked: "fleet_key (tw_Model t) \<noteq> fleet_key md" if "(k, t) \<in> set (mg_workers (cp_fleet s'))" for k t
    using keys that by (force simp: model_keys_def)
  ultimately have "ready_ids (cp_snapshot s') md (mg_workers (cp_fleet s')) = []"
    by (auto simp: ready_ids_def filter_empty_conv)
  moreover have "filter (\<lambda>(_, t). fleet_key (tw_Model t) = fleet_key md \<and> tw_State t = StateProvisioning) (mg_workers (cp_fleet s')) = []"
    using untracked by (auto simp: filter_empty_conv)
  ultimately show ?thesis using keys by (simp add: readyCount_def provisioningCount_def)
qed

section \<open>Witnesses\<close>

definition demo_libs :: cp_libs where
  "demo_libs =
     \<lparr>li_getenv = (\<lambda>_. ''''), li_heartbeat = (\<lambda>_. None), li_caps = ParseCapabilities (\<lambda>_. None) (\<lambda>_. None), li_snapshot = (\<lambda>_. Inr ''''),
      li_unsnapshot = (\<lambda>_. Inl EOF), li_policy = (\<lambda>_. ''''), li_unpolicy = (\<lambda>_. Inl EOF), li_wire = (\<lambda>_. Inl EOF),
      li_sha8 = id, li_event = (\<lambda>_. Inl EOF)\<rparr>"

definition demo_cp :: "unit control_plane" where
  "demo_cp = cp_new (NewObjectiveStore None None 0 None) \<lparr>st_decisions = None, st_live = None, st_updates = []\<rparr>
     (NewPolicyCache None) () (NewKeyStore True) 0"

lemma demo_cp_ok: "cp_ok demo_cp"
  using NewIndex_ok by (auto simp: demo_cp_def cp_new_def cp_ok_def live_ok_def NewCacheService_def publishSnapshot_def
      SnapshotForScoring_def index_copy_def)

definition peer_snapshot :: RoutingSnapshot where
  "peer_snapshot = \<lparr>rs_BuiltAt = 7, rs_Epoch = 3, rs_Workers = []\<rparr>"

definition demo_replica :: "unit control_plane" where
  "demo_replica = demo_cp\<lparr>cp_publisher := \<lparr>pb_epoch = 1, pb_holder = Some peer_snapshot\<rparr>\<rparr>"

theorem views_are_newest_witness:
  "\<exists>s'. cp_run demo_libs [Provider_tick (Inl EOF, Inr []), Keys_tick (Inr []), Keys_tick (Inl EOF)] demo_cp = Ret s'
     \<and> cp_providers s' = NewRegistry \<and> keys_fresh (Inr []) (cp_keys s')"
proof -
  let ?es = "[Provider_tick (Inl EOF, Inr []), Keys_tick (Inr []), Keys_tick (Inl EOF)] :: unit cp_event list"
  obtain s' where s': "cp_run demo_libs ?es demo_cp = Ret s'" by (simp add: cp_step_def)
  have "ks_hasDB (cp_keys demo_cp)" "cp_providers demo_cp = NewRegistry"
    by (simp_all add: demo_cp_def cp_new_def NewKeyStore_def)
  with views_are_newest [OF s'] have "cp_providers s' = NewRegistry \<and> keys_fresh (Inr []) (cp_keys s')"
    by (simp add: newest_good_def provider_good_def provider_turn_def keys_turn_def List.map_filter_simps)
  with s' show ?thesis by blast
qed

theorem takeover_serves_stale_witness:
  "\<exists>s' s''. cp_run demo_libs [Publish_tick (Inr []) 8 None, Cache_copy 8] demo_replica = Ret s'
     \<and> cp_step demo_libs (Publish_tick (Inr []) 9 None) s' = Ret s''
     \<and> cp_snapshot s' = Some peer_snapshot \<and> cp_snapshot s'' = Some peer_snapshot"
proof -
  let ?es = "[Publish_tick (Inr []) 8 None, Cache_copy 8] :: unit cp_event list"
  obtain s' where s': "cp_run demo_libs ?es demo_replica = Ret s'" by (simp add: cp_step_def)
  obtain s'' where s'': "cp_step demo_libs (Publish_tick (Inr []) 9 None) s' = Ret s''" by (simp add: cp_step_def)
  have ok: "cp_ok demo_replica" using demo_cp_ok by (simp add: demo_replica_def cp_ok_def)
  have n: "published ?es = 1" by (simp add: published_def takes_epoch_def)
  have "cp_snapshot s' = Some peer_snapshot \<and> cp_snapshot s'' = Some peer_snapshot"
    using takeover_serves_stale [OF s' ok _ _ _ _ _ s'', of peer_snapshot] n
    by (simp add: demo_replica_def peer_snapshot_def demo_libs_def)
  with s' s'' show ?thesis by blast
qed

theorem control_plane_panics_witness:
  "cp_run demo_libs [Health_tick (\<lambda>_. Inr ([], 0)) (\<lambda>_. RNil), Key_event (\<lambda>_. RNil) (''__keyevent@0__:set'', ''worker:heartbeat'')] demo_cp = Panic"
  using control_plane_panics
    [of "[Health_tick (\<lambda>_. Inr ([], 0)) (\<lambda>_. RNil), Key_event (\<lambda>_. RNil) (''__keyevent@0__:set'', ''worker:heartbeat'')]" demo_libs demo_cp]
  by (auto simp: scan_matches_def)

theorem control_plane_invariant_witness:
  "\<exists>s'. cp_run demo_libs [Publish_tick (Inr []) 8 None, Cache_copy 8] demo_replica = Ret s' \<and> cp_ok s'
     \<and> not_older rs_Epoch (Some peer_snapshot) (cp_snapshot s')"
proof -
  let ?es = "[Publish_tick (Inr []) 8 None, Cache_copy 8] :: unit cp_event list"
  obtain s' where s': "cp_run demo_libs ?es demo_replica = Ret s'" by (simp add: cp_step_def)
  have ok: "cp_ok demo_replica" using demo_cp_ok by (simp add: demo_replica_def cp_ok_def)
  from control_plane_invariant [OF ok s'] have "cp_ok s' \<and> not_older rs_Epoch (Some peer_snapshot) (cp_snapshot s')"
    by (simp add: demo_replica_def)
  with s' show ?thesis by blast
qed

definition demo_start_env :: start_env where
  "demo_start_env =
     \<lparr>sn_scan = (\<lambda>_. Inr ([], 0)), sn_get = (\<lambda>_. RNil),
      sn_catalog = \<lparr>cw_fault = (\<lambda>_. None), cw_ids = (\<lambda>_. ''i''), cw_now = 5, cw_servable = [], cw_db = \<lparr>ct_models = [], ct_assigns = [], ct_calls = 0, ct_ids = 0\<rparr>\<rparr>,
      sn_planner = None, sn_providers = (Inr [], Inr []), sn_listed = Inr [], sn_now = 5, sn_refused = None\<rparr>"

theorem start_serves_complete_view_witness:
  "\<exists>s snap. cp_run demo_libs (cp_start demo_start_env) demo_cp = Ret s \<and> cp_snapshot s = Some snap \<and> rs_Epoch snap = 1"
proof -
  have scan: "scan_pages (sn_scan demo_start_env) 0 [[]]" by (simp add: demo_start_env_def)
  have "cp_run demo_libs (cp_start demo_start_env) demo_cp \<noteq> Panic"
    using health_turn_no_panic [of "sn_scan demo_start_env" demo_libs "sn_get demo_start_env" "cp_live demo_cp"]
    by (auto simp: cp_start_def cp_step_def scan_matches_def demo_start_env_def split: outcome.splits)
  then obtain s where s: "cp_run demo_libs (cp_start demo_start_env) demo_cp = Ret s" by (cases "cp_run demo_libs (cp_start demo_start_env) demo_cp") auto
  from start_serves_complete_view [OF s [unfolded demo_cp_def] scan, of "[]"]
  have "\<exists>snap. cp_snapshot s = Some snap \<and> rs_Epoch snap = 1" by (auto simp: demo_start_env_def demo_libs_def)
  with s show ?thesis by blast
qed

definition pinned_model :: FleetModel where
  "pinned_model = \<lparr>fm_BaseModel = ''m'', fm_Adapter = ''''\<rparr>"

definition pinned_cp :: "unit control_plane" where
  "pinned_cp = demo_cp\<lparr>cp_fleet := cp_manager \<lparr>pc_rows = None, pc_by = [''m'' \<mapsto> (DefaultPolicy pinned_model)\<lparr>sp_MinReplicas := 1\<rparr>]\<rparr> ()\<rparr>"

theorem minimum_never_met_witness:
  "\<exists>s'. cp_run demo_libs [Cold_request (\<lambda>_ p. (Inr ''w'', p)) ''m'', Cache_copy 8] pinned_cp = Ret s'
     \<and> readyCount (cp_snapshot s') pinned_model (cp_fleet s') = 0 \<and> provisioningCount pinned_model (cp_fleet s') = 0"
proof -
  let ?es = "[Cold_request (\<lambda>_ p. (Inr ''w'', p)) ''m'', Cache_copy 8] :: unit cp_event list"
  let ?P = "\<lambda>t :: unit control_plane. unseen pinned_model (cp_snapshot t) \<and> sp_MinReplicas (Policy_Get (mg_policies (cp_fleet t)) pinned_model) > 0"
  obtain s' where s': "cp_run demo_libs ?es pinned_cp = Ret s'" by (simp add: cp_step_def)
  have min: "sp_MinReplicas (Policy_Get (mg_policies (cp_fleet pinned_cp)) pinned_model) > 0"
    by (simp add: pinned_cp_def cp_manager_def NewManager_def Policy_Get_def pinned_model_def fleet_key_def)
  then have "\<not> NeedsActivation snap ''m'' (cp_fleet pinned_cp)" for snap by (simp add: NeedsActivation_def pinned_model_def)
  then have stay: "snd (fleet_activator.attempted snap prov (cp_fleet pinned_cp) ''m'') = cp_fleet pinned_cp" for snap prov
    by (simp add: fleet_activator.attempted_def)
  have along: "all_along demo_libs ?es pinned_cp ?P"
    using min stay
    by (auto simp: all_along_Cons cp_step_def all_along_def [of _ "[]"] unseen_def snap_views_def pinned_cp_def demo_cp_def cp_new_def NewPublisher_def)
  have "readyCount (cp_snapshot s') pinned_model (cp_fleet s') = 0 \<and> provisioningCount pinned_model (cp_fleet s') = 0"
    using minimum_never_met [OF s' _ along]
    by (simp add: pinned_model_def model_keys_def pinned_cp_def cp_manager_def NewManager_def)
  with s' show ?thesis by blast
qed

end
