(* ===== verification/Requests.thy ===== *)
theory Requests
  imports Services
begin

text \<open>
  Requests in the running process: the holders a request reads are those the background goroutines write (\<open>Services\<close>), so
  what it is offered depends on the snapshot, the catalog, the policy and the cache view of its moment. The property is
  when a request is offered a worker at all, in terms of the worker views of the snapshot.
\<close>

section \<open>The handler in the process\<close>

text \<open>The policy and overlap scorers hold pointers; at a request they are what the holders contain.\<close>

fun live_scorer :: "RoutingPolicy option \<Rightarrow> CacheSnapshot option \<Rightarrow> Scorer \<Rightarrow> Scorer" where
  "live_scorer policy overlap (PolicyScorer _) = PolicyScorer policy"
| "live_scorer policy overlap (OverlapScorer _) = OverlapScorer overlap"
| "live_scorer policy overlap s = s"

definition live_chain :: "'p control_plane \<Rightarrow> Chain \<Rightarrow> Chain" where
  "live_chain s ch =
     ch\<lparr>ch_Scorers := map (\<lambda>(sc, w). (live_scorer (case ps_out (cp_planner s) of Some h \<Rightarrow> h | None \<Rightarrow> None) (sv_holder (cp_cache s)) sc, w))
       (ch_Scorers ch)\<rparr>"

definition live_selector :: "'p control_plane \<Rightarrow> SnapshotSelector \<Rightarrow> SnapshotSelector" where
  "live_selector s sel = sel\<lparr>se_holder := cp_snapshot s, se_catalog := cp_catalog s, se_chain := live_chain s (se_chain sel)\<rparr>"

definition live_handler :: "'p control_plane \<Rightarrow> Handler \<Rightarrow> Handler" where
  "live_handler s h = SetProviders (cp_providers s) (h\<lparr>gh_selector := live_selector s (gh_selector h)\<rparr>)"

text \<open>The ranking of a request that arrives in process state \<open>s\<close>.\<close>

definition cp_request ::
  "(string \<Rightarrow> u64) \<Rightarrow> 'p control_plane \<Rightarrow> string \<Rightarrow> string \<Rightarrow> Handler \<Rightarrow> (goerr + SelectedWorker list) \<times> Handler" where
  "cp_request sum64 s model prompt h = rankWorkers sum64 model prompt (live_handler s h)"

lemma live_chain_filters [simp]: "ch_Filters (live_chain s ch) = ch_Filters ch"
  by (simp add: live_chain_def)

section \<open>When a selection succeeds\<close>

lemma Rank_succeeds:
  assumes "ch_Filters ch = ch_Filters (NewConfiguredChain cfg)" "sr_BaseModel r \<noteq> ''''"
  shows "(\<exists>ranked. fst (Rank sum64 ch (Some r) cs) = Inr ranked) \<longleftrightarrow>
     (\<exists>c \<in> set cs. fits_request r c \<and> below_limit (cc_AdmissionLimit cfg) c)"
  unfolding Rank_def assms(1) run_filters_configured [OF assms(2)]
  by (auto simp: filter_empty_conv split: prod.splits)

text \<open>The name is known: the catalog is empty, or it resolves the name.\<close>

definition known_model :: "SnapshotSelector \<Rightarrow> string \<Rightarrow> bool" where
  "known_model s model \<longleftrightarrow> Catalog_Empty (se_catalog s) \<or> Resolve (se_catalog s) model \<noteq> None"

lemma SelectWorkers_succeeds:
  assumes "ch_Filters (se_chain s) = ch_Filters (NewConfiguredChain cfg)"
    and "r = sched_request (fst (model_identity s model)) (snd (model_identity s model)) prompt"
  shows "(\<exists>ws. fst (SelectWorkers sum64 s model prompt limit) = Inr ws) \<longleftrightarrow>
     (\<exists>snap. se_holder s = Some snap \<and> known_model s model \<and> sr_BaseModel r \<noteq> ''''
       \<and> (\<exists>c \<in> set (selector_candidates s snap). assigned s model (cd_WorkerID c) \<and> fits_request r c
            \<and> below_limit (cc_AdmissionLimit cfg) c))"
proof (cases "se_holder s")
  case (Some snap)
  let ?cs = "filter (\<lambda>c. assigned s model (cd_WorkerID c)) (selector_candidates s snap)"
  show ?thesis
  proof (cases "known_model s model")
    case True
    then obtain base adapter allowed where res: "resolveModel s model = Inr (base, adapter, allowed)"
      by (cases "ParseModelID model"; cases "Catalog_Empty (se_catalog s)"; cases "Resolve (se_catalog s) model")
        (auto simp: resolveModel_def known_model_def)
    have cs: "(case allowed of None \<Rightarrow> selector_candidates s snap
        | Some ws \<Rightarrow> filterByWorkerIDs (selector_candidates s snap) ws) = ?cs"
      using res by (auto simp: resolveModel_def assigned_def filterByWorkerIDs_def split: if_splits option.splits prod.splits)
    have mi: "model_identity s model = (base, adapter)"
      using res by (auto simp: resolveModel_def model_identity_def split: if_splits option.splits prod.splits)
    have "(\<exists>ws. fst (SelectWorkers sum64 s model prompt limit) = Inr ws) \<longleftrightarrow>
        \<not> (allowed \<noteq> None \<and> ?cs = []) \<and> (\<exists>ranked. fst (Rank sum64 (se_chain s) (Some r) ?cs) = Inr ranked)"
      unfolding SelectWorkers_def selector_candidates_def [symmetric]
      by (auto simp: Some res Let_def cs assms(2) mi split: prod.splits sum.splits)
    moreover have "fst (Rank sum64 (se_chain s) (Some r) ?cs) \<noteq> Inr ranked" if "sr_BaseModel r = ''''" for ranked
      using Rank_empty_base [OF that assms(1)] by simp
    ultimately show ?thesis
      using Rank_succeeds [OF assms(1), of r sum64 ?cs] True Some by (cases "sr_BaseModel r = ''''") (auto simp: filter_empty_conv)
  next
    case False
    then have "resolveModel s model = Inl (ErrModelNotFound model)"
      by (cases "ParseModelID model"; cases "Resolve (se_catalog s) model") (auto simp: resolveModel_def known_model_def)
    with False Some show ?thesis by (simp add: SelectWorkers_def)
  qed
qed (simp add: SelectWorkers_def)

lemma SelectWorkers_not_empty:
  assumes "ch_Filters (se_chain s) = ch_Filters (NewConfiguredChain cfg)"
    and "fst (SelectWorkers sum64 s model prompt limit) = Inr ws"
  shows "ws \<noteq> []"
proof -
  from assms(2) obtain s' where "SelectWorkers sum64 s model prompt limit = (Inr ws, s')" by (metis prod.collapse)
  then obtain cs ranked req' ch' r where R: "Rank sum64 (se_chain s) (Some r) cs = (Inr ranked, req', ch')"
    and ws: "ws = map (selected model) (take (nat (if limit \<le> 0 then 3 else limit)) ranked)"
    by (blast elim: SelectWorkers_Inr)
  have "sr_BaseModel r \<noteq> ''''" using Rank_empty_base [OF _ assms(1), of r sum64 cs] R by auto
  from rank_listing [OF this assms(1) R] show ?thesis by (auto simp: ws)
qed

section \<open>In terms of the views\<close>

text \<open>
  A worker is able to take a request when among its views one is healthy, one is ready and one is for the model, and none
  of them, with the requests this gateway has in flight there, is at the limit.
\<close>

definition able :: "int \<Rightarrow> (string \<Rightarrow> int) \<Rightarrow> RoutingSnapshot \<Rightarrow> string \<times> string \<Rightarrow> string \<Rightarrow> bool" where
  "able limit held snap ident w \<longleftrightarrow>
     (let vs = filter (\<lambda>v. wv_ID v = w) (rs_Workers snap) in
      list_ex wv_Healthy vs \<and> list_ex wv_Ready vs
      \<and> servesModel (map ModelID (filter (\<lambda>v. wv_BaseModel v \<noteq> '''') vs)) (join_model (fst ident) (snd ident)) (fst ident) (snd ident)
      \<and> (limit \<le> 0 \<or> list_all (\<lambda>v. view_depth (Some held) v < limit) vs))"

lemma servesModel_set: "set ms = set ms' \<Longrightarrow> servesModel ms want base adapter = servesModel ms' want base adapter"
  by (simp add: servesModel_def list_ex_iff)

lemma able_summary:
  assumes "summarises (Some held) vs c" "vs = filter (\<lambda>v. wv_ID v = cd_WorkerID c) (rs_Workers snap)"
  shows "able limit held snap ident (cd_WorkerID c) \<longleftrightarrow>
     fits_request (sched_request (fst ident) (snd ident) prompt) c \<and> below_limit limit c"
proof -
  have ne: "vs \<noteq> []" using assms(1) by (auto simp: summarises_def)
  have "set (map ModelID (filter (\<lambda>v. wv_BaseModel v \<noteq> '''') vs)) = set (cd_Models c)"
    using assms(1) by (auto simp: summarises_def)
  note serves = servesModel_set [OF this]
  have "cd_QueueDepth c < limit \<longleftrightarrow> list_all (\<lambda>v. view_depth (Some held) v < limit) vs"
    using assms(1) ne by (auto simp: summarises_def list_all_iff)
  with assms serves show ?thesis
    by (auto simp: able_def fits_request_def sched_request_def below_limit_def summarises_def list_ex_iff Let_def)
qed

lemma candidates_able:
  "(\<exists>c \<in> set (CandidatesFromSnapshot (Some snap) (Some held) lat). P (cd_WorkerID c)
       \<and> fits_request (sched_request (fst ident) (snd ident) prompt) c \<and> below_limit limit c) \<longleftrightarrow>
   (\<exists>w \<in> wv_ID ` set (rs_Workers snap). P w \<and> able limit held snap ident w)"
proof -
  let ?cs = "CandidatesFromSnapshot (Some snap) (Some held) lat"
  have ids: "cd_WorkerID ` set ?cs = wv_ID ` set (rs_Workers snap)"
    and sm: "\<And>c. c \<in> set ?cs \<Longrightarrow> summarises (Some held) (filter (\<lambda>v. wv_ID v = cd_WorkerID c) (rs_Workers snap)) c"
    using candidates_summarise_views [of snap "Some held" lat] by (auto simp: Let_def)
  show ?thesis unfolding ids [symmetric] using able_summary [OF sm refl] by auto
qed

section \<open>Properties\<close>

text \<open>
  C21. Availability: a request is offered a worker exactly when the process has a snapshot, the catalog is empty or
  resolves the name, the name has a base model, and some worker of the snapshot is able to take it: one the catalog assigns, with
  views that are healthy, ready and for the model, and room in the snapshot's load plus the gateway's own requests.
\<close>

theorem request_served_iff:
  assumes "ch_Filters (se_chain (gh_selector h)) = ch_Filters (NewConfiguredChain cfg)"
    and "sel = live_selector s (gh_selector h)"
  shows "(\<exists>ws. fst (cp_request sum64 s model prompt h) = Inr ws \<and> ws \<noteq> []) \<longleftrightarrow>
     (\<exists>snap. cp_snapshot s = Some snap \<and> known_model sel model \<and> fst (model_identity sel model) \<noteq> ''''
       \<and> (\<exists>w \<in> wv_ID ` set (rs_Workers snap). assigned sel model w
            \<and> able (cc_AdmissionLimit cfg) (Inflight_Get (se_inflight (gh_selector h))) snap (model_identity sel model) w))"
proof -
  have f: "ch_Filters (se_chain sel) = ch_Filters (NewConfiguredChain cfg)" using assms by (simp add: live_selector_def)
  have sel: "se_holder sel = cp_snapshot s" "se_inflight sel = se_inflight (gh_selector h)"
    using assms(2) by (simp_all add: live_selector_def)
  have base: "sr_BaseModel (sched_request b a prompt) = b" for b a by (simp add: sched_request_def)
  have "fst (cp_request sum64 s model prompt h) = fst (SelectWorkers sum64 sel model prompt (gh_maxAttempts h))"
    using assms(2) by (simp add: cp_request_def rankWorkers_def live_handler_def SetProviders_def split: prod.splits)
  moreover note SelectWorkers_not_empty [OF f, of sum64 model prompt "gh_maxAttempts h"]
  ultimately have "(\<exists>ws. fst (cp_request sum64 s model prompt h) = Inr ws \<and> ws \<noteq> []) \<longleftrightarrow>
      (\<exists>ws. fst (SelectWorkers sum64 sel model prompt (gh_maxAttempts h)) = Inr ws)" by metis
  then show ?thesis
    using SelectWorkers_succeeds [OF f refl, of sum64 model prompt "gh_maxAttempts h"]
    by (simp add: sel selector_candidates_def candidates_able [where P = "assigned sel model"] base)
qed

text \<open>A new process has nothing to offer; with a snapshot of a healthy worker it has.\<close>

theorem request_served_iff_witness:
  "(\<exists>ws. fst (cp_request (\<lambda>_. 0) (demo_cp\<lparr>cp_publisher := \<lparr>pb_epoch = 1, pb_holder = Some demo_snapshot\<rparr>\<rparr>) ''m'' ''hi'' demo_handler) = Inr ws \<and> ws \<noteq> [])
   \<and> \<not> (\<exists>ws. fst (cp_request (\<lambda>_. 0) demo_cp ''m'' ''hi'' demo_handler) = Inr ws \<and> ws \<noteq> [])"
proof -
  let ?s = "demo_cp\<lparr>cp_publisher := \<lparr>pb_epoch = 1, pb_holder = Some demo_snapshot\<rparr>\<rparr>"
  have f: "ch_Filters (se_chain (gh_selector demo_handler)) = ch_Filters (NewConfiguredChain Scheduler_Correct.demo_cfg)"
    by (simp add: demo_handler_def NewHandler_def demo_selector_def)
  have cat: "se_catalog (live_selector s sel) = None" if "cp_catalog s = None" for s :: "unit control_plane" and sel
    using that by (simp add: live_selector_def)
  have new: "cp_snapshot demo_cp = None" "cp_catalog demo_cp = None" by (simp_all add: demo_cp_def cp_new_def NewPublisher_def)
  have "able (cc_AdmissionLimit Scheduler_Correct.demo_cfg) (Inflight_Get (se_inflight (gh_selector demo_handler))) demo_snapshot (''m'', '''') ''v''"
    by (simp add: able_def demo_snapshot_def demo_views_def Scheduler_Correct.demo_cfg_def demo_handler_def NewHandler_def demo_selector_def
        Inflight_Get_def servesModel_def join_model_def view_depth_def ModelID_def)
  then have yes: "\<exists>ws. fst (cp_request (\<lambda>_. 0) ?s ''m'' ''hi'' demo_handler) = Inr ws \<and> ws \<noteq> []"
    unfolding request_served_iff [OF f refl]
    by (intro exI [of _ demo_snapshot])
      (simp add: known_model_def assigned_def model_identity_def cat new Catalog_Empty_def demo_ParseModelID demo_snapshot_def demo_views_def)
  have no: "\<not> (\<exists>ws. fst (cp_request (\<lambda>_. 0) demo_cp ''m'' ''hi'' demo_handler) = Inr ws \<and> ws \<noteq> [])"
    unfolding request_served_iff [OF f refl] by (simp add: new)
  from yes no show ?thesis by blast
qed

end
