(* ===== verification/Replicas.thy ===== *)
theory Replicas
  imports Services
begin

text \<open>
  Several control planes on one Redis. Each is a process of \<open>Services\<close> with a publisher and an epoch counter of its own, and
  all of them publish to and subscribe to the channel of the routing snapshots. Redis delivers a published payload to a
  process at any later moment, in any order, again, or never; a process may end and be started anew at any moment. The
  invariant is that nobody serves a snapshot that was not published; the properties say what the replicas agree on.
\<close>

section \<open>The system\<close>

record 'p replicas =
  rp_cp :: "nat \<Rightarrow> 'p control_plane"
  rp_sent :: "string list"

text \<open>What a turn sends to the channel: the payload of a publication that succeeded.\<close>

definition turn_sends :: "cp_libs \<Rightarrow> 'p cp_event \<Rightarrow> 'p control_plane \<Rightarrow> string list" where
  "turn_sends L e s =
     (case e of
        Publish_tick listed now refused \<Rightarrow>
          (case snd (snd (Publisher_tick (li_caps L) (li_snapshot L) (cp_publisher s) listed (Some (cp_live s))
             (Some (SnapshotViews (cp_providers s))) now refused)) of
             None \<Rightarrow> [] | Some payload \<Rightarrow> [payload])
      | _ \<Rightarrow> [])"

definition is_delivery :: "'p cp_event \<Rightarrow> bool" where
  "is_delivery e \<longleftrightarrow> (case e of Snapshot_msg _ \<Rightarrow> True | _ \<Rightarrow> False)"

inductive replicas_step :: "cp_libs \<Rightarrow> 'p replicas \<Rightarrow> 'p replicas \<Rightarrow> bool" for L where
  turn: "\<not> is_delivery e \<Longrightarrow> cp_step L e (rp_cp r i) = Ret s' \<Longrightarrow>
     replicas_step L r \<lparr>rp_cp = (rp_cp r)(i := s'), rp_sent = rp_sent r @ turn_sends L e (rp_cp r i)\<rparr>"
| deliver: "payload \<in> set (rp_sent r) \<Longrightarrow> cp_step L (Snapshot_msg payload) (rp_cp r i) = Ret s' \<Longrightarrow>
     replicas_step L r (r\<lparr>rp_cp := (rp_cp r)(i := s')\<rparr>)"
| restart: "replicas_step L r (r\<lparr>rp_cp := (rp_cp r)(i := cp_new objectives policies fleet prov keys now)\<rparr>)"

text \<open>Before the first publication no process holds a snapshot.\<close>

inductive replicas_reachable :: "cp_libs \<Rightarrow> 'p replicas \<Rightarrow> bool" for L where
  initial: "(\<And>i. cp_snapshot (cps i) = None) \<Longrightarrow> replicas_reachable L \<lparr>rp_cp = cps, rp_sent = []\<rparr>"
| step: "replicas_reachable L r \<Longrightarrow> replicas_step L r r' \<Longrightarrow> replicas_reachable L r'"



text \<open>Decoding a payload gives the snapshot it was encoded from.\<close>

definition codec_ok :: "cp_libs \<Rightarrow> bool" where
  "codec_ok L \<longleftrightarrow> (\<forall>x p. li_snapshot L x = Inr p \<longrightarrow> li_unsnapshot L p = Inr x)"

definition sent_snapshots :: "cp_libs \<Rightarrow> 'p replicas \<Rightarrow> RoutingSnapshot set" where
  "sent_snapshots L r = set (decoded (li_unsnapshot L) (rp_sent r))"

definition replicas_inv :: "cp_libs \<Rightarrow> 'p replicas \<Rightarrow> bool" where
  "replicas_inv L r \<longleftrightarrow> (\<forall>i x. cp_snapshot (rp_cp r i) = Some x \<longrightarrow> x \<in> sent_snapshots L r)"

section \<open>The invariant\<close>

lemma decoded_iff: "x \<in> set (decoded unmarshal ms) \<longleftrightarrow> (\<exists>m \<in> set ms. unmarshal m = Inr x)"
  by (induction ms) (auto simp: decoded_def List.map_filter_simps split: sum.splits)

lemma decoded_set: "set ms = set ms' \<Longrightarrow> set (decoded unmarshal ms) = set (decoded unmarshal ms')"
  by (auto simp: decoded_iff)

text \<open>A turn leaves the holder, or puts what it sends there.\<close>

lemma turn_snapshot:
  assumes "cp_step L e s = Ret s'" "\<not> is_delivery e"
  shows "cp_snapshot s' = cp_snapshot s
     \<or> (\<exists>x p. cp_snapshot s' = Some x \<and> turn_sends L e s = [p] \<and> li_snapshot L x = Inr p)"
  using assms
  by (cases e) (auto simp: cp_step_def is_delivery_def turn_sends_def publish_turn_def Publisher_tick_def buildSnapshot_def
      snapshot_holder.store_cases Let_def split: outcome.splits sum.splits option.splits if_splits)

lemma delivered_snapshot:
  assumes "cp_step L (Snapshot_msg p) s = Ret s'"
  shows "cp_snapshot s' = cp_snapshot s \<or> (\<exists>x. cp_snapshot s' = Some x \<and> li_unsnapshot L p = Inr x)"
  using assms
  by (auto simp: cp_step_def subscriber_msg_def snapshot_holder.store_cases split: sum.splits option.splits)

lemma replicas_step_inv:
  assumes "replicas_step L r r'" "replicas_inv L r" "codec_ok L"
  shows "replicas_inv L r'"
  using assms(1)
proof cases
  case (turn e i s')
  have sub: "sent_snapshots L r \<subseteq> sent_snapshots L r'" by (auto simp: turn sent_snapshots_def decoded_iff)
  have new: "x \<in> sent_snapshots L r'" if "turn_sends L e (rp_cp r i) = [p]" "li_snapshot L x = Inr p" for x p
    using that assms(3) by (auto simp: turn sent_snapshots_def decoded_iff codec_ok_def)
  show ?thesis
    using turn_snapshot [OF turn(3,2)] assms(2) sub new by (auto simp: replicas_inv_def turn(1))
next
  case (deliver payload i s')
  show ?thesis
    using delivered_snapshot [OF deliver(3)] assms(2) deliver(2)
    by (auto simp: replicas_inv_def deliver(1) sent_snapshots_def decoded_iff)
next
  case restart
  then show ?thesis using assms(2) by (auto simp: replicas_inv_def sent_snapshots_def cp_new_def NewPublisher_def)
qed

lemma replicas_reachable_inv: "replicas_reachable L r \<Longrightarrow> codec_ok L \<Longrightarrow> replicas_inv L r"
  by (induction rule: replicas_reachable.induct) (auto simp: replicas_inv_def [of _ "\<lparr>rp_cp = _, rp_sent = _\<rparr>"] intro: replicas_step_inv)

section \<open>Delivery\<close>

lemma run_deliveries:
  "cp_run L (map Snapshot_msg ms) s =
     Ret (s\<lparr>cp_publisher := (cp_publisher s)\<lparr>pb_holder := RunSubscriber (li_unsnapshot L) (cp_snapshot s) ms\<rparr>\<rparr>)"
  by (induction ms arbitrary: s) (simp_all add: cp_step_def RunSubscriber_def)

text \<open>A holder whose snapshot is one of those it is sent ends at a newest of them.\<close>

lemma subscriber_from_sent:
  assumes "\<forall>x. h = Some x \<longrightarrow> x \<in> set (decoded unmarshal ms)"
  shows "case RunSubscriber unmarshal h ms of
      None \<Rightarrow> set (decoded unmarshal ms) = {}
    | Some y \<Rightarrow> y \<in> set (decoded unmarshal ms) \<and> (\<forall>x \<in> set (decoded unmarshal ms). rs_Epoch x \<le> rs_Epoch y)"
proof (cases h)
  case None
  then show ?thesis
    using snapshot_holder.run_from_nil [OF refl, of "decoded unmarshal ms"] by (auto simp: RunSubscriber_decoded split: option.splits)
next
  case (Some c)
  then show ?thesis
    using snapshot_holder.run_ge_start [of "decoded unmarshal ms" c] assms by (auto simp: RunSubscriber_decoded)
qed

section \<open>Properties\<close>

text \<open>
  C22. Convergence: in any history of publications, deliveries, losses and restarts, two control planes that are then delivered
  all that was published, each in an order of its own, hold snapshots of the same epoch, the newest published, or both
  none; and the same snapshot when no two publications had the same epoch.
\<close>

theorem replicas_converge:
  assumes "replicas_reachable L r" and "codec_ok L"
    and "set ms = set (rp_sent r)" and "set ms' = set (rp_sent r)"
    and "cp_run L (map Snapshot_msg ms) (rp_cp r i) = Ret a" and "cp_run L (map Snapshot_msg ms') (rp_cp r j) = Ret b"
  shows "(case (cp_snapshot a, cp_snapshot b) of
       (None, None) \<Rightarrow> sent_snapshots L r = {}
     | (Some x, Some y) \<Rightarrow> rs_Epoch x = rs_Epoch y \<and> {x, y} \<subseteq> sent_snapshots L r
          \<and> (\<forall>z \<in> sent_snapshots L r. rs_Epoch z \<le> rs_Epoch x)
     | _ \<Rightarrow> False)
    \<and> (inj_on rs_Epoch (sent_snapshots L r) \<longrightarrow> cp_snapshot a = cp_snapshot b)"
proof -
  have inv: "\<forall>x. cp_snapshot (rp_cp r k) = Some x \<longrightarrow> x \<in> sent_snapshots L r" for k
    using replicas_reachable_inv [OF assms(1,2)] by (simp add: replicas_inv_def)
  have ends: "case cp_snapshot t of None \<Rightarrow> sent_snapshots L r = {}
      | Some y \<Rightarrow> y \<in> sent_snapshots L r \<and> (\<forall>x \<in> sent_snapshots L r. rs_Epoch x \<le> rs_Epoch y)"
    if ns: "set ns = set (rp_sent r)" and run: "cp_run L (map Snapshot_msg ns) (rp_cp r k) = Ret t" for ns k t
  proof -
    have eq: "set (decoded (li_unsnapshot L) ns) = sent_snapshots L r" using decoded_set [OF ns] by (simp add: sent_snapshots_def)
    have "cp_snapshot t = RunSubscriber (li_unsnapshot L) (cp_snapshot (rp_cp r k)) ns" using run by (auto simp: run_deliveries)
    then show ?thesis using subscriber_from_sent [of "cp_snapshot (rp_cp r k)" "li_unsnapshot L" ns] inv [of k] unfolding eq by simp
  qed
  show ?thesis
    using ends [OF assms(3,5)] ends [OF assms(4,6)]
    by (auto split: option.splits dest: inj_onD intro: antisym)
qed

text \<open>
  Why the epochs have to differ: every publisher counts for itself, so two control planes that have published equally often
  have published different snapshots under one epoch, and no delivery of what was published up to then changes either: each
  keeps what it holds, however often the other's snapshot arrives.
\<close>

theorem replicas_keep_disagreeing:
  assumes "cp_run L (map Snapshot_msg ms) (rp_cp r i) = Ret a" and "cp_run L (map Snapshot_msg ms') (rp_cp r j) = Ret b"
    and "cp_snapshot (rp_cp r i) = Some x" and "cp_snapshot (rp_cp r j) = Some y"
    and "\<forall>m \<in> set (ms @ ms'). \<forall>z. li_unsnapshot L m = Inr z \<longrightarrow> rs_Epoch z \<le> rs_Epoch x \<and> rs_Epoch z \<le> rs_Epoch y"
  shows "cp_snapshot a = Some x \<and> cp_snapshot b = Some y"
proof -
  have stays: "RunSubscriber (li_unsnapshot L) (Some c) ns = Some c"
    if "\<forall>m \<in> set ns. \<forall>z. li_unsnapshot L m = Inr z \<longrightarrow> rs_Epoch z \<le> rs_Epoch c" for ns c
    using that by (induction ns) (auto simp: RunSubscriber_def subscriber_msg_def snapshot_holder.store_stale split: sum.splits)
  have "RunSubscriber (li_unsnapshot L) (Some x) ms = Some x" "RunSubscriber (li_unsnapshot L) (Some y) ms' = Some y"
    using assms(5) by (auto intro!: stays)
  then show ?thesis using assms(1-4) by (auto simp: run_deliveries)
qed

section \<open>Witnesses\<close>

text \<open>A codec on the epochs of empty snapshots, and two processes that have each published once.\<close>

definition empty_snapshot :: "u64 \<Rightarrow> int \<Rightarrow> RoutingSnapshot" where
  "empty_snapshot ep t = \<lparr>rs_BuiltAt = t, rs_Epoch = ep, rs_Workers = []\<rparr>"

definition toy_libs :: cp_libs where
  "toy_libs = demo_libs\<lparr>
     li_snapshot := (\<lambda>x. if x = empty_snapshot 1 5 then Inr ''a'' else if x = empty_snapshot 1 6 then Inr ''b'' else Inl EOF),
     li_unsnapshot := (\<lambda>p. if p = ''a'' then Inr (empty_snapshot 1 5) else if p = ''b'' then Inr (empty_snapshot 1 6) else Inl EOF)\<rparr>"

lemma toy_codec: "codec_ok toy_libs"
  by (auto simp: codec_ok_def toy_libs_def split: if_splits)

definition after_publish :: "int \<Rightarrow> unit control_plane" where
  "after_publish t = demo_cp\<lparr>cp_publisher := \<lparr>pb_epoch = 1, pb_holder = Some (empty_snapshot 1 t)\<rparr>\<rparr>"

definition toy_replicas :: "unit replicas" where
  "toy_replicas = \<lparr>rp_cp = (\<lambda>_. demo_cp)(0 := after_publish 5, 1 := after_publish 6), rp_sent = [''a'', ''b'']\<rparr>"

lemma toy_publish:
  assumes "t \<in> {5, 6}"
  shows "cp_step toy_libs (Publish_tick (Inr []) t None) demo_cp = Ret (after_publish t)
     \<and> turn_sends toy_libs (Publish_tick (Inr []) t None) demo_cp = [if t = 5 then ''a'' else ''b'']"
  using assms
  by (auto simp: cp_step_def publish_turn_def turn_sends_def Publisher_tick_def buildSnapshot_def demo_cp_def cp_new_def NewPublisher_def
      toy_libs_def empty_snapshot_def after_publish_def All_hb_def NewRegistry_def SnapshotViews_def SnapshotHolder_StoreIfNewer_def)

lemma toy_reachable: "replicas_reachable toy_libs toy_replicas"
proof -
  let ?r0 = "\<lparr>rp_cp = \<lambda>_. demo_cp, rp_sent = []\<rparr> :: unit replicas"
  let ?r1 = "\<lparr>rp_cp = (\<lambda>_. demo_cp)(0 := after_publish 5), rp_sent = [''a'']\<rparr> :: unit replicas"
  have "replicas_reachable toy_libs ?r0"
    by (rule replicas_reachable.initial) (simp add: demo_cp_def cp_new_def NewPublisher_def)
  moreover have "replicas_step toy_libs ?r0 ?r1"
    using replicas_step.turn [of "Publish_tick (Inr []) 5 None" toy_libs ?r0 0 "after_publish 5"] toy_publish [of 5]
    by (simp add: is_delivery_def)
  moreover have "replicas_step toy_libs ?r1 toy_replicas"
    using replicas_step.turn [of "Publish_tick (Inr []) 6 None" toy_libs ?r1 1 "after_publish 6"] toy_publish [of 6]
    by (simp add: is_delivery_def toy_replicas_def)
  ultimately show ?thesis by (meson replicas_reachable.step)
qed

theorem replicas_converge_witness:
  "\<exists>a b x y. cp_run toy_libs (map Snapshot_msg [''a'', ''b'']) (rp_cp toy_replicas 0) = Ret a
     \<and> cp_run toy_libs (map Snapshot_msg [''b'', ''a'']) (rp_cp toy_replicas 2) = Ret b
     \<and> cp_snapshot a = Some x \<and> cp_snapshot b = Some y \<and> rs_Epoch x = rs_Epoch y"
proof -
  obtain a where a: "cp_run toy_libs (map Snapshot_msg [''a'', ''b'']) (rp_cp toy_replicas 0) = Ret a"
    unfolding run_deliveries by blast
  obtain b where b: "cp_run toy_libs (map Snapshot_msg [''b'', ''a'']) (rp_cp toy_replicas 2) = Ret b"
    unfolding run_deliveries by blast
  have ne: "sent_snapshots toy_libs toy_replicas \<noteq> {}"
    using decoded_iff [of "empty_snapshot 1 5" "li_unsnapshot toy_libs" "rp_sent toy_replicas"]
    by (auto simp: sent_snapshots_def toy_replicas_def toy_libs_def)
  have "set [''a'', ''b''] = set (rp_sent toy_replicas)" "set [''b'', ''a''] = set (rp_sent toy_replicas)"
    by (auto simp: toy_replicas_def)
  from replicas_converge [OF toy_reachable toy_codec this a b] ne a b show ?thesis
    by (auto split: option.splits)
qed

text \<open>Two replicas that agree on the epoch and on nothing else, whatever is delivered.\<close>

theorem replicas_keep_disagreeing_witness:
  "\<exists>a b. cp_run toy_libs (map Snapshot_msg [''b'', ''a'']) (rp_cp toy_replicas 0) = Ret a
     \<and> cp_run toy_libs (map Snapshot_msg [''a'', ''b'']) (rp_cp toy_replicas 1) = Ret b
     \<and> cp_snapshot a = Some (empty_snapshot 1 5) \<and> cp_snapshot b = Some (empty_snapshot 1 6)"
proof -
  obtain a where a: "cp_run toy_libs (map Snapshot_msg [''b'', ''a'']) (rp_cp toy_replicas 0) = Ret a"
    unfolding run_deliveries by blast
  obtain b where b: "cp_run toy_libs (map Snapshot_msg [''a'', ''b'']) (rp_cp toy_replicas 1) = Ret b"
    unfolding run_deliveries by blast
  have h: "cp_snapshot (rp_cp toy_replicas 0) = Some (empty_snapshot 1 5)" "cp_snapshot (rp_cp toy_replicas 1) = Some (empty_snapshot 1 6)"
    by (simp_all add: toy_replicas_def after_publish_def)
  from replicas_keep_disagreeing [OF a b h] a b show ?thesis
    by (simp add: toy_libs_def empty_snapshot_def)
qed

end
