(* ===== verification/Observability.thy ===== *)
theory Observability
  imports Services
begin

text \<open>
  The collectors of the control plane (\<open>metrics.go\<close> of every service, \<open>internal/observability\<close>) and the clients it opens. The
  Prometheus library is a parameter: the operations of a labelled family as the record \<open>vec_ops\<close> with their documented
  laws as \<open>vec_laws\<close>, and the registry's verdict on a collector. What is modelled is the code around it: which
  collectors a component registers, what it writes into them and when.
\<close>

section \<open>Collectors and their registration\<close>

record collector =
  co_Name :: string
  co_Labels :: "string list"

definition health_collectors :: "collector list" where
  "health_collectors =
     [\<lparr>co_Name = ''forge_workers_healthy'', co_Labels = [''base_model'', ''runtime'']\<rparr>,
      \<lparr>co_Name = ''forge_worker_last_heartbeat_age_seconds'', co_Labels = [''worker_id'', ''base_model'', ''runtime'']\<rparr>]"

definition routing_collectors :: "collector list" where
  "routing_collectors =
     [\<lparr>co_Name = ''forge_routing_snapshot_age_seconds'', co_Labels = []\<rparr>,
      \<lparr>co_Name = ''forge_routing_snapshot_decode_errors_total'', co_Labels = []\<rparr>,
      \<lparr>co_Name = ''forge_routing_snapshot_publishes_total'', co_Labels = []\<rparr>]"

definition scheduler_collectors :: "collector list" where
  "scheduler_collectors =
     [\<lparr>co_Name = ''forge_scheduler_dispatched_total'', co_Labels = [''worker_id'', ''model'']\<rparr>,
      \<lparr>co_Name = ''forge_scheduler_filtered_total'', co_Labels = [''reason'']\<rparr>,
      \<lparr>co_Name = ''forge_scheduler_worker_ewma_latency_ms'', co_Labels = [''worker_id'']\<rparr>,
      \<lparr>co_Name = ''forge_scheduler_score'', co_Labels = [''worker_id'']\<rparr>,
      \<lparr>co_Name = ''forge_affinity_hits_total'', co_Labels = []\<rparr>,
      \<lparr>co_Name = ''forge_routing_decisions_total'', co_Labels = []\<rparr>]"

definition gateway_collectors :: "collector list" where
  "gateway_collectors =
     [\<lparr>co_Name = ''forge_gateway_request_duration_seconds'', co_Labels = [''route'', ''model'', ''stream'', ''status'']\<rparr>,
      \<lparr>co_Name = ''forge_gateway_ttft_seconds'', co_Labels = [''route'', ''model'']\<rparr>,
      \<lparr>co_Name = ''forge_gateway_requests_admitted_total'', co_Labels = [''model'']\<rparr>,
      \<lparr>co_Name = ''forge_gateway_requests_rejected_total'', co_Labels = [''model'', ''reason'']\<rparr>,
      \<lparr>co_Name = ''forge_worker_inflight'', co_Labels = [''worker_id'']\<rparr>]"

definition reliability_collectors :: "collector list" where
  "reliability_collectors =
     [\<lparr>co_Name = ''forge_worker_circuit_breaker_state'', co_Labels = [''worker_id'']\<rparr>,
      \<lparr>co_Name = ''forge_gateway_failover_total'', co_Labels = [''from_worker'', ''to_worker'', ''reason'']\<rparr>]"

definition fleet_collectors :: "collector list" where
  "fleet_collectors =
     [\<lparr>co_Name = ''forge_fleet_scale_events_total'', co_Labels = [''model'', ''direction'']\<rparr>,
      \<lparr>co_Name = ''forge_fleet_desired_replicas'', co_Labels = [''model'']\<rparr>,
      \<lparr>co_Name = ''forge_fleet_ready_replicas'', co_Labels = [''model'']\<rparr>]"

definition cache_collectors :: "collector list" where
  "cache_collectors = [\<lparr>co_Name = ''forge_cache_events_total'', co_Labels = [''type'']\<rparr>]"

definition build_collectors :: "collector list" where
  "build_collectors = [\<lparr>co_Name = ''forge_controlplane_build_info'', co_Labels = [''version'']\<rparr>]"

text \<open>\<open>MustRegister\<close>: \<open>verdict\<close> is the registry's verdict on a collector, given those it has; a refusal panics.\<close>

fun MustRegister :: "(collector list \<Rightarrow> collector \<Rightarrow> bool) \<Rightarrow> collector list \<Rightarrow> collector list \<Rightarrow> collector list outcome" where
  "MustRegister verdict [] reg = Ret reg"
| "MustRegister verdict (c # cs) reg = (if verdict reg c then MustRegister verdict cs (reg @ [c]) else Panic)"

text \<open>The container builds each component once, in an order of its own.\<close>

definition cp_collectors :: "collector list list" where
  "cp_collectors = [health_collectors, routing_collectors, scheduler_collectors, gateway_collectors, reliability_collectors,
     fleet_collectors, cache_collectors, build_collectors]"

fun register_all :: "(collector list \<Rightarrow> collector \<Rightarrow> bool) \<Rightarrow> collector list list \<Rightarrow> collector list \<Rightarrow> collector list outcome" where
  "register_all verdict [] reg = Ret reg"
| "register_all verdict (g # gs) reg =
     (case MustRegister verdict g reg of Panic \<Rightarrow> Panic | Ret reg' \<Rightarrow> register_all verdict gs reg')"

text \<open>A registry accepts every collector whose name it does not have yet.\<close>

definition accepts_new :: "(collector list \<Rightarrow> collector \<Rightarrow> bool) \<Rightarrow> bool" where
  "accepts_new verdict \<longleftrightarrow> (\<forall>reg c. co_Name c \<notin> co_Name ` set reg \<longrightarrow> verdict reg c)"

lemma MustRegister_new:
  assumes "accepts_new verdict" "distinct (map co_Name (reg @ cs))"
  shows "MustRegister verdict cs reg = Ret (reg @ cs)"
  using assms(2)
proof (induction cs arbitrary: reg)
  case (Cons c cs)
  then have "verdict reg c" using assms(1) by (auto simp: accepts_new_def)
  with Cons.IH [of "reg @ [c]"] Cons.prems show ?case by simp
qed simp

lemma register_all_new:
  assumes "accepts_new verdict" "distinct (map co_Name (reg @ concat gs))"
  shows "register_all verdict gs reg = Ret (reg @ concat gs)"
  using assms(2)
proof (induction gs arbitrary: reg)
  case (Cons g gs)
  have "MustRegister verdict g reg = Ret (reg @ g)" using Cons.prems by (intro MustRegister_new [OF assms(1)]) auto
  with Cons.IH [of "reg @ g"] Cons.prems show ?case by simp
qed simp

lemma cp_collectors_names: "distinct (map co_Name (concat cp_collectors))"
  by code_simp

section \<open>Labelled families\<close>

record 'v vec_ops =
  vo_New :: 'v
  vo_Reset :: "'v \<Rightarrow> 'v"
  vo_Inc :: "string list \<Rightarrow> 'v \<Rightarrow> 'v"
  vo_Set :: "string list \<Rightarrow> real \<Rightarrow> 'v \<Rightarrow> 'v"
  vo_read :: "'v \<Rightarrow> string list \<Rightarrow> real option"

definition vec_laws :: "'v vec_ops \<Rightarrow> bool" where
  "vec_laws V \<longleftrightarrow>
     (\<forall>l. vo_read V (vo_New V) l = None)
     \<and> (\<forall>v l. vo_read V (vo_Reset V v) l = None)
     \<and> (\<forall>v l l'. vo_read V (vo_Inc V l v) l' =
          (if l' = l then Some (case vo_read V v l of None \<Rightarrow> 1 | Some x \<Rightarrow> x + 1) else vo_read V v l'))
     \<and> (\<forall>v l x l'. vo_read V (vo_Set V l x v) l' = (if l' = l then Some x else vo_read V v l'))"

abbreviation vec_count :: "'v vec_ops \<Rightarrow> 'v \<Rightarrow> string list \<Rightarrow> real" where
  "vec_count V v l \<equiv> (case vo_read V v l of None \<Rightarrow> 0 | Some x \<Rightarrow> x)"

subsection \<open>Health\<close>

record 'v health_Metrics =
  hm_healthy :: 'v
  hm_age :: 'v

definition heartbeat_age :: "int \<Rightarrow> Heartbeat \<Rightarrow> real" where
  "heartbeat_age nowMs hb =
     (if hb_TS hb > 0
      then let age = real_of_int (nowMs - hb_TS hb) / 1000 in if age < 0 then 0 else age
      else 0)"

definition health_Publish :: "'v vec_ops \<Rightarrow> int \<Rightarrow> Heartbeat list \<Rightarrow> 'v health_Metrics \<Rightarrow> 'v health_Metrics" where
  "health_Publish V nowMs workers m =
     fold (\<lambda>hb m. \<lparr>hm_healthy = vo_Inc V [hb_BaseModel hb, hb_Runtime hb] (hm_healthy m),
                   hm_age = vo_Set V [hb_ID hb, hb_BaseModel hb, hb_Runtime hb] (heartbeat_age nowMs hb) (hm_age m)\<rparr>)
       workers \<lparr>hm_healthy = vo_Reset V (hm_healthy m), hm_age = vo_Reset V (hm_age m)\<rparr>"

lemma heartbeat_age_nonneg: "0 \<le> heartbeat_age nowMs hb"
  by (simp add: heartbeat_age_def Let_def)

lemma fold_Inc_count:
  assumes "vec_laws V"
  shows "vo_read V (fold (\<lambda>x. vo_Inc V (f x)) xs v) l =
     (if l \<in> f ` set xs then Some (vec_count V v l + real (count_list (map f xs) l)) else vo_read V v l)"
  using assms
  by (induction xs arbitrary: v) (auto simp: vec_laws_def split: option.splits)

lemma fold_Set_last:
  assumes "vec_laws V"
  shows "vo_read V (fold (\<lambda>x. vo_Set V (f x) (g x)) xs v) l =
     (case find (\<lambda>x. f x = l) (rev xs) of Some x \<Rightarrow> Some (g x) | None \<Rightarrow> vo_read V v l)"
  using assms by (induction xs rule: rev_induct) (auto simp: vec_laws_def)

lemma find_SomeD: "find P xs = Some x \<Longrightarrow> x \<in> set xs \<and> P x"
  by (induction xs) (auto split: if_splits)

lemma health_Publish_parts:
  "hm_healthy (health_Publish V nowMs ws m) = fold (\<lambda>hb. vo_Inc V [hb_BaseModel hb, hb_Runtime hb]) ws (vo_Reset V (hm_healthy m))"
  "hm_age (health_Publish V nowMs ws m) =
     fold (\<lambda>hb. vo_Set V [hb_ID hb, hb_BaseModel hb, hb_Runtime hb] (heartbeat_age nowMs hb)) ws (vo_Reset V (hm_age m))"
  by (induction ws rule: rev_induct) (simp_all add: health_Publish_def)

text \<open>
  After \<open>Publish\<close> the gauges are the set: counts by labels, one age per heartbeat, and nothing else.
\<close>

lemma health_Publish_exact:
  assumes "vec_laws V" and "live_ok live" and "m' = health_Publish V nowMs (All_hb live) m"
  shows "vo_read V (hm_healthy m') l =
      (let n = count_list (map (\<lambda>hb. [hb_BaseModel hb, hb_Runtime hb]) (All_hb live)) l in if n = 0 then None else Some (real n))
    \<and> (\<forall>hb \<in> set (All_hb live). vo_read V (hm_age m') [hb_ID hb, hb_BaseModel hb, hb_Runtime hb] = Some (heartbeat_age nowMs hb))
    \<and> (\<forall>a. vo_read V (hm_age m') l = Some a \<longrightarrow>
         0 \<le> a \<and> (\<exists>hb \<in> set (All_hb live). l = [hb_ID hb, hb_BaseModel hb, hb_Runtime hb]))"
proof -
  let ?f = "\<lambda>hb. [hb_BaseModel hb, hb_Runtime hb]" and ?g = "\<lambda>hb. [hb_ID hb, hb_BaseModel hb, hb_Runtime hb]"
  have reset: "vo_read V (vo_Reset V v) x = None" for v x using assms(1) by (simp add: vec_laws_def)
  have "l \<in> ?f ` set (All_hb live) \<longleftrightarrow> count_list (map ?f (All_hb live)) l \<noteq> 0" by (simp add: count_list_0_iff)
  then have healthy: "vo_read V (hm_healthy m') l =
      (let n = count_list (map ?f (All_hb live)) l in if n = 0 then None else Some (real n))"
    unfolding assms(3) health_Publish_parts fold_Inc_count [OF assms(1)] by (simp add: reset Let_def)
  have age: "vo_read V (hm_age m') x = (case find (\<lambda>hb. ?g hb = x) (rev (All_hb live)) of Some hb \<Rightarrow> Some (heartbeat_age nowMs hb) | None \<Rightarrow> None)" for x
    unfolding assms(3) health_Publish_parts fold_Set_last [OF assms(1)] by (simp add: reset split: option.split)
  have own: "map_of live (hb_ID x) = Some x" if "x \<in> set (All_hb live)" for x
    using that assms(2) by (fastforce simp: live_ok_def All_hb_def)
  have inj: "x = y" if "x \<in> set (All_hb live)" "y \<in> set (All_hb live)" "hb_ID x = hb_ID y" for x y
    using own [OF that(1)] own [OF that(2)] that(3) by (metis option.inject)
  have "find (\<lambda>x. ?g x = ?g hb) (rev (All_hb live)) = Some hb" if mem: "hb \<in> set (All_hb live)" for hb
  proof -
    obtain x where x: "find (\<lambda>x. ?g x = ?g hb) (rev (All_hb live)) = Some x" "x \<in> set (All_hb live)" "?g x = ?g hb"
      using find_is_Some [of hb "rev (All_hb live)" "\<lambda>x. ?g x = ?g hb"] mem by auto
    then have "x = hb" using inj [OF x(2) mem] by simp
    with x(1) show ?thesis by simp
  qed
  then have "\<forall>hb \<in> set (All_hb live). vo_read V (hm_age m') (?g hb) = Some (heartbeat_age nowMs hb)" by (simp add: age)
  moreover have "0 \<le> a \<and> (\<exists>hb \<in> set (All_hb live). l = ?g hb)" if a: "vo_read V (hm_age m') l = Some a" for a
  proof -
    obtain hb where hb: "find (\<lambda>hb. ?g hb = l) (rev (All_hb live)) = Some hb" "a = heartbeat_age nowMs hb"
      using a unfolding age by (auto split: option.splits)
    from find_SomeD [OF hb(1)] show ?thesis using heartbeat_age_nonneg hb(2) by auto
  qed
  ultimately show ?thesis using healthy by blast
qed

text \<open>
  \<open>Publish\<close> as the steps it takes: the two goroutines of the service call it without a lock between them, so their
  steps may alternate.
\<close>

datatype pub_op = Reset_healthy | Reset_age | Inc_healthy Heartbeat | Set_age int Heartbeat

fun pub_step :: "'v vec_ops \<Rightarrow> pub_op \<Rightarrow> 'v health_Metrics \<Rightarrow> 'v health_Metrics" where
  "pub_step V Reset_healthy m = m\<lparr>hm_healthy := vo_Reset V (hm_healthy m)\<rparr>"
| "pub_step V Reset_age m = m\<lparr>hm_age := vo_Reset V (hm_age m)\<rparr>"
| "pub_step V (Inc_healthy hb) m = m\<lparr>hm_healthy := vo_Inc V [hb_BaseModel hb, hb_Runtime hb] (hm_healthy m)\<rparr>"
| "pub_step V (Set_age now hb) m =
     m\<lparr>hm_age := vo_Set V [hb_ID hb, hb_BaseModel hb, hb_Runtime hb] (heartbeat_age now hb) (hm_age m)\<rparr>"

definition publish_each :: "int \<Rightarrow> Heartbeat list \<Rightarrow> pub_op list" where
  "publish_each now workers = concat (map (\<lambda>hb. [Inc_healthy hb, Set_age now hb]) workers)"

definition publish_ops :: "int \<Rightarrow> Heartbeat list \<Rightarrow> pub_op list" where
  "publish_ops now workers = Reset_healthy # Reset_age # publish_each now workers"

lemma publish_ops_alone: "fold (pub_step V) (publish_ops now ws) m = health_Publish V now ws m"
proof -
  have upd: "k\<lparr>hm_healthy := x, hm_age := y\<rparr> = \<lparr>hm_healthy = x, hm_age = y\<rparr>" for k :: "'a health_Metrics" and x y
    by (cases k) simp
  have "fold (pub_step V) (publish_each now ws) m =
      fold (\<lambda>hb m. \<lparr>hm_healthy = vo_Inc V [hb_BaseModel hb, hb_Runtime hb] (hm_healthy m),
         hm_age = vo_Set V [hb_ID hb, hb_BaseModel hb, hb_Runtime hb] (heartbeat_age now hb) (hm_age m)\<rparr>) ws m" for m
    by (induction ws arbitrary: m) (simp_all add: publish_each_def upd)
  then show ?thesis by (simp add: publish_ops_def health_Publish_def upd)
qed

text \<open>What the steps do to the count of a pair of labels.\<close>

definition incs :: "string list \<Rightarrow> pub_op list \<Rightarrow> nat" where
  "incs l ops = length (filter (\<lambda>op. case op of Inc_healthy hb \<Rightarrow> [hb_BaseModel hb, hb_Runtime hb] = l | _ \<Rightarrow> False) ops)"

lemma incs_publish_each: "incs l (publish_each now ws) = count_list (map (\<lambda>hb. [hb_BaseModel hb, hb_Runtime hb]) ws) l"
  by (induction ws) (simp_all add: incs_def publish_each_def)

lemma incs_append: "incs l (xs @ ys) = incs l xs + incs l ys"
  by (simp add: incs_def)

lemma incs_shuffles:
  assumes "ops \<in> shuffles xs ys"
  shows "incs l ops = incs l xs + incs l ys"
  unfolding incs_def using filter_shuffles [of _ xs ys] assms by (metis (no_types, lifting) imageI length_shuffles)

lemma pub_steps_count_le:
  assumes "vec_laws V"
  shows "vec_count V (hm_healthy m) l \<ge> 0 \<Longrightarrow> vec_count V (hm_healthy (fold (pub_step V) ops m)) l \<le> vec_count V (hm_healthy m) l + real (incs l ops)"
proof (induction ops arbitrary: m)
  case (Cons op ops)
  let ?m = "pub_step V op m"
  have "vec_count V (hm_healthy ?m) l \<ge> 0 \<and> vec_count V (hm_healthy ?m) l \<le> vec_count V (hm_healthy m) l + real (incs l [op])"
    using assms Cons.prems by (cases op) (auto simp: vec_laws_def incs_def split: option.splits)
  with Cons.IH [of ?m] show ?case by (simp add: incs_def split: if_splits)
qed (simp add: incs_def)

lemma pub_steps_count_eq:
  assumes "vec_laws V" "Reset_healthy \<notin> set ops"
  shows "vec_count V (hm_healthy (fold (pub_step V) ops m)) l = vec_count V (hm_healthy m) l + real (incs l ops)"
  using assms(2)
proof (induction ops arbitrary: m)
  case (Cons op ops)
  let ?m = "pub_step V op m"
  have "vec_count V (hm_healthy ?m) l = vec_count V (hm_healthy m) l + real (incs l [op])"
    using assms(1) Cons.prems by (cases op) (auto simp: vec_laws_def incs_def split: option.splits)
  with Cons show ?case by (simp add: incs_def split: if_splits)
qed (simp add: incs_def)

text \<open>
  The health service with its gauges (\<open>deriver.go\<close>): a scan that failed publishes nothing, one that succeeded publishes
  the new set; of the key events those publish that change the set. \<open>Start\<close> publishes in any case.
\<close>

record 'v health_Service =
  hs_live :: live
  hs_metrics :: "'v health_Metrics"

definition health_publish :: "'v vec_ops \<Rightarrow> int \<Rightarrow> 'v health_Service \<Rightarrow> 'v health_Service" where
  "health_publish V now s = s\<lparr>hs_metrics := health_Publish V now (All_hb (hs_live s)) (hs_metrics s)\<rparr>"

definition health_reconcile ::
  "'v vec_ops \<Rightarrow> (string \<Rightarrow> Heartbeat option) \<Rightarrow> (u64 \<Rightarrow> goerr + string list \<times> u64) \<Rightarrow> (string \<Rightarrow> redis_get) \<Rightarrow> int \<Rightarrow>
     'v health_Service \<Rightarrow> 'v health_Service outcome" where
  "health_reconcile V decode scan get now s =
     (case reconcileOnce scan get decode (hs_live s) of
        None \<Rightarrow> Ret s
      | Some Panic \<Rightarrow> Panic
      | Some (Ret (Some _, l)) \<Rightarrow> Ret (s\<lparr>hs_live := l\<rparr>)
      | Some (Ret (None, l)) \<Rightarrow> Ret (health_publish V now (s\<lparr>hs_live := l\<rparr>)))"

definition health_applySet ::
  "'v vec_ops \<Rightarrow> (string \<Rightarrow> Heartbeat option) \<Rightarrow> (string \<Rightarrow> redis_get) \<Rightarrow> int \<Rightarrow> string \<Rightarrow> 'v health_Service \<Rightarrow> 'v health_Service" where
  "health_applySet V decode get now i s =
     (case get (Key i) of
        RNil \<Rightarrow> health_publish V now (s\<lparr>hs_live := Remove_hb (hs_live s) i\<rparr>)
      | RErr _ \<Rightarrow> s
      | RVal val \<Rightarrow>
          (case decode val of
             None \<Rightarrow> s
           | Some hb \<Rightarrow>
               health_publish V now (s\<lparr>hs_live := Upsert_hb (hs_live s) (if hb_ID hb = '''' then hb\<lparr>hb_ID := i\<rparr> else hb)\<rparr>)))"

definition health_keyevent ::
  "'v vec_ops \<Rightarrow> (string \<Rightarrow> Heartbeat option) \<Rightarrow> (string \<Rightarrow> redis_get) \<Rightarrow> int \<Rightarrow> string \<times> string \<Rightarrow>
     'v health_Service \<Rightarrow> 'v health_Service outcome" where
  "health_keyevent V decode get now msg s =
     (case msg of (channel, payload) \<Rightarrow>
        (case WorkerIDFromKey payload of
           Panic \<Rightarrow> Panic
         | Ret (i, ok) \<Rightarrow>
             Ret (if \<not> ok then s
               else if has_suffix channel '':expired'' \<or> has_suffix channel '':del''
                 then health_publish V now (s\<lparr>hs_live := Remove_hb (hs_live s) i\<rparr>)
               else if has_suffix channel '':set'' then health_applySet V decode get now i s
               else s)))"

definition health_Start ::
  "'v vec_ops \<Rightarrow> (string \<Rightarrow> Heartbeat option) \<Rightarrow> (u64 \<Rightarrow> goerr + string list \<times> u64) \<Rightarrow> (string \<Rightarrow> redis_get) \<Rightarrow> int \<Rightarrow>
     'v health_Service \<Rightarrow> 'v health_Service outcome option" where
  "health_Start V decode scan get now s =
     map_option (\<lambda>r. case r of Panic \<Rightarrow> Panic | Ret (_, l) \<Rightarrow> Ret (health_publish V now (s\<lparr>hs_live := l\<rparr>)))
       (reconcileOnce scan get decode (hs_live s))"

text \<open>A tick of \<open>reconcileLoop\<close> or a message of \<open>listenKeyevents\<close>, each with the time at which it publishes.\<close>

datatype health_event =
    Reconcile_tick "u64 \<Rightarrow> goerr + string list \<times> u64" "string \<Rightarrow> redis_get" int
  | Keyevent_msg "string \<Rightarrow> redis_get" int "string \<times> string"

fun health_run :: "'v vec_ops \<Rightarrow> (string \<Rightarrow> Heartbeat option) \<Rightarrow> health_event list \<Rightarrow> 'v health_Service \<Rightarrow> 'v health_Service outcome" where
  "health_run V decode [] s = Ret s"
| "health_run V decode (Reconcile_tick scan get now # es) s =
     (case health_reconcile V decode scan get now s of Panic \<Rightarrow> Panic | Ret s' \<Rightarrow> health_run V decode es s')"
| "health_run V decode (Keyevent_msg get now msg # es) s =
     (case health_keyevent V decode get now msg s of Panic \<Rightarrow> Panic | Ret s' \<Rightarrow> health_run V decode es s')"

text \<open>The gauges are a publication of the present live set.\<close>

definition gauges_current :: "'v vec_ops \<Rightarrow> 'v health_Service \<Rightarrow> bool" where
  "gauges_current V s \<longleftrightarrow> live_ok (hs_live s) \<and> (\<exists>now m. hs_metrics s = health_Publish V now (All_hb (hs_live s)) m)"

lemma health_publish_current: "live_ok (hs_live s) \<Longrightarrow> gauges_current V (health_publish V now s)"
  by (auto simp: gauges_current_def health_publish_def)

lemma reconcileOnce_ok:
  assumes "reconcileOnce scan get decode live = Some (Ret (e, l))" "live_ok live"
  shows "live_ok l \<and> (e \<noteq> None \<longrightarrow> l = live)"
proof -
  obtain r where r: "reconcile_scan scan get decode 0 [] = Some r" using assms(1) by (auto simp: reconcileOnce_def)
  have "live_ok []" by (simp add: live_ok_def)
  with reconcile_scan_post [OF r] have "live_ok x" if "r = Ret (Inr x)" for x using that by blast
  with assms r show ?thesis by (cases r) (auto simp: reconcileOnce_def Replace_def split: sum.splits)
qed

lemma health_reconcile_current:
  "gauges_current V s \<Longrightarrow> health_reconcile V decode scan get now s = Ret s' \<Longrightarrow> gauges_current V s'"
  using reconcileOnce_ok [of scan get decode "hs_live s"]
  by (fastforce simp: health_reconcile_def gauges_current_def health_publish_def split: option.splits outcome.splits prod.splits)

lemma health_keyevent_current:
  "gauges_current V s \<Longrightarrow> health_keyevent V decode get now msg s = Ret s' \<Longrightarrow> gauges_current V s'"
  by (auto simp: health_keyevent_def health_applySet_def gauges_current_def [of V s]
      split: outcome.splits prod.splits if_splits redis_get.splits option.splits
      intro!: health_publish_current live_ok_Remove live_ok_Upsert)
    (auto simp: gauges_current_def)

lemma health_run_current:
  "gauges_current V s \<Longrightarrow> health_run V decode es s = Ret s' \<Longrightarrow> gauges_current V s'"
  by (induction V decode es s rule: health_run.induct)
    (auto split: outcome.splits dest: health_reconcile_current health_keyevent_current)

subsection \<open>Scheduler\<close>

record 'v sched_Metrics =
  sm_dispatched :: 'v
  sm_filtered :: 'v
  sm_ewma :: 'v
  sm_score :: 'v
  sm_affinityHit :: 'v
  sm_decisions :: 'v

definition sched_NewMetrics :: "'v vec_ops \<Rightarrow> 'v sched_Metrics" where
  "sched_NewMetrics V = \<lparr>sm_dispatched = vo_New V, sm_filtered = vo_New V, sm_ewma = vo_New V, sm_score = vo_New V,
     sm_affinityHit = vo_New V, sm_decisions = vo_New V\<rparr>"

text \<open>The methods: a nil receiver does nothing.\<close>

definition IncDispatched :: "'v vec_ops \<Rightarrow> string \<Rightarrow> string \<Rightarrow> 'v sched_Metrics option \<Rightarrow> 'v sched_Metrics option" where
  "IncDispatched V workerID model = map_option (\<lambda>m. m\<lparr>sm_dispatched := vo_Inc V [workerID, model] (sm_dispatched m)\<rparr>)"

definition IncFiltered :: "'v vec_ops \<Rightarrow> string \<Rightarrow> 'v sched_Metrics option \<Rightarrow> 'v sched_Metrics option" where
  "IncFiltered V reason = map_option (\<lambda>m. m\<lparr>sm_filtered := vo_Inc V [reason] (sm_filtered m)\<rparr>)"

definition SetEWMA :: "'v vec_ops \<Rightarrow> string \<Rightarrow> real \<Rightarrow> 'v sched_Metrics option \<Rightarrow> 'v sched_Metrics option" where
  "SetEWMA V workerID ms = map_option (\<lambda>m. m\<lparr>sm_ewma := vo_Set V [workerID] ms (sm_ewma m)\<rparr>)"

definition SetScore :: "'v vec_ops \<Rightarrow> string \<Rightarrow> real \<Rightarrow> 'v sched_Metrics option \<Rightarrow> 'v sched_Metrics option" where
  "SetScore V workerID score = map_option (\<lambda>m. m\<lparr>sm_score := vo_Set V [workerID] score (sm_score m)\<rparr>)"

definition IncAffinityHit :: "'v vec_ops \<Rightarrow> 'v sched_Metrics option \<Rightarrow> 'v sched_Metrics option" where
  "IncAffinityHit V = map_option (\<lambda>m. m\<lparr>sm_affinityHit := vo_Inc V [] (sm_affinityHit m)\<rparr>)"

definition IncRoutingDecision :: "'v vec_ops \<Rightarrow> 'v sched_Metrics option \<Rightarrow> 'v sched_Metrics option" where
  "IncRoutingDecision V = map_option (\<lambda>m. m\<lparr>sm_decisions := vo_Inc V [] (sm_decisions m)\<rparr>)"

text \<open>
  What \<open>SelectWorkers\<close> records of a ranking: the score of the first, the decision, a hit when the first is the preferred
  worker, and a dispatch to the first.
\<close>

definition record_selection ::
  "'v vec_ops \<Rightarrow> string \<Rightarrow> string \<Rightarrow> PickResult list \<Rightarrow> 'v sched_Metrics option \<Rightarrow> 'v sched_Metrics option" where
  "record_selection V model preferred ranked m =
     (case ranked of
        [] \<Rightarrow> m
      | p # _ \<Rightarrow>
          (let m1 = IncRoutingDecision V (SetScore V (pr_WorkerID p) (pr_Score p) m);
               m2 = (if preferred \<noteq> '''' \<and> pr_WorkerID p = preferred then IncAffinityHit V m1 else m1) in
           IncDispatched V (pr_WorkerID p) model m2))"

text \<open>\<open>PickWithMetrics\<close> records the same of a single pick, without the dispatch.\<close>

definition PickWithMetrics ::
  "'v vec_ops \<Rightarrow> (string \<Rightarrow> u64) \<Rightarrow> Chain \<Rightarrow> Request option \<Rightarrow> Candidate list \<Rightarrow> 'v sched_Metrics option \<Rightarrow>
     (goerr + PickResult) outcome \<times> 'v sched_Metrics option" where
  "PickWithMetrics V sum64 ch req candidates m =
     (case Rank sum64 ch req candidates of
        (Inl e, _) \<Rightarrow> (Ret (Inl e), m)
      | (Inr [], _) \<Rightarrow> (Panic, m)
      | (Inr (p # _), req', _) \<Rightarrow>
          (let m1 = IncRoutingDecision V (SetScore V (pr_WorkerID p) (pr_Score p) m) in
           (Ret (Inr p),
            case req' of
              Some r \<Rightarrow> if sr_PreferredWorker r \<noteq> '''' \<and> pr_WorkerID p = sr_PreferredWorker r then IncAffinityHit V m1 else m1
            | None \<Rightarrow> m1)))"

lemma PickWithMetrics_picks: "fst (PickWithMetrics V sum64 ch req candidates m) = Pick sum64 ch req candidates"
  by (auto simp: PickWithMetrics_def Pick_def Let_def split: prod.splits sum.splits list.splits option.splits)

record selection =
  sl_model :: string
  sl_preferred :: string
  sl_ranked :: "PickResult list"

definition record_all :: "'v vec_ops \<Rightarrow> selection list \<Rightarrow> 'v sched_Metrics option \<Rightarrow> 'v sched_Metrics option" where
  "record_all V ss m = fold (\<lambda>s. record_selection V (sl_model s) (sl_preferred s) (sl_ranked s)) ss m"

text \<open>What a selection counts as.\<close>

definition decided :: "selection \<Rightarrow> bool" where
  "decided s \<longleftrightarrow> sl_ranked s \<noteq> []"

definition affine :: "selection \<Rightarrow> bool" where
  "affine s \<longleftrightarrow> decided s \<and> sl_preferred s \<noteq> '''' \<and> pr_WorkerID (hd (sl_ranked s)) = sl_preferred s"

definition sent_to :: "string \<Rightarrow> string \<Rightarrow> selection \<Rightarrow> bool" where
  "sent_to w model s \<longleftrightarrow> decided s \<and> pr_WorkerID (hd (sl_ranked s)) = w \<and> sl_model s = model"

lemma record_selection_counts:
  assumes "vec_laws V"
  shows "\<exists>m'. record_selection V (sl_model s) (sl_preferred s) (sl_ranked s) (Some m) = Some m'
    \<and> vec_count V (sm_decisions m') [] = vec_count V (sm_decisions m) [] + (if decided s then 1 else 0)
    \<and> vec_count V (sm_affinityHit m') [] = vec_count V (sm_affinityHit m) [] + (if affine s then 1 else 0)
    \<and> (\<forall>w model. vec_count V (sm_dispatched m') [w, model] =
         vec_count V (sm_dispatched m) [w, model] + (if sent_to w model s then 1 else 0))"
proof (cases "sl_ranked s")
  case Nil
  then show ?thesis by (simp add: record_selection_def decided_def affine_def sent_to_def)
next
  case (Cons p ps)
  have inc: "vec_count V (vo_Inc V l v) l' = vec_count V v l' + (if l' = l then 1 else 0)" for l l' v
    using assms by (simp add: vec_laws_def split: option.splits)
  show ?thesis
    by (auto simp: record_selection_def Cons decided_def affine_def sent_to_def IncRoutingDecision_def SetScore_def
        IncAffinityHit_def IncDispatched_def Let_def inc)
qed

lemma record_all_counts:
  assumes "vec_laws V"
  shows "\<exists>m'. record_all V ss (Some m) = Some m'
    \<and> vec_count V (sm_decisions m') [] = vec_count V (sm_decisions m) [] + real (length (filter decided ss))
    \<and> vec_count V (sm_affinityHit m') [] = vec_count V (sm_affinityHit m) [] + real (length (filter affine ss))
    \<and> (\<forall>w model. vec_count V (sm_dispatched m') [w, model] =
         vec_count V (sm_dispatched m) [w, model] + real (length (filter (sent_to w model) ss)))"
proof (induction ss arbitrary: m)
  case (Cons s ss)
  obtain m1 where m1: "record_selection V (sl_model s) (sl_preferred s) (sl_ranked s) (Some m) = Some m1"
    "vec_count V (sm_decisions m1) [] = vec_count V (sm_decisions m) [] + (if decided s then 1 else 0)"
    "vec_count V (sm_affinityHit m1) [] = vec_count V (sm_affinityHit m) [] + (if affine s then 1 else 0)"
    "\<And>w model. vec_count V (sm_dispatched m1) [w, model] =
         vec_count V (sm_dispatched m) [w, model] + (if sent_to w model s then 1 else 0)"
    using record_selection_counts [OF assms, of s m] by blast
  obtain m2 where "record_all V ss (Some m1) = Some m2"
    "vec_count V (sm_decisions m2) [] = vec_count V (sm_decisions m1) [] + real (length (filter decided ss))"
    "vec_count V (sm_affinityHit m2) [] = vec_count V (sm_affinityHit m1) [] + real (length (filter affine ss))"
    "\<And>w model. vec_count V (sm_dispatched m2) [w, model] =
         vec_count V (sm_dispatched m1) [w, model] + real (length (filter (sent_to w model) ss))"
    using Cons.IH [of m1] by blast
  with m1 show ?case by (intro exI [of _ m2]) (simp add: record_all_def)
qed (simp add: record_all_def)

subsection \<open>Fleet, breakers and routing\<close>

record 'v fleet_Metrics =
  fl_scaleEvents :: 'v
  fl_desired :: 'v
  fl_ready :: 'v

definition IncScale :: "'v vec_ops \<Rightarrow> string \<Rightarrow> string \<Rightarrow> 'v fleet_Metrics option \<Rightarrow> 'v fleet_Metrics option" where
  "IncScale V model direction = map_option (\<lambda>m. m\<lparr>fl_scaleEvents := vo_Inc V [model, direction] (fl_scaleEvents m)\<rparr>)"

definition SetDesired :: "'v vec_ops \<Rightarrow> string \<Rightarrow> int \<Rightarrow> 'v fleet_Metrics option \<Rightarrow> 'v fleet_Metrics option" where
  "SetDesired V model n = map_option (\<lambda>m. m\<lparr>fl_desired := vo_Set V [model] (real_of_int n) (fl_desired m)\<rparr>)"

definition SetReady :: "'v vec_ops \<Rightarrow> string \<Rightarrow> int \<Rightarrow> 'v fleet_Metrics option \<Rightarrow> 'v fleet_Metrics option" where
  "SetReady V model n = map_option (\<lambda>m. m\<lparr>fl_ready := vo_Set V [model] (real_of_int n) (fl_ready m)\<rparr>)"

text \<open>\<open>reconcile\<close> writes the two gauges before it acts.\<close>

definition reconcile_gauges :: "'v vec_ops \<Rightarrow> fleet_env \<Rightarrow> FleetModel \<Rightarrow> 'p Manager \<Rightarrow> 'v fleet_Metrics option \<Rightarrow> 'v fleet_Metrics option" where
  "reconcile_gauges V fe md m fm =
     (let policy = Policy_Get (mg_policies m) md;
          ready = readyCount (fe_snap_ready fe) md m;
          active = sumActive (fe_snap_active fe) md;
          (desired, _) = Hysteresis_Apply (fleet_key md) (wanted policy ready active) ready policy (fe_now fe) (mg_hyst m) in
      SetReady V (fleet_key md) ready (SetDesired V (fleet_key md) desired fm))"

text \<open>The age gauge of the snapshot; \<^const>\<open>None\<close> is infinity.\<close>

definition snapshot_age :: "RoutingSnapshot option \<Rightarrow> int \<Rightarrow> real option" where
  "snapshot_age h now = map_option (\<lambda>s. real_of_int (now - rs_BuiltAt s) / real_of_int second) h"

text \<open>
  \<open>SetBreakerState\<close> is the callback of the breakers, with the state as its number; the calls are those \<^const>\<open>setState\<close>
  has logged.
\<close>

primrec state_number :: "State \<Rightarrow> real" where
  "state_number StateClosed = 0"
| "state_number StateHalfOpen = 1"
| "state_number StateOpen = 2"

definition SetBreakerState :: "'v vec_ops \<Rightarrow> string \<Rightarrow> State \<Rightarrow> 'v option \<Rightarrow> 'v option" where
  "SetBreakerState V workerID st = map_option (vo_Set V [workerID] (state_number st))"

definition breaker_gauge :: "'v vec_ops \<Rightarrow> (string \<times> State) list \<Rightarrow> 'v" where
  "breaker_gauge V calls = the (fold (\<lambda>(w, st). SetBreakerState V w st) calls (Some (vo_New V)))"

lemma breaker_gauge_eq: "breaker_gauge V calls = fold (\<lambda>c. vo_Set V [fst c] (state_number (snd c))) calls (vo_New V)"
proof -
  have "fold (\<lambda>(w, st). SetBreakerState V w st) calls (Some v) = Some (fold (\<lambda>c. vo_Set V [fst c] (state_number (snd c))) calls v)" for v
    by (induction calls arbitrary: v) (auto simp: SetBreakerState_def)
  then show ?thesis by (simp add: breaker_gauge_def)
qed

text \<open>The log tells the state of every breaker: its last entry, and closed without one.\<close>

definition log_tells :: "BreakerMap \<Rightarrow> (string \<times> State) list \<Rightarrow> bool" where
  "log_tells b calls \<longleftrightarrow>
     (\<forall>w. wb_state (bm_get b w) = (case find (\<lambda>c. fst c = w) (rev calls) of None \<Rightarrow> StateClosed | Some c \<Rightarrow> snd c))"

text \<open>What an operation may do to the breakers: nothing to the states, or one transition it reports.\<close>

lemma breaker_step_log:
  assumes "breaker_step b b'" "onState b = Some calls"
  shows "(onState b' = Some calls \<and> (\<forall>w. wb_state (bm_get b' w) = wb_state (bm_get b w)))
     \<or> (\<exists>i st. onState b' = Some (calls @ [(i, st)])
          \<and> (\<forall>w. wb_state (bm_get b' w) = (if w = i then st else wb_state (bm_get b w))))"
  using assms(1)
proof cases
  case (bs_allow i now)
  show ?thesis
    by (cases "wb_state (bm_get b i)")
      (auto simp: bs_allow Allow_def setState_def Let_def bm_put_def bm_get_def assms(2))
next
  case (bs_success i)
  show ?thesis
    by (cases "wb_state (bm_get b i)")
      (auto simp: bs_success Success_def setState_def Let_def bm_put_def bm_get_def assms(2))
next
  case (bs_failure i now)
  show ?thesis
    by (cases "wb_state (bm_get b i)")
      (auto simp: bs_failure Failure_def setState_def Let_def bm_put_def bm_get_def assms(2))
qed

lemma log_tells_snoc:
  assumes "log_tells b calls" "\<forall>w. wb_state (bm_get b' w) = (if w = i then st else wb_state (bm_get b w))"
  shows "log_tells b' (calls @ [(i, st)])"
  using assms by (auto simp: log_tells_def)

lemma breaker_log_tells:
  assumes "breaker_step\<^sup>*\<^sup>* (NewBreakerMap c (Some [])) b"
  shows "\<exists>calls. onState b = Some calls \<and> log_tells b calls"
  using assms
proof (induction rule: rtranclp_induct)
  case base
  then show ?case by (simp add: NewBreakerMap_def Let_def log_tells_def bm_get_def newWorkerBreaker_def)
next
  case (step b b')
  then obtain calls where calls: "onState b = Some calls" "log_tells b calls" by blast
  from breaker_step_log [OF step(2) calls(1)] calls(2) show ?case
    by (auto simp: log_tells_def [of b' calls] log_tells_def [of b calls] intro: log_tells_snoc [OF calls(2)])
qed

section \<open>Tracing and clients\<close>

record TraceConfig =
  tc_ServiceName :: string
  tc_OTLPEndpoint :: string
  tc_SampleRatio :: real

text \<open>Without an endpoint the provider has no exporter: its spans stay in the process.\<close>

datatype tracer = LocalTracer string | SamplingTracer string string real

definition NewTracer :: "(goerr \<Rightarrow> string) \<Rightarrow> (string \<Rightarrow> goerr option) \<Rightarrow> goerr option \<Rightarrow> TraceConfig \<Rightarrow> goerr + tracer" where
  "NewTracer et exporter resource cfg =
     (let service = (if tc_ServiceName cfg = '''' then ''forge'' else tc_ServiceName cfg) in
      if tc_OTLPEndpoint cfg = '''' then Inr (LocalTracer service)
      else
        (let r0 = (if tc_SampleRatio cfg \<le> 0 then 1 else tc_SampleRatio cfg);
             r1 = (if r0 > 1 then 1 else r0) in
         case exporter (tc_OTLPEndpoint cfg) of
           Some e \<Rightarrow> Inl (PlainErr (''otlp exporter: '' @ et e))
         | None \<Rightarrow>
             (case resource of
                Some e \<Rightarrow> Inl (PlainErr (''resource: '' @ et e))
              | None \<Rightarrow> Inr (SamplingTracer service (tc_OTLPEndpoint cfg) r1))))"

definition cp_trace_config :: "Koanf \<Rightarrow> TraceConfig" where
  "cp_trace_config k = \<lparr>tc_ServiceName = ''forge-controlplane'', tc_OTLPEndpoint = k_String k ''otlp.endpoint'',
     tc_SampleRatio = k_Float64 k ''trace.sample.ratio''\<rparr>"

text \<open>
  \<open>redisx.NewClient\<close>: \<open>et\<close> is the text of an error, \<open>parse\<close> and \<open>ping\<close> are the library's answers; the second component is what
  the code does with the connection pool.
\<close>

datatype pool_op = PoolOpen | PoolPing | PoolClose

definition redis_NewClient ::
  "(goerr \<Rightarrow> string) \<Rightarrow> (string \<Rightarrow> goerr + 'o) \<Rightarrow> ('o \<Rightarrow> goerr option) \<Rightarrow> string \<Rightarrow> (goerr + 'o) \<times> pool_op list" where
  "redis_NewClient et parse ping url =
     (case parse url of
        Inl e \<Rightarrow> (Inl (PlainErr (''parse redis url: '' @ et e)), [])
      | Inr opts \<Rightarrow>
          (case ping opts of
             Some e \<Rightarrow> (Inl (PlainErr (''redis ping: '' @ et e)), [PoolOpen, PoolPing, PoolClose])
           | None \<Rightarrow> (Inr opts, [PoolOpen, PoolPing])))"

definition pools_open :: "pool_op list \<Rightarrow> int" where
  "pools_open ops = int (count_list ops PoolOpen) - int (count_list ops PoolClose)"

section \<open>Properties\<close>

text \<open>
  The start never dies on a duplicate collector: in whatever order the container builds the components, the registry
  accepts all their collectors.
\<close>

theorem collectors_register:
  assumes "mset gs = mset cp_collectors" and "accepts_new verdict"
  shows "\<exists>reg. register_all verdict gs [] = Ret reg \<and> mset reg = mset (concat cp_collectors)"
proof -
  have "mset (concat xs) = (\<Sum>g \<in># mset xs. mset g)" for xs :: "collector list list" by (induction xs) auto
  then have m: "mset (concat gs) = mset (concat cp_collectors)" using assms(1) by metis
  then have "mset (map co_Name (concat gs)) = mset (map co_Name (concat cp_collectors))" by (simp only: mset_map)
  then have "distinct (map co_Name (concat gs))" using cp_collectors_names by (metis mset_eq_imp_distinct_iff)
  then show ?thesis using register_all_new [OF assms(2), of "[]" gs] m by simp
qed

text \<open>
  C27. The health gauges follow the live set: after \<open>Start\<close> and any sequence of scans and key events, with every failure of
  Redis and every payload, the count of a base model and runtime is the number of live heartbeats with these labels and
  there is no count without one; every live worker has its age, not negative, and there is no age of a worker that is gone.
\<close>

theorem health_gauges_follow:
  assumes "vec_laws V" and "live_ok (hs_live s0)" and "health_Start V decode scan get now s0 = Some (Ret s1)"
    and "health_run V decode es s1 = Ret s"
  shows "vo_read V (hm_healthy (hs_metrics s)) l =
      (let n = count_list (map (\<lambda>hb. [hb_BaseModel hb, hb_Runtime hb]) (All_hb (hs_live s))) l in if n = 0 then None else Some (real n))
    \<and> (\<forall>hb \<in> set (All_hb (hs_live s)). \<exists>a. vo_read V (hm_age (hs_metrics s)) [hb_ID hb, hb_BaseModel hb, hb_Runtime hb] = Some a)
    \<and> (\<forall>a. vo_read V (hm_age (hs_metrics s)) l = Some a \<longrightarrow>
         0 \<le> a \<and> (\<exists>hb \<in> set (All_hb (hs_live s)). l = [hb_ID hb, hb_BaseModel hb, hb_Runtime hb]))"
proof -
  obtain r where r: "reconcileOnce scan get decode (hs_live s0) = Some r" using assms(3) by (auto simp: health_Start_def)
  then obtain e l' where el: "r = Ret (e, l')" using assms(3) by (cases r) (auto simp: health_Start_def)
  then have "live_ok l'" using reconcileOnce_ok [OF r [unfolded el] assms(2)] by blast
  then have "gauges_current V s1"
    using assms(3) r el by (auto simp: health_Start_def intro!: health_publish_current)
  then have "gauges_current V s" by (rule health_run_current) (rule assms(4))
  then obtain t m where ok: "live_ok (hs_live s)" and m: "hs_metrics s = health_Publish V t (All_hb (hs_live s)) m"
    by (auto simp: gauges_current_def)
  from health_Publish_exact [OF assms(1) ok m, of l] show ?thesis by blast
qed

text \<open>
  Two publications at once: no interleaving of their steps counts a pair of labels more often than both sets together, and
  some interleaving does count it that often, so a single worker can show as two until the next publication.
\<close>

theorem health_gauge_race:
  assumes "vec_laws V"
    and "n = (\<lambda>ws. count_list (map (\<lambda>hb. [hb_BaseModel hb, hb_Runtime hb]) ws) l)"
  shows "(\<forall>ops \<in> shuffles (publish_ops now ws) (publish_ops now' ws').
        vec_count V (hm_healthy (fold (pub_step V) ops m)) l \<le> real (n ws + n ws'))
    \<and> (\<exists>ops \<in> shuffles (publish_ops now ws) (publish_ops now' ws').
        vec_count V (hm_healthy (fold (pub_step V) ops m)) l = real (n ws + n ws'))"
proof (intro conjI ballI)
  have reset: "vec_count V (hm_healthy (pub_step V Reset_healthy k)) l = 0" for k
    using assms(1) by (simp add: vec_laws_def)
  fix ops assume ops: "ops \<in> shuffles (publish_ops now ws) (publish_ops now' ws')"
  then obtain rest where rest: "ops = Reset_healthy # rest"
    by (auto simp: publish_ops_def shuffles.simps)
  have "incs l ops = n ws + n ws'"
    using incs_shuffles [OF ops] by (simp add: publish_ops_def incs_def [of l "_ # _"] assms(2)) (simp add: incs_def [symmetric] incs_publish_each)
  then have "incs l rest = n ws + n ws'" by (simp add: rest incs_def)
  then show "vec_count V (hm_healthy (fold (pub_step V) ops m)) l \<le> real (n ws + n ws')"
    using pub_steps_count_le [OF assms(1), of "pub_step V Reset_healthy m" l rest] reset by (simp add: rest)
next
  let ?ops = "[Reset_healthy, Reset_healthy, Reset_age, Reset_age] @ publish_each now ws @ publish_each now' ws'"
  have "?ops \<in> shuffles (publish_ops now ws) (publish_ops now' ws')"
  proof -
    have "xs @ ys \<in> shuffles xs ys" for xs ys :: "pub_op list"
      by (induction xs) (auto intro: Cons_in_shuffles_leftI)
    then show ?thesis unfolding publish_ops_def append_Cons append_Nil
      by (intro Cons_in_shuffles_leftI [of _ "Reset_age # publish_each now ws"] Cons_in_shuffles_rightI
          Cons_in_shuffles_leftI [of _ "publish_each now ws"])
  qed
  moreover have "Reset_healthy \<notin> set (publish_each now ws @ publish_each now' ws')" by (auto simp: publish_each_def)
  moreover have "vec_count V (hm_healthy (fold (pub_step V) [Reset_healthy, Reset_healthy, Reset_age, Reset_age] m)) l = 0"
    using assms(1) by (simp add: vec_laws_def)
  ultimately show "\<exists>ops \<in> shuffles (publish_ops now ws) (publish_ops now' ws').
      vec_count V (hm_healthy (fold (pub_step V) ops m)) l = real (n ws + n ws')"
    by (intro bexI [of _ ?ops]) (simp_all add: pub_steps_count_eq [OF assms(1)] incs_append incs_publish_each assms(2))
qed

text \<open>
  The routing counters over any sequence of selections: decisions count the rankings that were not empty, hits those
  whose first worker was the preferred one, so the hit rate is at most one; the dispatch counter of a worker and a model
  counts the selections that ranked the worker first, also those the request was not sent to it.
\<close>

theorem routing_counters:
  assumes "vec_laws V" and "record_all V ss (Some (sched_NewMetrics V)) = Some m"
  shows "vec_count V (sm_decisions m) [] = real (length (filter decided ss))
    \<and> vec_count V (sm_affinityHit m) [] = real (length (filter affine ss))
    \<and> vec_count V (sm_affinityHit m) [] \<le> vec_count V (sm_decisions m) []
    \<and> vec_count V (sm_dispatched m) [w, model] = real (length (filter (sent_to w model) ss))"
proof -
  have new: "vo_read V (vo_New V) l = None" for l using assms(1) by (simp add: vec_laws_def)
  have "length (filter affine ss) \<le> length (filter decided ss)"
    by (induction ss) (auto simp: affine_def)
  then show ?thesis
    using record_all_counts [OF assms(1), of ss "sched_NewMetrics V"] assms(2) by (auto simp: sched_NewMetrics_def new)
qed

text \<open>
  The breaker gauge is the state: after any sequence of calls of the breakers of a new process, the gauge of a worker reads
  the number of its breaker's state (0 closed, 1 half-open, 2 open), and a worker without one has a closed breaker.
\<close>

theorem breaker_gauge_tracks:
  assumes "vec_laws V" and "breaker_step\<^sup>*\<^sup>* (NewBreakerMap c (Some [])) b" and "onState b = Some calls"
  shows "vo_read V (breaker_gauge V calls) [w] =
      (if w \<in> fst ` set calls then Some (state_number (wb_state (bm_get b w))) else None)
    \<and> (w \<notin> fst ` set calls \<longrightarrow> wb_state (bm_get b w) = StateClosed)"
proof -
  have st: "wb_state (bm_get b w) = (case find (\<lambda>c. fst c = w) (rev calls) of None \<Rightarrow> StateClosed | Some c \<Rightarrow> snd c)"
    using breaker_log_tells [OF assms(2)] assms(3) by (auto simp: log_tells_def)
  have new: "vo_read V (vo_New V) [w] = None" using assms(1) by (simp add: vec_laws_def)
  have gone: "find (\<lambda>c. fst c = w) (rev calls) = None \<longleftrightarrow> w \<notin> fst ` set calls" by (force simp: find_None_iff)
  have "vo_read V (breaker_gauge V calls) [w] =
      (case find (\<lambda>c. fst c = w) (rev calls) of Some c \<Rightarrow> Some (state_number (snd c)) | None \<Rightarrow> None)"
    unfolding breaker_gauge_eq fold_Set_last [OF assms(1)] new by simp
  with st gone show ?thesis by (auto split: option.splits)
qed

text \<open>A tracer that exports samples a ratio above zero and at most one; there is no exporter without an endpoint.\<close>

theorem tracer_ratio:
  assumes "NewTracer et exporter resource cfg = Inr t"
  shows "case t of LocalTracer s \<Rightarrow> s \<noteq> '''' \<and> tc_OTLPEndpoint cfg = ''''
    | SamplingTracer s ep r \<Rightarrow> s \<noteq> '''' \<and> ep = tc_OTLPEndpoint cfg \<and> ep \<noteq> '''' \<and> 0 < r \<and> r \<le> 1"
  using assms by (auto simp: NewTracer_def Let_def split: if_splits option.splits)

text \<open>No pool leaks: \<open>NewClient\<close> leaves one open exactly when it returns a client, and that client has answered a ping.\<close>

theorem redis_client_closed:
  "pools_open (snd (redis_NewClient et parse ping url)) = (if isl (fst (redis_NewClient et parse ping url)) then 0 else 1)
   \<and> (\<not> isl (fst (redis_NewClient et parse ping url)) \<longleftrightarrow> (\<exists>opts. parse url = Inr opts \<and> ping opts = None))"
  by (simp add: redis_NewClient_def pools_open_def split: sum.split option.split)

section \<open>Witnesses\<close>

definition map_vec :: "(string list \<rightharpoonup> real) vec_ops" where
  "map_vec = \<lparr>vo_New = Map.empty, vo_Reset = (\<lambda>_. Map.empty), vo_Inc = (\<lambda>l v. v(l \<mapsto> (case v l of None \<Rightarrow> 1 | Some x \<Rightarrow> x + 1))),
     vo_Set = (\<lambda>l x v. v(l \<mapsto> x)), vo_read = (\<lambda>v. v)\<rparr>"

lemma map_vec_laws: "vec_laws map_vec"
  by (simp add: map_vec_def vec_laws_def)

theorem collectors_register_witness:
  "\<exists>reg. register_all (\<lambda>reg c. co_Name c \<notin> co_Name ` set reg) (rev cp_collectors) [] = Ret reg"
  using collectors_register [of "rev cp_collectors" "\<lambda>reg c. co_Name c \<notin> co_Name ` set reg"] by (auto simp: accepts_new_def)

definition demo_health :: "(string list \<rightharpoonup> real) health_Service" where
  "demo_health = \<lparr>hs_live = [(''gone'', demo_hb\<lparr>hb_ID := ''gone''\<rparr>)], hs_metrics = \<lparr>hm_healthy = [[''m'', ''vllm''] \<mapsto> 3], hm_age = Map.empty\<rparr>\<rparr>"

theorem health_gauges_follow_witness:
  "\<exists>s1 s. health_Start map_vec (\<lambda>_. None) (\<lambda>_. Inr ([], 0)) (\<lambda>_. RNil) 5 demo_health = Some (Ret s1)
     \<and> health_run map_vec (\<lambda>_. None) [Reconcile_tick (\<lambda>_. Inl EOF) (\<lambda>_. RNil) 6] s1 = Ret s
     \<and> vo_read map_vec (hm_healthy (hs_metrics s)) [''m'', ''vllm''] = None"
proof -
  have ok: "live_ok (hs_live demo_health)" by (simp add: demo_health_def live_ok_def)
  obtain s1 where s1: "health_Start map_vec (\<lambda>_. None) (\<lambda>_. Inr ([], 0)) (\<lambda>_. RNil) 5 demo_health = Some (Ret s1)" "hs_live s1 = []"
    by (simp add: health_Start_def reconcileOnce_def reconcile_scan.simps Replace_def health_publish_def)
  obtain s where s: "health_run map_vec (\<lambda>_. None) [Reconcile_tick (\<lambda>_. Inl EOF) (\<lambda>_. RNil) 6] s1 = Ret s" "hs_live s = []"
    using s1(2) by (simp add: health_reconcile_def reconcileOnce_def reconcile_scan.simps)
  from health_gauges_follow [OF map_vec_laws ok s1(1) s(1), of "[''m'', ''vllm'']"] s s1 show ?thesis
    by (simp add: All_hb_def Let_def)
qed

theorem health_gauge_race_witness:
  "\<exists>ops \<in> shuffles (publish_ops 5 [demo_hb]) (publish_ops 6 [demo_hb]).
     vec_count map_vec (hm_healthy (fold (pub_step map_vec) ops \<lparr>hm_healthy = Map.empty, hm_age = Map.empty\<rparr>)) [hb_BaseModel demo_hb, hb_Runtime demo_hb] = 2"
proof -
  let ?l = "[hb_BaseModel demo_hb, hb_Runtime demo_hb]" and ?m = "\<lparr>hm_healthy = Map.empty, hm_age = Map.empty\<rparr>"
  show ?thesis using health_gauge_race [OF map_vec_laws refl, where now = 5 and ws = "[demo_hb]" and now' = 6 and ws' = "[demo_hb]" and l = ?l and m = ?m]
    by simp
qed

definition demo_selections :: "selection list" where
  "demo_selections =
     [\<lparr>sl_model = ''m'', sl_preferred = ''w'', sl_ranked = [\<lparr>pr_WorkerID = ''w'', pr_Endpoint = '''', pr_Score = 1\<rparr>]\<rparr>,
      \<lparr>sl_model = ''m'', sl_preferred = '''', sl_ranked = []\<rparr>]"

theorem routing_counters_witness:
  "\<exists>m. record_all map_vec demo_selections (Some (sched_NewMetrics map_vec)) = Some m
     \<and> vec_count map_vec (sm_decisions m) [] = 1 \<and> vec_count map_vec (sm_affinityHit m) [] = 1"
proof -
  obtain m where m: "record_all map_vec demo_selections (Some (sched_NewMetrics map_vec)) = Some m"
    using record_all_counts [OF map_vec_laws, of demo_selections "sched_NewMetrics map_vec"] by blast
  have "vec_count map_vec (sm_decisions m) [] = 1 \<and> vec_count map_vec (sm_affinityHit m) [] = 1"
    using routing_counters [OF map_vec_laws m] by (simp add: demo_selections_def decided_def affine_def)
  with m show ?thesis by blast
qed

theorem breaker_gauge_tracks_witness:
  "\<exists>calls. onState (Failure (NewBreakerMap \<lparr>MinRequests = 1, FailureRatio = 1, Timeout = 5, MaxHalfOpen = 1\<rparr> (Some [])) ''w'' 3) = Some calls
     \<and> vo_read map_vec (breaker_gauge map_vec calls) [''w''] = Some 2"
proof -
  let ?c = "\<lparr>MinRequests = 1, FailureRatio = 1, Timeout = 5, MaxHalfOpen = 1\<rparr>"
  let ?b = "Failure (NewBreakerMap ?c (Some [])) ''w'' 3"
  have b: "onState ?b = Some [(''w'', StateOpen)]" "wb_state (bm_get ?b ''w'') = StateOpen"
    by (simp_all add: Failure_def setState_def NewBreakerMap_def bm_get_def bm_put_def newWorkerBreaker_def failure_ratio_def Let_def)
  have run: "breaker_step\<^sup>*\<^sup>* (NewBreakerMap ?c (Some [])) ?b" by (intro r_into_rtranclp bs_failure)
  from breaker_gauge_tracks [OF map_vec_laws run b(1), of "''w''"] b show ?thesis by simp
qed

theorem tracer_ratio_witness:
  "\<exists>t. NewTracer (\<lambda>_. '''') (\<lambda>_. None) None \<lparr>tc_ServiceName = '''', tc_OTLPEndpoint = ''otel:4317'', tc_SampleRatio = 7\<rparr> = Inr t
     \<and> (\<exists>s ep r. t = SamplingTracer s ep r \<and> r \<le> 1)"
proof -
  let ?n = "NewTracer (\<lambda>_. '''') (\<lambda>_. None) None \<lparr>tc_ServiceName = '''', tc_OTLPEndpoint = ''otel:4317'', tc_SampleRatio = 7\<rparr>"
  obtain t where t: "?n = Inr t" by (simp add: NewTracer_def Let_def)
  then show ?thesis using tracer_ratio [OF t] by (cases t) auto
qed

end
