(* ===== verification/Spec2Isabelle.thy ===== *)
theory Spec2Isabelle
  imports Reliability Registry Health Routing Cache_Registry Inflight Scheduler Scheduler_Correct
    Catalog Gateway_Select Gateway_Auth Adapters Provider Gateway_Dispatch Gateway_Dispatch_Correct Gateway_Handler
    Planner Fleet_Provision Fleet Fleet_Interleaving Fleet_Lifecycle
    Config Worker Worker_Interleaving Catalog_Command Control_Plane Services Requests Replicas Observability
begin

text \<open>
  Forge: a gateway that speaks the OpenAI API in front of a fleet of language-model workers, and the
  control plane that registers, watches, routes to, plans for and scales those workers. This
  development models the Go code of the services and of the worker and proves what each part promises.

  \<^bold>\<open>The parts and how they interact.\<close> Workers register (\<open>services/registry\<close>) and beat into Redis
  (\<open>worker/heartbeat.go\<close>); the health service (\<open>services/health\<close>) derives the live set from the heartbeat keys;
  the routing publisher (\<open>services/routing\<close>) joins registry, live set and the virtual workers of the provider
  registry (\<open>services/provider\<close>) into numbered snapshots, which gateways receive over pub/sub and keep in a
  compare-and-swap holder. A request (\<open>services/gateway\<close>) is authenticated, its model is resolved by the
  catalog (\<open>services/catalog\<close>), the scheduler (\<open>services/scheduler\<close>) filters and ranks the candidates of the
  snapshot, with cache overlap from the cache registry (\<open>services/cacheregistry\<close>), an admission counter limits
  each worker, and the dispatcher streams or collects the answer with failover, circuit breakers and a
  retry budget (\<open>services/gateway/reliability\<close>). The planner (\<open>services/planner\<close>) publishes numbered routing policies;
  the fleet manager (\<open>services/fleet\<close>) provisions and retires workers, on demand of the gateway too. Three commands
  tie the parts together: the control plane, the worker process and the operator's catalog command (\<open>cmd\<close>), all
  configured through \<open>internal/config\<close>.

  \<^bold>\<open>Theories.\<close>
  \<^item> \<open>Forge_Prelude\<close>: integers, errors, time, the string and sorting functions of the Go library, and the
    lemmas on them; the locale \<open>keyed_less\<close> for comparison functions that order by a key.
  \<^item> \<open>Reliability\<close>: \<open>budget.go\<close>, \<open>breaker.go\<close>, \<open>classify.go\<close>, \<open>failover.go\<close>. Breakers are a state machine with
    reachable states; the failover loop is compared with the calls it may make.
  \<^item> \<open>Registry\<close>, \<open>Health\<close>: registration and listing; heartbeat keys, scanning, key events and expiry.
  \<^item> \<open>Routing\<close>, \<open>Inflight\<close>: snapshots, publisher, subscribers, policies; the two lock-free structures, the
    holder and the in-flight tracker, with the interleavings of their loads and compare-and-swaps.
  \<^item> \<open>Cache_Registry\<close>: block keys and the two-way index, as a refinement of a weighted relation.
  \<^item> \<open>Scheduler\<close>, \<open>Scheduler_Correct\<close>: candidates, filters, scorers, rendezvous hashing, ranking.
  \<^item> \<open>Catalog\<close>: tables, repository, seeding and the snapshot that resolves model names.
  \<^item> \<open>Gateway_Select\<close>, \<open>Gateway_Auth\<close>: selection of workers with its error statuses; keys and middleware.
  \<^item> \<open>Adapters\<close>, \<open>Provider\<close>: the vLLM and Ollama adapters, the worker's gRPC server, the OpenAI-compatible
    backend, and the provider registry.
  \<^item> \<open>Gateway_Dispatch\<close>, \<open>Gateway_Dispatch_Correct\<close>, \<open>Gateway_Handler\<close>: opening, collecting and streaming with
    failover; the event protocol, connections and panics; the two completion handlers end to end.
  \<^item> \<open>Planner\<close>: objectives, scoring, the policy store, the planning tick and restarts.
  \<^item> \<open>Fleet_Provision\<close>: the interface \<open>Provisioner\<close> as the locales \<open>provisioner\<close> and \<open>fresh_provisioner\<close>, interpreted
    on the local provisioner and on the pod provisioner with its REST client.
  \<^item> \<open>Fleet\<close>, \<open>Fleet_Interleaving\<close>, \<open>Fleet_Lifecycle\<close>: scaling policies, hysteresis, the control loop,
    activation; its goroutines interleaved over the worker table, as an over-approximation that carries invariants;
    readiness and registration.
  \<^item> \<open>Config\<close>: defaults, layers, key names and durations; the koanf library is the parameter \<open>koanf_lib\<close> with its layering
    as the hypothesis \<open>koanf_layers\<close>.
  \<^item> \<open>Worker\<close>: \<open>cmd/forge-worker\<close>: adapters and their probes behind the locale \<open>runtime_adapter\<close>, registration with its
    retries, the ticks of the heartbeat, probe and scrape loops one after another.
  \<^item> \<open>Worker_Interleaving\<close>: the same goroutines and the shutdown step by step: loads and stores of the writer's atomic cells,
    commands to Redis that are served late or lost; the ticks of \<open>Worker\<close> are one of its schedules.
  \<^item> \<open>Catalog_Command\<close>: \<open>cmd/forge-catalog\<close>, every subcommand.
  \<^item> \<open>Control_Plane\<close>: \<open>cmd/forge-controlplane\<close>: components from the configuration, HTTP limits, the cache event route; the
    gateway with the fleet manager as its activator (locale \<open>activator\<close>), the local provisioner with the worker it starts.
  \<^item> \<open>Services\<close>: \<open>run\<close>: the process as one record, the turns of its background goroutines as events, any order of
    them as a run; the cache registry's turns are its locked sections and its stores; the reload loops behind the
    locale \<open>refresher\<close>.
  \<^item> \<open>Requests\<close>: a request against the state of the process at its moment, and when it is offered a worker.
  \<^item> \<open>Replicas\<close>: several control planes on one Redis, with their publications, deliveries, losses and restarts as a step
    relation.
  \<^item> \<open>Observability\<close>: the collectors of every component and what is written into them, the health service with its gauges,
    the tracer and the Redis client; Prometheus is the parameter \<open>vec_ops\<close> with its laws \<open>vec_laws\<close>.

  \<^bold>\<open>State and operations.\<close> A struct is a record with a field prefix, its methods are functions on that record
  that carry the Go name (prefixed where two types share one). Errors are values of \<^typ>\<open>goerr\<close>; a function
  that may panic has an \<open>outcome\<close>. Databases, Redis, the operating system, HTTP exchanges, hash functions
  and JSON decoders are parameters or explicit state with a verdict for every call, so the theorems
  range over all their answers; what a theorem needs of them is among its assumptions.

  \<^bold>\<open>What the lemmas show.\<close> Invariants of reachable states (breakers, in-flight counters, the worker table,
  local processes), equivalence with a reference definition (streaming and collecting, ranking of
  permutations, hysteresis and a damping without samples), refinement (lock-free holder and atomic stores,
  cache index and relation), error behaviour by exact characterisation, round trips, bounds, and
  termination and convergence of the loops, and the composition of parts: a worker from its start to its route,
  a provisioned process that registers as announced, a cold request that provisions, the whole process under any
  order of its goroutines' turns, when such a process offers a request a worker, what several of them agree on. Several theorems pin down where the code departs from what
  it means to do: a failover that reports success without a call and the nil stream it leads to, half-open
  breakers with one probe too many, failed selections recorded as successes, activation without a bound,
  a stopped worker whose heartbeat comes back, a heartbeat with the values of two scrapes, a scoring snapshot older than its
  index, a mapping that cannot be upserted twice, an adapter's pod registered under an id no view has,
  a minimum of replicas that is never met, a replica that serves the last snapshot of a peer that is gone, replicas that
  keep different snapshots of one epoch, gauges that count a worker twice.

  \<^bold>\<open>Bounds and fuel.\<close> Loops over data are structural recursion. \<open>drain_wait\<close> has 601 rounds: its deadline is
  120 s and each round sleeps 200 ms. \<open>wait_loop\<close> has the ready timeout divided by the poll interval plus two
  rounds. Both are shown to end before the fuel does when the clock moves on by the time slept. The scan
  of heartbeat keys terminates on the pages Redis returns.

  \<^bold>\<open>Not modelled.\<close> Opening of the database and of listening sockets, the dependency container, logs, the contents of
  traces, the gin and gRPC instrumentation, the build-time schema loader: each is a call of a library without logic of
  the program's own; rounding, infinities and NaN of floating-point numbers; lower-casing beyond ASCII, which is a parameter where its
  result is kept (\<open>kl_unicode\<close> of \<open>Config\<close>); contents of request contexts beyond
  their end. Turns of the process in \<open>Services\<close> are atomic. The steps inside them are interleaved, each in the theory of its part, for
  the snapshot and policy holders (\<open>Routing\<close>), the counters (\<open>Inflight\<close>), the fleet manager (\<open>Fleet_Interleaving\<close>), the worker's
  heartbeat writer (\<open>Worker_Interleaving\<close>), the copies of the cache index (\<open>Services\<close>) and the health gauges
  (\<open>Observability\<close>); other shared fields, such as the affinity scorer's preferred worker, are not.
\<close>

end
